(* ===== verification/Go_Prelude.thy ===== *)
theory Go_Prelude
  imports Complex_Main "HOL-Library.AList" "HOL-Library.Char_ord" "HOL-Library.List_Lexorder"
    "HOL-Library.Product_Lexorder" "HOL-Library.Multiset" "HOL-Library.Sublist"
begin

text \<open>
  What the development shares: Go strings as byte lists, the functions of the Go standard
  library the sources call (package strings, path/filepath, time, the 64-bit int), and Go
  maps as association lists with distinct keys.

  A Go string is a sequence of bytes, and so is \<open>string\<close> (a list of 8-bit \<open>char\<close>s):
  \<open>length\<close> counts bytes, as Go's \<open>len\<close> does, and the order of \<open>HOL-Library.List_Lexorder\<close>
  over \<open>HOL-Library.Char_ord\<close> is Go's bytewise string order.

  A Go map is a list of key-value pairs with distinct keys. The order of the list is the
  order in which one iteration visits the map. Go leaves that order open, so a statement
  about every list is a statement about every iteration order.
\<close>

named_theorems go_map \<open>lookup, update and deletion in Go maps\<close>
named_theorems go_str \<open>the functions of package strings\<close>

subsection \<open>Go's int: 64-bit two's complement\<close>

definition wrap64 :: "int \<Rightarrow> int" where
  "wrap64 n = signed_take_bit 63 n"

abbreviation maxInt64 :: int where "maxInt64 \<equiv> 9223372036854775807"
abbreviation minInt64 :: int where "minInt64 \<equiv> -9223372036854775808"

lemma wrap64_id [simp]: "minInt64 \<le> n \<Longrightarrow> n \<le> maxInt64 \<Longrightarrow> wrap64 n = n"
  by (simp add: wrap64_def signed_take_bit_int_eq_self)

lemma wrap64_bounds: "minInt64 \<le> wrap64 n \<and> wrap64 n \<le> maxInt64"
  using signed_take_bit_int_greater_eq_minus_exp [of 63 n] signed_take_bit_int_less_exp [of 63 n]
  by (simp add: wrap64_def)

subsection \<open>Package time\<close>

text \<open>
  A \<open>time.Time\<close> is the number of nanoseconds since the zero time (1 January of year 1,
  UTC), so that \<open>0\<close> is the zero value. A \<open>time.Duration\<close> is a 64-bit count of nanoseconds;
  \<open>Sub\<close> saturates at its bounds.
\<close>

type_synonym gotime = int
type_synonym duration = int

definition zeroTime :: gotime where "zeroTime = 0"

definition IsZero :: "gotime \<Rightarrow> bool" where "IsZero t \<longleftrightarrow> t = 0"

definition After :: "gotime \<Rightarrow> gotime \<Rightarrow> bool" where "After t u \<longleftrightarrow> u < t"

definition Sub :: "gotime \<Rightarrow> gotime \<Rightarrow> duration" where
  "Sub t u = max minInt64 (min maxInt64 (t - u))"

definition unixEpoch :: gotime where "unixEpoch = 62135596800 * 1000000000"

definition Unix :: "gotime \<Rightarrow> int" where
  "Unix t = (t - unixEpoch) div 1000000000"

definition time_Unix :: "int \<Rightarrow> gotime" where
  "time_Unix sec = unixEpoch + sec * 1000000000"

definition time_Hour :: duration where "time_Hour = 3600 * 1000000000"
definition time_Minute :: duration where "time_Minute = 60 * 1000000000"

lemma Unix_time_Unix [simp]: "Unix (time_Unix s) = s"
  by (simp add: Unix_def time_Unix_def)

lemma Sub_self [simp]: "Sub t t = 0"
  by (simp add: Sub_def)

subsection \<open>Package strings\<close>

abbreviation NUL :: char where "NUL \<equiv> CHR 0x00"
abbreviation TAB :: char where "TAB \<equiv> CHR 0x09"
abbreviation LF :: char where "LF \<equiv> CHR 0x0A"
abbreviation VT :: char where "VT \<equiv> CHR 0x0B"
abbreviation FF :: char where "FF \<equiv> CHR 0x0C"
abbreviation CR :: char where "CR \<equiv> CHR 0x0D"

fun Join :: "string list \<Rightarrow> string \<Rightarrow> string" where
  "Join [] sep = []"
| "Join [x] sep = x"
| "Join (x # y # zs) sep = x @ sep @ Join (y # zs) sep"

text \<open>\<open>strings.Split\<close> with a separator of one byte, which is how the sources use it.\<close>

fun Split :: "string \<Rightarrow> char \<Rightarrow> string list" where
  "Split [] c = [[]]"
| "Split (x # xs) c =
     (if x = c then [] # Split xs c
      else (case Split xs c of [] \<Rightarrow> [[x]] | w # ws \<Rightarrow> (x # w) # ws))"

text \<open>\<open>strings.SplitN(s, sep, 2)\<close>, when it yields two parts, and \<open>strings.Cut\<close>: the text
  before and after the first occurrence of the separator.\<close>

fun Cut :: "string \<Rightarrow> string \<Rightarrow> (string \<times> string) option" where
  "Cut [] sep = (if sep = [] then Some ([], []) else None)"
| "Cut (c # cs) sep =
     (if prefix sep (c # cs) then Some ([], drop (length sep) (c # cs))
      else (case Cut cs sep of None \<Rightarrow> None | Some (a, b) \<Rightarrow> Some (c # a, b)))"

abbreviation HasPrefix :: "string \<Rightarrow> string \<Rightarrow> bool" where "HasPrefix s p \<equiv> prefix p s"
abbreviation HasSuffix :: "string \<Rightarrow> string \<Rightarrow> bool" where "HasSuffix s p \<equiv> suffix p s"

definition TrimPrefix :: "string \<Rightarrow> string \<Rightarrow> string" where
  "TrimPrefix s p = (if HasPrefix s p then drop (length p) s else s)"

definition nonEmptyStrs :: "string list \<Rightarrow> string list" where
  "nonEmptyStrs ws = filter (\<lambda>w. w \<noteq> []) ws"

lemma Split_nonempty [simp]: "Split s c \<noteq> []"
  by (induction s) (auto split: list.splits)

lemma Join_Cons: "ws \<noteq> [] \<Longrightarrow> Join (w # ws) sep = w @ sep @ Join ws sep"
  by (cases ws) simp_all

lemma Join_Split [go_str]: "Join (Split s c) [c] = s"
proof (induction s)
  case (Cons x xs)
  obtain w ws where "Split xs c = w # ws" by (meson Split_nonempty list.exhaust)
  with Cons show ?case by (cases ws) auto
qed simp

lemma Split_parts [go_str]: "w \<in> set (Split s c) \<Longrightarrow> c \<notin> set w"
proof (induction s arbitrary: w)
  case (Cons x xs)
  then show ?case by (cases "Split xs c") (auto split: if_splits)
qed simp

lemma Split_word [go_str]: "c \<notin> set w \<Longrightarrow> Split w c = [w]"
  by (induction w) auto

lemma Split_append_sep [go_str]: "c \<notin> set w \<Longrightarrow> Split (w @ c # s) c = w # Split s c"
  by (induction w) auto

lemma Split_Join [go_str]:
  "ws \<noteq> [] \<Longrightarrow> \<forall>w\<in>set ws. c \<notin> set w \<Longrightarrow> Split (Join ws [c]) c = ws"
  by (induction ws "[c]" rule: Join.induct) (auto simp: Split_word Split_append_sep)

lemma Join_eq_Nil [go_str]: "sep \<noteq> [] \<Longrightarrow> Join ws sep = [] \<longleftrightarrow> ws = [] \<or> ws = [[]]"
  by (induction ws sep rule: Join.induct) auto

lemma set_Join [go_str]: "set (Join ws sep) \<subseteq> \<Union> (set ` set ws) \<union> set sep"
  by (induction ws sep rule: Join.induct) auto

lemma Cut_Some [go_str]: "Cut s sep = Some (a, b) \<Longrightarrow> s = a @ sep @ b"
  by (induction s arbitrary: a b)
     (auto split: if_splits option.splits simp: prefix_def)

subsection \<open>Go maps as association lists\<close>

definition mapGet :: "'v \<Rightarrow> ('k \<times> 'v) list \<Rightarrow> 'k \<Rightarrow> 'v" where
  \<comment> \<open>\<open>m[k]\<close>: the zero value where the key is absent\<close>
  "mapGet z m k = (case map_of m k of None \<Rightarrow> z | Some v \<Rightarrow> v)"

abbreviation mapPut :: "'k \<Rightarrow> 'v \<Rightarrow> ('k \<times> 'v) list \<Rightarrow> ('k \<times> 'v) list" where
  "mapPut \<equiv> AList.update"

abbreviation wfMap :: "('k \<times> 'v) list \<Rightarrow> bool" where
  "wfMap m \<equiv> distinct (map fst m)"

lemma map_of_mapPut [go_map]: "map_of (mapPut k v m) = (map_of m)(k \<mapsto> v)"
  by (simp add: update_conv')

lemma wfMap_mapPut [go_map]: "wfMap m \<Longrightarrow> wfMap (mapPut k v m)"
  by (rule distinct_update)

lemma keys_mapPut [go_map]: "set (map fst (mapPut k v m)) = insert k (set (map fst m))"
  by (auto simp: update_keys)

lemma mapGet_mapPut [go_map]:
  "mapGet z (mapPut k v m) k' = (if k' = k then v else mapGet z m k')"
  by (simp add: mapGet_def map_of_mapPut)

lemma map_of_filter_key [go_map]:
  "map_of (filter (\<lambda>(k, v). P k) m) k = (if P k then map_of m k else None)"
  by (induction m) auto

lemma map_of_filter_wf [go_map]:
  "wfMap m \<Longrightarrow> map_of (filter P m) k =
     (case map_of m k of None \<Rightarrow> None | Some v \<Rightarrow> if P (k, v) then Some v else None)"
  by (induction m) (auto split: option.splits dest: map_of_SomeD simp: rev_image_eqI)

lemma wfMap_filter [go_map]: "wfMap m \<Longrightarrow> wfMap (filter P m)"
  by (induction m) auto

subsection \<open>Sorting by a key no two elements share\<close>

text \<open>
  \<open>sort.Slice\<close> is not stable, so its result is determined only where no two elements
  compare equal. Under distinct keys it is: any two orders of the input sort to one list.
\<close>

lemma map_sort_key: "map f (sort_key f xs) = sort (map f xs)"
  by (rule properties_for_sort [symmetric]) simp_all

lemma sort_key_map: "sort_key f (map h xs) = map h (sort_key (\<lambda>x. f (h x)) xs)"
proof -
  have "insort_key f (h x) (map h ys) = map h (insort_key (\<lambda>x. f (h x)) x ys)" for x ys
    by (induction ys) auto
  then show ?thesis by (induction xs) auto
qed

lemma sort_key_perm:
  assumes "mset xs = mset ys" "distinct (map f xs)"
  shows "sort_key f xs = sort_key f ys"
proof (rule map_inj_on [where f = f])
  have "mset (map f xs) = mset (map f ys)" using assms(1) by simp
  then show "map f (sort_key f xs) = map f (sort_key f ys)"
    by (metis map_sort_key properties_for_sort mset_sort sorted_sort)
  have "set ys = set xs" using mset_eq_setD [OF assms(1)] by simp
  then show "inj_on f (set (sort_key f xs) \<union> set (sort_key f ys))"
    using assms(2) by (simp add: distinct_map)
qed

lemma sort_key_nonempty: "xs \<noteq> [] \<Longrightarrow> sort_key f xs \<noteq> []"
  by (metis length_0_conv length_sort)

lemma distinct_singleton: "distinct xs \<Longrightarrow> set xs = {x} \<Longrightarrow> xs = [x]"
  by (metis distinct.simps(2) empty_iff insert_iff list.exhaust list.set(1) list.set_intros(1)
      list.simps(15) singletonD)

subsection \<open>Keys that can be split again\<close>

text \<open>The maps of the sources are keyed by strings that join several components. What a client
  needs is that a key is split into the components it was built from; then no two component
  tuples share a key.\<close>

locale key_codec =
  fixes enc :: "'a \<Rightarrow> string" and dec :: "string \<Rightarrow> 'a option" and valid :: "'a \<Rightarrow> bool"
  assumes dec_enc: "valid x \<Longrightarrow> dec (enc x) = Some x"
begin

lemma enc_inj: "valid x \<Longrightarrow> valid y \<Longrightarrow> enc x = enc y \<longleftrightarrow> x = y"
  by (metis dec_enc option.inject)

lemma dec_valid: "valid x \<Longrightarrow> dec (enc x) = Some y \<longleftrightarrow> y = x"
  by (metis dec_enc option.inject)

end

end
