(* ===== verification/Types.thy ===== *)
theory Types
  imports Go_Prelude
begin

text \<open>
  The domain types of core/types/types.go. An outcome is any string (it arrives over the
  wire and is converted unchecked); only the two named ones influence a counter or a score.
  A field keeps its Go name behind a letter that tells the struct.
\<close>

type_synonym outcome = string

definition OutcomeUnknown :: outcome where "OutcomeUnknown = ''''"
definition OutcomeSuccess :: outcome where "OutcomeSuccess = ''success''"
definition OutcomeFailure :: outcome where "OutcomeFailure = ''failure''"

record command =
  c_Raw :: string
  c_Template :: string
  c_Outcome :: outcome
  c_CWD :: string

definition commandOf :: "string \<Rightarrow> command" where
  \<comment> \<open>\<open>types.Command{Template: t}\<close>\<close>
  "commandOf t = \<lparr>c_Raw = [], c_Template = t, c_Outcome = OutcomeUnknown, c_CWD = []\<rparr>"

record state =
  s_Previous :: "command list"
  s_CWD :: string
  s_PriorOutcome :: outcome

record suggestion =
  g_Template :: string
  g_Raw :: string
  g_Score :: real
  g_Count :: int

lemmas outcome_defs = OutcomeUnknown_def OutcomeSuccess_def OutcomeFailure_def

lemma outcomes_distinct [simp]:
  "OutcomeSuccess \<noteq> OutcomeFailure" "OutcomeFailure \<noteq> OutcomeSuccess"
  "OutcomeUnknown \<noteq> OutcomeSuccess" "OutcomeUnknown \<noteq> OutcomeFailure"
  "OutcomeSuccess \<noteq> OutcomeUnknown" "OutcomeFailure \<noteq> OutcomeUnknown"
  by (simp_all add: outcome_defs)

end
