(* ===== verification/Two_Level.thy ===== *)
theory Two_Level
  imports Go_Prelude
begin

text \<open>
  Maps of maps, \<open>map[string]map[string]V\<close>: the shape of both the transition graph
  (core/graph/graph.go) and the raw-command store (daemon/rawstore.go). Each operation has
  one lemma that says what a lookup returns after it; the clients reason through these and
  never look at the lists.
\<close>

type_synonym 'v tlmap = "(string \<times> (string \<times> 'v) list) list"

definition tlLookup :: "'v tlmap \<Rightarrow> string \<Rightarrow> string \<Rightarrow> 'v option" where
  "tlLookup m k1 k2 = (case map_of m k1 of None \<Rightarrow> None | Some inner \<Rightarrow> map_of inner k2)"

definition tlInner :: "'v tlmap \<Rightarrow> string \<Rightarrow> (string \<times> 'v) list" where
  "tlInner m k1 = mapGet [] m k1"

text \<open>\<open>m[k1][k2] = f(m[k1][k2])\<close>, creating the inner map and the entry when they are absent
  (\<open>z\<close> is the value an absent entry starts from).\<close>

definition tlModify :: "'v \<Rightarrow> ('v \<Rightarrow> 'v) \<Rightarrow> string \<Rightarrow> string \<Rightarrow> 'v tlmap \<Rightarrow> 'v tlmap" where
  "tlModify z f k1 k2 m =
     (let inner = tlInner m k1
      in mapPut k1 (mapPut k2 (f (mapGet z inner k2)) inner) m)"

definition tlItems :: "'v tlmap \<Rightarrow> (string \<times> string \<times> 'v) list" where
  "tlItems m = concat (map (\<lambda>(k1, inner). map (\<lambda>(k2, v). (k1, k2, v)) inner) m)"

text \<open>Deleting every entry that fails \<open>P\<close>, and every inner map left empty.\<close>

definition keepOf :: "(string \<Rightarrow> string \<Rightarrow> 'v \<Rightarrow> bool) \<Rightarrow> string \<Rightarrow>
    (string \<times> 'v) list \<Rightarrow> (string \<times> 'v) list" where
  "keepOf P k1 inner = filter (\<lambda>p. P k1 (fst p) (snd p)) inner"

definition tlRetain :: "(string \<Rightarrow> string \<Rightarrow> 'v \<Rightarrow> bool) \<Rightarrow> 'v tlmap \<Rightarrow> 'v tlmap" where
  "tlRetain P m =
     filter (\<lambda>p. snd p \<noteq> []) (map (\<lambda>(k1, inner). (k1, keepOf P k1 inner)) m)"

definition tlWf :: "'v tlmap \<Rightarrow> bool" where
  "tlWf m \<longleftrightarrow> wfMap m \<and> (\<forall>(k1, inner)\<in>set m. wfMap inner \<and> inner \<noteq> [])"

lemma tlWf_Nil [simp]: "tlWf []"
  by (simp add: tlWf_def)

lemma tlLookup_Nil [simp]: "tlLookup [] k1 k2 = None"
  by (simp add: tlLookup_def)

lemma tlInner_wf: "tlWf m \<Longrightarrow> wfMap (tlInner m k)"
  by (auto simp: tlWf_def tlInner_def mapGet_def split: option.splits dest: map_of_SomeD)

lemma tlLookup_inner: "tlLookup m k1 k2 = map_of (tlInner m k1) k2"
  by (simp add: tlLookup_def tlInner_def mapGet_def split: option.splits)

lemma mapPut_nonempty [simp]: "mapPut k v m \<noteq> []"
  by (cases m) auto

lemma tlWfD:
  assumes "tlWf m" "(k1, inner) \<in> set m"
  shows "wfMap inner" "inner \<noteq> []"
  using assms by (auto simp: tlWf_def)

lemma tlWf_put:
  assumes "tlWf m" "wfMap x" "x \<noteq> []"
  shows "tlWf (mapPut k x m)"
proof -
  have "(a, b) \<in> set (mapPut k x m) \<Longrightarrow> (a, b) \<in> set m \<or> b = x" for a b
    by (induction m) (auto split: if_splits)
  with assms tlWfD [OF assms(1)] wfMap_mapPut [of m k x] show ?thesis
    unfolding tlWf_def by blast
qed

lemma tlWf_modify [go_map]: "tlWf m \<Longrightarrow> tlWf (tlModify z f k1 k2 m)"
  by (simp add: tlModify_def Let_def tlWf_put wfMap_mapPut tlInner_wf)

lemma tlLookup_modify [go_map]:
  "tlLookup (tlModify z f k1 k2 m) a b =
     (if a = k1 \<and> b = k2
      then Some (f (case tlLookup m k1 k2 of None \<Rightarrow> z | Some v \<Rightarrow> v))
      else tlLookup m a b)"
  by (auto simp: tlLookup_def tlModify_def tlInner_def Let_def map_of_mapPut mapGet_def
      split: option.splits)

lemma set_tlItems:
  "(k1, k2, v) \<in> set (tlItems m) \<longleftrightarrow> (\<exists>inner. (k1, inner) \<in> set m \<and> (k2, v) \<in> set inner)"
  by (fastforce simp: tlItems_def)

lemma tlItems_iff [go_map]:
  assumes wf: "tlWf m"
  shows "(k1, k2, v) \<in> set (tlItems m) \<longleftrightarrow> tlLookup m k1 k2 = Some v"
proof -
  have m: "map_of m k1 = Some inner \<longleftrightarrow> (k1, inner) \<in> set m" for inner
    using wf by (intro map_of_eq_Some_iff) (simp add: tlWf_def)
  have "(k1, inner) \<in> set m \<Longrightarrow> map_of inner k2 = Some v \<longleftrightarrow> (k2, v) \<in> set inner" for inner
    using tlWfD(1) [OF wf] by (intro map_of_eq_Some_iff)
  with m show ?thesis
    by (cases "map_of m k1") (auto simp: set_tlItems tlLookup_def simp flip: m)
qed

lemma tlItems_Cons:
  "tlItems ((k1, inner) # m) = map (\<lambda>(k2, v). (k1, k2, v)) inner @ tlItems m"
  by (simp add: tlItems_def)

lemma distinct_tlItems: "tlWf m \<Longrightarrow> distinct (map (\<lambda>(k1, k2, v). (k1, k2)) (tlItems m))"
proof (induction m)
  case (Cons p m)
  obtain k1 inner where p: "p = (k1, inner)" by fastforce
  from Cons.prems p have wf: "tlWf m" "wfMap inner" "k1 \<notin> fst ` set m"
    by (auto simp: tlWf_def)
  have "map (\<lambda>(k2, v). (k1, k2)) inner = map (Pair k1) (map fst inner)"
    by (simp add: split_beta comp_def)
  with wf(2) have "distinct (map (\<lambda>(k2, v). (k1, k2)) inner)"
    by (simp add: distinct_map inj_on_def del: map_map)
  moreover have "(k1, k2, v) \<notin> set (tlItems m)" for k2 v
    using wf(3) by (force simp: set_tlItems)
  ultimately show ?case using Cons.IH [OF wf(1)]
    by (auto simp: p tlItems_Cons comp_def case_prod_unfold)
qed (simp add: tlItems_def)

lemma map_of_mapKV: "map_of (map (\<lambda>(k, v). (k, f k v)) m) k = map_option (f k) (map_of m k)"
  by (induction m) auto

lemma wfMap_mapKV: "wfMap (map (\<lambda>(k, v). (k, f k v)) m) = wfMap m"
  by (simp add: comp_def split_beta)

lemma tlWf_retain [go_map]: "tlWf m \<Longrightarrow> tlWf (tlRetain P m)"
  unfolding tlWf_def tlRetain_def
  by (intro conjI wfMap_filter) (auto simp only: wfMap_mapKV, auto simp: keepOf_def wfMap_filter)

lemma tlLookup_retain [go_map]:
  assumes wf: "tlWf m"
  shows "tlLookup (tlRetain P m) k1 k2 =
     (case tlLookup m k1 k2 of None \<Rightarrow> None | Some v \<Rightarrow> if P k1 k2 v then Some v else None)"
proof -
  from wf have "wfMap (map (\<lambda>(k, v). (k, keepOf P k v)) m)"
    by (simp only: wfMap_mapKV tlWf_def)
  note m = map_of_filter_wf [OF this, of "\<lambda>p. snd p \<noteq> []" k1,
      folded tlRetain_def, unfolded map_of_mapKV]
  show ?thesis
  proof (cases "map_of m k1")
    case (Some inner)
    with wf have "wfMap inner" by (auto dest: map_of_SomeD tlWfD)
    from map_of_filter_wf [OF this, of "\<lambda>p. P k1 (fst p) (snd p)" k2] Some m show ?thesis
      by (cases "keepOf P k1 inner = []") 
        (auto simp: tlLookup_def keepOf_def split: option.splits if_splits)
  qed (simp add: tlLookup_def m)
qed

text \<open>Storing a list of items with distinct keys: a lookup finds the item, or what was there
  before.\<close>

definition tlStore :: "'v \<Rightarrow> (string \<times> string \<times> 'v) list \<Rightarrow> 'v tlmap \<Rightarrow> 'v tlmap" where
  "tlStore z items m = fold (\<lambda>(k1, k2, v). tlModify z (\<lambda>_. v) k1 k2) items m"

lemma tlLookup_store:
  assumes "distinct (map (\<lambda>(k1, k2, v). (k1, k2)) items)"
  shows "tlLookup (tlStore z items m) a b =
    (if \<exists>v. (a, b, v) \<in> set items then Some (THE v. (a, b, v) \<in> set items) else tlLookup m a b)"
  using assms
proof (induction items arbitrary: m)
  case (Cons i items)
  obtain k1 k2 v where i: "i = (k1, k2, v)" by (cases i)
  have fresh: "(k1, k2, v') \<notin> set items" for v' using Cons.prems by (force simp: i)
  have "tlStore z (i # items) m = tlStore z items (tlModify z (\<lambda>_. v) k1 k2 m)"
    by (simp add: tlStore_def i)
  then show ?case
    using Cons.IH Cons.prems fresh by (auto simp: i tlLookup_modify)
qed (simp add: tlStore_def)

lemma tlLookup_store_items:
  assumes "tlWf m"
  shows "tlLookup (tlStore z (tlItems m) []) a b = tlLookup m a b"
proof (cases "tlLookup m a b")
  case None
  then show ?thesis
    using tlItems_iff [OF assms, of a b] by (simp add: tlLookup_store [OF distinct_tlItems [OF assms]])
next
  case (Some v)
  then have "(THE v'. (a, b, v') \<in> set (tlItems m)) = v"
    using tlItems_iff [OF assms, of a b] by (intro the_equality) auto
  then show ?thesis
    using Some tlItems_iff [OF assms, of a b]
    by (auto simp: tlLookup_store [OF distinct_tlItems [OF assms]])
qed

end
