(* ===== verification/Graph.thy ===== *)
theory Graph
  imports Types Two_Level
begin

text \<open>
  The transition graph of core/graph/graph.go: entries keyed by a NUL-joined state key and
  the next template. The operations are those of the source; each takes the graph and
  returns the new one. The RWMutex makes every operation one atomic step, so it has no
  counterpart here. Counters are 64-bit and wrap.
\<close>

record transition =
  t_State :: "string list"
  t_Next :: string
  t_Count :: int
  t_LastSeen :: gotime
  t_CWDs :: "(string \<times> int) list"
  t_NextSuccess :: int
  t_NextFailure :: int
  t_PriorSuccess :: int
  t_PriorFailure :: int
  t_Accepted :: int

record observation =
  o_State :: "string list"
  o_Next :: string
  o_At :: gotime
  o_CWD :: string
  o_NextOutcome :: outcome
  o_PriorOutcome :: outcome
  o_Accepted :: bool

record entry =
  e_count :: int
  e_lastSeen :: gotime
  e_cwds :: "(string \<times> int) list"
  e_nextSuccess :: int
  e_nextFailure :: int
  e_priorSuccess :: int
  e_priorFailure :: int
  e_accepted :: int

record graph =
  windowSize :: int
  g_m :: "entry tlmap"

definition entry0 :: entry where
  "entry0 = \<lparr>e_count = 0, e_lastSeen = zeroTime, e_cwds = [], e_nextSuccess = 0,
     e_nextFailure = 0, e_priorSuccess = 0, e_priorFailure = 0, e_accepted = 0\<rparr>"

definition New :: "int \<Rightarrow> graph" where
  "New ws = \<lparr>windowSize = (if ws < 1 then 1 else ws), g_m = []\<rparr>"

definition stateKey :: "string list \<Rightarrow> string" where
  "stateKey state = Join state [NUL]"

lemma stateKey_single: "stateKey [x] = x"
  by (simp add: stateKey_def)

subsection \<open>Recording\<close>

definition bump :: "int \<Rightarrow> int" where
  \<comment> \<open>Go's \<open>x++\<close>\<close>
  "bump n = wrap64 (n + 1)"

definition recordEntry :: "observation \<Rightarrow> entry \<Rightarrow> entry" where
  "recordEntry obs e =
     e\<lparr>e_count := bump (e_count e),
       e_lastSeen := (if After (o_At obs) (e_lastSeen e) then o_At obs else e_lastSeen e),
       e_cwds := (if o_CWD obs \<noteq> [] then
           mapPut (o_CWD obs) (bump (mapGet 0 (e_cwds e) (o_CWD obs))) (e_cwds e) else e_cwds e),
       e_nextSuccess := (if o_NextOutcome obs = OutcomeSuccess
           then bump (e_nextSuccess e) else e_nextSuccess e),
       e_nextFailure := (if o_NextOutcome obs = OutcomeFailure
           then bump (e_nextFailure e) else e_nextFailure e),
       e_priorSuccess := (if o_PriorOutcome obs = OutcomeSuccess
           then bump (e_priorSuccess e) else e_priorSuccess e),
       e_priorFailure := (if o_PriorOutcome obs = OutcomeFailure
           then bump (e_priorFailure e) else e_priorFailure e),
       e_accepted := (if o_Accepted obs then bump (e_accepted e) else e_accepted e)\<rparr>"

definition RecordObs :: "observation \<Rightarrow> graph \<Rightarrow> graph" where
  "RecordObs obs g =
     (if o_Next obs = [] then g
      else g\<lparr>g_m := tlModify entry0 (recordEntry obs) (stateKey (o_State obs)) (o_Next obs) (g_m g)\<rparr>)"

definition Record :: "string list \<Rightarrow> string \<Rightarrow> gotime \<Rightarrow> graph \<Rightarrow> graph" where
  "Record state next tm g =
     RecordObs \<lparr>o_State = state, o_Next = next, o_At = tm, o_CWD = [],
       o_NextOutcome = OutcomeUnknown, o_PriorOutcome = OutcomeUnknown, o_Accepted = False\<rparr> g"

subsection \<open>Reading\<close>

definition copyCWDs :: "(string \<times> int) list \<Rightarrow> (string \<times> int) list" where
  "copyCWDs m = (if length m = 0 then [] else m)"

definition entryToTransition :: "string list \<Rightarrow> string \<Rightarrow> entry \<Rightarrow> transition" where
  "entryToTransition state next e =
     \<lparr>t_State = state, t_Next = next, t_Count = e_count e, t_LastSeen = e_lastSeen e,
      t_CWDs = copyCWDs (e_cwds e), t_NextSuccess = e_nextSuccess e,
      t_NextFailure = e_nextFailure e, t_PriorSuccess = e_priorSuccess e,
      t_PriorFailure = e_priorFailure e, t_Accepted = e_accepted e\<rparr>"

definition Transitions :: "graph \<Rightarrow> string list \<Rightarrow> transition list" where
  "Transitions g state =
     (case map_of (g_m g) (stateKey state) of
        None \<Rightarrow> []
      | Some inner \<Rightarrow> map (\<lambda>(next, e). entryToTransition state next e) inner)"

definition Size :: "graph \<Rightarrow> nat" where
  "Size g = sum_list (map (\<lambda>(sk, inner). length inner) (g_m g))"

definition All :: "graph \<Rightarrow> transition list" where
  "All g =
     (if g_m g = [] then []
      else let buf = map (\<lambda>(sk, next, e). (entryToTransition (Split sk NUL) next e, sk))
                 (tlItems (g_m g))
           in map fst (sort_key (\<lambda>(tr, sk). (sk, t_Next tr)) buf))"

subsection \<open>Well-formed graphs\<close>

text \<open>
  What every operation keeps: keys are distinct and no inner map is empty (so a state that
  is present has a transition), every next template is non-empty, every entry has been seen
  at least once and no counter is negative. \<open>roomy\<close> says that the counters of one entry have
  not reached the largest 64-bit integer: without it Go's \<open>++\<close> wraps to a negative count.
\<close>

definition entryInv :: "entry \<Rightarrow> bool" where
  "entryInv e \<longleftrightarrow> 0 < e_count e \<and> 0 \<le> e_lastSeen e \<and> wfMap (e_cwds e)
     \<and> (\<forall>(cwd, c)\<in>set (e_cwds e). 0 \<le> c)
     \<and> 0 \<le> e_nextSuccess e \<and> 0 \<le> e_nextFailure e \<and> 0 \<le> e_priorSuccess e
     \<and> 0 \<le> e_priorFailure e \<and> 0 \<le> e_accepted e"

definition roomyEntry :: "entry \<Rightarrow> bool" where
  "roomyEntry e \<longleftrightarrow> e_count e < maxInt64 \<and> (\<forall>(cwd, c)\<in>set (e_cwds e). c < maxInt64)
     \<and> e_nextSuccess e < maxInt64 \<and> e_nextFailure e < maxInt64 \<and> e_priorSuccess e < maxInt64
     \<and> e_priorFailure e < maxInt64 \<and> e_accepted e < maxInt64"

abbreviation lookupEntry :: "graph \<Rightarrow> string \<Rightarrow> string \<Rightarrow> entry option" where
  "lookupEntry g \<equiv> tlLookup (g_m g)"

definition graphInv :: "graph \<Rightarrow> bool" where
  "graphInv g \<longleftrightarrow> tlWf (g_m g)
     \<and> (\<forall>sk next e. lookupEntry g sk next = Some e \<longrightarrow> next \<noteq> [] \<and> entryInv e)"

definition roomy :: "graph \<Rightarrow> bool" where
  "roomy g \<longleftrightarrow> (\<forall>sk next e. lookupEntry g sk next = Some e \<longrightarrow> roomyEntry e)"

lemma graphInv_New [simp]: "graphInv (New ws)"
  by (simp add: graphInv_def New_def)

lemma graphInvD:
  assumes "graphInv g"
  shows "tlWf (g_m g)"
    and "lookupEntry g sk next = Some e \<Longrightarrow> next \<noteq> []"
    and "lookupEntry g sk next = Some e \<Longrightarrow> entryInv e"
  using assms by (auto simp: graphInv_def)

lemma bump_id: "0 \<le> n \<Longrightarrow> n < maxInt64 \<Longrightarrow> bump n = n + 1"
  by (simp add: bump_def)

subsection \<open>What recording does\<close>

lemma lookup_RecordObs [go_map]:
  "lookupEntry (RecordObs obs g) sk next =
     (if o_Next obs \<noteq> [] \<and> sk = stateKey (o_State obs) \<and> next = o_Next obs
      then Some (recordEntry obs (case lookupEntry g sk next of None \<Rightarrow> entry0 | Some e \<Rightarrow> e))
      else lookupEntry g sk next)"
  by (simp add: RecordObs_def tlLookup_modify)

lemma values_mapPut: "(k, v) \<in> set (mapPut k' v' m) \<Longrightarrow> v = v' \<or> (k, v) \<in> set m"
  by (induction m) (auto split: if_splits)

lemma mapGet_cases: "mapGet z m k = z \<or> (k, mapGet z m k) \<in> set m"
  by (auto simp: mapGet_def split: option.splits dest: map_of_SomeD)

lemma bump_nonneg [intro]: "0 \<le> n \<Longrightarrow> n < maxInt64 \<Longrightarrow> 0 \<le> bump n"
  by (simp add: bump_id)

text \<open>The part of the invariant that also holds for the entry a new pair starts from.\<close>

definition entryPre :: "entry \<Rightarrow> bool" where
  "entryPre e \<longleftrightarrow> e = entry0 \<or> entryInv e"

lemma entryPreD:
  assumes "entryPre e"
  shows "0 \<le> e_count e" "0 \<le> e_lastSeen e" "wfMap (e_cwds e)"
    "\<And>k. 0 \<le> mapGet 0 (e_cwds e) k" "\<And>k c. (k, c) \<in> set (e_cwds e) \<Longrightarrow> 0 \<le> c"
    "0 \<le> e_nextSuccess e" "0 \<le> e_nextFailure e" "0 \<le> e_priorSuccess e"
    "0 \<le> e_priorFailure e" "0 \<le> e_accepted e"
  using assms unfolding entryPre_def
  by (auto simp: entryInv_def entry0_def zeroTime_def mapGet_def
      split: option.splits dest!: map_of_SomeD)

lemma roomyEntryD:
  assumes "roomyEntry e"
  shows "mapGet 0 (e_cwds e) k < maxInt64"
  using assms mapGet_cases [of 0 "e_cwds e" k] by (auto simp: roomyEntry_def)

lemma recordEntry_cwds:
  assumes "entryPre e" "roomyEntry e" "(k, c) \<in> set (e_cwds (recordEntry obs e))"
  shows "0 \<le> c"
  using assms entryPreD [OF assms(1)] roomyEntryD [OF assms(2)]
  by (auto simp: recordEntry_def split: if_splits dest!: values_mapPut)

lemma recordEntry_inv:
  assumes "entryPre e" "roomyEntry e"
  shows "entryInv (recordEntry obs e)"
proof -
  note pre = entryPreD [OF assms(1)]
  have "0 < e_count (recordEntry obs e)"
    using pre(1) assms(2) by (simp add: recordEntry_def bump_id roomyEntry_def)
  moreover have "wfMap (e_cwds (recordEntry obs e))"
    using pre(3) by (simp add: recordEntry_def wfMap_mapPut)
  moreover have "\<forall>(k, c)\<in>set (e_cwds (recordEntry obs e)). 0 \<le> c"
    using recordEntry_cwds [OF assms] by blast
  ultimately show ?thesis using pre assms(2)
    unfolding entryInv_def by (simp add: recordEntry_def After_def bump_nonneg roomyEntry_def)
qed

lemma roomy_entry0 [simp]: "roomyEntry entry0"
  by (simp add: roomyEntry_def entry0_def)

lemma graphInv_RecordObs: "graphInv g \<Longrightarrow> roomy g \<Longrightarrow> graphInv (RecordObs obs g)"
  unfolding graphInv_def
proof (intro conjI allI impI)
  assume g: "tlWf (g_m g) \<and> (\<forall>sk next e. lookupEntry g sk next = Some e \<longrightarrow> next \<noteq> [] \<and> entryInv e)"
    and r: "roomy g"
  then show "tlWf (g_m (RecordObs obs g))"
    by (simp add: RecordObs_def tlWf_modify)
  fix sk nxt e
  assume e: "lookupEntry (RecordObs obs g) sk nxt = Some e"
  with g show "nxt \<noteq> []" by (auto simp: lookup_RecordObs split: if_splits)
  show "entryInv e"
    using g r e
    by (auto simp: lookup_RecordObs roomy_def entryPre_def split: if_splits option.splits
        intro!: recordEntry_inv)
qed

subsection \<open>What reading returns\<close>

lemma copyCWDs_id [simp]: "copyCWDs m = m"
  by (simp add: copyCWDs_def)

lemma Transitions_iff:
  assumes "tlWf (g_m g)"
  shows "t \<in> set (Transitions g state) \<longleftrightarrow>
     (\<exists>e. lookupEntry g (stateKey state) (t_Next t) = Some e
        \<and> t = entryToTransition state (t_Next t) e)"
proof (cases "map_of (g_m g) (stateKey state)")
  case (Some inner)
  with assms have "wfMap inner" by (auto dest: map_of_SomeD tlWfD)
  then have "map_of inner n = Some e \<longleftrightarrow> (n, e) \<in> set inner" for n e
    by (rule map_of_eq_Some_iff)
  with Some show ?thesis
    by (force simp: Transitions_def tlLookup_def entryToTransition_def)
qed (simp add: Transitions_def tlLookup_def)

lemma distinct_Transitions:
  assumes "tlWf (g_m g)"
  shows "distinct (map t_Next (Transitions g state))"
proof (cases "map_of (g_m g) (stateKey state)")
  case (Some inner)
  with assms have "wfMap inner" by (auto dest: map_of_SomeD tlWfD)
  moreover have "map t_Next (map (\<lambda>(next, e). entryToTransition state next e) inner) = map fst inner"
    by (simp add: entryToTransition_def split_beta comp_def)
  ultimately show ?thesis by (simp add: Transitions_def Some del: map_map)
qed (simp add: Transitions_def)

subsection \<open>Export\<close>

lemma stateKey_Split [simp]: "stateKey (Split sk NUL) = sk"
  by (simp add: stateKey_def Join_Split)

lemma Split_stateKey:
  "state \<noteq> [] \<Longrightarrow> \<forall>s\<in>set state. NUL \<notin> set s \<Longrightarrow> Split (stateKey state) NUL = state"
  by (simp add: stateKey_def Split_Join)

definition plainState :: "string list \<Rightarrow> bool" where
  "plainState state \<longleftrightarrow> state \<noteq> [] \<and> (\<forall>s\<in>set state. NUL \<notin> set s)"

interpretation state_key: key_codec stateKey "\<lambda>sk. Some (Split sk NUL)" plainState
  by unfold_locales (simp add: plainState_def Split_stateKey)

lemma length_tlItems: "length (tlItems m) = sum_list (map (\<lambda>(k, inner). length inner) m)"
  by (induction m) (auto simp: tlItems_def)

definition itemKey :: "string \<times> string \<times> entry \<Rightarrow> string \<times> string" where
  "itemKey = (\<lambda>(sk, next, e). (sk, next))"

definition itemTransition :: "string \<times> string \<times> entry \<Rightarrow> transition" where
  "itemTransition = (\<lambda>(sk, next, e). entryToTransition (Split sk NUL) next e)"

definition transitionKey :: "transition \<Rightarrow> string \<times> string" where
  "transitionKey t = (stateKey (t_State t), t_Next t)"

lemma transitionKey_item [simp]: "transitionKey (itemTransition i) = itemKey i"
  by (auto simp: transitionKey_def itemTransition_def itemKey_def entryToTransition_def
      split: prod.splits)

lemma All_eq: "All g = map itemTransition (sort_key itemKey (tlItems (g_m g)))"
proof -
  have "(\<lambda>(sk, next, e). (entryToTransition (Split sk NUL) next e, sk))
      = (\<lambda>i. (itemTransition i, fst i))"
    by (auto simp: itemTransition_def fun_eq_iff)
  moreover have "(\<lambda>i. (fst i, t_Next (itemTransition i))) = itemKey"
    by (auto simp: itemTransition_def itemKey_def entryToTransition_def fun_eq_iff)
  ultimately show ?thesis
    by (simp add: All_def Let_def sort_key_map tlItems_def comp_def)
qed

lemma map_transitionKey_All: "map transitionKey (All g) = sort (map itemKey (tlItems (g_m g)))"
  by (simp add: All_eq comp_def map_sort_key)

lemma sorted_All: "sorted (map transitionKey (All g))"
  by (simp add: map_transitionKey_All)

lemma distinct_All:
  assumes "tlWf (g_m g)"
  shows "distinct (map transitionKey (All g))"
  using distinct_tlItems [OF assms] by (simp add: map_transitionKey_All itemKey_def)

lemma length_All: "length (All g) = Size g"
  by (simp add: All_eq Size_def length_tlItems)

lemma All_iff:
  assumes "tlWf (g_m g)"
  shows "t \<in> set (All g) \<longleftrightarrow>
     (\<exists>sk next e. lookupEntry g sk next = Some e \<and> t = itemTransition (sk, next, e))"
  using tlItems_iff [OF assms] by (force simp: All_eq)

text \<open>Two graphs with the same entries export the same list, however their maps are laid
  out: an export does not depend on Go's map iteration order.\<close>

lemma All_cong:
  assumes "tlWf (g_m g)" "tlWf (g_m g')" "lookupEntry g = lookupEntry g'"
  shows "All g = All g'"
proof -
  have d: "distinct (map itemKey (tlItems (g_m g)))" "distinct (map itemKey (tlItems (g_m g')))"
    using distinct_tlItems [OF assms(1)] distinct_tlItems [OF assms(2)]
    by (simp_all add: itemKey_def)
  have "set (tlItems (g_m g)) = set (tlItems (g_m g'))"
    using tlItems_iff [OF assms(1)] tlItems_iff [OF assms(2)] assms(3) by auto
  with d have "mset (tlItems (g_m g)) = mset (tlItems (g_m g'))"
    by (simp add: set_eq_iff_mset_eq_distinct distinct_map)
  then show ?thesis using sort_key_perm [OF _ d(1)] by (simp add: All_eq)
qed

subsection \<open>Properties\<close>

text \<open>A concrete observation and the graph that holds it twice, for the witnesses.\<close>

definition demoObs :: observation where
  "demoObs = \<lparr>o_State = [''git add PATH''], o_Next = ''git commit FLAG STR'', o_At = 5,
     o_CWD = ''/p'', o_NextOutcome = OutcomeSuccess, o_PriorOutcome = OutcomeFailure,
     o_Accepted = True\<rparr>"

lemma demoObs_fields [simp]:
  "stateKey (o_State demoObs) = ''git add PATH''" "o_Next demoObs = ''git commit FLAG STR''"
  by (simp_all add: demoObs_def stateKey_def)

definition demoGraph :: graph where
  "demoGraph = RecordObs demoObs (New 2)"

lemma lookup_demoGraph:
  "lookupEntry demoGraph sk n =
     (if sk = ''git add PATH'' \<and> n = ''git commit FLAG STR''
      then Some (recordEntry demoObs entry0) else None)"
  by (simp add: demoGraph_def lookup_RecordObs New_def)

lemma roomy_New [simp]: "roomy (New ws)"
  by (simp add: roomy_def New_def)

lemma graphInv_demoGraph: "graphInv demoGraph"
  by (simp add: demoGraph_def graphInv_RecordObs)

lemma demoEntry:
  "recordEntry demoObs entry0 =
     \<lparr>e_count = 1, e_lastSeen = 5, e_cwds = [(''/p'', 1)], e_nextSuccess = 1,
      e_nextFailure = 0, e_priorSuccess = 0, e_priorFailure = 1, e_accepted = 1\<rparr>"
  by (simp add: recordEntry_def demoObs_def entry0_def bump_def mapGet_def After_def zeroTime_def)

lemma roomy_demoGraph: "roomy demoGraph"
  by (auto simp: roomy_def lookup_demoGraph demoEntry roomyEntry_def split: if_splits)

text \<open>What one observation changes in the entry it names.\<close>

definition observed :: "observation \<Rightarrow> entry \<Rightarrow> entry \<Rightarrow> bool" where
  "observed obs old e \<longleftrightarrow>
     e_count e = e_count old + 1
   \<and> e_lastSeen e = max (e_lastSeen old) (o_At obs)
   \<and> e_accepted e = e_accepted old + (if o_Accepted obs then 1 else 0)
   \<and> e_nextSuccess e = e_nextSuccess old + (if o_NextOutcome obs = OutcomeSuccess then 1 else 0)
   \<and> e_nextFailure e = e_nextFailure old + (if o_NextOutcome obs = OutcomeFailure then 1 else 0)
   \<and> e_priorSuccess e = e_priorSuccess old + (if o_PriorOutcome obs = OutcomeSuccess then 1 else 0)
   \<and> e_priorFailure e = e_priorFailure old + (if o_PriorOutcome obs = OutcomeFailure then 1 else 0)
   \<and> (\<forall>d. mapGet 0 (e_cwds e) d =
        mapGet 0 (e_cwds old) d + (if d = o_CWD obs \<and> d \<noteq> [] then 1 else 0))"

lemma recordEntry_observed:
  assumes "entryPre e" "roomyEntry e"
  shows "observed obs e (recordEntry obs e)"
  using assms(2) entryPreD [OF assms(1)] roomyEntryD [OF assms(2)]
  by (simp add: observed_def recordEntry_def bump_id roomyEntry_def After_def mapGet_mapPut)

text \<open>Recording an observation keeps the graph well formed, adds exactly one to the count of
  the entry it names, moves that entry's last-seen time forward and never back, counts the
  outcome, acceptance and directory it carries in that entry, and changes no other entry.
  The counters are assumed below the largest 64-bit integer.\<close>

theorem RecordObs_functional:
  assumes inv: "graphInv g" and room: "roomy g" and "o_Next obs \<noteq> []"
  shows "graphInv (RecordObs obs g)
    \<and> (\<exists>e. lookupEntry (RecordObs obs g) (stateKey (o_State obs)) (o_Next obs) = Some e
         \<and> observed obs (case lookupEntry g (stateKey (o_State obs)) (o_Next obs) of
              None \<Rightarrow> entry0 | Some old \<Rightarrow> old) e)
    \<and> (\<forall>sk nxt. (sk, nxt) \<noteq> (stateKey (o_State obs), o_Next obs) \<longrightarrow>
         lookupEntry (RecordObs obs g) sk nxt = lookupEntry g sk nxt)"
proof -
  let ?old = "case lookupEntry g (stateKey (o_State obs)) (o_Next obs) of
    None \<Rightarrow> entry0 | Some old \<Rightarrow> old"
  have "entryPre ?old" "roomyEntry ?old"
    using room graphInvD(3) [OF inv] by (auto simp: entryPre_def roomy_def split: option.splits)
  then have "observed obs ?old (recordEntry obs ?old)" by (rule recordEntry_observed)
  with assms(3) graphInv_RecordObs [OF inv room] show ?thesis
    by (auto simp: lookup_RecordObs)
qed

theorem RecordObs_functional_witness:
  "graphInv demoGraph \<and> roomy demoGraph \<and> graphInv (RecordObs demoObs demoGraph)
    \<and> (\<exists>e. lookupEntry (RecordObs demoObs demoGraph) ''git add PATH'' ''git commit FLAG STR'' = Some e
         \<and> e_count e = 2)"
  using RecordObs_functional [of demoGraph demoObs] graphInv_demoGraph roomy_demoGraph
  by (auto simp: lookup_demoGraph demoEntry observed_def)

text \<open>An export is sorted by state key and next template, lists every pair exactly once, has
  as many elements as \<open>Size\<close> reports, and depends only on the entries of the graph: two
  layouts of the same maps (two iteration orders) export the same list.\<close>

theorem All_canonical:
  assumes "tlWf (g_m g)" "tlWf (g_m g')" "lookupEntry g = lookupEntry g'"
  shows "All g = All g' \<and> sorted (map transitionKey (All g))
    \<and> distinct (map transitionKey (All g)) \<and> length (All g) = Size g"
  using All_cong [OF assms] sorted_All distinct_All [OF assms(1)] length_All by blast

theorem All_canonical_witness:
  "tlWf (g_m demoGraph) \<and> All demoGraph = All demoGraph \<and> length (All demoGraph) = 1
    \<and> map t_Next (All demoGraph) = [''git commit FLAG STR'']"
proof -
  have wf: "tlWf (g_m demoGraph)" using graphInvD(1) [OF graphInv_demoGraph] .
  have "length (All demoGraph) = Size demoGraph"
    using All_canonical [OF wf wf refl] by blast
  moreover have m: "g_m demoGraph = [(''git add PATH'', [(''git commit FLAG STR'', recordEntry demoObs entry0)])]"
    by (simp add: demoGraph_def RecordObs_def tlModify_def tlInner_def mapGet_def New_def)
  ultimately show ?thesis using wf
    by (simp add: Size_def All_eq tlItems_def itemTransition_def entryToTransition_def)
qed

end
