(* ===== verification/Keyed_Action.thy ===== *)
theory Keyed_Action
  imports Go_Prelude
begin

text \<open>
  The interface between a keyed store and the items applied to it. An item acts on the one
  entry its key names, which starts from a base value when it is absent. Where the actions
  commute, the outcome of a batch does not depend on its order; where they are idempotent as
  well, applying it twice is applying it once. The theory Graph_Merge interprets the interface
  on merging into the entries of the transition graph, the theory Interleaving the commuting
  part of it on recording into the graph and into the raw store.
\<close>

definition applyAt :: "('t \<Rightarrow> 'k) \<Rightarrow> ('t \<Rightarrow> 'e \<Rightarrow> 'e) \<Rightarrow> 'e \<Rightarrow> 't \<Rightarrow> ('k \<rightharpoonup> 'e) \<Rightarrow> ('k \<rightharpoonup> 'e)" where
  "applyAt key act base t A =
     A(key t \<mapsto> act t (case A (key t) of None \<Rightarrow> base | Some e \<Rightarrow> e))"

lemma fold_applyAt_distinct:
  "distinct (map key ts) \<Longrightarrow> k \<notin> key ` set ts \<or> A k = None \<Longrightarrow>
     fold (applyAt key act base) ts A k =
       (case map_of (map (\<lambda>t. (key t, t)) ts) k of None \<Rightarrow> A k | Some t \<Rightarrow> Some (act t base))"
proof (induction ts arbitrary: A)
  case (Cons t ts)
  let ?A = "applyAt key act base t A"
  have IH: "fold (applyAt key act base) ts ?A k =
      (case map_of (map (\<lambda>t. (key t, t)) ts) k of None \<Rightarrow> ?A k | Some t \<Rightarrow> Some (act t base))"
    using Cons.prems by (intro Cons.IH) (auto simp: applyAt_def)
  show ?case
  proof (cases "k = key t")
    case True
    with Cons.prems have "map_of (map (\<lambda>t. (key t, t)) ts) k = None"
      by (auto simp: map_of_eq_None_iff)
    moreover from True Cons.prems have "?A k = Some (act t base)" by (auto simp: applyAt_def)
    ultimately show ?thesis using True IH by simp
  next
    case False
    then have "?A k = A k" by (simp add: applyAt_def)
    with False IH show ?thesis by (simp split: option.splits)
  qed
qed simp

locale keyed_commuting =
  fixes key :: "'t \<Rightarrow> 'k"
    and act :: "'t \<Rightarrow> 'e \<Rightarrow> 'e"
    and base :: 'e
  assumes act_comm: "act s (act t e) = act t (act s e)"
begin

lemma applyAt_comm:
  "applyAt key act base s (applyAt key act base t A)
     = applyAt key act base t (applyAt key act base s A)"
  by (auto simp: applyAt_def fun_eq_iff act_comm split: option.splits)

lemma fold_perm:
  "mset ts = mset us \<Longrightarrow>
     fold (applyAt key act base) ts A = fold (applyAt key act base) us A"
  by (metis (no_types, lifting) ext applyAt_comm comp_apply fold_multiset_equiv)

end

locale keyed_action = keyed_commuting +
  assumes act_idem: "act t (act t e) = act t e"
begin

lemma applyAt_idem:
  "applyAt key act base t (applyAt key act base t A) = applyAt key act base t A"
  by (auto simp: applyAt_def fun_eq_iff act_idem)

lemma fold_absorb:
  "t \<in> set ts \<Longrightarrow> applyAt key act base t (fold (applyAt key act base) ts A)
     = fold (applyAt key act base) ts A"
proof (induction ts arbitrary: A)
  case (Cons u ts)
  have push: "applyAt key act base t (fold (applyAt key act base) ts B)
      = fold (applyAt key act base) ts (applyAt key act base t B)" for B
    by (induction ts arbitrary: B) (auto simp: applyAt_comm)
  show ?case using Cons push by (auto simp: applyAt_idem)
qed simp

lemma fold_idem:
  "fold (applyAt key act base) ts (fold (applyAt key act base) ts A)
     = fold (applyAt key act base) ts A"
proof -
  have "set us \<subseteq> set ts \<Longrightarrow> fold (applyAt key act base) us (fold (applyAt key act base) ts A)
      = fold (applyAt key act base) ts A" for us
    by (induction us) (auto simp: fold_absorb)
  then show ?thesis by simp
qed

lemma fold_keeps_keys: "k \<in> dom A \<Longrightarrow> k \<in> dom (fold (applyAt key act base) ts A)"
proof (induction ts arbitrary: A)
  case (Cons t ts)
  then have "k \<in> dom (applyAt key act base t A)" by (simp add: applyAt_def)
  with Cons.IH show ?case by simp
qed simp

end

end
