(* ===== verification/Graph_Merge.thy ===== *)
theory Graph_Merge
  imports Graph Keyed_Action
begin

text \<open>
  Graph.Merge and Graph.All of core/graph/graph.go, and the seed checks of
  core/graph/seed.go. Merging is specified on an abstract graph, a finite map from pairs
  (state key, next template) to entries whose directory histogram is itself a map; the
  association lists of the model refine it. A failed merge returns an error and leaves the
  graph as it was, since validation runs before the first change.
\<close>

datatype mergeError = EmptyState nat | EmptyNext nat | CountNotPositive nat int

fun validateFrom :: "nat \<Rightarrow> transition list \<Rightarrow> mergeError option" where
  "validateFrom i [] = None"
| "validateFrom i (t # ts) =
     (if length (t_State t) = 0 then Some (EmptyState i)
      else if t_Next t = [] then Some (EmptyNext i)
      else if t_Count t \<le> 0 then Some (CountNotPositive i (t_Count t))
      else validateFrom (Suc i) ts)"

definition validateTransitions :: "transition list \<Rightarrow> mergeError option" where
  "validateTransitions seed = validateFrom 0 seed"

definition mergeCWDs :: "(string \<times> int) list \<Rightarrow> (string \<times> int) list \<Rightarrow> (string \<times> int) list" where
  "mergeCWDs from into = fold (\<lambda>(cwd, c) m. mapPut cwd (max (mapGet 0 m cwd) c) m) from into"

definition mergeEntry :: "transition \<Rightarrow> entry \<Rightarrow> entry" where
  "mergeEntry t e =
     e\<lparr>e_count := max (e_count e) (t_Count t),
       e_lastSeen := (if After (t_LastSeen t) (e_lastSeen e) then t_LastSeen t else e_lastSeen e),
       e_cwds := mergeCWDs (t_CWDs t) (e_cwds e),
       e_nextSuccess := max (e_nextSuccess e) (t_NextSuccess t),
       e_nextFailure := max (e_nextFailure e) (t_NextFailure t),
       e_priorSuccess := max (e_priorSuccess e) (t_PriorSuccess t),
       e_priorFailure := max (e_priorFailure e) (t_PriorFailure t),
       e_accepted := max (e_accepted e) (t_Accepted t)\<rparr>"

definition mergeOne :: "transition \<Rightarrow> graph \<Rightarrow> graph" where
  "mergeOne t g =
     g\<lparr>g_m := tlModify entry0 (mergeEntry t) (stateKey (t_State t)) (t_Next t) (g_m g)\<rparr>"

definition Merge :: "transition list \<Rightarrow> graph \<Rightarrow> mergeError + graph" where
  "Merge seed g =
     (case validateTransitions seed of
        Some err \<Rightarrow> Inl err
      | None \<Rightarrow> Inr (fold mergeOne seed g))"

subsection \<open>Seeds\<close>

record seed =
  sd_Version :: int
  sd_Source :: string
  sd_GeneratedAt :: gotime
  sd_Transitions :: "transition list"

datatype seedError = NoTransitions | MissingLastSeen nat string

fun seedCheckFrom :: "nat \<Rightarrow> transition list \<Rightarrow> seedError option" where
  "seedCheckFrom i [] = None"
| "seedCheckFrom i (t # ts) =
     (if IsZero (t_LastSeen t) then Some (MissingLastSeen i (t_Next t))
      else seedCheckFrom (Suc i) ts)"

definition seedValidate :: "seed \<Rightarrow> seedError option" where
  "seedValidate s =
     (if length (sd_Transitions s) = 0 then Some NoTransitions
      else seedCheckFrom 0 (sd_Transitions s))"

subsection \<open>The abstract graph\<close>

record aentry =
  a_count :: int
  a_lastSeen :: gotime
  a_cwds :: "string \<rightharpoonup> int"
  a_nextSuccess :: int
  a_nextFailure :: int
  a_priorSuccess :: int
  a_priorFailure :: int
  a_accepted :: int

definition absEntry :: "entry \<Rightarrow> aentry" where
  "absEntry e = \<lparr>a_count = e_count e, a_lastSeen = e_lastSeen e, a_cwds = map_of (e_cwds e),
     a_nextSuccess = e_nextSuccess e, a_nextFailure = e_nextFailure e,
     a_priorSuccess = e_priorSuccess e, a_priorFailure = e_priorFailure e,
     a_accepted = e_accepted e\<rparr>"

definition absGraph :: "graph \<Rightarrow> (string \<times> string \<rightharpoonup> aentry)" where
  "absGraph g = (\<lambda>(sk, next). map_option absEntry (lookupEntry g sk next))"

definition aMax :: "transition \<Rightarrow> aentry \<Rightarrow> aentry" where
  "aMax t a =
     a\<lparr>a_count := max (a_count a) (t_Count t),
       a_lastSeen := max (a_lastSeen a) (t_LastSeen t),
       a_cwds := (\<lambda>k. case map_of (t_CWDs t) k of None \<Rightarrow> a_cwds a k
           | Some c \<Rightarrow> Some (max (case a_cwds a k of None \<Rightarrow> 0 | Some v \<Rightarrow> v) c)),
       a_nextSuccess := max (a_nextSuccess a) (t_NextSuccess t),
       a_nextFailure := max (a_nextFailure a) (t_NextFailure t),
       a_priorSuccess := max (a_priorSuccess a) (t_PriorSuccess t),
       a_priorFailure := max (a_priorFailure a) (t_PriorFailure t),
       a_accepted := max (a_accepted a) (t_Accepted t)\<rparr>"

abbreviation aMerge where
  "aMerge \<equiv> fold (applyAt transitionKey aMax (absEntry entry0))"

lemma max_shuffle: "max (max a b) c = max (max a c) (b :: int)" "max (max a b) b = max a b"
  by linarith+

interpretation merge: keyed_action transitionKey aMax "absEntry entry0"
proof
  fix s t e
  show "aMax s (aMax t e) = aMax t (aMax s e)"
    by (auto simp: aMax_def max_shuffle fun_eq_iff split: option.splits)
  show "aMax t (aMax t e) = aMax t e"
    by (auto simp: aMax_def max_shuffle fun_eq_iff split: option.splits)
qed

subsection \<open>The graph refines the abstract graph\<close>

text \<open>A transition carries a Go map, so its histogram has distinct keys.\<close>

definition wfTransition :: "transition \<Rightarrow> bool" where
  "wfTransition t \<longleftrightarrow> wfMap (t_CWDs t)"

lemma map_of_mergeCWDs:
  "wfMap from \<Longrightarrow> map_of (mergeCWDs from into) k =
     (case map_of from k of None \<Rightarrow> map_of into k
      | Some c \<Rightarrow> Some (max (case map_of into k of None \<Rightarrow> 0 | Some v \<Rightarrow> v) c))"
proof (induction "from" arbitrary: into)
  case (Cons p "from")
  obtain cwd c where p: "p = (cwd, c)" by fastforce
  have "mergeCWDs (p # from) into
      = mergeCWDs from (mapPut cwd (max (mapGet 0 into cwd) c) into)"
    by (simp add: mergeCWDs_def p)
  moreover have "map_of from cwd = None"
    using Cons.prems by (simp add: p map_of_eq_None_iff)
  ultimately show ?case
    using Cons by (auto simp: p map_of_mapPut mapGet_def split: option.splits)
qed (simp add: mergeCWDs_def)

lemma wfMap_mergeCWDs: "wfMap into \<Longrightarrow> wfMap (mergeCWDs from into)"
  unfolding mergeCWDs_def
  by (induction "from" arbitrary: into) (auto simp: wfMap_mapPut)

lemma values_mergeCWDs:
  "(k, v) \<in> set (mergeCWDs from into) \<Longrightarrow> \<forall>(k, v)\<in>set into. 0 \<le> v \<Longrightarrow> 0 \<le> v"
proof (induction "from" arbitrary: into)
  case (Cons p "from")
  obtain cwd c where p: "p = (cwd, c)" by fastforce
  let ?into = "mapPut cwd (max (mapGet 0 into cwd) c) into"
  have "0 \<le> max (mapGet 0 into cwd) c"
    using Cons.prems(2) mapGet_cases [of 0 into cwd] by auto
  with Cons.prems(2) have "\<forall>(k, v)\<in>set ?into. 0 \<le> v"
    by (auto dest!: values_mapPut)
  moreover have "(k, v) \<in> set (mergeCWDs from ?into)"
    using Cons.prems(1) by (simp add: mergeCWDs_def p)
  ultimately show ?case using Cons.IH by blast
qed (auto simp: mergeCWDs_def)

lemma absEntry_merge:
  "wfTransition t \<Longrightarrow> absEntry (mergeEntry t e) = aMax t (absEntry e)"
  by (auto simp: absEntry_def mergeEntry_def aMax_def wfTransition_def After_def fun_eq_iff
      map_of_mergeCWDs max_def split: option.splits)

lemma lookup_mergeOne [go_map]:
  "lookupEntry (mergeOne t g) sk next =
     (if (sk, next) = transitionKey t
      then Some (mergeEntry t (case lookupEntry g sk next of None \<Rightarrow> entry0 | Some e \<Rightarrow> e))
      else lookupEntry g sk next)"
  by (auto simp: mergeOne_def tlLookup_modify transitionKey_def)

lemma absGraph_mergeOne:
  "wfTransition t \<Longrightarrow>
     absGraph (mergeOne t g) = applyAt transitionKey aMax (absEntry entry0) t (absGraph g)"
  by (cases "transitionKey t")
     (auto simp: absGraph_def fun_eq_iff lookup_mergeOne applyAt_def absEntry_merge
       split: option.splits)

lemma absGraph_fold:
  "\<forall>t\<in>set ts. wfTransition t \<Longrightarrow> absGraph (fold mergeOne ts g) = aMerge ts (absGraph g)"
  by (induction ts arbitrary: g) (auto simp: absGraph_mergeOne)

subsection \<open>Validation\<close>

definition validTransition :: "transition \<Rightarrow> bool" where
  "validTransition t \<longleftrightarrow> t_State t \<noteq> [] \<and> t_Next t \<noteq> [] \<and> 0 < t_Count t"

lemma validateFrom_None: "validateFrom i ts = None \<longleftrightarrow> (\<forall>t\<in>set ts. validTransition t)"
  by (induction ts arbitrary: i) (auto simp: validTransition_def)

lemma validateTransitions_None:
  "validateTransitions ts = None \<longleftrightarrow> (\<forall>t\<in>set ts. validTransition t)"
  by (simp add: validateTransitions_def validateFrom_None)

lemma Merge_Inr:
  "Merge seed g = Inr g' \<longleftrightarrow> (\<forall>t\<in>set seed. validTransition t) \<and> g' = fold mergeOne seed g"
  by (auto simp: Merge_def validateTransitions_None [symmetric] split: option.splits)

lemma absGraph_Merge:
  assumes "Merge seed g = Inr g'" "\<forall>t\<in>set seed. wfTransition t"
  shows "absGraph g' = aMerge seed (absGraph g)"
  using assms by (simp add: Merge_Inr absGraph_fold)

subsection \<open>Merging keeps the invariant\<close>

lemma mergeEntry_inv:
  assumes "entryPre e" "wfTransition t" "0 < t_Count t"
  shows "entryInv (mergeEntry t e)"
proof -
  note pre = entryPreD [OF assms(1)]
  have "\<forall>(k, v)\<in>set (mergeCWDs (t_CWDs t) (e_cwds e)). 0 \<le> v"
    using pre(5) by (auto dest: values_mergeCWDs)
  with pre assms(3) show ?thesis
    by (auto simp: entryInv_def mergeEntry_def After_def wfMap_mergeCWDs
        le_max_iff_disj less_max_iff_disj)
qed

lemma graphInv_mergeOne:
  assumes "graphInv g" "wfTransition t" "validTransition t"
  shows "graphInv (mergeOne t g)"
  unfolding graphInv_def
proof (intro conjI allI impI)
  show "tlWf (g_m (mergeOne t g))"
    using assms(1) by (simp add: mergeOne_def tlWf_modify graphInv_def)
  fix sk nxt e
  assume e: "lookupEntry (mergeOne t g) sk nxt = Some e"
  with assms show "nxt \<noteq> []"
    by (auto simp: lookup_mergeOne transitionKey_def validTransition_def dest: graphInvD
        split: if_splits)
  show "entryInv e"
    using assms e
    by (auto simp: lookup_mergeOne entryPre_def validTransition_def dest: graphInvD
        split: if_splits option.splits intro!: mergeEntry_inv)
qed

lemma graphInv_Merge:
  assumes "graphInv g" "\<forall>t\<in>set seed. wfTransition t" "Merge seed g = Inr g'"
  shows "graphInv g'"
proof -
  have "\<forall>t\<in>set ts. wfTransition t \<and> validTransition t \<Longrightarrow> graphInv (fold mergeOne ts g)"
    if "graphInv g" for ts g
    using that by (induction ts arbitrary: g) (auto simp: graphInv_mergeOne)
  with assms show ?thesis by (simp add: Merge_Inr)
qed

subsection \<open>Importing an export\<close>

lemma aMax_item:
  assumes "entryInv e"
  shows "aMax (itemTransition (sk, next, e)) (absEntry entry0) = absEntry e"
proof -
  have "map_of (e_cwds e) k = Some c \<Longrightarrow> 0 \<le> c" for k c
    using assms by (auto simp: entryInv_def dest: map_of_SomeD)
  with assms show ?thesis
    by (auto simp: aMax_def itemTransition_def entryToTransition_def absEntry_def entry0_def
        entryInv_def zeroTime_def fun_eq_iff split: option.splits)
qed

lemma valid_All:
  assumes "graphInv g" "t \<in> set (All g)"
  shows "validTransition t" "wfTransition t"
  using assms All_iff [OF graphInvD(1) [OF assms(1)]] graphInvD(2,3) [OF assms(1)]
  by (fastforce simp: validTransition_def wfTransition_def itemTransition_def
      entryToTransition_def entryInv_def)+

lemma import_All:
  assumes inv: "graphInv g"
  shows "aMerge (All g) Map.empty = absGraph g"
proof
  fix k :: "string \<times> string"
  obtain sk n where k: "k = (sk, n)" by fastforce
  note wf = graphInvD(1) [OF inv]
  let ?m = "map_of (map (\<lambda>t. (transitionKey t, t)) (All g))"
  have d: "distinct (map fst (map (\<lambda>t. (transitionKey t, t)) (All g)))"
    using distinct_All [OF wf] by (simp add: comp_def)
  have m: "?m k = map_option (\<lambda>e. itemTransition (sk, n, e)) (lookupEntry g sk n)"
  proof (cases "lookupEntry g sk n")
    case None
    then show ?thesis
      using All_iff [OF wf] by (auto simp: map_of_eq_None_iff k itemKey_def)
  next
    case (Some e)
    then have "(k, itemTransition (sk, n, e)) \<in> set (map (\<lambda>t. (transitionKey t, t)) (All g))"
      using All_iff [OF wf] by (force simp: k itemKey_def)
    then show ?thesis using map_of_is_SomeI [OF d] Some by simp
  qed
  have "aMerge (All g) Map.empty k =
      (case ?m k of None \<Rightarrow> None | Some t \<Rightarrow> Some (aMax t (absEntry entry0)))"
    using fold_applyAt_distinct [of transitionKey "All g" k Map.empty] distinct_All [OF wf]
    by simp
  also have "\<dots> = absGraph g k"
    using m aMax_item graphInvD(3) [OF inv]
    by (auto simp: absGraph_def k split: option.splits)
  finally show "aMerge (All g) Map.empty k = absGraph g k" .
qed

lemma absGraph_New [simp]: "absGraph (New ws) = Map.empty"
  by (auto simp: absGraph_def New_def fun_eq_iff)

subsection \<open>Properties\<close>

definition demoTransition :: transition where
  "demoTransition = \<lparr>t_State = [''a''], t_Next = ''b'', t_Count = 3, t_LastSeen = 7,
     t_CWDs = [(''/p'', 2)], t_NextSuccess = 1, t_NextFailure = 0, t_PriorSuccess = 0,
     t_PriorFailure = 0, t_Accepted = 0\<rparr>"

lemma demoTransition_ok [simp]:
  "validTransition demoTransition" "wfTransition demoTransition"
  by (simp_all add: demoTransition_def validTransition_def wfTransition_def)

text \<open>C16: Merging a seed refines the abstract merge: on the finite map from (state key, next) to
  entries it applies, transition by transition, the pointwise maximum (counts, last-seen times,
  outcome counters and every directory of the histogram), and it keeps the graph well formed.\<close>

theorem Merge_refines_max:
  assumes "graphInv g" "\<forall>t\<in>set seed. wfTransition t" "Merge seed g = Inr g'"
  shows "absGraph g' = fold (applyAt transitionKey aMax (absEntry entry0)) seed (absGraph g)
    \<and> graphInv g'"
  using absGraph_Merge [OF assms(3,2)] graphInv_Merge [OF assms] by simp

theorem Merge_refines_max_witness:
  "graphInv demoGraph \<and> (\<exists>g'. Merge [demoTransition] demoGraph = Inr g' \<and> graphInv g'
     \<and> absGraph g' (''a'', ''b'') = Some (aMax demoTransition (absEntry entry0)))"
proof -
  obtain g' where g': "Merge [demoTransition] demoGraph = Inr g'"
    by (simp add: Merge_Inr)
  from Merge_refines_max [OF graphInv_demoGraph _ g'] have
    "absGraph g' = applyAt transitionKey aMax (absEntry entry0) demoTransition (absGraph demoGraph)"
    "graphInv g'" by simp_all
  moreover have "absGraph demoGraph (''a'', ''b'') = None"
    by (simp add: absGraph_def lookup_demoGraph)
  ultimately show ?thesis using g' graphInv_demoGraph
    by (simp add: applyAt_def transitionKey_def demoTransition_def stateKey_def)
qed

text \<open>Importing the same seed a second time changes nothing: every entry of the graph, with
  its counters and its directory histogram, is what one import made it.\<close>

theorem Merge_idempotent:
  assumes "\<forall>t\<in>set seed. wfTransition t" "Merge seed g = Inr g1" "Merge seed g1 = Inr g2"
  shows "absGraph g2 = absGraph g1"
  using absGraph_Merge [OF assms(2,1)] absGraph_Merge [OF assms(3,1)]
  by (simp add: merge.fold_idem)

theorem Merge_idempotent_witness:
  "\<exists>g1 g2. Merge [demoTransition, demoTransition] demoGraph = Inr g1
     \<and> Merge [demoTransition, demoTransition] g1 = Inr g2 \<and> absGraph g2 = absGraph g1"
proof -
  let ?s = "[demoTransition, demoTransition]"
  obtain g1 g2 where g: "Merge ?s demoGraph = Inr g1" "Merge ?s g1 = Inr g2"
    by (simp add: Merge_Inr)
  with Merge_idempotent [OF _ g] show ?thesis by auto
qed

text \<open>The order of a seed does not matter: any rearrangement of it is accepted whenever the
  seed is, and leaves the same entries.\<close>

theorem Merge_order_irrelevant:
  assumes "\<forall>t\<in>set seed. wfTransition t" "Merge seed g = Inr g1" "mset seed = mset seed'"
  shows "\<exists>g2. Merge seed' g = Inr g2 \<and> absGraph g2 = absGraph g1"
proof -
  have "set seed' = set seed" using assms(3) by (metis set_mset_mset)
  with assms(1,2) have ok: "\<forall>t\<in>set seed'. wfTransition t"
    "Merge seed' g = Inr (fold mergeOne seed' g)" by (simp_all add: Merge_Inr)
  from absGraph_Merge [OF ok(2,1)] absGraph_Merge [OF assms(2,1)] ok(2)
  show ?thesis using merge.fold_perm [OF assms(3), of "absGraph g"] by auto
qed

theorem Merge_order_irrelevant_witness:
  "\<exists>g1 g2. Merge [demoTransition, demoTransition\<lparr>t_Count := 9\<rparr>] demoGraph = Inr g1
     \<and> Merge [demoTransition\<lparr>t_Count := 9\<rparr>, demoTransition] demoGraph = Inr g2
     \<and> absGraph g2 = absGraph g1"
proof -
  let ?t = "demoTransition\<lparr>t_Count := 9\<rparr>"
  have ok: "validTransition ?t" "wfTransition ?t"
    by (simp_all add: demoTransition_def validTransition_def wfTransition_def)
  then obtain g1 where g1: "Merge [demoTransition, ?t] demoGraph = Inr g1"
    by (simp add: Merge_Inr)
  from Merge_order_irrelevant [OF _ g1, of "[?t, demoTransition]"] ok g1
  show ?thesis by (simp add: add_mset_commute)
qed

text \<open>A merge fails exactly when the seed holds an invalid transition (no state, no next
  template or a count that is not positive), and the error names the first such position;
  since the error is the whole result, the graph is then unchanged.\<close>

theorem Merge_error_first_invalid:
  "(case Merge seed g of
      Inr g' \<Rightarrow> \<forall>t\<in>set seed. validTransition t
    | Inl err \<Rightarrow> \<exists>i<length seed. \<not> validTransition (seed ! i) \<and> (\<forall>j<i. validTransition (seed ! j))
        \<and> err = (if t_State (seed ! i) = [] then EmptyState i
                 else if t_Next (seed ! i) = [] then EmptyNext i
                 else CountNotPositive i (t_Count (seed ! i))))"
proof (cases "Merge seed g")
  case (Inr g')
  then have "\<forall>t\<in>set seed. validTransition t" by (simp add: Merge_Inr)
  with Inr show ?thesis by simp
next
  case (Inl err)
  have "validateFrom k ts = Some err \<Longrightarrow>
      \<exists>i<length ts. \<not> validTransition (ts ! i) \<and> (\<forall>j<i. validTransition (ts ! j))
        \<and> err = (if t_State (ts ! i) = [] then EmptyState (k + i)
                 else if t_Next (ts ! i) = [] then EmptyNext (k + i)
                 else CountNotPositive (k + i) (t_Count (ts ! i)))" for k ts
  proof (induction ts arbitrary: k)
    case (Cons t ts)
    show ?case
    proof (cases "validTransition t")
      case True
      with Cons.prems have "validateFrom (Suc k) ts = Some err"
        by (simp add: validTransition_def)
      from Cons.IH [OF this] obtain i where "i < length ts" "\<not> validTransition (ts ! i)"
        "\<forall>j<i. validTransition (ts ! j)"
        "err = (if t_State (ts ! i) = [] then EmptyState (Suc k + i)
           else if t_Next (ts ! i) = [] then EmptyNext (Suc k + i)
           else CountNotPositive (Suc k + i) (t_Count (ts ! i)))" by blast
      with True show ?thesis
        by (intro exI [of _ "Suc i"]) (auto simp: less_Suc_eq_0_disj)
    next
      case False
      with Cons.prems show ?thesis
        by (intro exI [of _ 0]) (auto simp: validTransition_def split: if_splits)
    qed
  qed simp
  from this [of 0 seed] Inl show ?thesis
    by (auto simp: Merge_def validateTransitions_def split: option.splits)
qed

theorem Merge_error_first_invalid_witness:
  "Merge [demoTransition, demoTransition\<lparr>t_Next := []\<rparr>] demoGraph = Inl (EmptyNext 1)
     \<and> (\<exists>i<2. \<not> validTransition ([demoTransition, demoTransition\<lparr>t_Next := []\<rparr>] ! i))"
proof -
  have m: "Merge [demoTransition, demoTransition\<lparr>t_Next := []\<rparr>] demoGraph = Inl (EmptyNext 1)"
    by (simp add: Merge_def validateTransitions_def demoTransition_def)
  show ?thesis
    using Merge_error_first_invalid
        [of "[demoTransition, demoTransition\<lparr>t_Next := []\<rparr>]" demoGraph]
    unfolding m sum.case by (auto simp: numeral_2_eq_2)
qed

text \<open>Importing an export into an empty graph is accepted and restores every entry with all
  its counters and its directory histogram.\<close>

theorem export_import_roundtrip:
  assumes "graphInv g"
  shows "\<exists>g'. Merge (All g) (New ws) = Inr g' \<and> absGraph g' = absGraph g"
proof -
  have "Merge (All g) (New ws) = Inr (fold mergeOne (All g) (New ws))"
    using valid_All [OF assms] by (simp add: Merge_Inr)
  with absGraph_Merge [OF this] valid_All [OF assms] import_All [OF assms] show ?thesis
    by simp
qed

theorem export_import_roundtrip_witness:
  "graphInv demoGraph \<and> absGraph demoGraph \<noteq> Map.empty
     \<and> (\<exists>g'. Merge (All demoGraph) (New 2) = Inr g' \<and> absGraph g' = absGraph demoGraph)"
proof -
  have "absGraph demoGraph (''git add PATH'', ''git commit FLAG STR'') \<noteq> None"
    by (simp add: absGraph_def lookup_demoGraph)
  then have "absGraph demoGraph \<noteq> Map.empty" by auto
  then show ?thesis
    using export_import_roundtrip [OF graphInv_demoGraph, of 2] graphInv_demoGraph by simp
qed

end
