(* ===== verification/Graph_Decay.thy ===== *)
theory Graph_Decay
  imports Graph
begin

text \<open>
  Graph.Decay of core/graph/graph.go: what one sweep removes and reports. Weights are real
  numbers; the source computes them in float64, so a statement about the boundary itself is
  exact only here. The half-life is positive wherever it matters
  (with a zero half-life the source divides by zero and compares NaN).
\<close>

definition decayFactor :: "duration \<Rightarrow> duration \<Rightarrow> real" where
  \<comment> \<open>\<open>math.Exp(-math.Ln2 * float64(age) / float64(halfLife))\<close>\<close>
  "decayFactor age halfLife = exp (- ln 2 * real_of_int age / real_of_int halfLife)"

record decayResult =
  dr_Pruned :: "transition list"
  dr_Orphaned :: "string list"

definition decayEpsilon :: real where "decayEpsilon = 1 / 1000"

definition doomed :: "gotime \<Rightarrow> duration \<Rightarrow> duration \<Rightarrow> entry \<Rightarrow> bool" where
  "doomed tm halfLife maxIdle e =
     (let age = Sub tm (e_lastSeen e);
          weight = real_of_int (e_count e) * decayFactor age halfLife;
          stale = (maxIdle > 0 \<and> age > maxIdle)
      in weight < decayEpsilon \<or> stale)"

definition prunedTransition :: "string list \<Rightarrow> string \<Rightarrow> transition" where
  \<comment> \<open>\<open>Transition{State: stateCopy, Next: next}\<close>: the other fields are zero\<close>
  "prunedTransition state next = entryToTransition state next entry0"

definition prunedOf :: "(entry \<Rightarrow> bool) \<Rightarrow> entry tlmap \<Rightarrow> transition list" where
  "prunedOf dead m =
     map (\<lambda>(sk, next, e). prunedTransition (Split sk NUL) next)
       (filter (\<lambda>(sk, next, e). dead e) (tlItems m))"

definition remainingNexts :: "entry tlmap \<Rightarrow> string set" where
  "remainingNexts m = set (map (\<lambda>(sk, next, e). next) (tlItems m))"

fun orphanedOf :: "string set \<Rightarrow> string set \<Rightarrow> transition list \<Rightarrow> string list" where
  "orphanedOf remaining seen [] = []"
| "orphanedOf remaining seen (t # ts) =
     (if t_Next t \<in> remaining then orphanedOf remaining seen ts
      else if t_Next t \<in> seen then orphanedOf remaining seen ts
      else t_Next t # orphanedOf remaining (insert (t_Next t) seen) ts)"

definition Decay :: "gotime \<Rightarrow> duration \<Rightarrow> duration \<Rightarrow> graph \<Rightarrow> decayResult \<times> graph" where
  "Decay tm halfLife maxIdle g =
     (let dead = doomed tm halfLife maxIdle;
          pruned = prunedOf dead (g_m g);
          m' = tlRetain (\<lambda>sk next e. \<not> dead e) (g_m g);
          g' = g\<lparr>g_m := m'\<rparr>
      in if pruned = [] then (\<lparr>dr_Pruned = [], dr_Orphaned = []\<rparr>, g')
         else (\<lparr>dr_Pruned = pruned, dr_Orphaned = orphanedOf (remainingNexts m') {} pruned\<rparr>, g'))"

subsection \<open>The decay factor\<close>

lemma decayFactor_powr: "decayFactor age hl = 2 powr (- real_of_int age / real_of_int hl)"
  by (simp add: decayFactor_def powr_def mult.commute)

lemma decayFactor_pos [simp]: "0 < decayFactor age hl"
  by (simp add: decayFactor_def)

lemma decayFactor_nonzero [simp]: "decayFactor age hl \<noteq> 0"
  by (simp add: decayFactor_def)

lemma decayFactor_zero [simp]: "decayFactor 0 hl = 1"
  by (simp add: decayFactor_def)

lemma decayFactor_half: "hl \<noteq> 0 \<Longrightarrow> decayFactor hl hl = 1 / 2"
  by (simp add: decayFactor_powr powr_minus_divide)

lemma decayFactor_antimono: "0 < hl \<Longrightarrow> a \<le> b \<Longrightarrow> decayFactor b hl \<le> decayFactor a hl"
  by (simp add: decayFactor_powr divide_right_mono)

lemma decayFactor_le_1: "0 < hl \<Longrightarrow> 0 \<le> age \<Longrightarrow> decayFactor age hl \<le> 1"
  using decayFactor_antimono [of hl 0 age] by simp

lemma decayFactor_multiple: "hl \<noteq> 0 \<Longrightarrow> decayFactor (int n * hl) hl = (1 / 2) ^ n"
  by (simp add: decayFactor_powr powr_minus powr_realpow power_one_over inverse_eq_divide)

subsection \<open>What a sweep keeps, prunes and orphans\<close>

lemma snd_Decay: "snd (Decay tm hl mi g) = g\<lparr>g_m := tlRetain (\<lambda>sk next e. \<not> doomed tm hl mi e) (g_m g)\<rparr>"
  by (simp add: Decay_def Let_def)

lemma lookup_Decay [go_map]:
  assumes "tlWf (g_m g)"
  shows "lookupEntry (snd (Decay tm hl mi g)) sk next =
     (case lookupEntry g sk next of None \<Rightarrow> None
      | Some e \<Rightarrow> if doomed tm hl mi e then None else Some e)"
  using tlLookup_retain [OF assms, of "\<lambda>sk next e. \<not> doomed tm hl mi e" sk "next"]
  by (auto simp: snd_Decay split: option.splits)

lemma wf_Decay: "tlWf (g_m g) \<Longrightarrow> tlWf (g_m (snd (Decay tm hl mi g)))"
  by (simp add: snd_Decay tlWf_retain)

lemma graphInv_Decay: "graphInv g \<Longrightarrow> graphInv (snd (Decay tm hl mi g))"
  using wf_Decay [of g tm hl mi]
  by (fastforce simp: graphInv_def lookup_Decay split: option.splits if_splits)

lemma dr_Pruned_Decay: "dr_Pruned (fst (Decay tm hl mi g)) = prunedOf (doomed tm hl mi) (g_m g)"
  by (simp add: Decay_def Let_def)

lemma dr_Orphaned_Decay:
  "dr_Orphaned (fst (Decay tm hl mi g)) =
     orphanedOf (remainingNexts (g_m (snd (Decay tm hl mi g)))) {}
       (dr_Pruned (fst (Decay tm hl mi g)))"
  by (simp add: Decay_def Let_def)

lemma pruned_iff:
  assumes "tlWf (g_m g)"
  shows "t \<in> set (dr_Pruned (fst (Decay tm hl mi g))) \<longleftrightarrow>
     (\<exists>sk next e. lookupEntry g sk next = Some e \<and> doomed tm hl mi e
        \<and> t = prunedTransition (Split sk NUL) next)"
  using tlItems_iff [OF assms] by (force simp: dr_Pruned_Decay prunedOf_def)

lemma remainingNexts_iff:
  assumes "tlWf m"
  shows "n \<in> remainingNexts m \<longleftrightarrow> (\<exists>sk e. tlLookup m sk n = Some e)"
  using tlItems_iff [OF assms] by (force simp: remainingNexts_def)

lemma set_orphanedOf: "set (orphanedOf R S ts) = t_Next ` set ts - R - S"
  by (induction ts arbitrary: S) auto

lemma distinct_orphanedOf: "distinct (orphanedOf R S ts)"
  by (induction ts arbitrary: S) (auto simp: set_orphanedOf)

lemma orphaned_iff:
  assumes wf: "tlWf (g_m g)"
  shows "n \<in> set (dr_Orphaned (fst (Decay tm hl mi g))) \<longleftrightarrow>
     (\<exists>sk e. lookupEntry g sk n = Some e)
       \<and> (\<forall>sk e. lookupEntry g sk n = Some e \<longrightarrow> doomed tm hl mi e)"
proof -
  let ?g = "snd (Decay tm hl mi g)"
  have "n \<in> t_Next ` set (dr_Pruned (fst (Decay tm hl mi g)))
      \<longleftrightarrow> (\<exists>sk e. lookupEntry g sk n = Some e \<and> doomed tm hl mi e)"
    by (force simp: pruned_iff [OF wf] prunedTransition_def entryToTransition_def)
  moreover have "n \<in> remainingNexts (g_m ?g)
      \<longleftrightarrow> (\<exists>sk e. lookupEntry g sk n = Some e \<and> \<not> doomed tm hl mi e)"
    by (auto simp: remainingNexts_iff [OF wf_Decay [OF wf]] lookup_Decay [OF wf]
        split: option.splits if_splits)
  ultimately show ?thesis by (auto simp: dr_Orphaned_Decay set_orphanedOf)
qed

subsection \<open>Sweeps compose\<close>

lemma Sub_mono: "t \<le> u \<Longrightarrow> Sub t s \<le> Sub u s"
  by (simp add: Sub_def min_def max_def)

lemma doomed_mono:
  assumes "doomed t hl mi e" "t \<le> u" "0 < hl" "0 \<le> e_count e"
  shows "doomed u hl mi e"
proof -
  have age: "Sub t (e_lastSeen e) \<le> Sub u (e_lastSeen e)" using assms(2) by (rule Sub_mono)
  then have "decayFactor (Sub u (e_lastSeen e)) hl \<le> decayFactor (Sub t (e_lastSeen e)) hl"
    using assms(3) by (rule decayFactor_antimono [rotated])
  then have "real_of_int (e_count e) * decayFactor (Sub u (e_lastSeen e)) hl
      \<le> real_of_int (e_count e) * decayFactor (Sub t (e_lastSeen e)) hl"
    using assms(4) by (simp add: mult_left_mono)
  with assms(1) age show ?thesis by (auto simp: doomed_def Let_def)
qed

lemma Decay_compose_lookup:
  assumes "graphInv g" "t \<le> u" "0 < hl"
  shows "lookupEntry (snd (Decay u hl mi (snd (Decay t hl mi g))))
    = lookupEntry (snd (Decay u hl mi g))"
proof (intro ext)
  fix sk n
  note wf = graphInvD(1) [OF assms(1)]
  have "lookupEntry g sk n = Some e \<Longrightarrow> doomed t hl mi e \<Longrightarrow> doomed u hl mi e" for e
    using doomed_mono [OF _ assms(2,3)] graphInvD(3) [OF assms(1)]
    by (fastforce simp: entryInv_def)
  then show "lookupEntry (snd (Decay u hl mi (snd (Decay t hl mi g)))) sk n
      = lookupEntry (snd (Decay u hl mi g)) sk n"
    by (auto simp: lookup_Decay wf wf_Decay split: option.splits)
qed

subsection \<open>Properties\<close>

text \<open>C17: A sweep leaves every surviving entry exactly as it was (no counter is rescaled), removes
  an entry if and only if its decayed weight is below 0.001 or it is older than the idle cutoff,
  reports the removed pairs, and reports as orphaned, once each, exactly the templates that were
  removed and that no surviving transition still leads to.\<close>

theorem Decay_exact:
  assumes inv: "graphInv g" and result: "Decay tm hl mi g = (r, g')"
  shows "graphInv g'
    \<and> (\<forall>sk n. lookupEntry g' sk n = (case lookupEntry g sk n of None \<Rightarrow> None
         | Some e \<Rightarrow> if doomed tm hl mi e then None else Some e))
    \<and> (\<forall>t. t \<in> set (dr_Pruned r) \<longleftrightarrow> (\<exists>sk n e. lookupEntry g sk n = Some e
         \<and> doomed tm hl mi e \<and> t = prunedTransition (Split sk NUL) n))
    \<and> distinct (dr_Orphaned r)
    \<and> (\<forall>n. n \<in> set (dr_Orphaned r) \<longleftrightarrow> (\<exists>sk e. lookupEntry g sk n = Some e)
         \<and> (\<forall>sk. lookupEntry g' sk n = None))"
proof -
  note wf = graphInvD(1) [OF inv]
  have "fst (Decay tm hl mi g) = r" "snd (Decay tm hl mi g) = g'" using result by simp_all
  with graphInv_Decay [OF inv, of tm hl mi] lookup_Decay [OF wf, of tm hl mi]
    pruned_iff [OF wf, of _ tm hl mi] orphaned_iff [OF wf, of _ tm hl mi]
    dr_Orphaned_Decay [of tm hl mi g] distinct_orphanedOf
  show ?thesis by (auto split: option.splits)
qed

text \<open>Sweeps do not compound: a sweep followed by a later one leaves exactly the graph the
  later one alone would leave, so how often the daemon sweeps does not change what survives.\<close>

theorem Decay_no_compounding:
  assumes "graphInv g" "t \<le> u" "0 < hl"
  shows "lookupEntry (snd (Decay u hl mi (snd (Decay t hl mi g))))
    = lookupEntry (snd (Decay u hl mi g))"
  by (rule Decay_compose_lookup [OF assms])

text \<open>Without an idle cutoff an entry seen once outlives nine half-lives and is removed from
  the tenth on: one observation is forgotten after about ten half-lives.\<close>

theorem doomed_ten_half_lives:
  assumes "0 < hl" "e_count e = 1"
  shows "(Sub tm (e_lastSeen e) \<le> 9 * hl \<longrightarrow> \<not> doomed tm hl 0 e)
    \<and> (10 * hl \<le> Sub tm (e_lastSeen e) \<longrightarrow> doomed tm hl 0 e)"
proof (intro conjI impI)
  assume "Sub tm (e_lastSeen e) \<le> 9 * hl"
  from decayFactor_antimono [OF assms(1) this] decayFactor_multiple [of hl 9] assms
  show "\<not> doomed tm hl 0 e"
    by (simp add: doomed_def Let_def decayEpsilon_def power_one_over)
next
  assume "10 * hl \<le> Sub tm (e_lastSeen e)"
  from decayFactor_antimono [OF assms(1) this] decayFactor_multiple [of hl 10] assms
  show "doomed tm hl 0 e"
    by (simp add: doomed_def Let_def decayEpsilon_def power_one_over)
qed

lemma demo_doomed: "\<not> doomed 6 10 0 (recordEntry demoObs entry0)"
  "doomed 200 10 0 (recordEntry demoObs entry0)"
proof -
  have "decayFactor (Sub 6 5) 10 \<ge> decayFactor 10 10"
    by (rule decayFactor_antimono) (simp_all add: Sub_def)
  then show "\<not> doomed 6 10 0 (recordEntry demoObs entry0)"
    by (simp add: doomed_def Let_def demoEntry decayEpsilon_def decayFactor_half)
  have "decayFactor (Sub 200 5) 10 \<le> decayFactor 100 10"
    by (rule decayFactor_antimono) (simp_all add: Sub_def)
  also have "\<dots> = 1 / 1024" using decayFactor_multiple [of 10 10] by (simp add: power_one_over)
  finally show "doomed 200 10 0 (recordEntry demoObs entry0)"
    by (simp add: doomed_def Let_def demoEntry decayEpsilon_def)
qed

theorem Decay_exact_witness:
  "\<exists>r g'. graphInv demoGraph \<and> Decay 200 10 0 demoGraph = (r, g')
     \<and> dr_Orphaned r = [''git commit FLAG STR''] \<and> lookupEntry g' = (\<lambda>sk n. None)"
proof -
  obtain r g' where d: "Decay 200 10 0 demoGraph = (r, g')" by fastforce
  note exact = Decay_exact [OF graphInv_demoGraph d]
  from exact have "\<forall>sk n. lookupEntry g' sk n = None"
    using demo_doomed(2) by (simp add: lookup_demoGraph)
  then have l: "lookupEntry g' = (\<lambda>sk n. None)" by blast
  from exact have "n \<in> set (dr_Orphaned r) \<longleftrightarrow> n = ''git commit FLAG STR''" for n
    by (simp add: lookup_demoGraph l)
  then have "set (dr_Orphaned r) = {''git commit FLAG STR''}" by blast
  moreover from exact have "distinct (dr_Orphaned r)" by blast
  ultimately have "dr_Orphaned r = [''git commit FLAG STR'']"
    by (simp add: distinct_singleton)
  with d l graphInv_demoGraph show ?thesis by blast
qed

theorem Decay_no_compounding_witness:
  "graphInv demoGraph \<and> lookupEntry (snd (Decay 200 10 0 (snd (Decay 6 10 0 demoGraph))))
     = lookupEntry (snd (Decay 200 10 0 demoGraph))"
  using Decay_no_compounding [OF graphInv_demoGraph, of 6 200 10 0] graphInv_demoGraph by simp

theorem doomed_ten_half_lives_witness:
  "e_count (recordEntry demoObs entry0) = 1 \<and> \<not> doomed 6 10 0 (recordEntry demoObs entry0)
     \<and> doomed 200 10 0 (recordEntry demoObs entry0)"
  using doomed_ten_half_lives [of 10 "recordEntry demoObs entry0" 6]
    doomed_ten_half_lives [of 10 "recordEntry demoObs entry0" 200]
  by (simp add: demoEntry Sub_def)

end
