(* ===== verification/Predict.thy ===== *)
theory Predict
  imports Graph_Decay
begin

text \<open>
  core/predict: scoring and ranking the transitions of a state. Scores are real numbers where
  the source computes in float64. The comparator of \<open>sort.Slice\<close> is the order of the type
  \<open>rank\<close>, and the sum over a directory histogram is a fold in the order in which the map is
  visited, in 64-bit arithmetic.
\<close>

record scoreParams =
  p_halfLife :: duration
  p_alpha :: real
  p_beta :: real
  p_gamma :: real
  p_delta :: real
  p_epsilon :: real
  p_cwd :: string
  p_priorOutcome :: outcome
  p_at :: gotime

record scoreBreakdown =
  b_Next :: string
  b_Count :: int
  b_DecayWeight :: real
  b_CWDAffinity :: real
  b_PriorAffinity :: real
  b_AcceptRate :: real
  b_FailureRate :: real
  b_EffCount :: real
  b_Score :: real

record scoredTransition =
  st_next :: string
  st_count :: int
  st_score :: real

subsection \<open>Affinities and rates\<close>

definition underCWD :: "string \<Rightarrow> string \<Rightarrow> bool" where
  "underCWD queryCWD cwd \<longleftrightarrow> cwd = queryCWD \<or> HasPrefix queryCWD (cwd @ ''/'')"

definition matchedCount :: "string \<Rightarrow> (string \<times> int) list \<Rightarrow> int" where
  "matchedCount queryCWD cwds =
     fold (\<lambda>(cwd, c) matched. if underCWD queryCWD cwd then wrap64 (matched + c) else matched) cwds 0"

definition cwdAffinity :: "(string \<times> int) list \<Rightarrow> int \<Rightarrow> string \<Rightarrow> real" where
  "cwdAffinity cwds cnt queryCWD =
     (if queryCWD = [] \<or> cnt = 0 \<or> length cwds = 0 then 0
      else let matched = matchedCount queryCWD cwds;
               matched' = (if cnt < matched then cnt else matched)
           in real_of_int matched' / real_of_int cnt)"

definition priorAffinity :: "transition \<Rightarrow> outcome \<Rightarrow> real" where
  "priorAffinity t prior =
     (if t_Count t = 0 then 0
      else if prior = OutcomeSuccess \<or> prior = OutcomeFailure then
        (let match = (if prior = OutcomeSuccess then t_PriorSuccess t else t_PriorFailure t);
             match' = (if t_Count t < match then t_Count t else match)
         in real_of_int match' / real_of_int (t_Count t))
      else 0)"

definition failureRate :: "transition \<Rightarrow> real" where
  "failureRate t =
     (let total = wrap64 (t_NextSuccess t + t_NextFailure t)
      in if total = 0 then 0 else real_of_int (t_NextFailure t) / real_of_int total)"

definition acceptRate :: "transition \<Rightarrow> real" where
  "acceptRate t =
     (let rate = real_of_int (t_Accepted t) / real_of_int (t_Count t)
      in if 1 < rate then 1 else rate)"

subsection \<open>One transition\<close>

definition breakdownOf :: "scoreParams \<Rightarrow> transition \<Rightarrow> scoreBreakdown" where
  \<comment> \<open>the body of the first loop, before the final score is known\<close>
  "breakdownOf p t =
     (let age = Sub (p_at p) (t_LastSeen t);
          weight = decayFactor age (p_halfLife p);
          eff0 = real_of_int (t_Count t) * weight;
          (aff, eff1) =
            (if 0 < p_beta p
             then let a = cwdAffinity (t_CWDs t) (t_Count t) (p_cwd p) in (a, eff0 * (1 + p_beta p * a))
             else (0, eff0));
          (prior, eff2) =
            (if 0 < p_delta p \<and> p_priorOutcome p \<noteq> OutcomeUnknown
             then let a = priorAffinity t (p_priorOutcome p) in (a, eff1 * (1 + p_delta p * a))
             else (0, eff1));
          (acc, eff3) =
            (if 0 < p_epsilon p \<and> 0 < t_Count t
             then let r = acceptRate t in (r, eff2 * (1 + p_epsilon p * r))
             else (0, eff2));
          (fail, eff4) =
            (if 0 < p_gamma p
             then let r = failureRate t in (r, eff3 * (1 - p_gamma p * r))
             else (0, eff3))
      in \<lparr>b_Next = t_Next t, b_Count = t_Count t, b_DecayWeight = weight, b_CWDAffinity = aff,
          b_PriorAffinity = prior, b_AcceptRate = acc, b_FailureRate = fail,
          b_EffCount = eff4, b_Score = 0\<rparr>)"

subsection \<open>Ranking\<close>

text \<open>The order of the comparator: higher score first, then higher count, then the smaller name.\<close>

datatype rank = Rank (rankScore: real) (rankCount: int) (rankNext: string)

instantiation rank :: linorder
begin

definition less_rank :: "rank \<Rightarrow> rank \<Rightarrow> bool" where
  "less_rank a b \<longleftrightarrow>
     (if rankScore a \<noteq> rankScore b then rankScore b < rankScore a
      else if rankCount a \<noteq> rankCount b then rankCount b < rankCount a
      else rankNext a < rankNext b)"

definition less_eq_rank :: "rank \<Rightarrow> rank \<Rightarrow> bool" where
  "less_eq_rank a b \<longleftrightarrow> a < b \<or> a = (b :: rank)"

instance
proof
  fix a b c :: rank
  show "(a < b) = (a \<le> b \<and> \<not> b \<le> a)"
    by (auto simp: less_rank_def less_eq_rank_def split: if_splits)
  show "a \<le> a" by (simp add: less_eq_rank_def)
  show "a \<le> b \<Longrightarrow> b \<le> c \<Longrightarrow> a \<le> c"
    by (auto simp: less_rank_def less_eq_rank_def split: if_splits)
  show "a \<le> b \<Longrightarrow> b \<le> a \<Longrightarrow> a = b"
    by (auto simp: less_rank_def less_eq_rank_def split: if_splits)
  show "a \<le> b \<or> b \<le> a"
    by (cases a; cases b) (auto simp: less_rank_def less_eq_rank_def)
qed

end

definition rankOf :: "scoreBreakdown \<Rightarrow> rank" where
  "rankOf b = Rank (b_Score b) (b_Count b) (b_Next b)"

definition totalEff :: "scoreBreakdown list \<Rightarrow> real" where
  "totalEff bs = fold (\<lambda>b total. total + b_EffCount b) bs 0"

definition scoreTransitionsDetailed :: "transition list \<Rightarrow> scoreParams \<Rightarrow> scoreBreakdown list" where
  "scoreTransitionsDetailed transitions p =
     (if transitions = [] then []
      else let breakdowns = map (breakdownOf p) transitions;
               denom = totalEff breakdowns + p_alpha p * real (length transitions)
           in if denom \<le> 0 then []
              else sort_key rankOf
                (map (\<lambda>b. b\<lparr>b_Score := (b_EffCount b + p_alpha p) / denom\<rparr>) breakdowns))"

definition scoreTransitions :: "transition list \<Rightarrow> scoreParams \<Rightarrow> scoredTransition list" where
  "scoreTransitions transitions p =
     map (\<lambda>b. \<lparr>st_next = b_Next b, st_count = b_Count b, st_score = b_Score b\<rparr>)
       (scoreTransitionsDetailed transitions p)"

subsection \<open>The predictor\<close>

record predictor =
  pr_g :: graph
  pr_halfLife :: duration
  pr_alpha :: real
  pr_beta :: real
  pr_gamma :: real
  pr_delta :: real
  pr_epsilon :: real

definition NewPredictor ::
  "graph \<Rightarrow> duration \<Rightarrow> real \<Rightarrow> real \<Rightarrow> real \<Rightarrow> real \<Rightarrow> real \<Rightarrow> predictor" where
  "NewPredictor g hl a b c d e =
     \<lparr>pr_g = g, pr_halfLife = hl, pr_alpha = a, pr_beta = b, pr_gamma = c, pr_delta = d,
      pr_epsilon = e\<rparr>"

definition paramsFor :: "predictor \<Rightarrow> state \<Rightarrow> gotime \<Rightarrow> scoreParams" where
  \<comment> \<open>\<open>Predictor.scoreParams\<close>\<close>
  "paramsFor pr s tm =
     \<lparr>p_halfLife = pr_halfLife pr, p_alpha = pr_alpha pr, p_beta = pr_beta pr, p_gamma = pr_gamma pr,
      p_delta = pr_delta pr, p_epsilon = pr_epsilon pr, p_cwd = s_CWD s,
      p_priorOutcome = s_PriorOutcome s, p_at = tm\<rparr>"

definition stateTemplates :: "state \<Rightarrow> string list" where
  "stateTemplates s =
     (if s_CWD s \<noteq> [] then [s_CWD s] else []) @ map c_Template (s_Previous s)"

definition capTo :: "int \<Rightarrow> 'a list \<Rightarrow> 'a list" where
  "capTo limit xs = (if 0 < limit \<and> limit < int (length xs) then take (nat limit) xs else xs)"

definition PredictOn :: "predictor \<Rightarrow> state \<Rightarrow> gotime \<Rightarrow> int \<Rightarrow> suggestion list" where
  "PredictOn pr s tm limit =
     (let transitions = Transitions (pr_g pr) (stateTemplates s) in
      if transitions = [] then []
      else map (\<lambda>x. \<lparr>g_Template = st_next x, g_Raw = [], g_Score = st_score x, g_Count = st_count x\<rparr>)
             (capTo limit (scoreTransitions transitions (paramsFor pr s tm))))"

definition Explain :: "predictor \<Rightarrow> state \<Rightarrow> gotime \<Rightarrow> int \<Rightarrow> scoreBreakdown list" where
  "Explain pr s tm limit =
     (let transitions = Transitions (pr_g pr) (stateTemplates s) in
      if transitions = [] then []
      else capTo limit (scoreTransitionsDetailed transitions (paramsFor pr s tm)))"

subsection \<open>Signals are fractions\<close>

text \<open>
  Transitions whose counters are those of a sane history: counted at least once, nothing
  negative, and the two sums the scorer forms below the 64-bit bound.
\<close>

definition scorable :: "transition \<Rightarrow> bool" where
  "scorable t \<longleftrightarrow> 0 < t_Count t \<and> 0 \<le> t_NextSuccess t \<and> 0 \<le> t_NextFailure t
     \<and> 0 \<le> t_PriorSuccess t \<and> 0 \<le> t_PriorFailure t \<and> 0 \<le> t_Accepted t
     \<and> (\<forall>(cwd, c)\<in>set (t_CWDs t). 0 \<le> c)
     \<and> t_NextSuccess t + t_NextFailure t \<le> maxInt64
     \<and> sum_list (map snd (t_CWDs t)) \<le> maxInt64"

definition paramsOk :: "scoreParams \<Rightarrow> bool" where
  "paramsOk p \<longleftrightarrow> 0 < p_halfLife p \<and> 0 < p_alpha p \<and> p_gamma p \<le> 1"

lemma matchedCount_sum:
  assumes "\<forall>(cwd, c)\<in>set cwds. 0 \<le> c" "sum_list (map snd cwds) \<le> maxInt64"
  shows "matchedCount q cwds = sum_list (map snd (filter (\<lambda>(cwd, c). underCWD q cwd) cwds))"
proof -
  have "0 \<le> m \<Longrightarrow> \<forall>(cwd, c)\<in>set cwds. 0 \<le> c \<Longrightarrow> m + sum_list (map snd cwds) \<le> maxInt64 \<Longrightarrow>
      fold (\<lambda>(cwd, c) matched. if underCWD q cwd then wrap64 (matched + c) else matched) cwds m
        = m + sum_list (map snd (filter (\<lambda>(cwd, c). underCWD q cwd) cwds))" for m cwds
  proof (induction cwds arbitrary: m)
    case (Cons x cwds)
    obtain cwd c where x: "x = (cwd, c)" by (cases x)
    have nn: "0 \<le> sum_list (map snd cwds)" "0 \<le> c"
      using Cons.prems(2) x by (auto 0 3 intro!: sum_list_nonneg)
    have "wrap64 (m + c) = m + c" using Cons.prems nn by (intro wrap64_id) (simp_all add: x)
    then show ?case
      using Cons.IH [of "m + c"] Cons.IH [of m] Cons.prems nn by (simp add: x)
  qed simp
  from this [of 0 cwds] assms show ?thesis by (simp add: matchedCount_def)
qed

lemma matchedCount_nonneg:
  assumes "\<forall>(cwd, c)\<in>set cwds. 0 \<le> c" "sum_list (map snd cwds) \<le> maxInt64"
  shows "0 \<le> matchedCount q cwds"
  unfolding matchedCount_sum [OF assms] using assms(1) by (auto 0 3 intro!: sum_list_nonneg)

definition fraction :: "real \<Rightarrow> bool" where
  "fraction x \<longleftrightarrow> 0 \<le> x \<and> x \<le> 1"

lemma fraction_div: "0 \<le> a \<Longrightarrow> a \<le> b \<Longrightarrow> fraction (real_of_int a / real_of_int b)"
  by (cases "b = 0") (simp_all add: fraction_def divide_le_eq_1)

lemma fraction_consts [simp]: "fraction 0" "fraction 1"
  by (simp_all add: fraction_def)

lemma cwdAffinity_fraction: "scorable t \<Longrightarrow> fraction (cwdAffinity (t_CWDs t) (t_Count t) q)"
  using matchedCount_nonneg [of "t_CWDs t" q]
  by (auto simp: cwdAffinity_def scorable_def Let_def intro!: fraction_div)

lemma priorAffinity_fraction: "scorable t \<Longrightarrow> fraction (priorAffinity t prior)"
  by (auto simp: priorAffinity_def scorable_def Let_def intro!: fraction_div)

lemma failureRate_fraction: "scorable t \<Longrightarrow> fraction (failureRate t)"
  by (auto simp: failureRate_def scorable_def Let_def simp del: of_int_add intro!: fraction_div)

lemma acceptRate_fraction: "scorable t \<Longrightarrow> fraction (acceptRate t)"
  by (auto simp: acceptRate_def scorable_def fraction_def Let_def)

lemmas signal_fractions =
  cwdAffinity_fraction priorAffinity_fraction failureRate_fraction acceptRate_fraction

subsection \<open>The breakdown of one transition\<close>

lemma breakdownOf_fields [simp]:
  "b_Next (breakdownOf p t) = t_Next t" "b_Count (breakdownOf p t) = t_Count t"
  "b_DecayWeight (breakdownOf p t) = decayFactor (Sub (p_at p) (t_LastSeen t)) (p_halfLife p)"
  "b_CWDAffinity (breakdownOf p t)
     = (if 0 < p_beta p then cwdAffinity (t_CWDs t) (t_Count t) (p_cwd p) else 0)"
  "b_PriorAffinity (breakdownOf p t)
     = (if 0 < p_delta p \<and> p_priorOutcome p \<noteq> OutcomeUnknown
        then priorAffinity t (p_priorOutcome p) else 0)"
  "b_AcceptRate (breakdownOf p t) = (if 0 < p_epsilon p \<and> 0 < t_Count t then acceptRate t else 0)"
  "b_FailureRate (breakdownOf p t) = (if 0 < p_gamma p then failureRate t else 0)"
  by (simp_all add: breakdownOf_def Let_def)

lemma breakdown_eff:
  "b_EffCount (breakdownOf p t) =
     real_of_int (t_Count t) * b_DecayWeight (breakdownOf p t)
     * (1 + p_beta p * b_CWDAffinity (breakdownOf p t))
     * (1 + p_delta p * b_PriorAffinity (breakdownOf p t))
     * (1 + p_epsilon p * b_AcceptRate (breakdownOf p t))
     * (1 - p_gamma p * b_FailureRate (breakdownOf p t))"
  unfolding breakdownOf_fields
  by (simp add: breakdownOf_def Let_def)

lemma breakdown_fractions:
  assumes "scorable t"
  shows "fraction (b_CWDAffinity (breakdownOf p t))" "fraction (b_PriorAffinity (breakdownOf p t))"
    "fraction (b_AcceptRate (breakdownOf p t))" "fraction (b_FailureRate (breakdownOf p t))"
  using signal_fractions [OF assms] by simp_all

lemma boost_ge_1: "fraction a \<Longrightarrow> (c \<le> 0 \<Longrightarrow> a = 0) \<Longrightarrow> 1 \<le> 1 + c * a"
  by (cases "c \<le> 0") (auto simp: fraction_def)

lemma suppress_nonneg: "fraction a \<Longrightarrow> (c \<le> 0 \<Longrightarrow> a = 0) \<Longrightarrow> c \<le> 1 \<Longrightarrow> 0 \<le> 1 - c * a"
  using mult_le_one [of c a] by (cases "c \<le> 0") (auto simp: fraction_def)

lemma eff_nonneg:
  assumes "scorable t" "p_gamma p \<le> 1"
  shows "0 \<le> b_EffCount (breakdownOf p t)"
proof -
  note f = breakdown_fractions [OF assms(1), of p]
  have "1 \<le> 1 + p_beta p * b_CWDAffinity (breakdownOf p t)"
    by (rule boost_ge_1 [OF f(1)]) simp
  moreover have "1 \<le> 1 + p_delta p * b_PriorAffinity (breakdownOf p t)"
    by (rule boost_ge_1 [OF f(2)]) simp
  moreover have "1 \<le> 1 + p_epsilon p * b_AcceptRate (breakdownOf p t)"
    by (rule boost_ge_1 [OF f(3)]) simp
  moreover have "0 \<le> 1 - p_gamma p * b_FailureRate (breakdownOf p t)"
    by (rule suppress_nonneg [OF f(4) _ assms(2)]) simp
  moreover have "0 \<le> real_of_int (t_Count t)" "0 \<le> b_DecayWeight (breakdownOf p t)"
    using assms(1) by (simp_all add: scorable_def less_imp_le)
  ultimately show ?thesis
    unfolding breakdown_eff by (intro mult_nonneg_nonneg) linarith+
qed

text \<open>The four signals of a breakdown are fractions between 0 and 1, its decay weight is
  positive, and its effective count is the documented product: count times decay times one
  factor per signal, where a disabled or absent signal is 0 and its factor 1.\<close>

theorem breakdown_formula:
  assumes "scorable t"
  shows "b_EffCount (breakdownOf p t) =
       real_of_int (t_Count t) * b_DecayWeight (breakdownOf p t)
       * (1 + p_beta p * b_CWDAffinity (breakdownOf p t))
       * (1 + p_delta p * b_PriorAffinity (breakdownOf p t))
       * (1 + p_epsilon p * b_AcceptRate (breakdownOf p t))
       * (1 - p_gamma p * b_FailureRate (breakdownOf p t))
     \<and> 0 < b_DecayWeight (breakdownOf p t)
     \<and> fraction (b_CWDAffinity (breakdownOf p t)) \<and> fraction (b_PriorAffinity (breakdownOf p t))
     \<and> fraction (b_AcceptRate (breakdownOf p t)) \<and> fraction (b_FailureRate (breakdownOf p t))"
  using breakdown_eff breakdown_fractions [OF assms] by simp

subsection \<open>The ranking\<close>

lemma totalEff_sum: "totalEff bs = sum_list (map b_EffCount bs)"
proof -
  have "fold (\<lambda>b total. total + b_EffCount b) bs x = x + sum_list (map b_EffCount bs)" for x
    by (induction bs arbitrary: x) simp_all
  then show ?thesis by (simp add: totalEff_def)
qed

definition denomOf :: "transition list \<Rightarrow> scoreParams \<Rightarrow> real" where
  "denomOf ts p = totalEff (map (breakdownOf p) ts) + p_alpha p * real (length ts)"

definition finalOf :: "scoreParams \<Rightarrow> real \<Rightarrow> transition \<Rightarrow> scoreBreakdown" where
  "finalOf p denom t =
     (breakdownOf p t)\<lparr>b_Score := (b_EffCount (breakdownOf p t) + p_alpha p) / denom\<rparr>"

lemma scoreTransitionsDetailed_eq:
  "scoreTransitionsDetailed ts p =
     (if ts = [] \<or> denomOf ts p \<le> 0 then []
      else sort_key rankOf (map (finalOf p (denomOf ts p)) ts))"
  by (simp add: scoreTransitionsDetailed_def denomOf_def finalOf_def [abs_def] Let_def comp_def)

lemma denomOf_pos:
  assumes "paramsOk p" "ts \<noteq> []" "\<forall>t\<in>set ts. scorable t"
  shows "0 < denomOf ts p"
proof -
  have "0 \<le> totalEff (map (breakdownOf p) ts)"
    unfolding totalEff_sum using assms eff_nonneg [of _ p]
    by (auto simp: paramsOk_def comp_def intro!: sum_list_nonneg)
  moreover have "0 < p_alpha p * real (length ts)" using assms by (simp add: paramsOk_def)
  ultimately show ?thesis by (simp add: denomOf_def)
qed

lemma sum_list_sort_key: "sum_list (map f (sort_key k xs)) = sum_list (map f xs)"
  for f :: "'a \<Rightarrow> real"
  by (simp flip: sum_mset_sum_list)

lemma denomOf_sum: "denomOf ts p = sum_list (map (\<lambda>t. b_EffCount (breakdownOf p t) + p_alpha p) ts)"
  by (simp add: denomOf_def totalEff_sum sum_list_addf comp_def sum_list_triv)

lemma member_le_sum_list_real:
  "x \<in> set xs \<Longrightarrow> \<forall>y\<in>set xs. 0 \<le> f y \<Longrightarrow> f x \<le> sum_list (map f xs)" for f :: "'a \<Rightarrow> real"
proof (induction xs)
  case (Cons y ys)
  have "0 \<le> sum_list (map f ys)" using Cons.prems(2) by (auto intro!: sum_list_nonneg)
  then show ?case using Cons by auto
qed simp

lemma sum_list_divide_real: "sum_list (map (\<lambda>x. f x / d) xs) = sum_list (map f xs) / d"
  for f :: "'a \<Rightarrow> real"
  by (induction xs) (simp_all add: add_divide_distrib)

text \<open>C19: The scores of the candidates form a probability distribution: each is above 0 and at
  most 1, together they make 1, and every transition of the state is a candidate.\<close>

theorem scores_distribution:
  assumes "paramsOk p" "ts \<noteq> []" "\<forall>t\<in>set ts. scorable t"
  shows "sum_list (map b_Score (scoreTransitionsDetailed ts p)) = 1
    \<and> (\<forall>b\<in>set (scoreTransitionsDetailed ts p). 0 < b_Score b \<and> b_Score b \<le> 1)
    \<and> mset (map b_Next (scoreTransitionsDetailed ts p)) = mset (map t_Next ts)"
proof (intro conjI)
  let ?d = "denomOf ts p" and ?f = "\<lambda>t. b_EffCount (breakdownOf p t) + p_alpha p"
  have d: "0 < ?d" by (rule denomOf_pos [OF assms])
  then have eq: "scoreTransitionsDetailed ts p = sort_key rankOf (map (finalOf p ?d) ts)"
    using assms(2) by (simp add: scoreTransitionsDetailed_eq)
  have f: "0 < ?f t" if "t \<in> set ts" for t
    using eff_nonneg [of t p] assms that by (auto simp: paramsOk_def add_nonneg_pos)
  have "sum_list (map b_Score (scoreTransitionsDetailed ts p)) = sum_list (map (\<lambda>t. ?f t / ?d) ts)"
    by (simp add: eq sum_list_sort_key finalOf_def comp_def)
  also have "\<dots> = sum_list (map ?f ts) / ?d" by (rule sum_list_divide_real)
  also have "\<dots> = 1" using d by (simp only: denomOf_sum) simp
  finally show "sum_list (map b_Score (scoreTransitionsDetailed ts p)) = 1" .
  show "\<forall>b\<in>set (scoreTransitionsDetailed ts p). 0 < b_Score b \<and> b_Score b \<le> 1"
  proof
    fix b assume "b \<in> set (scoreTransitionsDetailed ts p)"
    then obtain t where t: "t \<in> set ts" "b_Score b = ?f t / ?d" by (auto simp: eq finalOf_def)
    have "?f t \<le> ?d"
      unfolding denomOf_sum by (rule member_le_sum_list_real) (use t(1) f less_imp_le in blast)+
    then show "0 < b_Score b \<and> b_Score b \<le> 1" using d f [OF t(1)] t(2) by simp
  qed
  show "mset (map b_Next (scoreTransitionsDetailed ts p)) = mset (map t_Next ts)"
    by (simp add: eq finalOf_def multiset.map_comp comp_def)
qed

lemma finalOf_fields [simp]:
  "b_Next (finalOf p d t) = t_Next t" "b_Count (finalOf p d t) = t_Count t"
  "b_EffCount (finalOf p d t) = b_EffCount (breakdownOf p t)"
  "b_Score (finalOf p d t) = (b_EffCount (breakdownOf p t) + p_alpha p) / d"
  by (simp_all add: finalOf_def)

definition demoParams :: scoreParams where
  "demoParams = \<lparr>p_halfLife = 10, p_alpha = 1, p_beta = 1, p_gamma = 1 / 2, p_delta = 1,
     p_epsilon = 1, p_cwd = ''/p/src'', p_priorOutcome = OutcomeFailure, p_at = 15\<rparr>"

definition demoTs :: "transition list" where
  "demoTs = [entryToTransition [''a''] ''b'' (recordEntry demoObs entry0),
     entryToTransition [''a''] ''c'' ((recordEntry demoObs entry0)\<lparr>e_count := 3\<rparr>)]"

lemma demoTs_ok: "paramsOk demoParams" "demoTs \<noteq> []" "\<forall>t\<in>set demoTs. scorable t"
  by (simp_all add: paramsOk_def demoParams_def demoTs_def scorable_def entryToTransition_def demoEntry)

lemma demoTs_next [simp]: "map t_Next demoTs = [''b'', ''c'']"
  by (simp add: demoTs_def entryToTransition_def)

theorem scores_distribution_witness:
  "sum_list (map b_Score (scoreTransitionsDetailed demoTs demoParams)) = 1
     \<and> mset (map b_Next (scoreTransitionsDetailed demoTs demoParams)) = mset [''b'', ''c'']"
  using scores_distribution [OF demoTs_ok] by simp

theorem breakdown_formula_witness:
  "fraction (b_CWDAffinity (breakdownOf demoParams (hd demoTs)))
     \<and> 0 < b_DecayWeight (breakdownOf demoParams (hd demoTs))"
  using breakdown_formula [of "hd demoTs" demoParams] demoTs_ok by simp

lemma rankOf_inj: "distinct (map b_Next bs) \<Longrightarrow> distinct (map rankOf bs)"
  by (induction bs) (auto simp: rankOf_def)

definition ranksBefore :: "scoreBreakdown \<Rightarrow> scoreBreakdown \<Rightarrow> bool" where
  "ranksBefore a b \<longleftrightarrow> b_Score b < b_Score a
     \<or> b_Score a = b_Score b \<and> (b_Count b < b_Count a \<or> b_Count a = b_Count b \<and> b_Next a < b_Next b)"

lemma ranksBefore_rank: "ranksBefore a b \<longleftrightarrow> rankOf a < rankOf b"
  by (auto simp: ranksBefore_def rankOf_def less_rank_def)

lemma sorted_ranking:
  assumes "distinct (map t_Next ts)"
  shows "sorted_wrt ranksBefore (scoreTransitionsDetailed ts p)"
proof -
  let ?bs = "sort_key rankOf (map (finalOf p (denomOf ts p)) ts)"
  have "distinct (map b_Next (map (finalOf p (denomOf ts p)) ts))"
    using assms by (metis (no_types, lifting) finalOf_fields(1) list.map_comp list.map_cong comp_apply)
  then have "distinct (map rankOf (map (finalOf p (denomOf ts p)) ts))" by (rule rankOf_inj)
  then have "distinct (map rankOf ?bs)" by (metis mset_eq_imp_distinct_iff mset_map mset_sort)
  then have "sorted_wrt (<) (map rankOf ?bs)" by (simp add: strict_sorted_iff)
  then have "sorted_wrt ranksBefore ?bs" by (simp add: sorted_wrt_map ranksBefore_rank [abs_def])
  then show ?thesis by (simp add: scoreTransitionsDetailed_eq)
qed

lemma sorted_unique:
  assumes "mset bs = mset cs" "sorted_wrt ranksBefore bs" "sorted_wrt ranksBefore cs"
  shows "bs = cs"
proof -
  have "sorted_wrt (<) (map rankOf bs)" "sorted_wrt (<) (map rankOf cs)"
    using assms(2,3) by (simp_all add: sorted_wrt_map ranksBefore_rank [abs_def])
  then have s: "sorted (map rankOf bs)" "sorted (map rankOf cs)" "distinct (map rankOf bs)" by (simp_all add: strict_sorted_iff)
  have "sort_key rankOf bs = bs" "sort_key rankOf cs = cs" using s(1,2) by (simp_all add: sort_key_id_if_sorted)
  then show ?thesis using sort_key_perm [OF assms(1) s(3)] by metis
qed

text \<open>C20: The candidates come best first: each with the score its effective count, the smoothing and the total give it,
  the higher score before the lower, among equal scores the higher count, among equal counts the name
  that comes first. No two are left tied, so there is only one such order of them: a sorting routine
  that is not stable (\<open>sort.Slice\<close>) has no choice.\<close>

theorem ranking_canonical:
  assumes "distinct (map t_Next ts)" "bs = scoreTransitionsDetailed ts p" "paramsOk p" "\<forall>t\<in>set ts. scorable t"
    and denom: "denom = (\<Sum>t\<leftarrow>ts. b_EffCount (breakdownOf p t)) + p_alpha p * real (length ts)"
  shows "mset bs = mset (map (\<lambda>t. (breakdownOf p t)\<lparr>b_Score := (b_EffCount (breakdownOf p t) + p_alpha p) / denom\<rparr>) ts)
    \<and> (\<forall>i j. i < j \<and> j < length bs \<longrightarrow>
         b_Score (bs ! j) < b_Score (bs ! i)
       \<or> b_Score (bs ! i) = b_Score (bs ! j) \<and> b_Count (bs ! j) < b_Count (bs ! i)
       \<or> b_Score (bs ! i) = b_Score (bs ! j) \<and> b_Count (bs ! i) = b_Count (bs ! j) \<and> b_Next (bs ! i) < b_Next (bs ! j))
    \<and> (\<forall>cs. mset cs = mset bs \<and> sorted_wrt ranksBefore cs \<longrightarrow> cs = bs)"
proof -
  have srt: "sorted_wrt ranksBefore bs" using sorted_ranking [OF assms(1)] assms(2) by simp
  have "denom = denomOf ts p" by (simp add: denom denomOf_def totalEff_sum comp_def)
  moreover have "ts = [] \<or> 0 < denomOf ts p" using denomOf_pos [OF assms(3) _ assms(4)] by blast
  ultimately have "mset bs = mset (map (\<lambda>t. (breakdownOf p t)\<lparr>b_Score := (b_EffCount (breakdownOf p t) + p_alpha p) / denom\<rparr>) ts)"
    unfolding assms(2) by (auto simp: scoreTransitionsDetailed_eq finalOf_def [abs_def])
  moreover have "\<forall>i j. i < j \<and> j < length bs \<longrightarrow> ranksBefore (bs ! i) (bs ! j)"
    using srt by (simp add: sorted_wrt_iff_nth_less)
  ultimately show ?thesis using sorted_unique srt unfolding ranksBefore_def by blast
qed

theorem ranking_canonical_witness:
  "map b_Next (scoreTransitionsDetailed [(hd demoTs)\<lparr>t_Next := ''c''\<rparr>, hd demoTs] demoParams) = [''b'', ''c'']"
proof -
  let ?c = "(hd demoTs)\<lparr>t_Next := ''c''\<rparr>" and ?b = "hd demoTs"
  define bs where "bs = scoreTransitionsDetailed [?c, ?b] demoParams"
  let ?f = "\<lambda>t. (breakdownOf demoParams t)\<lparr>b_Score := (b_EffCount (breakdownOf demoParams t) + p_alpha demoParams)
      / ((\<Sum>t\<leftarrow>[?c, ?b]. b_EffCount (breakdownOf demoParams t)) + p_alpha demoParams * real (length [?c, ?b]))\<rparr>"
  have next_b: "t_Next ?b = ''b''" by (simp add: demoTs_def entryToTransition_def)
  have ok: "scorable ?b" using demoTs_ok by simp
  then have ok: "scorable ?b" "scorable ?c" by (simp_all add: scorable_def)
  have d: "distinct (map t_Next [?c, ?b])" and sc: "\<forall>t\<in>set [?c, ?b]. scorable t" using ok next_b by simp_all
  note facts = ranking_canonical [OF d bs_def demoTs_ok(1) sc refl]
  have m: "mset bs = {#?f ?c, ?f ?b#}" using facts by simp
  have rates: "failureRate ?c = failureRate ?b" "acceptRate ?c = acceptRate ?b" "priorAffinity ?c = priorAffinity ?b"
    by (simp_all add: failureRate_def acceptRate_def priorAffinity_def [abs_def] Let_def fun_eq_iff)
  have same: "b_EffCount (breakdownOf demoParams ?c) = b_EffCount (breakdownOf demoParams ?b)"
    unfolding breakdown_eff breakdownOf_fields rates by simp
  have len: "length bs = 2" using arg_cong [OF m, of size] by simp
  then obtain x y where bs: "bs = [x, y]" by (auto simp: length_Suc_conv numeral_2_eq_2)
  have "set bs = {?f ?c, ?f ?b}" using arg_cong [OF m, of set_mset] by simp
  then have "x = ?f ?c \<and> y = ?f ?b \<or> x = ?f ?b \<and> y = ?f ?c" unfolding bs by (simp add: doubleton_eq_iff)
  moreover have "b_Score (bs ! 1) < b_Score (bs ! 0)
       \<or> b_Score (bs ! 0) = b_Score (bs ! 1) \<and> b_Count (bs ! 1) < b_Count (bs ! 0)
       \<or> b_Score (bs ! 0) = b_Score (bs ! 1) \<and> b_Count (bs ! 0) = b_Count (bs ! 1) \<and> b_Next (bs ! 0) < b_Next (bs ! 1)"
    using facts len by simp
  ultimately have "b_Next x = ''b'' \<and> b_Next y = ''c''" using bs same next_b by (auto simp: less_char_def)
  then show ?thesis unfolding bs_def [symmetric] bs by simp
qed

text \<open>Recency: of two transitions with the same counters and signals, the one seen later has
  the higher effective count; seen exactly one half-life later, exactly twice as high.\<close>

theorem recency:
  assumes "scorable t" "paramsOk p" "u = t\<lparr>t_LastSeen := s\<rparr>" "t_LastSeen t \<le> s"
  shows "b_EffCount (breakdownOf p t) \<le> b_EffCount (breakdownOf p u)
    \<and> (Sub (p_at p) (t_LastSeen t) = Sub (p_at p) s + p_halfLife p \<longrightarrow>
         b_EffCount (breakdownOf p u) = 2 * b_EffCount (breakdownOf p t))"
proof -
  obtain r where r: "r = b_EffCount (breakdownOf p t) / b_DecayWeight (breakdownOf p t)" by simp
  let ?w = "\<lambda>x. decayFactor (Sub (p_at p) x) (p_halfLife p)"
  have same: "failureRate u = failureRate t" "priorAffinity u = priorAffinity t"
      "acceptRate u = acceptRate t"
    by (simp_all add: assms(3) failureRate_def priorAffinity_def [abs_def] acceptRate_def
        Let_def fun_eq_iff)
  have t: "b_EffCount (breakdownOf p t) = ?w (t_LastSeen t) * r"
    by (simp add: r)
  have u: "b_EffCount (breakdownOf p u) = ?w s * r"
    unfolding r breakdown_eff breakdownOf_fields same by (simp add: assms(3))
  have "0 \<le> r"
    unfolding r using eff_nonneg [OF assms(1), of p] assms(2) by (simp add: paramsOk_def less_imp_le)
  moreover have "?w (t_LastSeen t) \<le> ?w s"
    by (rule decayFactor_antimono) (use assms(2,4) in \<open>auto simp: paramsOk_def Sub_def\<close>)
  ultimately have "b_EffCount (breakdownOf p t) \<le> b_EffCount (breakdownOf p u)"
    unfolding t u by (rule mult_right_mono [rotated])
  moreover have "?w s = 2 * ?w (t_LastSeen t)"
    if "Sub (p_at p) (t_LastSeen t) = Sub (p_at p) s + p_halfLife p"
    using assms(2) unfolding that decayFactor_powr paramsOk_def
    by (simp add: add_divide_distrib diff_divide_distrib powr_diff)
  ultimately show ?thesis unfolding t u by auto
qed

theorem recency_witness:
  "scorable (hd demoTs)
     \<and> b_EffCount (breakdownOf demoParams ((hd demoTs)\<lparr>t_LastSeen := 15\<rparr>))
         = 2 * b_EffCount (breakdownOf demoParams (hd demoTs))"
proof -
  have seen: "t_LastSeen (hd demoTs) = 5"
    by (simp add: demoTs_def entryToTransition_def demoEntry)
  have ok: "scorable (hd demoTs)" using demoTs_ok by simp
  show ?thesis
    using recency [OF ok demoTs_ok(1) refl, of 15] ok
    by (simp add: seen demoParams_def Sub_def)
qed

subsection \<open>Predictions\<close>

text \<open>Explain never tells another story than Predict: the suggestions are the explained
  candidates, in the same order, with the same counts and scores.\<close>

theorem Predict_matches_Explain:
  "PredictOn pr s tm limit =
     map (\<lambda>b. \<lparr>g_Template = b_Next b, g_Raw = [], g_Score = b_Score b, g_Count = b_Count b\<rparr>)
       (Explain pr s tm limit)"
  by (simp add: PredictOn_def Explain_def scoreTransitions_def capTo_def take_map comp_def Let_def)

text \<open>A limit only cuts the ranking off: the suggestions under a limit are the first ones of
  the unlimited ranking.\<close>

theorem Predict_limit: "PredictOn pr s tm limit = capTo limit (PredictOn pr s tm 0)"
  by (simp add: PredictOn_def capTo_def take_map Let_def)

lemma length_ranking:
  "length (scoreTransitionsDetailed ts p) \<le> length ts"
  by (simp add: scoreTransitionsDetailed_eq)

definition scorableGraph :: "graph \<Rightarrow> bool" where
  \<comment> \<open>no sum the scorer forms for an entry overflows\<close>
  "scorableGraph g \<longleftrightarrow> graphInv g \<and> (\<forall>sk nxt e. lookupEntry g sk nxt = Some e \<longrightarrow>
     e_nextSuccess e + e_nextFailure e \<le> maxInt64 \<and> sum_list (map snd (e_cwds e)) \<le> maxInt64)"

definition predictorOk :: "predictor \<Rightarrow> bool" where
  "predictorOk pr \<longleftrightarrow> 0 < pr_halfLife pr \<and> 0 < pr_alpha pr \<and> pr_gamma pr \<le> 1"

lemma Transitions_scorable:
  assumes "scorableGraph g"
  shows "\<forall>t\<in>set (Transitions g state). scorable t"
proof
  fix t assume t: "t \<in> set (Transitions g state)"
  have g: "graphInv g" using assms by (simp add: scorableGraph_def)
  from t obtain e where e: "lookupEntry g (stateKey state) (t_Next t) = Some e"
    "t = entryToTransition state (t_Next t) e"
    using Transitions_iff [OF graphInvD(1) [OF g]] by blast
  have inv: "entryInv e" using graphInvD(3) [OF g e(1)] .
  have "e_nextSuccess e + e_nextFailure e \<le> maxInt64 \<and> sum_list (map snd (e_cwds e)) \<le> maxInt64"
    using assms e(1) unfolding scorableGraph_def by blast
  with inv have "scorable (entryToTransition state (t_Next t) e)"
    by (simp add: scorable_def entryToTransition_def entryInv_def)
  then show "scorable t" using e(2) by simp
qed

lemma PredictOn_templates:
  assumes "scorableGraph (pr_g pr)" "predictorOk pr"
  shows "mset (map g_Template (PredictOn pr s tm 0))
    = mset (map t_Next (Transitions (pr_g pr) (stateTemplates s)))"
proof (cases "Transitions (pr_g pr) (stateTemplates s) = []")
  case False
  let ?ts = "Transitions (pr_g pr) (stateTemplates s)" and ?p = "paramsFor pr s tm"
  have "paramsOk ?p" using assms(2) by (simp add: paramsOk_def predictorOk_def paramsFor_def)
  then have "0 < denomOf ?ts ?p"
    using denomOf_pos False Transitions_scorable [OF assms(1)] by blast
  then show ?thesis
    using False by (simp add: PredictOn_def capTo_def scoreTransitions_def Let_def
        scoreTransitionsDetailed_eq multiset.map_comp comp_def)
qed (simp add: PredictOn_def)

text \<open>Every next command recorded under the queried state is suggested exactly once, and
  nothing else is: the unlimited suggestions are the successors the graph holds for the state
  key built from the directory and the previous templates.\<close>

theorem Predict_complete:
  assumes "scorableGraph (pr_g pr)" "predictorOk pr"
  shows "set (map g_Template (PredictOn pr s tm 0))
      = {nxt. lookupEntry (pr_g pr) (stateKey (stateTemplates s)) nxt \<noteq> None}
    \<and> distinct (map g_Template (PredictOn pr s tm 0))"
proof -
  let ?ts = "Transitions (pr_g pr) (stateTemplates s)"
  have wf: "tlWf (g_m (pr_g pr))"
    using assms(1) by (simp add: scorableGraph_def graphInv_def)
  have m: "mset (map g_Template (PredictOn pr s tm 0)) = mset (map t_Next ?ts)"
    by (rule PredictOn_templates [OF assms])
  have "t_Next ` set ?ts = {nxt. lookupEntry (pr_g pr) (stateKey (stateTemplates s)) nxt \<noteq> None}"
    (is "_ = ?n")
  proof
    show "t_Next ` set ?ts \<subseteq> ?n" using Transitions_iff [OF wf] by auto
    show "?n \<subseteq> t_Next ` set ?ts"
    proof
      fix nxt assume "nxt \<in> ?n"
      then obtain e where "lookupEntry (pr_g pr) (stateKey (stateTemplates s)) nxt = Some e" by auto
      then have "entryToTransition (stateTemplates s) nxt e \<in> set ?ts"
        by (simp add: Transitions_iff [OF wf] entryToTransition_def)
      then show "nxt \<in> t_Next ` set ?ts" by (force simp: entryToTransition_def)
    qed
  qed
  moreover have "distinct (map t_Next ?ts)" by (rule distinct_Transitions [OF wf])
  ultimately show ?thesis
    using mset_eq_setD [OF m] mset_eq_imp_distinct_iff [OF m] by simp
qed

definition demoPredictor :: "graph \<Rightarrow> predictor" where
  "demoPredictor g = NewPredictor g 10 1 1 (1 / 2) 1 1"

definition demoState :: state where
  "demoState = \<lparr>s_Previous = [commandOf ''git add PATH''], s_CWD = [], s_PriorOutcome = OutcomeUnknown\<rparr>"

lemma demoPredictor_ok [simp]: "predictorOk (demoPredictor g)" "pr_g (demoPredictor g) = g"
  by (simp_all add: predictorOk_def demoPredictor_def NewPredictor_def)

lemma demoState_key [simp]: "stateKey (stateTemplates demoState) = ''git add PATH''"
  by (simp add: demoState_def stateTemplates_def commandOf_def stateKey_def)

lemma demoGraph_scorable: "scorableGraph demoGraph"
  using graphInv_demoGraph by (simp add: scorableGraph_def lookup_demoGraph demoEntry)

theorem Predict_complete_witness:
  "scorableGraph demoGraph
     \<and> set (map g_Template (PredictOn (demoPredictor demoGraph) demoState 20 0))
         = {''git commit FLAG STR''}"
  using Predict_complete [of "demoPredictor demoGraph" demoState 20] demoGraph_scorable
  by (auto simp: lookup_demoGraph)

lemma learned_lookup:
  "o_Next obs \<noteq> [] \<Longrightarrow>
     lookupEntry (RecordObs obs g) (stateKey (o_State obs)) (o_Next obs) \<noteq> None"
  by (simp add: lookup_RecordObs)

text \<open>What is recorded is suggested: after one observation its next command is among the
  suggestions for every state that has the observation's state key.\<close>

theorem recorded_is_suggested:
  assumes "o_Next obs \<noteq> []" "pr_g pr = RecordObs obs g" "scorableGraph (RecordObs obs g)"
    and "predictorOk pr" "stateKey (stateTemplates s) = stateKey (o_State obs)"
  shows "o_Next obs \<in> set (map g_Template (PredictOn pr s tm 0))"
proof -
  have "mset (map g_Template (PredictOn pr s tm 0))
      = mset (map t_Next (Transitions (RecordObs obs g) (stateTemplates s)))"
    using PredictOn_templates [of pr s tm] assms by simp
  then have set_eq: "set (map g_Template (PredictOn pr s tm 0))
      = t_Next ` set (Transitions (RecordObs obs g) (stateTemplates s))"
    by (metis set_map set_mset_mset)
  have wf: "tlWf (g_m (RecordObs obs g))"
    using assms(3) by (simp add: scorableGraph_def graphInv_def)
  obtain e where "lookupEntry (RecordObs obs g) (stateKey (stateTemplates s)) (o_Next obs) = Some e"
    using learned_lookup [OF assms(1), of g] assms(5) by auto
  then have "entryToTransition (stateTemplates s) (o_Next obs) e
      \<in> set (Transitions (RecordObs obs g) (stateTemplates s))"
    by (simp add: Transitions_iff [OF wf] entryToTransition_def)
  then show ?thesis unfolding set_eq by (force simp: entryToTransition_def)
qed

theorem recorded_is_suggested_witness:
  "''git commit FLAG STR'' \<in> set (map g_Template (PredictOn (demoPredictor demoGraph) demoState 20 0))"
  using recorded_is_suggested [of demoObs "demoPredictor demoGraph" "New 2" demoState 20]
    demoGraph_scorable by (simp add: demoGraph_def)

subsection \<open>Outside the documented range\<close>

text \<open>With a failure suppression above 1 (the configuration does not check it) a score can be
  negative, against the documented bound.\<close>

lemma negative_score_above_one:
  "b_EffCount (breakdownOf
      \<lparr>p_halfLife = 10, p_alpha = 1, p_beta = 0, p_gamma = 2, p_delta = 0, p_epsilon = 0,
       p_cwd = [], p_priorOutcome = OutcomeUnknown, p_at = 0\<rparr>
      \<lparr>t_State = [], t_Next = ''make'', t_Count = 1, t_LastSeen = 0, t_CWDs = [],
       t_NextSuccess = 0, t_NextFailure = 1, t_PriorSuccess = 0, t_PriorFailure = 0,
       t_Accepted = 0\<rparr>) = - 1"
  by (simp add: breakdown_eff failureRate_def)

end
