(* ===== verification/Ipc.thy ===== *)
theory Ipc
  imports Predict
begin

text \<open>
  The messages of ipc/ipc.go. A request is the record the JSON decoder fills; a field that is
  absent from the message has its zero value. Encoding to and from JSON text is encoding/json's
  and has no model: handlers take and return these values. \<open>formatTime\<close> stands for
  \<open>Format(time.RFC3339)\<close> where a time becomes text.
\<close>

record rawExample =
  x_State :: "string list"
  x_Template :: string
  x_Raw :: string
  x_Count :: int
  x_LastSeen :: int

record request =
  q_Op :: string
  q_State :: "string list"
  q_Next :: string
  q_At :: string
  q_Prefix :: string
  q_Limit :: int
  q_RawExamples :: "rawExample list"
  q_CWD :: string
  q_Outcome :: string
  q_PriorOutcome :: string
  q_Suggested :: string
  q_SeedData :: string

definition request0 :: request where
  "request0 = \<lparr>q_Op = [], q_State = [], q_Next = [], q_At = [], q_Prefix = [], q_Limit = 0,
     q_RawExamples = [], q_CWD = [], q_Outcome = [], q_PriorOutcome = [], q_Suggested = [],
     q_SeedData = []\<rparr>"

record transitionJSON =
  tj_State :: "string list"
  tj_Next :: string
  tj_Count :: int
  tj_LastSeen :: string
  tj_CWDs :: "(string \<times> int) list"
  tj_NextSuccess :: int
  tj_NextFailure :: int
  tj_PriorSuccess :: int
  tj_PriorFailure :: int
  tj_Accepted :: int

record hydrationCandidateJSON =
  hc_Raw :: string
  hc_Score :: real

record scoreBreakdownJSON =
  bj_Next :: string
  bj_Count :: int
  bj_DecayWeight :: real
  bj_CWDAffinity :: real
  bj_PriorAffinity :: real
  bj_AcceptRate :: real
  bj_FailureRate :: real
  bj_EffCount :: real
  bj_Score :: real
  bj_HydrationCandidates :: "hydrationCandidateJSON list"

record explainResponse =
  ex_Level :: string
  ex_State :: "string list"
  ex_CWD :: string
  ex_MinConfidence :: real
  ex_MinCount :: int
  ex_Breakdown :: "scoreBreakdownJSON list"

record statsResponse =
  sr_Size :: nat
  sr_HalfLife :: duration
  sr_Alpha :: real
  sr_DBPath :: string

record configResponse =
  cr_AcceptKeys :: "string list"
  cr_ExtraParents :: "string list"
  cr_HalfLife :: duration
  cr_Alpha :: real

record normalizeResponse =
  nr_Raw :: string
  nr_Template :: string

text \<open>What a handler writes to the connection.\<close>

datatype response =
    OKResponse
  | ErrorResponse string
  | SuggestionsResponse "suggestion list"
  | TransitionsResponse "transitionJSON list"
  | ExplainResponse explainResponse
  | StatsResponse statsResponse
  | ConfigResponse configResponse
  | NormalizeResponse normalizeResponse

definition BreakdownFromPredict :: "scoreBreakdown list \<Rightarrow> scoreBreakdownJSON list" where
  "BreakdownFromPredict bs =
     map (\<lambda>b. \<lparr>bj_Next = b_Next b, bj_Count = b_Count b, bj_DecayWeight = b_DecayWeight b,
       bj_CWDAffinity = b_CWDAffinity b, bj_PriorAffinity = b_PriorAffinity b,
       bj_AcceptRate = b_AcceptRate b, bj_FailureRate = b_FailureRate b,
       bj_EffCount = b_EffCount b, bj_Score = b_Score b, bj_HydrationCandidates = []\<rparr>) bs"

definition TransitionFromGraph :: "(gotime \<Rightarrow> string) \<Rightarrow> transition \<Rightarrow> transitionJSON" where
  "TransitionFromGraph formatTime t =
     \<lparr>tj_State = t_State t, tj_Next = t_Next t, tj_Count = t_Count t,
      tj_LastSeen = formatTime (t_LastSeen t), tj_CWDs = t_CWDs t,
      tj_NextSuccess = t_NextSuccess t, tj_NextFailure = t_NextFailure t,
      tj_PriorSuccess = t_PriorSuccess t, tj_PriorFailure = t_PriorFailure t,
      tj_Accepted = t_Accepted t\<rparr>"

end
