(* ===== verification/Tokenize.thy ===== *)
theory Tokenize
  imports Go_Prelude
begin

text \<open>
  core/normalize/tokenize.go: the shell tokenizer. \<open>lexer\<close> holds the local variables of
  \<open>Tokenize\<close>, and \<open>tokLoop\<close> is its loop over the bytes of the command, where the rest of
  the list is what the index has not reached. \<open>spells\<close> states independently of the loop
  which texts the shell reads as one word.
\<close>

record lexer =
  l_tokens :: "string list"
  l_current :: string
  l_inSingle :: bool
  l_inDouble :: bool
  l_escaped :: bool

definition lexer0 :: lexer where
  "lexer0 = \<lparr>l_tokens = [], l_current = [], l_inSingle = False, l_inDouble = False, l_escaped = False\<rparr>"

definition writeByte :: "char \<Rightarrow> lexer \<Rightarrow> lexer" where
  "writeByte ch l = l\<lparr>l_current := l_current l @ [ch]\<rparr>"

definition flushCurrent :: "lexer \<Rightarrow> lexer" where
  \<comment> \<open>\<open>if current.Len() > 0 { tokens = append(tokens, current.String()); current.Reset() }\<close>\<close>
  "flushCurrent l =
     (if 0 < length (l_current l) then l\<lparr>l_tokens := l_tokens l @ [l_current l], l_current := []\<rparr> else l)"

definition emitTok :: "string \<Rightarrow> lexer \<Rightarrow> lexer" where
  "emitTok op l = l\<lparr>l_tokens := l_tokens l @ [op]\<rparr>"

abbreviation quoted :: "lexer \<Rightarrow> bool" where
  "quoted l \<equiv> l_inSingle l \<or> l_inDouble l"

definition blank :: "char \<Rightarrow> bool" where
  "blank ch \<longleftrightarrow> ch = CHR '' '' \<or> ch = TAB \<or> ch = LF \<or> ch = CR"

fun tokLoop :: "lexer \<Rightarrow> string \<Rightarrow> lexer" where
  "tokLoop l [] = l"
| "tokLoop l (ch # raw) =
     (if l_escaped l then tokLoop ((writeByte ch l)\<lparr>l_escaped := False\<rparr>) raw
      else if ch = CHR 0x5C \<and> \<not> l_inSingle l then tokLoop (l\<lparr>l_escaped := True\<rparr>) raw
      else if ch = CHR 0x27 \<and> \<not> l_inDouble l then tokLoop (l\<lparr>l_inSingle := \<not> l_inSingle l\<rparr>) raw
      else if ch = CHR 0x22 \<and> \<not> l_inSingle l then tokLoop (l\<lparr>l_inDouble := \<not> l_inDouble l\<rparr>) raw
      else if blank ch then
        (if \<not> l_inSingle l \<and> \<not> l_inDouble l then tokLoop (flushCurrent l) raw
         else tokLoop (writeByte ch l) raw)
      else if ch = CHR ''|'' \<and> \<not> l_inSingle l \<and> \<not> l_inDouble l then
        (if raw \<noteq> [] \<and> hd raw = CHR ''|''
         then tokLoop (emitTok ''||'' (flushCurrent l)) (tl raw)
         else tokLoop (emitTok ''|'' (flushCurrent l)) raw)
      else if ch = CHR ''&'' \<and> \<not> l_inSingle l \<and> \<not> l_inDouble l then
        (if raw \<noteq> [] \<and> hd raw = CHR ''&''
         then tokLoop (emitTok ''&&'' (flushCurrent l)) (tl raw)
         else tokLoop (writeByte ch l) raw)
      else if ch = CHR '';'' \<and> \<not> l_inSingle l \<and> \<not> l_inDouble l then
        tokLoop (emitTok '';'' (flushCurrent l)) raw
      else tokLoop (writeByte ch l) raw)"

definition Tokenize :: "string \<Rightarrow> string list" where
  "Tokenize raw = l_tokens (flushCurrent (tokLoop lexer0 raw))"

lemma Tokenize_examples:
  "Tokenize ''git commit -m \"a  b\" && make'' =
     [''git'', ''commit'', ''-m'', ''a  b'', ''&&'', ''make'']"
  "Tokenize ''make 2>&1|tee log;ls'' = [''make'', ''2>&1'', ''|'', ''tee'', ''log'', '';'', ''ls'']"
  by code_simp+

subsection \<open>No empty tokens\<close>

lemma flushCurrent_fields [simp]:
  "l_current (flushCurrent l) = []" "l_inSingle (flushCurrent l) = l_inSingle l"
  "l_inDouble (flushCurrent l) = l_inDouble l" "l_escaped (flushCurrent l) = l_escaped l"
  "l_tokens (flushCurrent l) = l_tokens l @ (if l_current l = [] then [] else [l_current l])"
  by (simp_all add: flushCurrent_def)

lemma writeByte_fields [simp]:
  "l_current (writeByte c l) = l_current l @ [c]" "l_inSingle (writeByte c l) = l_inSingle l"
  "l_inDouble (writeByte c l) = l_inDouble l" "l_escaped (writeByte c l) = l_escaped l"
  "l_tokens (writeByte c l) = l_tokens l"
  by (simp_all add: writeByte_def)

lemma emitTok_fields [simp]:
  "l_current (emitTok op l) = l_current l" "l_inSingle (emitTok op l) = l_inSingle l"
  "l_inDouble (emitTok op l) = l_inDouble l" "l_escaped (emitTok op l) = l_escaped l"
  "l_tokens (emitTok op l) = l_tokens l @ [op]"
  by (simp_all add: emitTok_def)

lemma tokLoop_nonempty: "[] \<notin> set (l_tokens l) \<Longrightarrow> [] \<notin> set (l_tokens (tokLoop l s))"
proof (induction l s rule: tokLoop.induct)
  case (2 l ch raw)
  then show ?case
    by simp
qed simp

text \<open>No token is the empty string: blanks and empty quotes end a word or disappear.\<close>

theorem Tokenize_nonempty: "[] \<notin> set (Tokenize raw)"
  using tokLoop_nonempty [of lexer0 raw] by (simp add: Tokenize_def lexer0_def)

subsection \<open>The grammar of a command line\<close>

text \<open>
  \<open>spells w s\<close>: the text \<open>s\<close> spells the word \<open>w\<close>, by plain bytes, escaped bytes and quoted
  runs. \<open>cmdline ts s\<close>: the text \<open>s\<close> is a sequence of words, blanks and operators that reads
  as the tokens \<open>ts\<close>; two words are kept apart by a blank or an operator, and an operator
  needs no blanks around it. A single \<open>&\<close> inside a word belongs to it, as in \<open>2>&1\<close>.
\<close>

definition special :: "char \<Rightarrow> bool" where
  "special c \<longleftrightarrow> blank c \<or> c \<in> set [CHR 0x5C, CHR 0x27, CHR 0x22, CHR ''|'', CHR ''&'', CHR '';'']"

inductive inQuotes :: "string \<Rightarrow> string \<Rightarrow> bool" where
  inq_end: "inQuotes [] []"
| inq_plain: "c \<noteq> CHR 0x5C \<Longrightarrow> c \<noteq> CHR 0x22 \<Longrightarrow> inQuotes w s \<Longrightarrow> inQuotes (c # w) (c # s)"
| inq_escape: "inQuotes w s \<Longrightarrow> inQuotes (c # w) (CHR 0x5C # c # s)"

inductive spells :: "string \<Rightarrow> string \<Rightarrow> bool" where
  spells_end: "spells [] []"
| spells_plain: "\<not> special c \<Longrightarrow> spells w s \<Longrightarrow> spells (c # w) (c # s)"
| spells_amp: "s \<noteq> [] \<Longrightarrow> hd s \<noteq> CHR ''&'' \<Longrightarrow> spells w s \<Longrightarrow> spells (CHR ''&'' # w) (CHR ''&'' # s)"
| spells_escape: "spells w s \<Longrightarrow> spells (c # w) (CHR 0x5C # c # s)"
| spells_single: "CHR 0x27 \<notin> set u \<Longrightarrow> spells w s \<Longrightarrow>
     spells (u @ w) (CHR 0x27 # u @ CHR 0x27 # s)"
| spells_double: "inQuotes u q \<Longrightarrow> spells w s \<Longrightarrow>
     spells (u @ w) (CHR 0x22 # q @ CHR 0x22 # s)"

definition breaks :: "string \<Rightarrow> bool" where
  "breaks s \<longleftrightarrow> s = [] \<or> blank (hd s) \<or> hd s = CHR ''|'' \<or> hd s = CHR '';'' \<or> prefix ''&&'' s"

inductive cmdline :: "string list \<Rightarrow> string \<Rightarrow> bool" where
  cmd_end: "cmdline [] []"
| cmd_word: "w \<noteq> [] \<Longrightarrow> spells w s \<Longrightarrow> breaks r \<Longrightarrow> cmdline ts r \<Longrightarrow> cmdline (w # ts) (s @ r)"
| cmd_blank: "blank c \<Longrightarrow> cmdline ts r \<Longrightarrow> cmdline ts (c # r)"
| cmd_op: "op \<in> set [''||'', ''&&'', '';''] \<Longrightarrow> cmdline ts r \<Longrightarrow> cmdline (op # ts) (op @ r)"
| cmd_pipe: "\<not> prefix ''|'' r \<Longrightarrow> cmdline ts r \<Longrightarrow> cmdline (''|'' # ts) (CHR ''|'' # r)"

lemma lexer_reset [simp]:
  "\<not> l_escaped l \<Longrightarrow> l\<lparr>l_escaped := False\<rparr> = l" "\<not> l_inSingle l \<Longrightarrow> l\<lparr>l_inSingle := False\<rparr> = l"
  "\<not> l_inDouble l \<Longrightarrow> l\<lparr>l_inDouble := False\<rparr> = l"
  by simp_all

lemma tokLoop_single:
  "CHR 0x27 \<notin> set u \<Longrightarrow> l_inSingle l \<Longrightarrow> \<not> l_inDouble l \<Longrightarrow> \<not> l_escaped l \<Longrightarrow>
     tokLoop l (u @ r) = tokLoop (l\<lparr>l_current := l_current l @ u\<rparr>) r"
  by (induction u arbitrary: l) (auto simp: writeByte_def)

lemma tokLoop_double:
  "inQuotes u q \<Longrightarrow> l_inDouble l \<Longrightarrow> \<not> l_inSingle l \<Longrightarrow> \<not> l_escaped l \<Longrightarrow>
     tokLoop l (q @ r) = tokLoop (l\<lparr>l_current := l_current l @ u\<rparr>) r"
  by (induction u q arbitrary: l rule: inQuotes.induct) (auto simp: writeByte_def)

lemma tokLoop_plain:
  "\<not> special c \<Longrightarrow> \<not> quoted l \<Longrightarrow> \<not> l_escaped l \<Longrightarrow>
     tokLoop l (c # r) = tokLoop (writeByte c l) r"
  by (auto simp: special_def)

lemma tokLoop_amp:
  "r \<noteq> [] \<Longrightarrow> hd r \<noteq> CHR ''&'' \<Longrightarrow> \<not> quoted l \<Longrightarrow> \<not> l_escaped l \<Longrightarrow>
     tokLoop l (CHR ''&'' # r) = tokLoop (writeByte (CHR ''&'') l) r"
  by (cases r) (auto simp: blank_def)

lemma tokLoop_spells:
  "spells w s \<Longrightarrow> \<not> quoted l \<Longrightarrow> \<not> l_escaped l \<Longrightarrow>
     tokLoop l (s @ r) = tokLoop (l\<lparr>l_current := l_current l @ w\<rparr>) r"
proof (induction w s arbitrary: l rule: spells.induct)
  case (spells_plain c w s)
  then show ?case by (simp add: tokLoop_plain del: tokLoop.simps) (simp add: writeByte_def)
next
  case (spells_amp s w)
  then show ?case
    by (simp add: tokLoop_amp del: tokLoop.simps) (simp add: writeByte_def)
next
  case (spells_single u w s)
  then show ?case by (simp add: tokLoop_single)
next
  case (spells_double u q w s)
  then show ?case by (simp add: tokLoop_double)
qed (simp_all add: writeByte_def)

lemma tokLoop_blank:
  "blank c \<Longrightarrow> \<not> quoted l \<Longrightarrow> \<not> l_escaped l \<Longrightarrow> tokLoop l (c # r) = tokLoop (flushCurrent l) r"
  by (auto simp: blank_def)

lemma tokLoop_op:
  "op \<in> set [''||'', ''&&'', '';''] \<Longrightarrow> \<not> quoted l \<Longrightarrow> \<not> l_escaped l \<Longrightarrow>
     tokLoop l (op @ r) = tokLoop (emitTok op (flushCurrent l)) r"
  by (auto simp: blank_def)

lemma tokLoop_pipe:
  "\<not> prefix ''|'' r \<Longrightarrow> \<not> quoted l \<Longrightarrow> \<not> l_escaped l \<Longrightarrow>
     tokLoop l (CHR ''|'' # r) = tokLoop (emitTok ''|'' (flushCurrent l)) r"
  by (cases r) (auto simp: blank_def)

text \<open>At a break, a pending word is finished first: reading on with the word pending is the
  same as reading on after it has been emitted.\<close>

lemma emitTok_flush: "l_current l \<noteq> [] \<Longrightarrow> flushCurrent l = emitTok (l_current l) (l\<lparr>l_current := []\<rparr>)"
  by (simp add: flushCurrent_def emitTok_def)

lemma flushCurrent_empty [simp]: "l_current l = [] \<Longrightarrow> flushCurrent l = l"
  by (simp add: flushCurrent_def)

lemma breaks_cases:
  assumes "breaks r"
  obtains "r = []"
    | c r' where "r = c # r'" "blank c"
    | op r' where "r = op @ r'" "op \<in> set [''||'', ''&&'', '';'']"
    | r' where "r = CHR ''|'' # r'" "\<not> prefix ''|'' r'"
proof (cases r)
  case (Cons c r')
  consider "blank c" | "c = CHR ''|''" "prefix ''|'' r'" | "c = CHR ''|''" "\<not> prefix ''|'' r'"
    | "c = CHR '';''" | "prefix ''&&'' r"
    using assms Cons by (auto simp: breaks_def)
  then show thesis
    using Cons that(2) [of c r'] that(3) [of "''||''" "tl r'"] that(3) [of "'';''" r']
      that(3) [of "''&&''" "drop 2 r"] that(4) [of r']
    by cases (auto simp: prefix_def)
qed (use that in simp)

lemma tokLoop_break:
  assumes "breaks r" "\<not> quoted l" "\<not> l_escaped l"
  shows "flushCurrent (tokLoop l r) = flushCurrent (tokLoop (flushCurrent l) r)"
  using assms(1)
proof (cases rule: breaks_cases)
  case (2 c r')
  then show ?thesis using assms by (simp add: tokLoop_blank del: tokLoop.simps)
next
  case (3 op r')
  then show ?thesis using assms by (simp add: tokLoop_op del: tokLoop.simps)
next
  case (4 r')
  then show ?thesis using assms by (simp add: tokLoop_pipe del: tokLoop.simps)
qed simp

lemma tokLoop_cmdline:
  "cmdline ts s \<Longrightarrow> \<not> quoted l \<Longrightarrow> \<not> l_escaped l \<Longrightarrow> l_current l = [] \<Longrightarrow>
     l_tokens (flushCurrent (tokLoop l s)) = l_tokens l @ ts"
proof (induction ts s arbitrary: l rule: cmdline.induct)
  case (cmd_word w s q ts)
  let ?l = "l\<lparr>l_current := w\<rparr>"
  have l: "flushCurrent ?l = l\<lparr>l_tokens := l_tokens l @ [w]\<rparr>"
    using cmd_word.prems cmd_word.hyps(1) by (cases l) (simp add: flushCurrent_def)
  have "tokLoop l (s @ q) = tokLoop ?l q"
    using cmd_word tokLoop_spells [of w s l q] by simp
  then have "l_tokens (flushCurrent (tokLoop l (s @ q)))
      = l_tokens (flushCurrent (tokLoop (flushCurrent ?l) q))"
    using tokLoop_break [OF cmd_word.hyps(3), of ?l] cmd_word.prems by simp
  then show ?case
    using cmd_word.IH [of "flushCurrent ?l"] cmd_word.prems by (simp add: l)
next
  case (cmd_blank c ts q)
  then show ?case by (simp add: tokLoop_blank del: tokLoop.simps)
next
  case (cmd_op op ts q)
  then have "tokLoop l (op @ q) = tokLoop (emitTok op l) q"
    using tokLoop_op [of op l q] by simp
  then show ?case using cmd_op.IH [of "emitTok op l"] cmd_op.prems by simp
next
  case (cmd_pipe q ts)
  then have "tokLoop l (CHR ''|'' # q) = tokLoop (emitTok ''|'' l) q"
    using tokLoop_pipe [of q l] by simp
  then show ?case using cmd_pipe.IH [of "emitTok ''|'' l"] cmd_pipe.prems by simp
qed simp

text \<open>C25: The tokenizer implements the shell grammar: a text that reads as a sequence of words
  (in any mix of plain, escaped and quoted spelling), blanks and operators is split into exactly
  those words and operators, quotes and escapes removed, with or without blanks around the
  operators.\<close>

theorem Tokenize_grammar:
  assumes "cmdline ts s"
  shows "Tokenize s = ts"
  using tokLoop_cmdline [OF assms, of lexer0] by (simp add: Tokenize_def lexer0_def)

lemma spells_plain_word: "\<forall>c\<in>set w. \<not> special c \<Longrightarrow> spells w w"
  by (induction w) (auto intro: spells.intros)

lemma cmdline_demo:
  "cmdline [''make'', ''2>&1'', ''|'', ''grep'', ''a b''] ''make 2>&1|grep \"a b\"''"
proof -
  have "inQuotes ''a b'' ''a b''" by (intro inQuotes.intros) simp_all
  then have ab: "spells ''a b'' ''\"a b\"''"
    using spells_double [of "''a b''" "''a b''" "[]" "[]"] by (simp add: spells_end)
  have r: "spells ''2>&1'' ''2>&1''"
    by (intro spells_plain spells_amp spells_end) (simp_all add: special_def blank_def)
  have w: "spells ''make'' ''make''" "spells ''grep'' ''grep''"
    by (rule spells_plain_word, simp add: special_def blank_def)+
  have "cmdline [''grep'', ''a b''] (''grep'' @ CHR '' '' # ''\"a b\"'' @ [])"
    by (intro cmd_word cmd_blank cmd_end w ab) (simp_all add: breaks_def blank_def)
  then have "cmdline [''2>&1'', ''|'', ''grep'', ''a b''] (''2>&1'' @ CHR ''|'' # ''grep \"a b\"'')"
    by (intro cmd_word cmd_pipe r) (simp_all add: breaks_def)
  then show ?thesis
    using cmd_word [OF _ w(1), of "'' 2>&1|grep \"a b\"''"]
    by (simp add: cmd_blank breaks_def blank_def)
qed

theorem Tokenize_grammar_witness:
  "cmdline [''make'', ''2>&1'', ''|'', ''grep'', ''a b''] ''make 2>&1|grep \"a b\"''
     \<and> Tokenize ''make 2>&1|grep \"a b\"'' = [''make'', ''2>&1'', ''|'', ''grep'', ''a b'']"
  using cmdline_demo Tokenize_grammar [OF cmdline_demo] by simp

end
