(* ===== verification/Unwrap.thy ===== *)
theory Unwrap
  imports Go_Prelude
begin

text \<open>
  core/normalize/unwrap.go: stripping wrapper commands (sudo, env, nice, ...) from the front of
  a token list. An index that Go returns as \<open>int\<close>, with -1 for "not found", is an \<open>int\<close> here
  too; the loop variables are natural numbers. The map of the wrappers' configurations is an
  association list, and a nil function is \<open>None\<close>.
\<close>

record wrapperConfig =
  skipFlags :: bool
  shortFlagValue :: bool
  longFlagValue :: "(string \<Rightarrow> bool) option"
  skipEnvAssignment :: bool
  honorDoubleDash :: bool
  positionalSkip :: nat

definition noConfig :: wrapperConfig where
  \<comment> \<open>the zero value, written \<open>{}\<close> in the table\<close>
  "noConfig = \<lparr>skipFlags = False, shortFlagValue = False, longFlagValue = None,
     skipEnvAssignment = False, honorDoubleDash = False, positionalSkip = 0\<rparr>"

subsection \<open>Token tests\<close>

definition isFlag :: "string \<Rightarrow> bool" where
  "isFlag tok \<longleftrightarrow> 1 \<le> length tok \<and> tok ! 0 = CHR ''-''"

definition isFlockFlag :: "string \<Rightarrow> bool" where
  "isFlockFlag tok \<longleftrightarrow> isFlag tok \<and> tok \<noteq> ''-''"

definition isSudoFlagWithValue :: "string \<Rightarrow> bool" where
  "isSudoFlagWithValue tok \<longleftrightarrow> tok \<in> set
     [''-u'', ''--user'', ''-g'', ''--group'', ''-p'', ''--prompt'', ''-h'', ''--host'',
      ''-r'', ''--role'', ''-t'', ''--type'', ''-C'', ''--close-from'', ''-D'',
      ''--chdir'']"

definition isDoasFlagWithValue :: "string \<Rightarrow> bool" where
  "isDoasFlagWithValue tok \<longleftrightarrow> tok \<in> set
     [''-u'', ''--user'', ''-g'', ''--group'', ''-p'', ''--prompt'', ''-C'', ''--chdir'']"

definition isChrootFlagWithValue :: "string \<Rightarrow> bool" where
  "isChrootFlagWithValue tok \<longleftrightarrow> tok \<in> set
     [''--userspec'', ''--groups'', ''-u'', ''-g'']"

definition isSystemdFlagWithValue :: "string \<Rightarrow> bool" where
  "isSystemdFlagWithValue tok \<longleftrightarrow> tok \<in> set
     [''-p'', ''--property'', ''-P'', ''--pipe'', ''--working-directory'', ''-d'',
      ''--same-dir'', ''--unit'', ''-u'', ''--uid'', ''-g'', ''--gid'',
      ''--description'', ''-n'', ''-E'', ''--setenv'', ''-t'', ''--pty'', ''--slice'',
      ''-r'', ''--remain-after-exit'', ''--send-sighup'', ''--service-type'', ''-q'',
      ''--quiet'']"

definition isWatchFlagWithValue :: "string \<Rightarrow> bool" where
  "isWatchFlagWithValue tok \<longleftrightarrow> tok \<in> set
     [''-n'', ''--interval'', ''-p'', ''--precise'', ''-e'', ''--exec'', ''-t'',
      ''--no-title'', ''-b'', ''--beep'', ''-x'', ''-g'', ''--chgexit'', ''--color'',
      ''-E'', ''--errexit'']"

definition isTasksetFlagWithValue :: "string \<Rightarrow> bool" where
  "isTasksetFlagWithValue tok \<longleftrightarrow> tok \<in> set
     [''--cpu-list'']"

definition isNumactlFlagWithValue :: "string \<Rightarrow> bool" where
  "isNumactlFlagWithValue tok \<longleftrightarrow> tok \<in> set
     [''--membind'', ''--cpunodebind'', ''--physcpubind'', ''--interleave'',
      ''--preferred'', ''--localalloc'', ''--show'', ''--hardware'']"

definition isUnshareFlagWithValue :: "string \<Rightarrow> bool" where
  "isUnshareFlagWithValue tok \<longleftrightarrow> tok \<in> set
     [''-R'', ''--root'', ''-S'', ''--setuid'', ''--setgroups'', ''--map-user'',
      ''--map-group'', ''--mount-proc'', ''-C'', ''--cgroup'', ''--propagation'',
      ''--pid'', ''--time'']"

definition isTimeFlagWithValue :: "string \<Rightarrow> bool" where
  "isTimeFlagWithValue tok \<longleftrightarrow> tok \<in> set
     [''-f'', ''--format'', ''-o'', ''--output'', ''-a'', ''--append'']"

fun envFrom :: "nat \<Rightarrow> string \<Rightarrow> bool" where
  "envFrom i [] = False"
| "envFrom i (ch # tok) = (ch = CHR ''='' \<and> 0 < i \<or> envFrom (Suc i) tok)"

definition isEnvAssignment :: "string \<Rightarrow> bool" where
  "isEnvAssignment tok = envFrom 0 tok"

subsection \<open>The table of wrappers\<close>

definition wrapperConfigs :: "(string \<times> wrapperConfig) list" where
  "wrapperConfigs =
     [(''sudo'', noConfig
       \<lparr>skipFlags := True, longFlagValue := Some isSudoFlagWithValue,
         skipEnvAssignment := True, honorDoubleDash := True\<rparr>),
      (''doas'', noConfig
       \<lparr>skipFlags := True, longFlagValue := Some isDoasFlagWithValue,
         skipEnvAssignment := True, honorDoubleDash := True\<rparr>),
      (''env'', noConfig
       \<lparr>skipEnvAssignment := True, honorDoubleDash := True\<rparr>),
      (''chroot'', noConfig
       \<lparr>skipFlags := True, longFlagValue := Some isChrootFlagWithValue,
         honorDoubleDash := True, positionalSkip := 1\<rparr>),
      (''systemd-run'', noConfig
       \<lparr>skipFlags := True,
         longFlagValue := Some isSystemdFlagWithValue, honorDoubleDash := True\<rparr>),
      (''watch'', noConfig
       \<lparr>skipFlags := True,
         longFlagValue := Some isWatchFlagWithValue, honorDoubleDash := True\<rparr>),
      (''nice'', noConfig
       \<lparr>skipFlags := True, shortFlagValue := True, honorDoubleDash := True\<rparr>),
      (''ionice'', noConfig
       \<lparr>skipFlags := True, shortFlagValue := True, honorDoubleDash := True\<rparr>),
      (''taskset'', noConfig
       \<lparr>skipFlags := True, shortFlagValue := True,
         longFlagValue := Some isTasksetFlagWithValue, honorDoubleDash := True\<rparr>),
      (''numactl'', noConfig
       \<lparr>skipFlags := True, shortFlagValue := True,
         longFlagValue := Some isNumactlFlagWithValue, honorDoubleDash := True\<rparr>),
      (''prlimit'', noConfig
       \<lparr>skipFlags := True, shortFlagValue := True, honorDoubleDash := True\<rparr>),
      (''unshare'', noConfig
       \<lparr>skipFlags := True, shortFlagValue := True,
         longFlagValue := Some isUnshareFlagWithValue, honorDoubleDash := True\<rparr>),
      (''stdbuf'', noConfig
       \<lparr>skipFlags := True\<rparr>),
      (''time'', noConfig
       \<lparr>skipFlags := True,
         longFlagValue := Some isTimeFlagWithValue, honorDoubleDash := True\<rparr>),
      (''exec'', noConfig),
      (''fakeroot'', noConfig),
      (''nohup'', noConfig),
      (''pkexec'', noConfig),
      (''setsid'', noConfig),
      (''flock'', noConfig)]"

definition isWrapper :: "string \<Rightarrow> bool" where
  "isWrapper tok \<longleftrightarrow> map_of wrapperConfigs tok \<noteq> None"

subsection \<open>Finding the wrapped command\<close>

function findFrom :: "string list \<Rightarrow> wrapperConfig \<Rightarrow> nat \<Rightarrow> nat \<Rightarrow> int" where
  "findFrom tokens cfg skipped i =
     (if i < length tokens then
        let tok = tokens ! i in
        if honorDoubleDash cfg \<and> tok = ''--'' then
          (if i + 1 < length tokens then int (i + 1) else - 1)
        else if skipFlags cfg \<and> isFlag tok then
          (if (case longFlagValue cfg of None \<Rightarrow> False | Some f \<Rightarrow> f tok)
           then findFrom tokens cfg skipped (i + 2)
           else if shortFlagValue cfg \<and> length tok = 2
           then findFrom tokens cfg skipped (i + 2)
           else findFrom tokens cfg skipped (i + 1))
        else if skipEnvAssignment cfg \<and> isEnvAssignment tok then
          findFrom tokens cfg skipped (i + 1)
        else if skipped < positionalSkip cfg then
          findFrom tokens cfg (skipped + 1) (i + 1)
        else int i
      else - 1)"
  by pat_completeness auto
termination by (relation "measure (\<lambda>(tokens, cfg, skipped, i). length tokens - i)") auto

declare findFrom.simps [simp del]

definition findInnerCommand :: "string list \<Rightarrow> wrapperConfig \<Rightarrow> int" where
  "findInnerCommand tokens cfg = findFrom tokens cfg 0 1"

function flockFrom :: "string list \<Rightarrow> bool \<Rightarrow> nat \<Rightarrow> int" where
  "flockFrom tokens sawNonFlag i =
     (if i < length tokens then
        let tok = tokens ! i in
        if tok = ''-c'' \<or> tok = ''--command'' then
          (if i + 1 < length tokens then int (i + 1) else - 1)
        else if isFlockFlag tok then flockFrom tokens sawNonFlag (i + 1)
        else if \<not> sawNonFlag then flockFrom tokens True (i + 1)
        else int i
      else - 1)"
  by pat_completeness auto
termination by (relation "measure (\<lambda>(tokens, saw, i). length tokens - i)") auto

declare flockFrom.simps [simp del]

definition flockCommandIndex :: "string list \<Rightarrow> int" where
  "flockCommandIndex tokens = flockFrom tokens False 1"

definition wrapperCommandIndex :: "string list \<Rightarrow> int" where
  "wrapperCommandIndex tokens =
     (if length tokens < 2 then - 1
      else if tokens ! 0 = ''flock'' then flockCommandIndex tokens
      else (case map_of wrapperConfigs (tokens ! 0) of
              None \<Rightarrow> - 1
            | Some cfg \<Rightarrow> findInnerCommand tokens cfg))"

subsection \<open>Stripping\<close>

fun stripEnv :: "string list \<Rightarrow> string list" where
  \<comment> \<open>the first loop of \<open>unwrapPrefixTokens\<close>\<close>
  "stripEnv [] = []"
| "stripEnv (tok # toks) =
     (if 1 < length (tok # toks) \<and> \<not> isFlag tok \<and> isEnvAssignment tok
      then stripEnv toks else tok # toks)"

function stripWrappers :: "string list \<Rightarrow> string list" where
  \<comment> \<open>the second loop\<close>
  "stripWrappers tokens =
     (if 1 < length tokens \<and> isWrapper (tokens ! 0) then
        let nxt = wrapperCommandIndex tokens in
        if nxt < 1 \<or> int (length tokens) \<le> nxt then tokens
        else stripWrappers (drop (nat nxt) tokens)
      else tokens)"
  by pat_completeness auto
termination by (relation "measure length") auto

declare stripWrappers.simps [simp del]

definition unwrapPrefixTokens :: "string list \<Rightarrow> string list" where
  "unwrapPrefixTokens tokens = stripWrappers (stripEnv tokens)"

subsection \<open>The index of the wrapped command\<close>

lemma isEnvAssignment_iff: "isEnvAssignment tok \<longleftrightarrow> CHR ''='' \<in> set (tl tok)"
proof -
  have "0 < i \<Longrightarrow> envFrom i w \<longleftrightarrow> CHR ''='' \<in> set w" for i w
    by (induction w arbitrary: i) auto
  then show ?thesis by (cases tok) (simp_all add: isEnvAssignment_def)
qed

lemma findFrom_range:
  "findFrom tokens cfg skipped i = - 1
     \<or> (int i \<le> findFrom tokens cfg skipped i \<and> findFrom tokens cfg skipped i < int (length tokens))"
  (is "?P skipped i")
proof (induction "length tokens - i" arbitrary: skipped i rule: less_induct)
  case less
  show ?case
  proof (cases "i < length tokens")
    case True
    have "?P skipped (i + 1)" "?P skipped (i + 2)" "?P (skipped + 1) (i + 1)"
      by (rule less, use True in linarith)+
    moreover have "findFrom tokens cfg skipped i \<in>
      {- 1, int i, findFrom tokens cfg skipped (i + 1), findFrom tokens cfg skipped (i + 2),
       findFrom tokens cfg (skipped + 1) (i + 1)}
      \<or> i + 1 < length tokens \<and> findFrom tokens cfg skipped i = int i + 1"
      by (simp add: findFrom.simps [of tokens cfg skipped i] Let_def)
    ultimately show ?thesis using True by auto
  qed (simp add: findFrom.simps [of tokens])
qed

lemma flockFrom_range:
  "flockFrom tokens saw i = - 1
     \<or> (int i \<le> flockFrom tokens saw i \<and> flockFrom tokens saw i < int (length tokens))"
  (is "?P saw i")
proof (induction "length tokens - i" arbitrary: saw i rule: less_induct)
  case less
  show ?case
  proof (cases "i < length tokens")
    case True
    have "?P saw (i + 1)" "?P True (i + 1)"
      by (rule less, use True in linarith)+
    moreover have "flockFrom tokens saw i \<in>
      {- 1, int i, flockFrom tokens saw (i + 1), flockFrom tokens True (i + 1)}
      \<or> i + 1 < length tokens \<and> flockFrom tokens saw i = int i + 1"
      by (simp add: flockFrom.simps [of tokens saw i] Let_def)
    ultimately show ?thesis using True by auto
  qed (simp add: flockFrom.simps [of tokens])
qed

text \<open>The index of the wrapped command is -1 or points past the wrapper and inside the tokens,
  so that slicing at it never panics and always makes the list shorter.\<close>

theorem wrapperCommandIndex_range:
  "wrapperCommandIndex tokens = - 1
     \<or> (1 \<le> wrapperCommandIndex tokens \<and> wrapperCommandIndex tokens < int (length tokens))"
proof (cases "length tokens < 2 \<or> tokens ! 0 = ''flock''")
  case True
  then show ?thesis
    using flockFrom_range [of tokens False 1]
    by (auto simp: wrapperCommandIndex_def flockCommandIndex_def)
next
  case False
  show ?thesis
  proof (cases "map_of wrapperConfigs (tokens ! 0)")
    case (Some cfg)
    then have "wrapperCommandIndex tokens = findFrom tokens cfg 0 1"
      using False by (simp add: wrapperCommandIndex_def findInnerCommand_def)
    then show ?thesis using findFrom_range [of tokens cfg 0 1] by simp
  qed (use False in \<open>simp add: wrapperCommandIndex_def\<close>)
qed

subsection \<open>Stripping keeps a suffix\<close>

lemma stripEnv_suffix: "suffix (stripEnv ts) ts \<and> (stripEnv ts = [] \<longleftrightarrow> ts = [])"
  by (induction ts) (auto simp: suffix_Cons)

lemma stripWrappers_suffix:
  "suffix (stripWrappers ts) ts \<and> (stripWrappers ts = [] \<longleftrightarrow> ts = [])"
proof (induction ts rule: stripWrappers.induct)
  case (1 ts)
  let ?n = "wrapperCommandIndex ts"
  show ?case
  proof (cases "1 < length ts \<and> isWrapper (ts ! 0) \<and> \<not> (?n < 1 \<or> int (length ts) \<le> ?n)")
    case True
    then have "stripWrappers ts = stripWrappers (drop (nat ?n) ts)"
      by (simp add: stripWrappers.simps [of ts])
    moreover have "drop (nat ?n) ts \<noteq> []" using True by auto
    moreover have "suffix (drop (nat ?n) ts) ts" by (rule suffix_drop)
    ultimately show ?thesis
      using 1 True suffix_order.order_trans by (metis list.size(3) not_less_zero)
  next
    case False
    then have "stripWrappers ts = ts" by (auto simp: stripWrappers.simps [of ts] Let_def)
    then show ?thesis by simp
  qed
qed

text \<open>Unwrapping only drops tokens from the front, and never all of them.\<close>

theorem unwrap_suffix:
  "suffix (unwrapPrefixTokens ts) ts \<and> (unwrapPrefixTokens ts = [] \<longleftrightarrow> ts = [])"
  using stripEnv_suffix [of ts] stripWrappers_suffix [of "stripEnv ts"]
    suffix_order.order_trans unfolding unwrapPrefixTokens_def by blast

lemma stripWrappers_stop:
  "1 < length (stripWrappers ts) \<Longrightarrow> isWrapper (stripWrappers ts ! 0) \<Longrightarrow>
     wrapperCommandIndex (stripWrappers ts) = - 1"
proof (induction ts rule: stripWrappers.induct)
  case (1 ts)
  let ?n = "wrapperCommandIndex ts"
  show ?case
  proof (cases "1 < length ts \<and> isWrapper (ts ! 0) \<and> \<not> (?n < 1 \<or> int (length ts) \<le> ?n)")
    case True
    then have "stripWrappers ts = stripWrappers (drop (nat ?n) ts)"
      by (simp add: stripWrappers.simps [of ts])
    then show ?thesis using 1 True by simp
  next
    case False
    then have "stripWrappers ts = ts" by (auto simp: stripWrappers.simps [of ts] Let_def)
    then show ?thesis using 1 False wrapperCommandIndex_range [of ts] by auto
  qed
qed

subsection \<open>What a wrapper takes for itself\<close>

text \<open>
  \<open>ownArgs cfg s xs s'\<close>: the tokens \<open>xs\<close> are arguments of the wrapper itself, of which
  \<open>s' - s\<close> are positional. \<open>commandWord\<close> is a token no wrapper takes for an argument.
\<close>

definition takesValue :: "wrapperConfig \<Rightarrow> string \<Rightarrow> bool" where
  "takesValue cfg tok \<longleftrightarrow>
     (\<exists>f. longFlagValue cfg = Some f \<and> f tok) \<or> shortFlagValue cfg \<and> length tok = 2"

inductive ownArgs :: "wrapperConfig \<Rightarrow> nat \<Rightarrow> string list \<Rightarrow> nat \<Rightarrow> bool" where
  own_end: "ownArgs cfg s [] s"
| own_flag: "skipFlags cfg \<Longrightarrow> isFlag tok \<Longrightarrow> \<not> (honorDoubleDash cfg \<and> tok = ''--'') \<Longrightarrow>
     \<not> takesValue cfg tok \<Longrightarrow> ownArgs cfg s xs s' \<Longrightarrow> ownArgs cfg s (tok # xs) s'"
| own_value: "skipFlags cfg \<Longrightarrow> isFlag tok \<Longrightarrow> \<not> (honorDoubleDash cfg \<and> tok = ''--'') \<Longrightarrow>
     takesValue cfg tok \<Longrightarrow> ownArgs cfg s xs s' \<Longrightarrow> ownArgs cfg s (tok # v # xs) s'"
| own_env: "skipEnvAssignment cfg \<Longrightarrow> isEnvAssignment tok \<Longrightarrow> \<not> isFlag tok \<Longrightarrow>
     ownArgs cfg s xs s' \<Longrightarrow> ownArgs cfg s (tok # xs) s'"
| own_positional: "s < positionalSkip cfg \<Longrightarrow> \<not> isFlag tok \<Longrightarrow> \<not> isEnvAssignment tok \<Longrightarrow>
     ownArgs cfg (Suc s) xs s' \<Longrightarrow> ownArgs cfg s (tok # xs) s'"

definition commandWord :: "string \<Rightarrow> bool" where
  "commandWord tok \<longleftrightarrow> \<not> isFlag tok \<and> \<not> isEnvAssignment tok"

lemma isFlag_dash [simp]: "isFlag (CHR ''-'' # tok)"
  by (simp add: isFlag_def)

lemma not_isFlag_dashes: "\<not> isFlag tok \<Longrightarrow> tok \<noteq> ''--''"
  by auto

lemma findFrom_ownArgs:
  "ownArgs cfg s xs s' \<Longrightarrow>
     findFrom (pre @ xs @ rest) cfg s (length pre)
       = findFrom (pre @ xs @ rest) cfg s' (length pre + length xs)"
proof (induction cfg s xs s' arbitrary: pre rule: ownArgs.induct)
  case (own_flag cfg tok s xs s')
  have "findFrom (pre @ (tok # xs) @ rest) cfg s (length pre)
      = findFrom ((pre @ [tok]) @ xs @ rest) cfg s (length (pre @ [tok]))"
    using own_flag.hyps
    by (subst findFrom.simps) (auto simp: takesValue_def nth_append split: option.split)
  then show ?case using own_flag.IH [of "pre @ [tok]"] by simp
next
  case (own_value cfg tok s xs s' v)
  have "findFrom (pre @ (tok # v # xs) @ rest) cfg s (length pre)
      = findFrom ((pre @ [tok, v]) @ xs @ rest) cfg s (length (pre @ [tok, v]))"
    using own_value.hyps
    by (subst findFrom.simps) (auto simp: takesValue_def nth_append split: option.split)
  then show ?case using own_value.IH [of "pre @ [tok, v]"] by simp
next
  case (own_env cfg tok s xs s')
  have "findFrom (pre @ (tok # xs) @ rest) cfg s (length pre)
      = findFrom ((pre @ [tok]) @ xs @ rest) cfg s (length (pre @ [tok]))"
    using own_env.hyps by (subst findFrom.simps) (auto simp: nth_append)
  then show ?case using own_env.IH [of "pre @ [tok]"] by simp
next
  case (own_positional s cfg tok xs s')
  have "findFrom (pre @ (tok # xs) @ rest) cfg s (length pre)
      = findFrom ((pre @ [tok]) @ xs @ rest) cfg (Suc s) (length (pre @ [tok]))"
    using own_positional.hyps by (subst findFrom.simps) (auto simp: nth_append)
  then show ?case using own_positional.IH [of "pre @ [tok]"] by simp
qed simp

lemma findInnerCommand_word:
  assumes "ownArgs cfg 0 xs (positionalSkip cfg)" "commandWord c"
  shows "findInnerCommand (w # xs @ c # rest) cfg = 1 + int (length xs)"
proof -
  have "findInnerCommand (w # xs @ c # rest) cfg
      = findFrom ([w] @ xs @ c # rest) cfg (positionalSkip cfg) (1 + length xs)"
    using findFrom_ownArgs [OF assms(1), of "[w]" "c # rest"]
    by (simp add: findInnerCommand_def)
  also have "\<dots> = 1 + int (length xs)"
    using assms(2) by (subst findFrom.simps) (auto simp: commandWord_def nth_append)
  finally show ?thesis .
qed

lemma findInnerCommand_dashes:
  assumes "ownArgs cfg 0 xs s" "honorDoubleDash cfg"
  shows "findInnerCommand (w # xs @ ''--'' # c # rest) cfg = 2 + int (length xs)"
proof -
  have "findInnerCommand (w # xs @ ''--'' # c # rest) cfg
      = findFrom ([w] @ xs @ ''--'' # c # rest) cfg s (1 + length xs)"
    using findFrom_ownArgs [OF assms(1), of "[w]" "''--'' # c # rest"]
    by (simp add: findInnerCommand_def)
  also have "\<dots> = 2 + int (length xs)"
    using assms(2) by (subst findFrom.simps) (auto simp: nth_append)
  finally show ?thesis .
qed

lemma wrapper_names: "map_of wrapperConfigs w = Some cfg \<Longrightarrow> CHR ''='' \<notin> set w"
proof -
  assume "map_of wrapperConfigs w = Some cfg"
  then have "w \<in> set (map fst wrapperConfigs)" by (force dest: map_of_SomeD)
  moreover have "\<forall>v\<in>set (map fst wrapperConfigs). CHR ''='' \<notin> set v"
    by (simp add: wrapperConfigs_def)
  ultimately show ?thesis by blast
qed

lemma unwrap_wrapper:
  assumes "isWrapper w" "commandWord c"
    "wrapperCommandIndex (w # xs @ c # rest) = 1 + int (length xs)"
  shows "unwrapPrefixTokens (w # xs @ c # rest) = unwrapPrefixTokens (c # rest)"
proof -
  have "CHR ''='' \<notin> set w" using assms(1) wrapper_names by (auto simp: isWrapper_def)
  then have "\<not> isEnvAssignment w" by (cases w) (simp_all add: isEnvAssignment_iff)
  then have "unwrapPrefixTokens (w # xs @ c # rest) = stripWrappers (w # xs @ c # rest)"
    by (simp add: unwrapPrefixTokens_def)
  also have "\<dots> = stripWrappers (c # rest)"
    using assms(1,3) by (subst stripWrappers.simps) (simp add: nat_add_distrib)
  also have "\<dots> = unwrapPrefixTokens (c # rest)"
    using assms(2) by (simp add: unwrapPrefixTokens_def commandWord_def)
  finally show ?thesis .
qed

text \<open>A wrapper is transparent: whatever flags, flag values, environment assignments and
  positional arguments of its own a wrapper other than flock is given, unwrapping the command
  line gives what unwrapping the wrapped command alone gives.\<close>

theorem wrapper_transparent:
  assumes "map_of wrapperConfigs w = Some cfg" "w \<noteq> ''flock''"
    and "ownArgs cfg 0 xs (positionalSkip cfg)" "commandWord c"
  shows "unwrapPrefixTokens (w # xs @ c # rest) = unwrapPrefixTokens (c # rest)"
  using assms findInnerCommand_word [OF assms(3,4)]
  by (intro unwrap_wrapper) (simp_all add: isWrapper_def wrapperCommandIndex_def)

theorem wrapper_transparent_witness:
  "unwrapPrefixTokens [''sudo'', ''-u'', ''root'', ''-E'', ''LANG=C'', ''apt'', ''update'']
     = unwrapPrefixTokens [''apt'', ''update'']"
proof -
  have cfg: "map_of wrapperConfigs ''sudo''
      = Some (noConfig\<lparr>skipFlags := True, longFlagValue := Some isSudoFlagWithValue,
                skipEnvAssignment := True, honorDoubleDash := True\<rparr>)" (is "_ = Some ?cfg")
    by (simp add: wrapperConfigs_def)
  have "ownArgs ?cfg 0 [''-u'', ''root'', ''-E'', ''LANG=C''] (positionalSkip ?cfg)"
    by (intro own_value own_flag own_env)
       (simp_all add: noConfig_def own_end takesValue_def isSudoFlagWithValue_def
          isEnvAssignment_iff, simp add: isFlag_def)
  from wrapper_transparent [OF cfg _ this, of "''apt''" "[''update'']"] show ?thesis
    by (simp add: commandWord_def isFlag_def isEnvAssignment_iff)
qed

text \<open>Unwrapping the wrappers is done in one call: where a wrapper is left in front of
  further tokens, its command could not be found, and a second pass changes nothing.\<close>

theorem stripWrappers_fixpoint: "stripWrappers (stripWrappers ts) = stripWrappers ts"
  using stripWrappers_stop [of ts] by (auto simp: stripWrappers.simps [of "stripWrappers ts"])

subsection \<open>Flags the tables misjudge\<close>

text \<open>The flags -t, -b and -g of watch take no value, but the table says they do, so that the
  wrapped command is skipped and the wrapper stays in the template.\<close>

lemma watch_no_title_hides_command:
  "unwrapPrefixTokens [''watch'', ''-t'', ''ls''] = [''watch'', ''-t'', ''ls'']"
  by code_simp

text \<open>The value of flock's -w (a number of seconds) is taken for the lock file and the lock file
  for the command.\<close>

lemma flock_timeout_misread:
  "unwrapPrefixTokens [''flock'', ''-w'', ''10'', ''/tmp/lock'', ''make'', ''all'']
     = [''/tmp/lock'', ''make'', ''all'']"
  by code_simp

end
