(* ===== verification/Go_Regexp.thy ===== *)
theory Go_Regexp
  imports Go_Prelude
begin

text \<open>
  The part of package regexp the sources use: \<open>MatchString\<close>, an unanchored search, on
  patterns built from byte classes, concatenation, alternation, repetition and the anchors
  \<open>^\<close> and \<open>$\<close> (without the multi-line flag). The patterns of core/normalize/classify.go and
  core/redact/redact.go are written as terms of \<open>regex\<close> by the theories Classify and Redact.
  \<open>rmatch\<close> says declaratively which words a pattern matches; \<open>rrests\<close> computes the same
  matches, and \<open>MatchString_iff\<close> shows that the two agree.

  Patterns work on bytes. RE2 works on code points, and every negated class used in the
  sources sits next to an ASCII byte or at the end of a search, where both readings agree.
\<close>

text \<open>A byte range of a character class, as in \<open>[a-z]\<close>.\<close>

definition byteIn :: "char \<Rightarrow> char \<Rightarrow> char \<Rightarrow> bool" where
  "byteIn lo hi c \<longleftrightarrow> lo \<le> c \<and> c \<le> hi"

datatype regex =
    RNull
  | REps
  | RBegin
  | REnd
  | RClass "char \<Rightarrow> bool"
  | RAlt regex regex
  | RSeq regex regex
  | RStar regex

subsection \<open>Declarative matching\<close>

text \<open>
  \<open>rmatch b r w rest\<close>: the pattern matches the word \<open>w\<close> where \<open>b\<close> tells whether the word
  starts at the beginning of the text, and \<open>rest\<close> is the text after it.
\<close>

inductive rmatch :: "bool \<Rightarrow> regex \<Rightarrow> string \<Rightarrow> string \<Rightarrow> bool" where
  eps: "rmatch b REps [] rest"
| at_begin: "rmatch True RBegin [] rest"
| at_end: "rmatch b REnd [] []"
| cls: "p c \<Longrightarrow> rmatch b (RClass p) [c] rest"
| alt1: "rmatch b r u rest \<Longrightarrow> rmatch b (RAlt r q) u rest"
| alt2: "rmatch b q u rest \<Longrightarrow> rmatch b (RAlt r q) u rest"
| seq: "rmatch b r u (v @ rest) \<Longrightarrow> rmatch (b \<and> u = []) q v rest \<Longrightarrow>
     rmatch b (RSeq r q) (u @ v) rest"
| star0: "rmatch b (RStar r) [] rest"
| star1: "rmatch b r u (v @ rest) \<Longrightarrow> rmatch (b \<and> u = []) (RStar r) v rest \<Longrightarrow>
     rmatch b (RStar r) (u @ v) rest"

inductive_simps rmatch_simps [simp]:
  "rmatch b RNull w rest"
  "rmatch b REps w rest"
  "rmatch b RBegin w rest"
  "rmatch b REnd w rest"
  "rmatch b (RClass p) w rest"
  "rmatch b (RAlt r q) w rest"

inductive_cases rmatch_seqE: "rmatch b (RSeq r q) w rest"
inductive_cases rmatch_starE: "rmatch b (RStar r) w rest"

lemma rmatch_seq_iff:
  "rmatch b (RSeq r q) w rest \<longleftrightarrow>
     (\<exists>u v. w = u @ v \<and> rmatch b r u (v @ rest) \<and> rmatch (b \<and> u = []) q v rest)"
  by (blast elim: rmatch_seqE intro: rmatch.seq)

lemma rmatch_class_seq [simp]:
  "rmatch b (RSeq (RClass p) q) w rest \<longleftrightarrow> (\<exists>c v. w = c # v \<and> p c \<and> rmatch False q v rest)"
proof
  assume "rmatch b (RSeq (RClass p) q) w rest"
  then show "\<exists>c v. w = c # v \<and> p c \<and> rmatch False q v rest"
    by (auto simp: rmatch_seq_iff)
next
  assume "\<exists>c v. w = c # v \<and> p c \<and> rmatch False q v rest"
  then obtain c v where "w = [c] @ v" "p c" "rmatch False q v rest" by auto
  then show "rmatch b (RSeq (RClass p) q) w rest"
    using rmatch.seq [of b "RClass p" "[c]" v rest q] by simp
qed

subsection \<open>Executable matching\<close>

text \<open>\<open>rrests r b s\<close> lists what is left of \<open>s\<close> after each way in which the pattern matches a
  prefix of it. An iteration of a star that consumes nothing adds no match, so a star needs
  at most as many rounds as \<open>s\<close> has bytes: that is the fuel \<open>RStar\<close> starts with.\<close>

fun starRests :: "(bool \<Rightarrow> string \<Rightarrow> string list) \<Rightarrow> nat \<Rightarrow> bool \<Rightarrow> string \<Rightarrow> string list" where
  "starRests f 0 b s = [s]"
| "starRests f (Suc n) b s =
     s # concat (map (starRests f n False) (filter (\<lambda>t. length t < length s) (f b s)))"

primrec rrests :: "regex \<Rightarrow> bool \<Rightarrow> string \<Rightarrow> string list" where
  "rrests RNull = (\<lambda>b s. [])"
| "rrests REps = (\<lambda>b s. [s])"
| "rrests RBegin = (\<lambda>b s. if b then [s] else [])"
| "rrests REnd = (\<lambda>b s. if s = [] then [s] else [])"
| "rrests (RClass p) = (\<lambda>b s. case s of [] \<Rightarrow> [] | c # cs \<Rightarrow> if p c then [cs] else [])"
| "rrests (RAlt r q) = (\<lambda>b s. rrests r b s @ rrests q b s)"
| "rrests (RSeq r q) =
     (\<lambda>b s. concat (map (\<lambda>t. rrests q (b \<and> length t = length s) t) (rrests r b s)))"
| "rrests (RStar r) = (\<lambda>b s. starRests (rrests r) (length s) b s)"

fun searchFrom :: "regex \<Rightarrow> bool \<Rightarrow> string \<Rightarrow> bool" where
  "searchFrom r b [] = (rrests r b [] \<noteq> [])"
| "searchFrom r b (c # cs) = (rrests r b (c # cs) \<noteq> [] \<or> searchFrom r False cs)"

definition MatchString :: "regex \<Rightarrow> string \<Rightarrow> bool" where
  "MatchString r s = searchFrom r True s"

text \<open>Soundness and completeness of the star, given those of its body.\<close>

lemma starRests_sound:
  assumes "\<And>b s t. t \<in> set (f b s) \<Longrightarrow> \<exists>w. s = w @ t \<and> rmatch b r w t"
  shows "t \<in> set (starRests f n b s) \<Longrightarrow> \<exists>w. s = w @ t \<and> rmatch b (RStar r) w t"
proof (induction n arbitrary: b s)
  case (Suc n)
  show ?case
  proof (cases "t = s")
    case False
    with Suc.prems obtain t' where t': "t' \<in> set (f b s)" "length t' < length s"
      and t: "t \<in> set (starRests f n False t')" by auto
    from assms [OF t'(1)] obtain u where u: "s = u @ t'" "rmatch b r u t'" by blast
    from Suc.IH [OF t] obtain v where v: "t' = v @ t" "rmatch False (RStar r) v t" by blast
    from t'(2) u have "u \<noteq> []" by auto
    with u v have "rmatch b (RStar r) (u @ v) t"
      using rmatch.star1 [of b r u v t] by simp
    with u v show ?thesis by auto
  qed (auto intro: rmatch.star0)
qed (auto intro: rmatch.star0)

lemma starRests_complete:
  assumes "\<And>b w t. rmatch b r w t \<Longrightarrow> t \<in> set (f b (w @ t))"
  shows "rmatch b (RStar r) w t \<Longrightarrow> length w \<le> n \<Longrightarrow> t \<in> set (starRests f n b (w @ t))"
proof (induction n arbitrary: b w t)
  case (Suc n)
  from Suc.prems show ?case
  proof (induction b "RStar r" w t rule: rmatch.induct)
    case (star1 b u v rest)
    show ?case
    proof (cases "u = []")
      case False
      with star1 have "rmatch False (RStar r) v rest" "length v \<le> n" by (auto simp: neq_Nil_conv)
      then have "rest \<in> set (starRests f n False (v @ rest))" by (rule Suc.IH)
      moreover from assms [OF star1.hyps(1)] have "v @ rest \<in> set (f b (u @ v @ rest))"
        by simp
      moreover have "length (v @ rest) < length (u @ v @ rest)" using False by simp
      ultimately show ?thesis by fastforce
    qed (use star1 in simp)
  qed simp
qed simp

lemma rrests_sound: "t \<in> set (rrests r b s) \<Longrightarrow> \<exists>w. s = w @ t \<and> rmatch b r w t"
proof (induction r arbitrary: b s t)
  case (RSeq r q)
  then obtain t' where "t' \<in> set (rrests r b s)"
    and t: "t \<in> set (rrests q (b \<and> length t' = length s) t')" by auto
  with RSeq.IH(1) obtain u where u: "s = u @ t'" "rmatch b r u t'" by blast
  with RSeq.IH(2) [OF t] obtain v where "t' = v @ t" "rmatch (b \<and> u = []) q v t" by auto
  with u show ?case using rmatch.seq [of b r u v t q] by auto
next
  case (RStar r)
  then show ?case using starRests_sound [of "rrests r" r] by auto
next
  case (RAlt r q)
  from RAlt.prems consider "t \<in> set (rrests r b s)" | "t \<in> set (rrests q b s)" by auto
  then show ?case using RAlt.IH by cases (meson rmatch.alt1 rmatch.alt2)+
qed (auto split: if_splits list.splits intro: rmatch.intros)

lemma rrests_complete: "rmatch b r w t \<Longrightarrow> t \<in> set (rrests r b (w @ t))"
proof (induction r arbitrary: b w t)
  case (RSeq r q)
  then obtain u v where w: "w = u @ v" and u: "rmatch b r u (v @ t)"
    and v: "rmatch (b \<and> u = []) q v t"
    by (auto simp: rmatch_seq_iff)
  from RSeq.IH(1) [OF u] have "v @ t \<in> set (rrests r b (w @ t))" by (simp add: w)
  moreover from RSeq.IH(2) [OF v]
  have "t \<in> set (rrests q (b \<and> length (v @ t) = length (w @ t)) (v @ t))"
    by (simp add: w)
  ultimately show ?case by (auto simp: w intro!: bexI [of _ "v @ t"])
next
  case (RStar r)
  then show ?case using starRests_complete [of r "rrests r" b w t "length (w @ t)"] by simp
qed auto

lemma rrests_iff: "t \<in> set (rrests r b s) \<longleftrightarrow> (\<exists>w. s = w @ t \<and> rmatch b r w t)"
  using rrests_sound rrests_complete by blast

lemma rrests_nonempty_iff: "rrests r b s \<noteq> [] \<longleftrightarrow> (\<exists>w t. s = w @ t \<and> rmatch b r w t)"
  using rrests_iff [of _ r b s] by (metis list.set_intros(1) neq_Nil_conv empty_iff list.set(1))

lemma searchFrom_iff:
  "searchFrom r b s \<longleftrightarrow> (\<exists>u w t. s = u @ w @ t \<and> rmatch (b \<and> u = []) r w t)"
proof (induction r b s rule: searchFrom.induct)
  case (2 r b c cs)
  have "(\<exists>u w t. c # cs = u @ w @ t \<and> rmatch (b \<and> u = []) r w t) \<longleftrightarrow>
    (\<exists>w t. c # cs = w @ t \<and> rmatch b r w t) \<or> (\<exists>u w t. cs = u @ w @ t \<and> rmatch False r w t)"
    (is "?l \<longleftrightarrow> ?r")
  proof
    assume ?l
    then obtain u w t where "c # cs = u @ w @ t" "rmatch (b \<and> u = []) r w t" by blast
    then show ?r by (cases u) auto
  next
    assume ?r
    then show ?l
    proof
      assume "\<exists>w t. c # cs = w @ t \<and> rmatch b r w t"
      then have "\<exists>w t. c # cs = [] @ w @ t \<and> rmatch (b \<and> [] = ([] :: string)) r w t" by simp
      then show ?l by blast
    next
      assume "\<exists>u w t. cs = u @ w @ t \<and> rmatch False r w t"
      then obtain u w t where "c # cs = (c # u) @ w @ t \<and> rmatch (b \<and> c # u = []) r w t" by auto
      then show ?l by blast
    qed
  qed
  with 2 show ?case by (simp add: rrests_nonempty_iff)
qed (auto simp: rrests_nonempty_iff)

lemma MatchString_iff:
  "MatchString r s \<longleftrightarrow> (\<exists>u w t. s = u @ w @ t \<and> rmatch (u = []) r w t)"
  by (simp add: MatchString_def searchFrom_iff)

subsection \<open>Derived patterns\<close>

definition ROpt :: "regex \<Rightarrow> regex" where "ROpt r = RAlt r REps"
definition RPlus :: "regex \<Rightarrow> regex" where "RPlus r = RSeq r (RStar r)"
definition RChar :: "char \<Rightarrow> regex" where "RChar c = RClass (\<lambda>d. d = c)"

primrec RWord :: "string \<Rightarrow> regex" where
  "RWord [] = REps"
| "RWord (c # cs) = RSeq (RChar c) (RWord cs)"

primrec RAlts :: "regex list \<Rightarrow> regex" where
  "RAlts [] = RNull"
| "RAlts (r # rs) = RAlt r (RAlts rs)"

primrec RTimes :: "regex \<Rightarrow> nat \<Rightarrow> regex" where
  "RTimes r 0 = REps"
| "RTimes r (Suc n) = RSeq r (RTimes r n)"

primrec RUpto :: "regex \<Rightarrow> nat \<Rightarrow> regex" where
  "RUpto r 0 = REps"
| "RUpto r (Suc n) = RAlt (RSeq r (RUpto r n)) REps"

definition RBetween :: "regex \<Rightarrow> nat \<Rightarrow> nat \<Rightarrow> regex" where
  "RBetween r m n = RSeq (RTimes r m) (RUpto r (n - m))"

lemma rmatch_opt [simp]: "rmatch b (ROpt r) w rest \<longleftrightarrow> rmatch b r w rest \<or> w = []"
  by (auto simp: ROpt_def)

lemma rmatch_char [simp]: "rmatch b (RChar c) w rest \<longleftrightarrow> w = [c]"
  by (auto simp: RChar_def)

lemma rmatch_word [simp]: "rmatch b (RWord u) w rest \<longleftrightarrow> w = u"
  by (induction u arbitrary: b w) (auto simp: rmatch_seq_iff)

lemma rmatch_alts [simp]: "rmatch b (RAlts rs) w rest \<longleftrightarrow> (\<exists>r\<in>set rs. rmatch b r w rest)"
  by (induction rs) auto

lemma rmatch_class_star: "rmatch b (RStar (RClass p)) w rest \<longleftrightarrow> (\<forall>c\<in>set w. p c)"
proof
  show "rmatch b (RStar (RClass p)) w rest \<Longrightarrow> \<forall>c\<in>set w. p c"
    by (induction b "RStar (RClass p)" w rest rule: rmatch.induct) auto
  show "\<forall>c\<in>set w. p c \<Longrightarrow> rmatch b (RStar (RClass p)) w rest"
  proof (induction w arbitrary: b)
    case (Cons c w)
    then show ?case using rmatch.star1 [of b "RClass p" "[c]" w rest] by auto
  qed (auto intro: rmatch.star0)
qed

lemma rmatch_class_plus:
  "rmatch b (RPlus (RClass p)) w rest \<longleftrightarrow> w \<noteq> [] \<and> (\<forall>c\<in>set w. p c)"
  by (cases w) (auto simp: RPlus_def rmatch_class_star)

lemma rmatch_class_times:
  "rmatch b (RTimes (RClass p) n) w rest \<longleftrightarrow> length w = n \<and> (\<forall>c\<in>set w. p c)"
proof (induction n arbitrary: b w)
  case (Suc n)
  then show ?case by (cases w) auto
qed auto

lemma rmatch_class_upto:
  "rmatch b (RUpto (RClass p) n) w rest \<longleftrightarrow> length w \<le> n \<and> (\<forall>c\<in>set w. p c)"
proof (induction n arbitrary: b w)
  case (Suc n)
  then show ?case by (cases w) auto
qed auto

lemma rmatch_class_between:
  "m \<le> n \<Longrightarrow> rmatch b (RBetween (RClass p) m n) w rest \<longleftrightarrow>
     m \<le> length w \<and> length w \<le> n \<and> (\<forall>c\<in>set w. p c)" (is "_ \<Longrightarrow> ?l \<longleftrightarrow> ?r")
proof
  assume mn: "m \<le> n"
  show "?l \<Longrightarrow> ?r"
    using mn by (auto simp: RBetween_def rmatch_seq_iff rmatch_class_times rmatch_class_upto)
  assume r: ?r
  then have "rmatch b (RSeq (RTimes (RClass p) m) (RUpto (RClass p) (n - m)))
      (take m w @ drop m w) rest"
    by (intro rmatch.seq)
       (auto simp: rmatch_class_times rmatch_class_upto dest: in_set_takeD in_set_dropD)
  then show ?l by (simp add: RBetween_def)
qed

lemmas rmatch_derived =
  rmatch_seq_iff rmatch_class_star rmatch_class_plus rmatch_class_times rmatch_class_upto
  rmatch_class_between

text \<open>A pattern between \<open>^\<close> and \<open>$\<close> matches the whole text.\<close>

lemma MatchString_anchored:
  "MatchString (RSeq RBegin (RSeq r REnd)) s \<longleftrightarrow> rmatch True r s []"
  by (auto simp: MatchString_iff rmatch_seq_iff)

lemma MatchString_prefix:
  "MatchString (RSeq RBegin r) s \<longleftrightarrow> (\<exists>w t. s = w @ t \<and> rmatch True r w t)"
  by (auto simp: MatchString_iff rmatch_seq_iff)

end
