(* ===== verification/Classify.thy ===== *)
theory Classify
  imports Tokenize Unwrap Go_Regexp
begin

text \<open>
  core/normalize/classify.go: the classification of tokens by shape and the collapsing of runs
  of one class into one marker. The set \<open>makeSet\<close> builds is a HOL set; the pool of scratch
  slices and the precomputed default set only save allocations and have no model (the
  precomputed set is the set of the default list).
\<close>

definition DefaultParents :: "string list" where
  "DefaultParents =
     [''git'', ''hg'', ''svn'', ''pijul'', ''fossil'', ''jj'',
      ''cargo'', ''npm'', ''yarn'', ''pnpm'', ''yarnpkg'',
      ''pip'', ''pip3'', ''pipenv'', ''poetry'', ''uv'',
      ''go'', ''rustup'',
      ''mvn'', ''gradle'', ''sbt'', ''ant'',
      ''dotnet'', ''nuget'',
      ''brew'', ''apt'', ''apt-get'', ''apt-cache'', ''dpkg'',
      ''dnf'', ''yum'', ''rpm'',
      ''pacman'', ''pamac'', ''yay'', ''paru'',
      ''snap'', ''flatpak'',
      ''choco'', ''scoop'', ''winget'',
      ''apk'', ''zypper'', ''xbps'', ''emerge'',
      ''corepack'',
      ''bazel'', ''bazelisk'', ''meson'', ''please'',
      ''nix'', ''nix-env'', ''guix'',
      ''mise'', ''rtx'', ''asdf'',
      ''fnm'', ''volta'', ''n'',
      ''pyenv'', ''rbenv'', ''jenv'', ''nodenv'', ''goenv'', ''tfenv'',
      ''docker'', ''podman'', ''lxc'', ''lxd'', ''incus'',
      ''kubectl'', ''kubectx'', ''kubens'', ''helm'',
      ''istioctl'', ''linkerd'',
      ''k9s'', ''stern'', ''kustomize'', ''argocd'', ''flux'',
      ''kind'', ''k3d'', ''minikube'',
      ''skaffold'', ''tilt'',
      ''buildah'', ''skopeo'', ''crane'',
      ''aws'', ''gcloud'', ''az'', ''heroku'', ''flyctl'', ''doctl'',
      ''oci'', ''ibmcloud'', ''hcloud'', ''vultr'', ''scaleway'',
      ''terraform'', ''tofu'', ''packer'', ''waypoint'',
      ''pulumi'', ''bicep'',
      ''ansible'', ''ansible-playbook'',
      ''vault'', ''consul'', ''nomad'', ''boundary'',
      ''systemctl'', ''journalctl'', ''loginctl'', ''timedatectl'',
      ''hostnamectl'', ''localectl'', ''networkctl'', ''resolvectl'',
      ''bluetoothctl'',
      ''tmux'', ''screen'', ''zellij'', ''tmuxp'',
      ''gh'', ''glab'', ''bw'',
      ''pass'', ''gpg'', ''ssh-keygen'', ''openssl'',
      ''trivy'', ''op'', ''cosign'', ''sops'',
      ''amtool'', ''promtool'', ''logcli'', ''vector'',
      ''adb'', ''fastboot'',
      ''expo'', ''flutter'', ''dart'', ''react-native'',
      ''cordova'', ''capacitor'', ''ionic'',
      ''electron'', ''electron-builder'', ''electron-forge'',
      ''deno'', ''bun'',
      ''vite'', ''webpack'', ''rollup'', ''parcel'', ''esbuild'',
      ''nx'', ''turbo'', ''lerna'', ''rush'',
      ''biome'',
      ''vitest'', ''jest'', ''mocha'', ''playwright'', ''cypress'',
      ''storybook'',
      ''sqlite3'', ''mysql'', ''psql'', ''mongosh'', ''redis-cli'',
      ''rclone'', ''restic'', ''kopia'',
      ''crontab'', ''at'', ''systemd-analyze'']"

subsection \<open>The token patterns\<close>

definition isAlpha :: "char \<Rightarrow> bool" where
  "isAlpha c \<longleftrightarrow> byteIn CHR ''a'' CHR ''z'' c \<or> byteIn CHR ''A'' CHR ''Z'' c"

definition isDigit :: "char \<Rightarrow> bool" where
  "isDigit c \<longleftrightarrow> byteIn CHR ''0'' CHR ''9'' c"

definition isHex :: "char \<Rightarrow> bool" where
  "isHex c \<longleftrightarrow> isDigit c \<or> byteIn CHR ''a'' CHR ''f'' c \<or> byteIn CHR ''A'' CHR ''F'' c"

definition isSchemeChar :: "char \<Rightarrow> bool" where
  "isSchemeChar c \<longleftrightarrow> isAlpha c \<or> isDigit c \<or> c \<in> set ''+.-''"

definition flagRe :: regex where
  "flagRe = RSeq RBegin (RBetween (RChar CHR ''-'') 1 2)"

definition repoRe :: regex where
  "repoRe = RAlts
     [RSeq RBegin (RAlt
        (RSeq (RClass isAlpha) (RSeq (RStar (RClass isSchemeChar)) (RWord ''://'')))
        (RWord ''www.'')),
      RSeq (RChar CHR ''@'') (RSeq (RStar (RClass (\<lambda>c. c \<noteq> LF))) (RChar CHR '':'')),
      RSeq (RWord ''.git'') REnd]"

definition hashRe :: regex where
  "hashRe = RSeq RBegin (RSeq (RBetween (RClass isHex) 6 40) REnd)"

definition numRe :: regex where
  "numRe = RSeq RBegin (RSeq
     (RSeq (ROpt (RChar CHR ''-'')) (RSeq (RPlus (RClass isDigit))
        (ROpt (RSeq (RChar CHR ''.'') (RPlus (RClass isDigit))))))
     REnd)"

subsection \<open>Classes\<close>

datatype classification =
  classPlain | classFlag | classPath | classRepo | classHash | classNum | classStr

definition makeSet :: "string list \<Rightarrow> string set" where
  "makeSet items = set items"

definition classifyToken :: "string \<Rightarrow> nat \<Rightarrow> string \<Rightarrow> string set \<Rightarrow> classification" where
  "classifyToken tok idx firstTok parents =
     (if tok = ''--'' then classPlain
      else if MatchString flagRe tok then classFlag
      else if idx = 0 then classPlain
      else if idx = 1 \<and> firstTok \<in> parents then classPlain
      else if MatchString repoRe tok then classRepo
      else if MatchString numRe tok then classNum
      else if MatchString hashRe tok then classHash
      else if CHR ''/'' \<in> set tok
        \<or> (0 < length tok \<and> (tok ! 0 = CHR ''.'' \<or> tok ! 0 = CHR ''~'')) then classPath
      else classStr)"

subsection \<open>Collapsing\<close>

definition collapseAppend :: "string list \<Rightarrow> string \<Rightarrow> string list" where
  "collapseAppend result token =
     (if 0 < length result \<and> last result = token then result else result @ [token])"

fun collapseFrom :: "string list \<Rightarrow> bool \<Rightarrow> (string \<times> classification) list \<Rightarrow> string list" where
  \<comment> \<open>the loop of \<open>collapseTokens\<close>, over the tokens from index 1 and their classes\<close>
  "collapseFrom result inKwargs [] = result"
| "collapseFrom result inKwargs ((tok, cls) # rest) =
     (if tok = ''--'' then
        (if \<not> inKwargs then collapseFrom (result @ [''KWARGS'']) True rest
         else collapseFrom result inKwargs rest)
      else if inKwargs then collapseFrom result inKwargs rest
      else collapseFrom
        (case cls of
           classPlain \<Rightarrow> result @ [tok]
         | classFlag \<Rightarrow> collapseAppend result ''FLAG''
         | classPath \<Rightarrow> collapseAppend result ''PATH''
         | classRepo \<Rightarrow> collapseAppend result ''REPO''
         | classHash \<Rightarrow> collapseAppend result ''HASH''
         | classNum \<Rightarrow> collapseAppend result ''NUM''
         | classStr \<Rightarrow> collapseAppend result ''STR'') inKwargs rest)"

definition collapseTokens :: "string list \<Rightarrow> classification list \<Rightarrow> string list" where
  "collapseTokens tokens classified =
     (case tokens of
        [] \<Rightarrow> []
      | tok # toks \<Rightarrow> collapseFrom [tok] False (zip toks (tl classified)))"

definition classifyAll :: "string list \<Rightarrow> string set \<Rightarrow> classification list" where
  "classifyAll tokens parentSet =
     map (\<lambda>(i, tok). classifyToken tok i (tokens ! 0) parentSet) (enumerate 0 tokens)"

definition classifyTokens :: "string list \<Rightarrow> string list \<Rightarrow> string list" where
  "classifyTokens tokens parents =
     (if tokens = [] then []
      else collapseTokens tokens (classifyAll tokens (makeSet parents)))"

text \<open>A nil slice of parents is \<open>None\<close>: it stands for the default list.\<close>

primrec orDefault :: "string list option \<Rightarrow> string list" where
  "orDefault None = DefaultParents"
| "orDefault (Some parents) = parents"

definition ExtractArgTokens :: "string \<Rightarrow> string list option \<Rightarrow> string list" where
  "ExtractArgTokens raw parents =
     (let parentSet = makeSet (orDefault parents);
          toks = unwrapPrefixTokens (Tokenize raw)
      in if toks = [] then []
         else map snd (filter
                (\<lambda>(i, tok). classifyToken tok i (toks ! 0) parentSet
                    \<in> set [classStr, classPath, classHash, classNum, classRepo])
                (enumerate 0 toks)))"

lemma classify_examples:
  "classifyTokens [''git'', ''clone'', ''-b'', ''--depth'', ''git@host:a/b.git'', ''/tmp/x'', ''../y'']
     DefaultParents = [''git'', ''clone'', ''FLAG'', ''REPO'', ''PATH'']"
  "classifyTokens [''kill'', ''-9'', ''123456'', ''--'', ''deadbeef''] DefaultParents
     = [''kill'', ''FLAG'', ''NUM'', ''KWARGS'']"
  by code_simp+

subsection \<open>What the patterns match\<close>

text \<open>The shapes of tokens, stated without regular expressions.\<close>

definition looksRepo :: "string \<Rightarrow> bool" where
  "looksRepo s \<longleftrightarrow> prefix ''www.'' s \<or> suffix ''.git'' s
     \<or> (\<exists>a sch r. s = a # sch @ ''://'' @ r \<and> isAlpha a \<and> (\<forall>c\<in>set sch. isSchemeChar c))
     \<or> (\<exists>u h r. s = u @ CHR ''@'' # h @ CHR '':'' # r \<and> LF \<notin> set h)"

definition looksDecimal :: "string \<Rightarrow> bool" where
  "looksDecimal s \<longleftrightarrow> s \<noteq> [] \<and> (\<forall>c\<in>set s. isDigit c)
     \<or> (\<exists>ds fs. s = ds @ CHR ''.'' # fs \<and> ds \<noteq> [] \<and> fs \<noteq> [] \<and> (\<forall>c\<in>set (ds @ fs). isDigit c))"

definition looksNum :: "string \<Rightarrow> bool" where
  "looksNum s \<longleftrightarrow> looksDecimal s \<or> (\<exists>r. s = CHR ''-'' # r \<and> looksDecimal r)"

definition looksHash :: "string \<Rightarrow> bool" where
  "looksHash s \<longleftrightarrow> 6 \<le> length s \<and> length s \<le> 40 \<and> (\<forall>c\<in>set s. isHex c)"

definition looksPath :: "string \<Rightarrow> bool" where
  "looksPath s \<longleftrightarrow> CHR ''/'' \<in> set s \<or> prefix ''.'' s \<or> prefix ''~'' s"

definition classArg :: "string \<Rightarrow> classification" where
  \<comment> \<open>the class of an argument, whatever its position\<close>
  "classArg s =
     (if isFlag s then classFlag
      else if looksRepo s then classRepo
      else if looksNum s then classNum
      else if looksHash s then classHash
      else if looksPath s then classPath
      else classStr)"

lemma flagRe_isFlag: "MatchString flagRe s \<longleftrightarrow> isFlag s"
proof -
  have "(\<exists>w t. s = w @ t \<and> rmatch True (RBetween (RClass (\<lambda>d. d = CHR ''-'')) 1 2) w t)
      \<longleftrightarrow> isFlag s"
  proof
    assume "isFlag s"
    then obtain t where s: "s = [CHR ''-''] @ t" by (cases s) (auto simp: isFlag_def)
    moreover have "rmatch True (RBetween (RClass (\<lambda>d. d = CHR ''-'')) 1 2) [CHR ''-''] t"
      by (subst rmatch_class_between) simp_all
    ultimately show "\<exists>w t. s = w @ t
        \<and> rmatch True (RBetween (RClass (\<lambda>d. d = CHR ''-'')) 1 2) w t" by blast
  next
    assume "\<exists>w t. s = w @ t \<and> rmatch True (RBetween (RClass (\<lambda>d. d = CHR ''-'')) 1 2) w t"
    then obtain w t where "s = w @ t" "1 \<le> length w" "\<forall>c\<in>set w. c = CHR ''-''"
      by (auto simp: rmatch_class_between)
    then show "isFlag s" by (cases w) (auto simp: isFlag_def)
  qed
  then show ?thesis by (simp add: flagRe_def MatchString_prefix RChar_def)
qed

lemma hashRe_looksHash: "MatchString hashRe s \<longleftrightarrow> looksHash s"
  by (simp add: hashRe_def MatchString_anchored rmatch_class_between looksHash_def)

lemma ex_split_option:
  "(\<exists>u v. s = u @ v \<and> A u \<and> (v = [] \<or> (\<exists>fs. v = c # fs \<and> F fs)))
     \<longleftrightarrow> A s \<or> (\<exists>u fs. s = u @ c # fs \<and> A u \<and> F fs)" (is "?l \<longleftrightarrow> ?r")
proof
  assume ?r
  then show ?l
  proof
    assume "A s"
    then have "s = s @ [] \<and> A s" by simp
    then show ?l by blast
  qed blast
qed auto

lemma ex_split_word:
  "(\<exists>w t. s = w @ t \<and> (w = p \<or> (\<exists>a m. w = a # m @ q \<and> F a m)))
     \<longleftrightarrow> prefix p s \<or> (\<exists>a m r. s = a # m @ q @ r \<and> F a m)"
proof -
  have "(\<exists>w t. s = w @ t \<and> (\<exists>a m. w = a # m @ q \<and> F a m))
      \<longleftrightarrow> (\<exists>a m r. s = (a # m @ q) @ r \<and> F a m)" by blast
  then show ?thesis
    by (simp only: conj_disj_distribL ex_disj_distrib prefix_def append_Cons append_assoc) blast
qed

lemma decimal_match:
  "rmatch b (RSeq (RPlus (RClass isDigit)) (ROpt (RSeq (RChar CHR ''.'') (RPlus (RClass isDigit)))))
     s [] \<longleftrightarrow> looksDecimal s" (is "?m \<longleftrightarrow> _")
proof -
  have "?m \<longleftrightarrow> (\<exists>u v. s = u @ v \<and> (u \<noteq> [] \<and> (\<forall>c\<in>set u. isDigit c)) \<and>
      (v = [] \<or> (\<exists>fs. v = CHR ''.'' # fs \<and> fs \<noteq> [] \<and> (\<forall>c\<in>set fs. isDigit c))))"
    unfolding rmatch_seq_iff [of b] by (auto simp: rmatch_class_plus RChar_def)
  also have "\<dots> \<longleftrightarrow> looksDecimal s"
    unfolding ex_split_option looksDecimal_def set_append ball_Un by blast
  finally show ?thesis .
qed

lemma numRe_looksNum: "MatchString numRe s \<longleftrightarrow> looksNum s"
proof -
  have "MatchString numRe s \<longleftrightarrow> (\<exists>u v. s = u @ v \<and> (u = ''-'' \<or> u = []) \<and> looksDecimal v)"
    by (simp add: numRe_def MatchString_anchored rmatch_seq_iff [of _ "ROpt (RChar CHR ''-'')"]
      decimal_match)
  also have "\<dots> \<longleftrightarrow> looksNum s"
    unfolding looksNum_def
    by (simp add: conj_disj_distribL conj_disj_distribR ex_disj_distrib) blast
  finally show ?thesis .
qed

lemma repoRe_looksRepo: "MatchString repoRe s \<longleftrightarrow> looksRepo s"
proof -
  have alts: "MatchString (RAlts [r1, r2, r3]) s
      \<longleftrightarrow> MatchString r1 s \<or> MatchString r2 s \<or> MatchString r3 s" for r1 r2 r3
    unfolding MatchString_iff rmatch_alts by auto
  have 1: "MatchString (RSeq RBegin (RAlt
        (RSeq (RClass isAlpha) (RSeq (RStar (RClass isSchemeChar)) (RWord ''://'')))
        (RWord ''www.''))) s
      \<longleftrightarrow> prefix ''www.'' s
        \<or> (\<exists>a sch r. s = a # sch @ ''://'' @ r \<and> isAlpha a \<and> (\<forall>c\<in>set sch. isSchemeChar c))"
    (is "?m \<longleftrightarrow> ?w \<or> ?u")
  proof -
    have "rmatch True (RAlt
        (RSeq (RClass isAlpha) (RSeq (RStar (RClass isSchemeChar)) (RWord ''://'')))
        (RWord ''www.'')) w t
      \<longleftrightarrow> w = ''www.'' \<or>
        (\<exists>a sch. w = a # sch @ ''://'' \<and> isAlpha a \<and> (\<forall>c\<in>set sch. isSchemeChar c))" for w t
      by (auto simp: rmatch_seq_iff [of _ "RStar r" for r] rmatch_class_star simp del: RWord.simps)
    then have "?m \<longleftrightarrow> (\<exists>w t. s = w @ t \<and> (w = ''www.'' \<or>
        (\<exists>a sch. w = a # sch @ ''://'' \<and> isAlpha a \<and> (\<forall>c\<in>set sch. isSchemeChar c))))"
      by (simp add: MatchString_prefix del: RWord.simps)
    also have "\<dots> \<longleftrightarrow> ?w \<or> ?u" by (rule ex_split_word)
    finally show ?thesis .
  qed
  have 2: "MatchString (RSeq (RChar CHR ''@'') (RSeq (RStar (RClass (\<lambda>c. c \<noteq> LF))) (RChar CHR '':''))) s
      \<longleftrightarrow> (\<exists>u h r. s = u @ CHR ''@'' # h @ CHR '':'' # r \<and> LF \<notin> set h)"
  proof -
    have "rmatch b (RSeq (RChar CHR ''@'') (RSeq (RStar (RClass (\<lambda>c. c \<noteq> LF))) (RChar CHR '':''))) w t
        \<longleftrightarrow> (\<exists>h. w = CHR ''@'' # h @ '':'' \<and> LF \<notin> set h)" for b w t
    proof -
      have "rmatch b (RSeq (RStar (RClass (\<lambda>c. c \<noteq> LF))) (RChar CHR '':'')) v t
          \<longleftrightarrow> (\<exists>h. v = h @ '':'' \<and> LF \<notin> set h)" for b v
        unfolding rmatch_seq_iff rmatch_class_star rmatch_char by blast
      note inner = this
      show ?thesis
        unfolding RChar_def [of "CHR ''@''"] rmatch_class_seq inner
        by (intro iffI; elim exE conjE) simp_all
    qed
    note outer = this
    have "MatchString (RSeq (RChar CHR ''@'') (RSeq (RStar (RClass (\<lambda>c. c \<noteq> LF)))
          (RChar CHR '':''))) s
        \<longleftrightarrow> (\<exists>u h t. s = u @ (CHR ''@'' # h @ '':'') @ t \<and> LF \<notin> set h)"
      unfolding MatchString_iff outer by blast
    then show ?thesis by simp
  qed
  have 3: "MatchString (RSeq (RWord ''.git'') REnd) s \<longleftrightarrow> suffix ''.git'' s"
    by (simp add: MatchString_iff rmatch_seq_iff suffix_def del: RWord.simps)
  show ?thesis
    unfolding repoRe_def alts 1 2 3 looksRepo_def by blast
qed

lemma looksPath_iff:
  "looksPath tok \<longleftrightarrow> CHR ''/'' \<in> set tok
     \<or> 0 < length tok \<and> (tok ! 0 = CHR ''.'' \<or> tok ! 0 = CHR ''~'')"
  by (cases tok) (auto simp: looksPath_def)

lemma classifyToken_arg:
  assumes "tok \<noteq> ''--''" "0 < i" "\<not> (i = 1 \<and> cmd \<in> P)"
  shows "classifyToken tok i cmd P = classArg tok"
  using assms
  unfolding classifyToken_def classArg_def flagRe_isFlag hashRe_looksHash numRe_looksNum
    repoRe_looksRepo looksPath_iff [symmetric] by (cases "cmd \<in> P") simp_all

lemma classArg_not_plain [simp]: "classArg tok \<noteq> classPlain"
  by (simp add: classArg_def)

text \<open>Classification by regular expressions is classification by shape: the class of a token
  is decided by its leading dash, its position, and the declarative shapes of a remote, a
  number, a hash and a path, in this order.\<close>

theorem classifyToken_shape:
  "classifyToken tok i cmd P =
     (if tok = ''--'' then classPlain
      else if isFlag tok then classFlag
      else if i = 0 \<or> i = 1 \<and> cmd \<in> P then classPlain
      else if looksRepo tok then classRepo
      else if looksNum tok then classNum
      else if looksHash tok then classHash
      else if looksPath tok then classPath
      else classStr)"
  unfolding classifyToken_def flagRe_isFlag hashRe_looksHash numRe_looksNum
    repoRe_looksRepo looksPath_iff [symmetric] by simp

subsection \<open>The template of a command\<close>

text \<open>
  The specification of phase 2, without positions, loops and accumulators: the command and,
  for a known parent, its subcommand stay; the arguments before \<open>--\<close> become the markers of
  their classes, runs of one marker become one, and \<open>--\<close> with all after it becomes KWARGS.
\<close>

primrec markerName :: "classification \<Rightarrow> string" where
  "markerName classPlain = []"
| "markerName classFlag = ''FLAG''"
| "markerName classPath = ''PATH''"
| "markerName classRepo = ''REPO''"
| "markerName classHash = ''HASH''"
| "markerName classNum = ''NUM''"
| "markerName classStr = ''STR''"

definition marker :: "string \<Rightarrow> string" where
  "marker tok = markerName (classArg tok)"

definition keepsSubcommand :: "string \<Rightarrow> string list \<Rightarrow> string set \<Rightarrow> bool" where
  "keepsSubcommand cmd body P \<longleftrightarrow> cmd \<in> P \<and> body \<noteq> [] \<and> \<not> isFlag (hd body)"

definition templateOf :: "string \<Rightarrow> string list \<Rightarrow> string set \<Rightarrow> string list" where
  "templateOf cmd args P =
     (let body = takeWhile (\<lambda>tok. tok \<noteq> ''--'') args in
      (if keepsSubcommand cmd body P
       then cmd # remdups_adj (hd body # map marker (tl body))
       else remdups_adj (cmd # map marker body))
      @ (if ''--'' \<in> set args then [''KWARGS''] else []))"

lemma collapseFrom_kwargs: "collapseFrom r True items = r"
  by (induction items) auto

lemma collapseFrom_append:
  "\<forall>(tok, cls)\<in>set items. tok \<noteq> ''--'' \<Longrightarrow>
     collapseFrom r False (items @ rest) = collapseFrom (collapseFrom r False items) False rest"
  by (induction items arbitrary: r) auto

lemma collapseFrom_marker:
  "tok \<noteq> ''--'' \<Longrightarrow> cls \<noteq> classPlain \<Longrightarrow>
     collapseFrom r False ((tok, cls) # rest)
       = collapseFrom (collapseAppend r (markerName cls)) False rest"
  by (cases cls) simp_all

lemma collapseFrom_remdups:
  "\<forall>(tok, cls)\<in>set items. tok \<noteq> ''--'' \<and> cls \<noteq> classPlain \<Longrightarrow> r \<noteq> [] \<Longrightarrow>
     collapseFrom r False items
       = butlast r @ remdups_adj (last r # map (\<lambda>(tok, cls). markerName cls) items)"
proof (induction items arbitrary: r)
  case (Cons it items)
  obtain tok cls where it: "it = (tok, cls)" by (cases it)
  let ?r = "collapseAppend r (markerName cls)"
  have "collapseFrom r False (it # items) = collapseFrom ?r False items"
    using Cons.prems by (simp add: it collapseFrom_marker del: collapseFrom.simps)
  also have "\<dots> = butlast ?r @ remdups_adj (last ?r # map (\<lambda>(tok, cls). markerName cls) items)"
    using Cons.prems by (intro Cons.IH) (auto simp: collapseAppend_def)
  also have "\<dots> = butlast r @ remdups_adj (last r # map (\<lambda>(tok, cls). markerName cls) (it # items))"
    using Cons.prems(2) append_butlast_last_id [of r] by (simp add: collapseAppend_def it)
  finally show ?case .
qed simp

definition classItems :: "string \<Rightarrow> string set \<Rightarrow> nat \<Rightarrow> string list \<Rightarrow> (string \<times> classification) list" where
  "classItems cmd P k toks = map (\<lambda>(i, tok). (tok, classifyToken tok i cmd P)) (enumerate k toks)"

lemma classItems_simps [simp]:
  "classItems cmd P k [] = []"
  "classItems cmd P k (tok # toks) = (tok, classifyToken tok k cmd P) # classItems cmd P (Suc k) toks"
  by (simp_all add: classItems_def)

lemma classItems_append:
  "classItems cmd P k (xs @ ys) = classItems cmd P k xs @ classItems cmd P (k + length xs) ys"
  by (simp add: classItems_def enumerate_append_eq)

lemma zip_classes:
  "zip toks (map (\<lambda>(i, tok). classifyToken tok i cmd P) (enumerate k toks)) = classItems cmd P k toks"
  by (induction toks arbitrary: k) simp_all

lemma classItems_token: "(tok, cls) \<in> set (classItems cmd P k toks) \<Longrightarrow> tok \<in> set toks"
  by (induction toks arbitrary: k) auto

lemma classifyTokens_items:
  "classifyTokens (cmd # args) parents
     = collapseFrom [cmd] False (classItems cmd (set parents) 1 args)"
  by (simp add: classifyTokens_def collapseTokens_def classifyAll_def makeSet_def
      zip_classes [unfolded One_nat_def])

lemma collapse_arguments:
  assumes "r \<noteq> []" "\<forall>tok\<in>set body. tok \<noteq> ''--''" "\<not> (k = 1 \<and> keepsSubcommand cmd body P)" "0 < k"
  shows "collapseFrom r False (classItems cmd P k body)
    = butlast r @ remdups_adj (last r # map marker body)"
proof -
  have items: "classItems cmd P k body = map (\<lambda>tok. (tok, classArg tok)) body"
  proof (cases body)
    case (Cons tok toks)
    have cls: "2 \<le> j \<Longrightarrow> \<forall>tok\<in>set xs. tok \<noteq> ''--'' \<Longrightarrow>
        classItems cmd P j xs = map (\<lambda>tok. (tok, classArg tok)) xs" for j xs
      by (induction xs arbitrary: j) (simp_all add: classifyToken_arg)
    have "classifyToken tok k cmd P = classArg tok"
    proof (cases "k = 1 \<and> cmd \<in> P")
      case True
      then have "isFlag tok" using assms(3) Cons by (simp add: keepsSubcommand_def)
      moreover have "tok \<noteq> ''--''" using assms(2) Cons by simp
      ultimately show ?thesis
        unfolding classifyToken_def flagRe_isFlag by (simp add: classArg_def)
    next
      case False
      then show ?thesis using assms(2,4) Cons by (intro classifyToken_arg) auto
    qed
    then show ?thesis using cls [of "Suc k" toks] assms Cons by simp
  qed simp
  show ?thesis
    unfolding items
    by (subst collapseFrom_remdups) (use assms in \<open>auto simp: marker_def [abs_def] comp_def\<close>)
qed

lemma collapse_body:
  assumes "\<forall>tok\<in>set body. tok \<noteq> ''--''"
  shows "collapseFrom [cmd] False (classItems cmd P 1 body)
    = (if keepsSubcommand cmd body P then cmd # remdups_adj (hd body # map marker (tl body))
       else remdups_adj (cmd # map marker body))"
proof (cases "keepsSubcommand cmd body P")
  case True
  then obtain s toks where body: "body = s # toks" "\<not> isFlag s" "cmd \<in> P"
    by (cases body) (auto simp: keepsSubcommand_def)
  have "classifyToken s 1 cmd P = classPlain"
    using assms body unfolding classifyToken_def flagRe_isFlag by simp
  then have "collapseFrom [cmd] False (classItems cmd P 1 body)
      = collapseFrom [cmd, s] False (classItems cmd P 2 toks)"
    using assms body by (simp add: numeral_2_eq_2)
  then show ?thesis
    using True assms body collapse_arguments [of "[cmd, s]" toks 2 cmd P] by simp
next
  case False
  then show ?thesis using assms collapse_arguments [of "[cmd]" body 1 cmd P] by simp
qed

lemma classify_template: "classifyTokens (cmd # args) parents = templateOf cmd args (set parents)"
proof -
  let ?P = "set parents"
  let ?body = "takeWhile (\<lambda>tok. tok \<noteq> ''--'') args" and ?rest = "dropWhile (\<lambda>tok. tok \<noteq> ''--'') args"
  have body: "\<forall>tok\<in>set ?body. tok \<noteq> ''--''" by (auto dest: set_takeWhileD)
  have "collapseFrom [cmd] False (classItems cmd ?P 1 args)
      = collapseFrom [cmd] False
          (classItems cmd ?P 1 ?body @ classItems cmd ?P (1 + length ?body) ?rest)"
    by (subst takeWhile_dropWhile_id [symmetric, of args]) (simp only: classItems_append)
  also have "\<dots> = collapseFrom (collapseFrom [cmd] False (classItems cmd ?P 1 ?body)) False
      (classItems cmd ?P (1 + length ?body) ?rest)"
    by (rule collapseFrom_append) (use body in \<open>auto dest!: classItems_token\<close>)
  also have "\<dots> = collapseFrom [cmd] False (classItems cmd ?P 1 ?body)
      @ (if ''--'' \<in> set args then [''KWARGS''] else [])"
  proof (cases ?rest)
    case Nil
    then have "''--'' \<notin> set args" by (auto simp: dropWhile_eq_Nil_conv)
    then show ?thesis by (simp add: Nil)
  next
    case (Cons x xs)
    then have "x = ''--''" using hd_dropWhile [of "\<lambda>tok. tok \<noteq> ''--''" args] by auto
    moreover have "x \<in> set args" by (metis Cons list.set_intros(1) set_dropWhileD)
    ultimately show ?thesis by (simp add: Cons collapseFrom_kwargs)
  qed
  finally show ?thesis
    unfolding classifyTokens_items collapse_body [OF body] templateOf_def Let_def .
qed

text \<open>C21: The loop of phase 2 computes the specified template: the command, the subcommand of a
  known parent, one marker per run of like arguments, and one KWARGS for everything from the
  first \<open>--\<close> on.\<close>

theorem classifyTokens_template:
  "classifyTokens tokens parents
     = (case tokens of [] \<Rightarrow> [] | cmd # args \<Rightarrow> templateOf cmd args (set parents))"
  by (cases tokens) (simp_all add: classifyTokens_def [of "[]"] classify_template)

subsection \<open>What a template reveals\<close>

definition markers :: "string list" where
  "markers = [''FLAG'', ''PATH'', ''REPO'', ''HASH'', ''NUM'', ''STR'', ''KWARGS'']"

lemma marker_markers: "marker tok \<in> set markers"
  by (cases "classArg tok") (simp_all add: marker_def markers_def)

lemma classify_vocabulary:
  "set (classifyTokens tokens parents) \<subseteq>
     set (take 1 tokens)
     \<union> (if set (take 1 tokens) \<subseteq> set parents then set (take 1 (drop 1 tokens)) else {})
     \<union> set markers"
proof (cases tokens)
  case (Cons cmd args)
  let ?body = "takeWhile (\<lambda>tok. tok \<noteq> ''--'') args"
  have "keepsSubcommand cmd ?body (set parents) \<Longrightarrow>
      cmd \<in> set parents \<and> take 1 args = [hd ?body]"
    by (cases args) (auto simp: keepsSubcommand_def split: if_splits)
  moreover have "set (map marker ys) \<subseteq> set markers" for ys
    using marker_markers by auto
  moreover have "''KWARGS'' \<in> set markers" by (simp add: markers_def)
  ultimately show ?thesis
    using Cons by (auto simp: classify_template templateOf_def Let_def)
qed (simp add: classifyTokens_def)

text \<open>C22: A template holds nothing of the arguments: every token of it is the command, the
  subcommand of a known parent, or one of the seven markers.\<close>

theorem template_vocabulary:
  "set (classifyTokens tokens parents) \<subseteq>
     set (take 1 tokens)
     \<union> (if set (take 1 tokens) \<subseteq> set parents then set (take 1 (drop 1 tokens)) else {})
     \<union> set markers"
  by (rule classify_vocabulary)

definition sameShape :: "string \<Rightarrow> string \<Rightarrow> bool" where
  "sameShape u v \<longleftrightarrow> (u = ''--'' \<longleftrightarrow> v = ''--'') \<and> classArg u = classArg v"

lemma sameShape_body:
  "list_all2 sameShape us vs \<Longrightarrow>
     list_all2 sameShape (takeWhile (\<lambda>tok. tok \<noteq> ''--'') us) (takeWhile (\<lambda>tok. tok \<noteq> ''--'') vs)
     \<and> (''--'' \<in> set us \<longleftrightarrow> ''--'' \<in> set vs)"
  by (induction rule: list_all2_induct) (auto simp: sameShape_def)

lemma sameShape_markers: "list_all2 sameShape us vs \<Longrightarrow> map marker us = map marker vs"
  by (induction rule: list_all2_induct) (simp_all add: sameShape_def marker_def)

text \<open>Commands that differ only in arguments of like shapes have one template, so that a
  workflow repeated on other files, branches or numbers is recognized as the same one.\<close>

theorem template_generalizes:
  assumes "list_all2 sameShape us vs" "cmd \<in> set parents \<longrightarrow> take 1 us = take 1 vs"
  shows "classifyTokens (cmd # us) parents = classifyTokens (cmd # vs) parents"
proof -
  let ?u = "takeWhile (\<lambda>tok. tok \<noteq> ''--'') us" and ?v = "takeWhile (\<lambda>tok. tok \<noteq> ''--'') vs"
  have body: "list_all2 sameShape ?u ?v" and kw: "''--'' \<in> set us \<longleftrightarrow> ''--'' \<in> set vs"
    using sameShape_body [OF assms(1)] by auto
  have m: "map marker ?u = map marker ?v" by (rule sameShape_markers [OF body])
  show ?thesis
  proof (cases "cmd \<in> set parents \<and> ?u \<noteq> []")
    case True
    then obtain s us' vs' where uv: "?u = s # us'" "?v = s # vs'"
      using assms body by (cases us; cases vs) (auto split: if_splits)
    then have "map marker us' = map marker vs'" using m by simp
    then show ?thesis using m kw uv True 
      by (simp add: classify_template templateOf_def keepsSubcommand_def Let_def)
  next
    case False
    then have "\<not> keepsSubcommand cmd ?u (set parents)" "\<not> keepsSubcommand cmd ?v (set parents)"
      using body by (auto simp: keepsSubcommand_def)
    then show ?thesis using m kw by (simp add: classify_template templateOf_def Let_def)
  qed
qed

theorem template_generalizes_witness:
  "classifyTokens [''git'', ''add'', ''src/a.c'', ''./b''] DefaultParents
     = classifyTokens [''git'', ''add'', ''/etc/x'', ''~/y''] DefaultParents"
proof -
  have "list_all2 sameShape [''add'', ''src/a.c'', ''./b''] [''add'', ''/etc/x'', ''~/y'']"
    unfolding sameShape_def classArg_def isFlag_def hashRe_looksHash [symmetric]
      numRe_looksNum [symmetric] repoRe_looksRepo [symmetric] looksPath_def by code_simp
  then show ?thesis by (rule template_generalizes) simp
qed

text \<open>What follows \<open>--\<close> leaves no trace: the template is the same for any two tails.\<close>

theorem kwargs_hides_tail:
  assumes "pre \<noteq> []"
  shows "classifyTokens (pre @ ''--'' # us) parents = classifyTokens (pre @ ''--'' # vs) parents"
proof -
  obtain cmd args where "pre = cmd # args" using assms by (cases pre) auto
  moreover have "takeWhile (\<lambda>tok. tok \<noteq> ''--'') (args @ ''--'' # zs)
      = takeWhile (\<lambda>tok. tok \<noteq> ''--'') args" for zs
    by (induction args) auto
  ultimately show ?thesis by (simp add: classify_template templateOf_def)
qed

theorem kwargs_hides_tail_witness:
  "classifyTokens [''deploy'', ''--'', ''secret''] DefaultParents
     = classifyTokens [''deploy'', ''--'', ''other'', ''-x''] DefaultParents"
  using kwargs_hides_tail [of "[''deploy'']" "[''secret'']" DefaultParents "[''other'', ''-x'']"]
  by simp

subsection \<open>Argument tokens\<close>

lemma content_iff: "classArg tok \<in> set [classStr, classPath, classHash, classNum, classRepo]
    \<longleftrightarrow> \<not> isFlag tok"
  by (simp add: classArg_def)

lemma filter_content:
  "\<not> (k = 1 \<and> cmd \<in> P) \<Longrightarrow> 0 < k \<Longrightarrow>
     map snd (filter (\<lambda>(i, tok). classifyToken tok i cmd P
         \<in> set [classStr, classPath, classHash, classNum, classRepo]) (enumerate k toks))
       = filter (\<lambda>tok. \<not> isFlag tok) toks"
proof (induction toks arbitrary: k)
  case (Cons tok toks)
  have "classifyToken tok k cmd P \<in> set [classStr, classPath, classHash, classNum, classRepo]
      \<longleftrightarrow> \<not> isFlag tok"
  proof (cases "tok = ''--''")
    case True
    then show ?thesis by (simp add: classifyToken_def)
  next
    case False
    then show ?thesis
      using classifyToken_arg [of tok k cmd P] content_iff [of tok] Cons.prems by simp
  qed
  then show ?case using Cons.IH [of "Suc k"] Cons.prems by simp
qed simp

text \<open>The argument tokens of a command are exactly the words of its unwrapped form that are
  not flags, without the command and without the subcommand of a known parent.\<close>

theorem ExtractArgTokens_spec:
  "ExtractArgTokens raw parents =
     (case unwrapPrefixTokens (Tokenize raw) of
        [] \<Rightarrow> []
      | cmd # args \<Rightarrow>
          filter (\<lambda>tok. \<not> isFlag tok)
            (if cmd \<in> set (orDefault parents) then drop 1 args else args))"
proof (cases "unwrapPrefixTokens (Tokenize raw)")
  case (Cons cmd args)
  let ?P = "set (orDefault parents)"
  let ?content = "\<lambda>(i, tok). classifyToken tok i cmd ?P
      \<in> set [classStr, classPath, classHash, classNum, classRepo]"
  have 0: "\<not> ?content (0, cmd)" by (simp add: classifyToken_def)
  have "ExtractArgTokens raw parents = map snd (filter ?content (enumerate 0 (cmd # args)))"
    unfolding ExtractArgTokens_def Cons Let_def makeSet_def by simp
  also have "\<dots> = map snd (filter ?content (enumerate 1 args))"
    using 0 by simp
  also have "\<dots> = filter (\<lambda>tok. \<not> isFlag tok) (if cmd \<in> ?P then drop 1 args else args)"
  proof (cases "cmd \<in> ?P")
    case True
    show ?thesis
    proof (cases args)
      case (Cons s toks)
      have "\<not> ?content (1, s)" using True by (simp add: classifyToken_def)
      then show ?thesis using filter_content [of 2 cmd ?P toks] Cons True
        by (simp add: numeral_2_eq_2)
    qed simp
  next
    case False
    then show ?thesis using filter_content [of 1 cmd ?P args] by simp
  qed
  finally show ?thesis using Cons by simp
qed (simp add: ExtractArgTokens_def)

text \<open>The tokens are not split at the operators first, so an operator counts as an argument.\<close>

lemma ExtractArgTokens_operator: "ExtractArgTokens ''ls | wc'' None = [''|'', ''wc'']"
  by code_simp

end
