(* ===== verification/Raw_Store.thy ===== *)
theory Raw_Store
  imports Ipc Classify
begin

text \<open>
  daemon/rawstore.go: the concrete commands behind a template, keyed by the templates before
  them. The store is a map of maps like the graph's; each method is one atomic step under its
  mutex. Where the source visits a map and sorts with \<open>sort.Slice\<close>, ties keep the order of the
  list here: any outcome of the source is the outcome here for some order of the map.
\<close>

record rawEntry =
  re_count :: int
  re_lastSeen :: gotime

definition rawEntry0 :: rawEntry where
  "rawEntry0 = \<lparr>re_count = 0, re_lastSeen = zeroTime\<rparr>"

record rawStore =
  rs_m :: "rawEntry tlmap"
  rs_halfLife :: duration

definition newRawStore :: "duration \<Rightarrow> rawStore" where
  "newRawStore hl = \<lparr>rs_m = [], rs_halfLife = hl\<rparr>"

record rawRecord =
  rr_State :: "string list"
  rr_Template :: string
  rr_Raw :: string
  rr_Count :: int
  rr_LastSeen :: gotime

subsection \<open>Keys\<close>

definition keySeparator :: string where "keySeparator = [NUL]"
definition keyDelimiter :: string where "keyDelimiter = [NUL, NUL]"

definition rawOuterKey :: "string list \<Rightarrow> string \<Rightarrow> string" where
  "rawOuterKey state template = Join (nonEmptyStrs state) keySeparator @ keyDelimiter @ template"

definition splitOuterKey :: "string \<Rightarrow> (string list \<times> string) option" where
  "splitOuterKey outerKey =
     (case Cut outerKey keyDelimiter of
        None \<Rightarrow> None
      | Some (a, template) \<Rightarrow> Some (if a \<noteq> [] then Split a NUL else [], template))"

subsection \<open>Updates\<close>

definition recordRaw :: "string list \<Rightarrow> string \<Rightarrow> string \<Rightarrow> gotime \<Rightarrow> rawStore \<Rightarrow> rawStore" where
  "recordRaw state template raw tm s =
     s\<lparr>rs_m := tlModify rawEntry0
         (\<lambda>e. e\<lparr>re_count := wrap64 (re_count e + 1), re_lastSeen := tm\<rparr>)
         (rawOuterKey state template) raw (rs_m s)\<rparr>"

definition mergeExample :: "gotime \<Rightarrow> rawExample \<Rightarrow> rawStore \<Rightarrow> rawStore" where
  "mergeExample now ex s =
     (if x_Template ex = [] \<or> x_Raw ex = [] then s
      else let lastSeen = (if 0 < x_LastSeen ex then time_Unix (x_LastSeen ex) else now)
           in s\<lparr>rs_m := tlModify rawEntry0
                (\<lambda>e. e\<lparr>re_count := wrap64 (re_count e + x_Count ex),
                       re_lastSeen := (if After lastSeen (re_lastSeen e) then lastSeen
                                       else re_lastSeen e)\<rparr>)
                (rawOuterKey (x_State ex) (x_Template ex)) (x_Raw ex) (rs_m s)\<rparr>)"

definition mergeExamples :: "rawExample list \<Rightarrow> gotime \<Rightarrow> rawStore \<Rightarrow> rawStore" where
  "mergeExamples examples now s = fold (mergeExample now) examples s"

definition loadRaws :: "rawRecord list \<Rightarrow> rawStore \<Rightarrow> rawStore" where
  "loadRaws records s =
     fold (\<lambda>rec s. s\<lparr>rs_m := tlModify rawEntry0
         (\<lambda>_. \<lparr>re_count = rr_Count rec, re_lastSeen = rr_LastSeen rec\<rparr>)
         (rawOuterKey (rr_State rec) (rr_Template rec)) (rr_Raw rec) (rs_m s)\<rparr>) records s"

definition resetRaws :: "rawStore \<Rightarrow> rawStore" where
  "resetRaws s = s\<lparr>rs_m := []\<rparr>"

definition orphanKey :: "string list \<Rightarrow> string \<Rightarrow> bool" where
  "orphanKey orphaned outerKey =
     (case splitOuterKey outerKey of None \<Rightarrow> False | Some (_, template) \<Rightarrow> template \<in> set orphaned)"

definition dropOrphaned :: "string list \<Rightarrow> rawStore \<Rightarrow> rawStore" where
  "dropOrphaned orphaned s =
     (if length orphaned = 0 then s
      else s\<lparr>rs_m := filter (\<lambda>(outerKey, _). \<not> orphanKey orphaned outerKey) (rs_m s)\<rparr>)"

definition snapshot :: "rawStore \<Rightarrow> rawRecord list" where
  "snapshot s =
     concat (map (\<lambda>(outerKey, inner).
       (case splitOuterKey outerKey of
          None \<Rightarrow> []
        | Some (state, template) \<Rightarrow>
            map (\<lambda>(raw, e). \<lparr>rr_State = state, rr_Template = template, rr_Raw = raw,
                   rr_Count = re_count e, rr_LastSeen = re_lastSeen e\<rparr>) inner)) (rs_m s))"

subsection \<open>Ranking and hydration\<close>

record rawScore =
  sc_Raw :: string
  sc_Score :: real

definition hydrationTieThreshold :: real where "hydrationTieThreshold = 1 / 2"
definition maxHydrationCandidates :: int where "maxHydrationCandidates = 3"
definition tokenBoost :: real where "tokenBoost = 100"
definition argLookback :: nat where "argLookback = 5"

definition rawScoreOf :: "rawStore \<Rightarrow> rawEntry \<Rightarrow> string \<Rightarrow> string list \<Rightarrow> gotime \<Rightarrow> real" where
  \<comment> \<open>\<open>rawStore.score\<close>\<close>
  "rawScoreOf s e raw argTokens tm =
     (let recency = (if \<not> IsZero (re_lastSeen e)
                     then decayFactor (Sub tm (re_lastSeen e)) (rs_halfLife s) else 1 / 10);
          base = real_of_int (re_count e) * recency
      in if 0 < length argTokens then
           (let rawTokens = set (Tokenize raw)
            in fold (\<lambda>tok score. if tok \<in> rawTokens then score + tokenBoost else score) argTokens base)
         else base)"

definition rankBucket ::
  "rawStore \<Rightarrow> (string \<times> rawEntry) list \<Rightarrow> string \<Rightarrow> string list \<Rightarrow> gotime \<Rightarrow> int \<Rightarrow> rawScore list" where
  "rankBucket s inner prfx argTokens tm n =
     (let scored = map (\<lambda>(raw, e). \<lparr>sc_Raw = raw, sc_Score = rawScoreOf s e raw argTokens tm\<rparr>) inner;
          prefixScored = filter (\<lambda>r. prfx \<noteq> [] \<and> HasPrefix (sc_Raw r) prfx) scored;
          scored' = (if prfx \<noteq> [] \<and> 0 < length prefixScored then prefixScored else scored)
      in capTo n (sort_key (\<lambda>r. - sc_Score r) scored'))"

fun topNFrom ::
  "rawStore \<Rightarrow> string list list \<Rightarrow> string \<Rightarrow> string \<Rightarrow> string list \<Rightarrow> gotime \<Rightarrow> int \<Rightarrow> rawScore list" where
  \<comment> \<open>the loop of \<open>topNLocked\<close> over the shorter and shorter windows\<close>
  "topNFrom s [] template prfx argTokens tm n = []"
| "topNFrom s (window # windows) template prfx argTokens tm n =
     (let inner = tlInner (rs_m s) (rawOuterKey window template) in
      if length inner = 0 then topNFrom s windows template prfx argTokens tm n
      else let ranked = rankBucket s inner prfx argTokens tm n
           in if 0 < length ranked then ranked
              else topNFrom s windows template prfx argTokens tm n)"

definition topNLocked ::
  "rawStore \<Rightarrow> string list \<Rightarrow> string \<Rightarrow> string \<Rightarrow> string list \<Rightarrow> gotime \<Rightarrow> int \<Rightarrow> rawScore list" where
  "topNLocked s templates template prfx argTokens tm n =
     topNFrom s (map (\<lambda>trim. drop trim templates) [0..<length templates + 1]) template prfx argTokens tm n"

definition bestLocked ::
  "rawStore \<Rightarrow> string list \<Rightarrow> string \<Rightarrow> string \<Rightarrow> string list \<Rightarrow> gotime \<Rightarrow> string" where
  "bestLocked s templates template prfx argTokens tm =
     (let ranked = topNLocked s templates template prfx argTokens tm 1
      in if length ranked = 0 then [] else sc_Raw (ranked ! 0))"

function extraFrom :: "rawScore list \<Rightarrow> int \<Rightarrow> nat \<Rightarrow> nat" where
  \<comment> \<open>the loop that counts the runner-ups close to the best candidate\<close>
  "extraFrom ranked headroom extra =
     (if int extra < headroom \<and> extra + 1 < length ranked
         \<and> sc_Score (ranked ! 0) * hydrationTieThreshold \<le> sc_Score (ranked ! (extra + 1))
      then extraFrom ranked headroom (extra + 1) else extra)"
  by pat_completeness auto
termination by (relation "measure (\<lambda>(ranked, h, extra). length ranked - extra)") auto

declare extraFrom.simps [simp del]

definition headroomOf :: "int \<Rightarrow> nat \<Rightarrow> int" where
  "headroomOf limit n =
     (let headroom = maxHydrationCandidates - 1
      in if 0 < limit \<and> limit - int n < headroom then limit - int n else headroom)"

definition hydrate ::
  "rawStore \<Rightarrow> suggestion list \<Rightarrow> string list \<Rightarrow> string \<Rightarrow> string list \<Rightarrow> gotime \<Rightarrow> int \<Rightarrow> suggestion list" where
  "hydrate s suggestions templates prfx argTokens tm limit =
     (case suggestions of
        [] \<Rightarrow> []
      | top_s # others \<Rightarrow>
          let ranked = topNLocked s templates (g_Template top_s) prfx argTokens tm maxHydrationCandidates;
              extra = extraFrom ranked (headroomOf limit (length suggestions)) 0;
              first = (if length ranked = 0 then [top_s]
                       else map (\<lambda>i. top_s\<lparr>g_Raw := sc_Raw (ranked ! i)\<rparr>) [0..<extra + 1])
          in first @
             map (\<lambda>sug. let raw = bestLocked s templates (g_Template sug) prfx argTokens tm
                   in if raw \<noteq> [] then sug\<lparr>g_Raw := raw\<rparr> else sug) others)"

fun addTokens :: "string list \<Rightarrow> string list \<Rightarrow> string list" where
  "addTokens tokens [] = tokens"
| "addTokens tokens (tok # toks) =
     (if length tok < 3 \<or> tok \<in> set tokens then addTokens tokens toks
      else addTokens (tokens @ [tok]) toks)"

definition collectArgTokens :: "string list \<Rightarrow> string list option \<Rightarrow> string list" where
  "collectArgTokens rawCmds parents =
     (if length rawCmds = 0 then []
      else fold (\<lambda>raw tokens. addTokens tokens (ExtractArgTokens raw parents))
             (drop (length rawCmds - argLookback) rawCmds) [])"

subsection \<open>Keys are split into what they were built from\<close>

fun sparse :: "string \<Rightarrow> bool" where
  \<comment> \<open>no delimiter begins inside the text, even if one follows it\<close>
  "sparse [] = True"
| "sparse [c] = (c \<noteq> NUL)"
| "sparse (c # d # cs) = (\<not> (c = NUL \<and> d = NUL) \<and> sparse (d # cs))"

lemma Cut_sparse: "sparse a \<Longrightarrow> Cut (a @ keyDelimiter @ t) keyDelimiter = Some (a, t)"
proof (induction a rule: sparse.induct)
  case 1
  show ?case by (simp add: keyDelimiter_def)
qed (auto simp: keyDelimiter_def)

lemma sparse_word: "NUL \<notin> set w \<Longrightarrow> sparse w"
  by (induction w rule: sparse.induct) auto

lemma sparse_join:
  "NUL \<notin> set w \<Longrightarrow> w \<noteq> [] \<Longrightarrow> sparse r \<Longrightarrow> r \<noteq> [] \<Longrightarrow> hd r \<noteq> NUL \<Longrightarrow> sparse (w @ NUL # r)"
proof (induction w rule: sparse.induct)
  case (2 c)
  then show ?case by (cases r) auto
qed auto

definition validState :: "string list \<Rightarrow> bool" where
  "validState state \<longleftrightarrow> (\<forall>s\<in>set state. s \<noteq> [] \<and> NUL \<notin> set s)"

lemma hd_Join: "ws \<noteq> [] \<Longrightarrow> hd ws \<noteq> [] \<Longrightarrow> hd (Join ws sep) = hd (hd ws)"
  by (cases ws; cases "tl ws") auto

lemma sparse_Join: "validState ws \<Longrightarrow> sparse (Join ws [NUL])"
proof (induction ws "[NUL]" rule: Join.induct)
  case (3 w v ws)
  let ?r = "Join (v # ws) [NUL]"
  have v: "v \<noteq> []" "NUL \<notin> set v" "NUL \<notin> set w" "w \<noteq> []" "validState (v # ws)"
    using 3 by (auto simp: validState_def)
  moreover have "?r \<noteq> []" using v by (auto simp: Join_eq_Nil)
  moreover have "hd ?r \<noteq> NUL" using v hd_Join [of "v # ws" "[NUL]"] by (cases v) auto
  ultimately show ?case using 3 sparse_join [of w ?r] by simp
qed (auto simp: validState_def sparse_word)

lemma splitOuterKey_key: "validState state \<Longrightarrow> splitOuterKey (rawOuterKey state t) = Some (state, t)"
proof -
  assume v: "validState state"
  then have ne: "nonEmptyStrs state = state"
    by (auto simp: nonEmptyStrs_def validState_def filter_id_conv)
  have "state \<noteq> [] \<Longrightarrow> Join state [NUL] \<noteq> []"
    using v by (auto simp: Join_eq_Nil validState_def)
  moreover have "state \<noteq> [] \<Longrightarrow> Split (Join state [NUL]) NUL = state"
    using v by (intro Split_Join) (auto simp: validState_def)
  ultimately show ?thesis
    using Cut_sparse [OF sparse_Join [OF v], of t] ne
    by (cases "state = []") (simp_all add: splitOuterKey_def rawOuterKey_def keySeparator_def)
qed

interpretation raw_key: key_codec "\<lambda>(state, t). rawOuterKey state t" splitOuterKey
  "\<lambda>(state, t). validState state"
  by unfold_locales (auto simp: splitOuterKey_key)

lemma rawOuterKey_nonEmpty: "rawOuterKey state t = rawOuterKey (nonEmptyStrs state) t"
  by (simp add: rawOuterKey_def nonEmptyStrs_def)

lemma validState_nonEmpty: "\<forall>s\<in>set state. NUL \<notin> set s \<Longrightarrow> validState (nonEmptyStrs state)"
  by (auto simp: validState_def nonEmptyStrs_def)

text \<open>The key of a raw bucket determines the workflow context and the template: templates
  without NUL bytes never share a key by accident, empty ones aside, which are ignored.\<close>

theorem rawOuterKey_roundtrip:
  assumes "\<forall>s\<in>set state. NUL \<notin> set s"
  shows "splitOuterKey (rawOuterKey state t) = Some (nonEmptyStrs state, t)"
  using splitOuterKey_key [OF validState_nonEmpty [OF assms], of t] rawOuterKey_nonEmpty by simp

theorem rawOuterKey_roundtrip_witness:
  "splitOuterKey (rawOuterKey ['''', ''git add PATH''] ''git commit FLAG STR'')
     = Some ([''git add PATH''], ''git commit FLAG STR'')"
  using rawOuterKey_roundtrip [of "['''', ''git add PATH'']" "''git commit FLAG STR''"]
  by (simp add: nonEmptyStrs_def)

subsection \<open>The invariant of the store\<close>

text \<open>Every bucket is non-empty and sits under a key that some valid context and template give.\<close>

definition rawInv :: "rawStore \<Rightarrow> bool" where
  "rawInv s \<longleftrightarrow> tlWf (rs_m s)
     \<and> (\<forall>k raw e. tlLookup (rs_m s) k raw = Some e \<longrightarrow>
          (\<exists>state t. validState state \<and> k = rawOuterKey state t))"

definition plainExample :: "rawExample \<Rightarrow> bool" where
  "plainExample ex \<longleftrightarrow> (\<forall>s\<in>set (x_State ex). NUL \<notin> set s)"

lemma rawInv_new [simp]: "rawInv (newRawStore hl)" "rawInv (resetRaws s)"
  by (simp_all add: rawInv_def newRawStore_def resetRaws_def)

lemma rawInv_modify:
  assumes "rawInv s" "\<forall>x\<in>set state. NUL \<notin> set x"
  shows "rawInv (s\<lparr>rs_m := tlModify z f (rawOuterKey state t) raw (rs_m s)\<rparr>)"
  unfolding rawInv_def
proof (intro conjI allI impI)
  show "tlWf (rs_m (s\<lparr>rs_m := tlModify z f (rawOuterKey state t) raw (rs_m s)\<rparr>))"
    using assms(1) by (simp add: rawInv_def tlWf_modify)
  fix k r e
  assume "tlLookup (rs_m (s\<lparr>rs_m := tlModify z f (rawOuterKey state t) raw (rs_m s)\<rparr>)) k r = Some e"
  then consider "k = rawOuterKey state t" | "tlLookup (rs_m s) k r = Some e"
    by (auto simp: tlLookup_modify split: if_splits)
  then show "\<exists>state t. validState state \<and> k = rawOuterKey state t"
    using assms(1) validState_nonEmpty [OF assms(2)] rawOuterKey_nonEmpty [of state t]
    unfolding rawInv_def by cases blast+
qed

lemma rawInv_record: "rawInv s \<Longrightarrow> \<forall>x\<in>set state. NUL \<notin> set x \<Longrightarrow> rawInv (recordRaw state t raw tm s)"
  unfolding recordRaw_def by (rule rawInv_modify)

lemma rawInv_mergeExample: "rawInv s \<Longrightarrow> plainExample ex \<Longrightarrow> rawInv (mergeExample now ex s)"
  unfolding mergeExample_def plainExample_def Let_def by (simp add: rawInv_modify)

lemma rawInv_mergeExamples:
  "rawInv s \<Longrightarrow> \<forall>ex\<in>set examples. plainExample ex \<Longrightarrow> rawInv (mergeExamples examples now s)"
  unfolding mergeExamples_def by (induction examples arbitrary: s) (simp_all add: rawInv_mergeExample)

lemma lookup_recordRaw:
  "tlLookup (rs_m (recordRaw state t raw tm s)) k r =
     (if k = rawOuterKey state t \<and> r = raw
      then Some ((case tlLookup (rs_m s) k r of None \<Rightarrow> rawEntry0 | Some e \<Rightarrow> e)
             \<lparr>re_count := wrap64 (re_count (case tlLookup (rs_m s) k r of None \<Rightarrow> rawEntry0 | Some e \<Rightarrow> e) + 1),
              re_lastSeen := tm\<rparr>)
      else tlLookup (rs_m s) k r)"
  by (simp add: recordRaw_def tlLookup_modify)

subsection \<open>Dropping orphans\<close>

lemma dropOrphaned_m:
  "rs_m (dropOrphaned orphaned s) = filter (\<lambda>(k, _). \<not> orphanKey orphaned k) (rs_m s)"
  by (auto simp: dropOrphaned_def orphanKey_def split: option.splits intro!: filter_True [symmetric])

lemma lookup_dropOrphaned:
  "tlLookup (rs_m (dropOrphaned orphaned s)) k raw
     = (if orphanKey orphaned k then None else tlLookup (rs_m s) k raw)"
  by (simp add: dropOrphaned_m tlLookup_def map_of_filter_key)

lemma rawInv_dropOrphaned: "rawInv s \<Longrightarrow> rawInv (dropOrphaned orphaned s)"
  unfolding rawInv_def lookup_dropOrphaned
  by (auto simp: dropOrphaned_m tlWf_def intro: wfMap_filter split: if_splits)

text \<open>A decay sweep forgets the raw commands of exactly the orphaned templates: the bucket of any
  context is gone if its template is in the list and untouched otherwise.\<close>

theorem dropOrphaned_exact:
  assumes "\<forall>x\<in>set state. NUL \<notin> set x"
  shows "tlLookup (rs_m (dropOrphaned orphaned s)) (rawOuterKey state t) raw
    = (if t \<in> set orphaned then None else tlLookup (rs_m s) (rawOuterKey state t) raw)"
proof -
  have "splitOuterKey (rawOuterKey state t) = Some (nonEmptyStrs state, t)"
    using splitOuterKey_key [OF validState_nonEmpty [OF assms], of t] rawOuterKey_nonEmpty by simp
  then show ?thesis by (simp add: lookup_dropOrphaned orphanKey_def)
qed

definition demoRaws :: rawStore where
  "demoRaws = recordRaw [''git clone REPO''] ''cd PATH'' ''cd hunch'' 5
     (recordRaw [] ''ls'' ''ls'' 3 (newRawStore 10))"

lemma demoRaws_inv: "rawInv demoRaws"
  unfolding demoRaws_def by (intro rawInv_record rawInv_new) simp_all

theorem dropOrphaned_exact_witness:
  "tlLookup (rs_m (dropOrphaned [''cd PATH''] demoRaws)) (rawOuterKey [''git clone REPO''] ''cd PATH'') ''cd hunch''
     = None"
  using dropOrphaned_exact [of "[''git clone REPO'']" "[''cd PATH'']" demoRaws "''cd PATH''" "''cd hunch''"]
  by simp

subsection \<open>Snapshots\<close>

definition itemRecord :: "string \<times> string \<times> rawEntry \<Rightarrow> rawRecord" where
  "itemRecord = (\<lambda>(k, raw, e).
     (case splitOuterKey k of
        None \<Rightarrow> \<lparr>rr_State = [], rr_Template = [], rr_Raw = [], rr_Count = 0, rr_LastSeen = 0\<rparr>
      | Some (state, template) \<Rightarrow> \<lparr>rr_State = state, rr_Template = template, rr_Raw = raw,
          rr_Count = re_count e, rr_LastSeen = re_lastSeen e\<rparr>))"

lemma rawInv_key:
  assumes "rawInv s" "(k, inner) \<in> set (rs_m s)"
  shows "\<exists>state t. validState state \<and> k = rawOuterKey state t \<and> splitOuterKey k = Some (state, t)"
proof -
  have wf: "tlWf (rs_m s)" using assms(1) by (simp add: rawInv_def)
  then have "inner \<noteq> []" using assms(2) tlWfD by blast
  then obtain raw e where "(raw, e) \<in> set inner" by (cases inner) auto
  then have "tlLookup (rs_m s) k raw = Some e"
    using assms(2) tlItems_iff [OF wf] set_tlItems by metis
  then show ?thesis using assms(1) splitOuterKey_key unfolding rawInv_def by metis
qed

lemma snapshot_items:
  assumes "rawInv s"
  shows "snapshot s = map itemRecord (tlItems (rs_m s))"
proof -
  have "(case splitOuterKey k of None \<Rightarrow> []
      | Some (state, template) \<Rightarrow> map (\<lambda>(raw, e). \<lparr>rr_State = state, rr_Template = template,
          rr_Raw = raw, rr_Count = re_count e, rr_LastSeen = re_lastSeen e\<rparr>) inner)
      = map (\<lambda>(raw, e). itemRecord (k, raw, e)) inner" if "(k, inner) \<in> set (rs_m s)" for k inner
    using rawInv_key [OF assms that] by (auto simp: itemRecord_def)
  then have "snapshot s = concat (map (\<lambda>(k, inner). map (\<lambda>(raw, e). itemRecord (k, raw, e)) inner) (rs_m s))"
    unfolding snapshot_def by (intro arg_cong [where f = concat] map_cong) auto
  then show ?thesis by (simp add: tlItems_def map_concat comp_def case_prod_unfold)
qed

lemma rawEntry_eta: "\<lparr>re_count = re_count e, re_lastSeen = re_lastSeen e\<rparr> = e"
  by simp

lemma loadRaws_items:
  "\<forall>i\<in>set items. \<exists>state t. fst i = rawOuterKey state t \<and> splitOuterKey (fst i) = Some (state, t) \<Longrightarrow>
     rs_m (loadRaws (map itemRecord items) s) = tlStore rawEntry0 items (rs_m s)"
proof (induction items arbitrary: s)
  case (Cons i items)
  obtain k raw e where i: "i = (k, raw, e)" by (cases i)
  then obtain state t where "k = rawOuterKey state t" "splitOuterKey k = Some (state, t)"
    using Cons.prems by auto
  then have "rs_m (loadRaws (map itemRecord (i # items)) s)
      = tlStore rawEntry0 items (tlModify rawEntry0 (\<lambda>_. e) k raw (rs_m s))"
    using Cons by (simp add: loadRaws_def i itemRecord_def rawEntry_eta)
  then show ?case by (simp add: tlStore_def i)
qed (simp add: loadRaws_def tlStore_def)

text \<open>A restart keeps the raw commands: loading a snapshot into an empty store restores every
  entry with its count and time, under its key.\<close>

theorem snapshot_load_roundtrip:
  assumes "rawInv s"
  shows "tlLookup (rs_m (loadRaws (snapshot s) (newRawStore hl))) k raw = tlLookup (rs_m s) k raw"
proof -
  have "\<forall>i\<in>set (tlItems (rs_m s)). \<exists>state t. fst i = rawOuterKey state t
      \<and> splitOuterKey (fst i) = Some (state, t)"
    using rawInv_key [OF assms] set_tlItems by fastforce
  then have "rs_m (loadRaws (snapshot s) (newRawStore hl)) = tlStore rawEntry0 (tlItems (rs_m s)) []"
    by (simp add: snapshot_items [OF assms] loadRaws_items newRawStore_def)
  then show ?thesis using assms by (simp add: tlLookup_store_items rawInv_def)
qed

theorem snapshot_load_roundtrip_witness:
  "rawInv demoRaws
     \<and> tlLookup (rs_m (loadRaws (snapshot demoRaws) (newRawStore 10))) (rawOuterKey [] ''ls'') ''ls''
       = Some \<lparr>re_count = 1, re_lastSeen = 3\<rparr>"
proof -
  have "rawOuterKey [] ''ls'' \<noteq> rawOuterKey [''git clone REPO''] ''cd PATH''"
    by (simp add: rawOuterKey_def nonEmptyStrs_def keyDelimiter_def)
  then have "tlLookup (rs_m demoRaws) (rawOuterKey [] ''ls'') ''ls'' = Some \<lparr>re_count = 1, re_lastSeen = 3\<rparr>"
    by (simp add: demoRaws_def lookup_recordRaw newRawStore_def rawEntry0_def)
  then show ?thesis using snapshot_load_roundtrip [OF demoRaws_inv, of 10] demoRaws_inv by simp
qed

subsection \<open>Hydration\<close>

lemma length_rankBucket: "0 < n \<Longrightarrow> length (rankBucket s inner prfx toks tm n) \<le> nat n"
  by (auto simp: rankBucket_def capTo_def Let_def)

lemma capTo_set: "set (capTo n xs) \<subseteq> set xs"
  by (auto simp: capTo_def dest: in_set_takeD)

lemma capTo_hd: "xs \<noteq> [] \<Longrightarrow> capTo n xs \<noteq> [] \<and> hd (capTo n xs) = hd xs"
  by (cases xs) (auto simp: capTo_def take_Cons')

lemma rankBucket_raw:
  "r \<in> set (rankBucket s inner prfx toks tm n) \<Longrightarrow>
     \<exists>e. (sc_Raw r, e) \<in> set inner \<and> sc_Score r = rawScoreOf s e (sc_Raw r) toks tm"
  using capTo_set by (fastforce simp: rankBucket_def Let_def split: if_splits)

definition eligible :: "string \<Rightarrow> (string \<times> rawEntry) list \<Rightarrow> (string \<times> rawEntry) list" where
  \<comment> \<open>the raws that start with the typed prefix, if any does\<close>
  "eligible prfx inner =
     (let hits = filter (\<lambda>(raw, e). HasPrefix raw prfx) inner in if hits = [] then inner else hits)"

lemma rankBucket_eq:
  "rankBucket s inner prfx toks tm n
     = capTo n (sort_key (\<lambda>r. - sc_Score r)
         (map (\<lambda>(raw, e). \<lparr>sc_Raw = raw, sc_Score = rawScoreOf s e raw toks tm\<rparr>) (eligible prfx inner)))"
proof -
  have "filter (\<lambda>r. HasPrefix (sc_Raw r) prfx)
        (map (\<lambda>(raw, e). \<lparr>sc_Raw = raw, sc_Score = rawScoreOf s e raw toks tm\<rparr>) inner)
      = map (\<lambda>(raw, e). \<lparr>sc_Raw = raw, sc_Score = rawScoreOf s e raw toks tm\<rparr>)
          (filter (\<lambda>(raw, e). HasPrefix raw prfx) inner)"
    by (simp add: filter_map comp_def case_prod_unfold)
  then show ?thesis
    by (cases "prfx = []") (simp_all add: rankBucket_def eligible_def Let_def case_prod_unfold)
qed

lemma eligible_nonempty: "inner \<noteq> [] \<Longrightarrow> eligible prfx inner \<noteq> []"
  by (simp add: eligible_def Let_def)

lemma rankBucket_nonempty: "inner \<noteq> [] \<Longrightarrow> rankBucket s inner prfx toks tm n \<noteq> []"
  unfolding rankBucket_eq
  by (rule capTo_hd [THEN conjunct1], rule sort_key_nonempty) (simp add: eligible_nonempty)

lemma rankBucket_best:
  assumes "inner \<noteq> []" "(raw, e) \<in> set (eligible prfx inner)"
  shows "rawScoreOf s e raw toks tm \<le> sc_Score (hd (rankBucket s inner prfx toks tm n))"
proof -
  let ?xs = "map (\<lambda>(raw, e). \<lparr>sc_Raw = raw, sc_Score = rawScoreOf s e raw toks tm\<rparr>) (eligible prfx inner)"
  let ?ys = "sort_key (\<lambda>r. - sc_Score r) ?xs"
  have ne: "?ys \<noteq> []"
    by (rule sort_key_nonempty) (simp add: eligible_nonempty [OF assms(1)])
  have "\<lparr>sc_Raw = raw, sc_Score = rawScoreOf s e raw toks tm\<rparr> \<in> set ?ys" using assms(2) by force
  moreover have "sorted (map (\<lambda>r. - sc_Score r) ?ys)" by (rule sorted_sort_key)
  ultimately have "- sc_Score (hd ?ys) \<le> - rawScoreOf s e raw toks tm"
    using ne by (cases ?ys) auto
  then show ?thesis using capTo_hd [OF ne] by (simp add: rankBucket_eq)
qed

text \<open>The bucket that answers is that of the longest suffix of the context that has one.\<close>

definition answering :: "rawStore \<Rightarrow> string list list \<Rightarrow> string \<Rightarrow> (string \<times> rawEntry) list" where
  "answering s windows template =
     (case filter (\<lambda>inner. inner \<noteq> []) (map (\<lambda>w. tlInner (rs_m s) (rawOuterKey w template)) windows) of
        [] \<Rightarrow> []
      | inner # _ \<Rightarrow> inner)"

definition windowsOf :: "string list \<Rightarrow> string list list" where
  "windowsOf templates = map (\<lambda>trim. drop trim templates) [0..<length templates + 1]"

lemma topNFrom_eq:
  "topNFrom s windows template prfx toks tm n =
     (let inner = answering s windows template in
      if inner = [] then [] else rankBucket s inner prfx toks tm n)"
  by (induction windows) (auto simp: answering_def Let_def rankBucket_nonempty)

lemma topNLocked_eq:
  "topNLocked s templates template prfx toks tm n =
     (let inner = answering s (windowsOf templates) template in
      if inner = [] then [] else rankBucket s inner prfx toks tm n)"
  by (simp add: topNLocked_def windowsOf_def topNFrom_eq)

lemma bestLocked_eq:
  "bestLocked s templates template prfx toks tm =
     (let inner = answering s (windowsOf templates) template in
      if inner = [] then [] else sc_Raw (hd (rankBucket s inner prfx toks tm 1)))"
  by (simp add: bestLocked_def topNLocked_eq Let_def rankBucket_nonempty hd_conv_nth)

lemma answering_window:
  "answering s windows template \<noteq> [] \<Longrightarrow>
     \<exists>w\<in>set windows. answering s windows template = tlInner (rs_m s) (rawOuterKey w template)"
  by (induction windows) (auto simp: answering_def split: list.splits if_splits)

lemma ranked_eligible:
  "r \<in> set (topNLocked s templates template prfx toks tm n) \<Longrightarrow>
     \<exists>e. (sc_Raw r, e) \<in> set (eligible prfx (answering s (windowsOf templates) template))
       \<and> sc_Score r = rawScoreOf s e (sc_Raw r) toks tm"
  using capTo_set by (fastforce simp: topNLocked_eq rankBucket_eq Let_def split: if_splits)

lemma best_eligible:
  assumes "answering s (windowsOf templates) template \<noteq> []"
  shows "\<exists>e'. (bestLocked s templates template prfx toks tm, e')
        \<in> set (eligible prfx (answering s (windowsOf templates) template))
     \<and> (\<forall>(raw, e)\<in>set (eligible prfx (answering s (windowsOf templates) template)).
          rawScoreOf s e raw toks tm \<le> rawScoreOf s e' (bestLocked s templates template prfx toks tm) toks tm)"
proof -
  let ?inner = "answering s (windowsOf templates) template"
  let ?ranked = "rankBucket s ?inner prfx toks tm 1"
  have best: "bestLocked s templates template prfx toks tm = sc_Raw (hd ?ranked)"
    using assms(1) by (simp add: bestLocked_eq Let_def)
  have "hd ?ranked \<in> set (topNLocked s templates template prfx toks tm 1)"
    using rankBucket_nonempty [OF assms(1)] assms(1) by (simp add: topNLocked_eq Let_def)
  then obtain e' where "(sc_Raw (hd ?ranked), e') \<in> set (eligible prfx ?inner)"
      "sc_Score (hd ?ranked) = rawScoreOf s e' (sc_Raw (hd ?ranked)) toks tm"
    using ranked_eligible by blast
  moreover have "\<forall>(raw, e)\<in>set (eligible prfx ?inner). rawScoreOf s e raw toks tm \<le> sc_Score (hd ?ranked)"
    using rankBucket_best [OF assms, of _ _ prfx s toks tm 1] by blast
  ultimately show ?thesis unfolding best by metis
qed

text \<open>C39: The command shown for a template is a best one: among the recorded commands of the longest
  known context it is one of those that continue what is typed, if any does, and none of these scores
  higher.\<close>

theorem bestLocked_best:
  assumes "answering s (windowsOf templates) template = inner" "inner \<noteq> []"
    and "bestLocked s templates template prfx toks tm = best"
  shows "\<exists>e'. (best, e') \<in> set inner
     \<and> ((\<exists>(raw, e)\<in>set inner. HasPrefix raw prfx) \<longrightarrow> HasPrefix best prfx)
     \<and> (\<forall>(raw, e)\<in>set inner. HasPrefix raw prfx \<or> \<not> (\<exists>(raw, e)\<in>set inner. HasPrefix raw prfx) \<longrightarrow>
          rawScoreOf s e raw toks tm \<le> rawScoreOf s e' best toks tm)"
proof -
  have ne: "answering s (windowsOf templates) template \<noteq> []" using assms(1,2) by simp
  obtain e' where e': "(best, e') \<in> set (eligible prfx inner)"
    "\<forall>(raw, e)\<in>set (eligible prfx inner). rawScoreOf s e raw toks tm \<le> rawScoreOf s e' best toks tm"
    using best_eligible [OF ne, of prfx toks tm] unfolding assms by blast
  have el: "set (eligible prfx inner) = {(raw, e)\<in>set inner. HasPrefix raw prfx \<or> \<not> (\<exists>(raw, e)\<in>set inner. HasPrefix raw prfx)}"
    by (auto simp: eligible_def Let_def filter_empty_conv)
  have "(best, e') \<in> set inner" "HasPrefix best prfx \<or> \<not> (\<exists>(raw, e)\<in>set inner. HasPrefix raw prfx)"
    using e'(1) unfolding el by simp_all
  then show ?thesis using e'(2) unfolding el by (intro exI [of _ e']) blast
qed

lemma extraFrom_bound:
  "int k \<le> max 0 headroom \<Longrightarrow> k < length ranked \<Longrightarrow>
     int (extraFrom ranked headroom k) \<le> max 0 headroom \<and> extraFrom ranked headroom k < length ranked"
proof (induction ranked headroom k rule: extraFrom.induct)
  case (1 ranked headroom extra)
  show ?case
    using 1 by (subst (1 2) extraFrom.simps) auto
qed

definition unhydrated :: "suggestion \<Rightarrow> suggestion" where
  "unhydrated sug = sug\<lparr>g_Raw := []\<rparr>"

lemma headroomOf_bound: "headroomOf limit n \<le> 2" "0 < limit \<Longrightarrow> headroomOf limit n \<le> max 2 (limit - int n)"
  "0 < limit \<Longrightarrow> int n \<le> limit \<Longrightarrow> max 0 (headroomOf limit n) \<le> limit - int n"
  by (simp_all add: headroomOf_def maxHydrationCandidates_def Let_def)

lemma hydrate_first:
  obtains k where "1 \<le> k" "int k \<le> 1 + max 0 (headroomOf limit (length (top_s # others)))"
    "map unhydrated (hydrate s (top_s # others) templates prfx toks tm limit)
      = replicate k (unhydrated top_s) @ map unhydrated others"
proof -
  let ?h = "headroomOf limit (length (top_s # others))"
  let ?ranked = "topNLocked s templates (g_Template top_s) prfx toks tm maxHydrationCandidates"
  let ?extra = "extraFrom ?ranked ?h 0"
  have others: "map unhydrated (map (\<lambda>sug. let raw = bestLocked s templates (g_Template sug) prfx toks tm
      in if raw \<noteq> [] then sug\<lparr>g_Raw := raw\<rparr> else sug) others) = map unhydrated others"
    by (simp add: unhydrated_def Let_def)
  show thesis
  proof (cases "?ranked = []")
    case True
    then show thesis using that [of 1] others by (simp add: hydrate_def Let_def)
  next
    case False
    then have "int ?extra \<le> max 0 ?h" using extraFrom_bound [of 0 ?h ?ranked] by simp
    moreover have "map unhydrated (map (\<lambda>i. top_s\<lparr>g_Raw := sc_Raw (?ranked ! i)\<rparr>) [0..<?extra + 1])
        = replicate (?extra + 1) (unhydrated top_s)"
      by (simp add: unhydrated_def comp_def map_replicate_const del: upt_Suc replicate_Suc)
    then have "map unhydrated (hydrate s (top_s # others) templates prfx toks tm limit)
        = replicate (?extra + 1) (unhydrated top_s) @ map unhydrated others"
      using False others unfolding hydrate_def Let_def list.case map_append by simp
    ultimately show thesis using that [of "?extra + 1"] by simp
  qed
qed

lemma hydrate_unhydrated:
  assumes "suggestions = top_s # others"
  shows "\<exists>k. 1 \<le> k \<and> k \<le> 3
    \<and> map unhydrated (hydrate s suggestions templates prfx toks tm limit)
        = replicate k (unhydrated top_s) @ map unhydrated others
    \<and> (0 < limit \<and> int (length suggestions) \<le> limit \<longrightarrow>
         int (length (hydrate s suggestions templates prfx toks tm limit)) \<le> limit)"
proof -
  obtain k where k: "1 \<le> k" "int k \<le> 1 + max 0 (headroomOf limit (length (top_s # others)))"
    and m: "map unhydrated (hydrate s (top_s # others) templates prfx toks tm limit)
      = replicate k (unhydrated top_s) @ map unhydrated others"
    by (rule hydrate_first)
  have "k \<le> 3" using k(2) headroomOf_bound(1) [of limit "length (top_s # others)"] by linarith
  moreover have len: "length (hydrate s (top_s # others) templates prfx toks tm limit) = k + length others"
    using arg_cong [OF m, of length] by simp
  moreover have "int (k + length others) \<le> limit" if "0 < limit" "int (length (top_s # others)) \<le> limit"
    using k(2) headroomOf_bound(3) [OF that] by (simp only: list.size)
  ultimately show ?thesis unfolding assms using k(1) m by (intro exI [of _ k]) simp
qed

text \<open>Hydration changes nothing but the raw commands: the first suggestion is listed one to three
  times (once per close alternative), the others once, in the old order with their templates,
  counts and scores, and a list within the requested limit stays within it.\<close>

theorem hydrate_shape:
  assumes "suggestions = top_s # others"
  shows "\<exists>k. 1 \<le> k \<and> k \<le> 3
    \<and> map unhydrated (hydrate s suggestions templates prfx toks tm limit)
        = replicate k (unhydrated top_s) @ map unhydrated others
    \<and> (0 < limit \<and> int (length suggestions) \<le> limit \<longrightarrow>
         int (length (hydrate s suggestions templates prfx toks tm limit)) \<le> limit)"
  by (rule hydrate_unhydrated [OF assms])

lemma map_of_member: "(raw, e) \<in> set inner \<Longrightarrow> map_of inner raw \<noteq> None"
  by (metis fst_conv image_eqI map_of_eq_None_iff)

lemma ranked_observed:
  assumes "r \<in> set (topNLocked s templates template prfx toks tm n)"
  shows "\<exists>w\<in>set (windowsOf templates). tlLookup (rs_m s) (rawOuterKey w template) (sc_Raw r) \<noteq> None"
proof -
  let ?inner = "answering s (windowsOf templates) template"
  have ne: "?inner \<noteq> []" and "r \<in> set (rankBucket s ?inner prfx toks tm n)"
    using assms by (auto simp: topNLocked_eq Let_def split: if_splits)
  then obtain e where "(sc_Raw r, e) \<in> set ?inner" using rankBucket_raw by blast
  then show ?thesis
    using answering_window [OF ne] map_of_member by (metis tlLookup_inner)
qed

lemma hydrate_known:
  assumes "sug \<in> set (hydrate s suggestions templates prfx toks tm limit)" "g_Raw sug \<noteq> []"
    and "\<forall>x\<in>set suggestions. g_Raw x = []"
  shows "\<exists>w\<in>set (windowsOf templates).
    tlLookup (rs_m s) (rawOuterKey w (g_Template sug)) (g_Raw sug) \<noteq> None"
proof (cases suggestions)
  case (Cons top_s others)
  let ?ranked = "topNLocked s templates (g_Template top_s) prfx toks tm maxHydrationCandidates"
  let ?extra = "extraFrom ?ranked (headroomOf limit (length suggestions)) 0"
  have extra: "?ranked \<noteq> [] \<Longrightarrow> ?extra < length ?ranked"
    using extraFrom_bound [of 0 "headroomOf limit (length suggestions)" ?ranked] by simp
  let ?F = "\<lambda>sug. let raw = bestLocked s templates (g_Template sug) prfx toks tm
      in if raw \<noteq> [] then sug\<lparr>g_Raw := raw\<rparr> else sug"
  have bare: "g_Raw top_s = []" "\<And>x. x \<in> set others \<Longrightarrow> g_Raw x = []" using assms(3) Cons by auto
  have "sug \<in> set (if length ?ranked = 0 then [top_s]
        else map (\<lambda>i. top_s\<lparr>g_Raw := sc_Raw (?ranked ! i)\<rparr>) [0..<?extra + 1]) \<union> set (map ?F others)"
    using assms(1) unfolding Cons hydrate_def Let_def list.case by simp
  moreover have "\<exists>i. ?ranked \<noteq> [] \<and> i \<le> ?extra \<and> sug = top_s\<lparr>g_Raw := sc_Raw (?ranked ! i)\<rparr>"
    if "sug \<in> set (if length ?ranked = 0 then [top_s]
        else map (\<lambda>i. top_s\<lparr>g_Raw := sc_Raw (?ranked ! i)\<rparr>) [0..<?extra + 1])"
    using that assms(2) bare(1)
    by (cases "?ranked = []") (auto simp: less_Suc_eq_le simp del: upt_Suc)
  ultimately consider
      i where "?ranked \<noteq> []" "i \<le> ?extra" "sug = top_s\<lparr>g_Raw := sc_Raw (?ranked ! i)\<rparr>"
    | x where "sug = ?F x" "x \<in> set others"
    by (metis (no_types, lifting) UnE imageE set_map)
  then show ?thesis
  proof cases
    case (1 i)
    then have "?ranked ! i \<in> set ?ranked" using extra by simp
    then show ?thesis using ranked_observed 1(3) by fastforce
  next
    case (2 x)
    let ?r = "topNLocked s templates (g_Template x) prfx toks tm 1"
    let ?b = "bestLocked s templates (g_Template x) prfx toks tm"
    have b: "?b \<noteq> []" "sug = x\<lparr>g_Raw := ?b\<rparr>"
      using 2 assms(2) bare(2) by (auto simp: Let_def split: if_splits)
    then have "?r ! 0 \<in> set ?r" "?b = sc_Raw (?r ! 0)"
      by (auto simp: bestLocked_def Let_def split: if_splits)
    then show ?thesis using ranked_observed [of "?r ! 0"] b(2) by fastforce
  qed
qed (use assms in \<open>simp add: hydrate_def\<close>)

definition fits :: "rawStore \<Rightarrow> string list \<Rightarrow> string \<Rightarrow> suggestion \<Rightarrow> bool" where
  \<comment> \<open>the raw command shown is one of the longest known context, and one that continues what is typed if any does\<close>
  "fits s templates prfx sug \<longleftrightarrow>
     (let inner = answering s (windowsOf templates) (g_Template sug)
      in if inner = [] then g_Raw sug = [] else g_Raw sug \<in> fst ` set (eligible prfx inner))"

lemma bestLocked_none: "answering s (windowsOf templates) template = [] \<Longrightarrow> bestLocked s templates template prfx toks tm = []"
  by (simp add: bestLocked_eq)

lemma hydrate_fits:
  assumes "sug \<in> set (hydrate s suggestions templates prfx toks tm limit)" "\<forall>x\<in>set suggestions. g_Raw x = []"
  shows "fits s templates prfx sug"
proof (cases suggestions)
  case (Cons top_s others)
  let ?ranked = "topNLocked s templates (g_Template top_s) prfx toks tm maxHydrationCandidates"
  let ?extra = "extraFrom ?ranked (headroomOf limit (length suggestions)) 0"
  let ?F = "\<lambda>sug. let raw = bestLocked s templates (g_Template sug) prfx toks tm
      in if raw \<noteq> [] then sug\<lparr>g_Raw := raw\<rparr> else sug"
  have "sug \<in> set (if length ?ranked = 0 then [top_s]
        else map (\<lambda>i. top_s\<lparr>g_Raw := sc_Raw (?ranked ! i)\<rparr>) [0..<?extra + 1]) \<union> set (map ?F others)"
    using assms(1) unfolding Cons hydrate_def Let_def list.case by simp
  then consider "?ranked = []" "sug = top_s"
    | i where "?ranked \<noteq> []" "i \<le> ?extra" "sug = top_s\<lparr>g_Raw := sc_Raw (?ranked ! i)\<rparr>"
    | x where "sug = ?F x" "x \<in> set others"
    by (cases "?ranked = []") (auto simp: less_Suc_eq_le simp del: upt_Suc)
  then show ?thesis
  proof cases
    case 1
    then have "answering s (windowsOf templates) (g_Template top_s) = []"
      using rankBucket_nonempty by (auto simp: topNLocked_eq Let_def split: if_splits)
    then show ?thesis using 1(2) assms(2) Cons by (simp add: fits_def)
  next
    case (2 i)
    then have mem: "?ranked ! i \<in> set ?ranked"
      using extraFrom_bound [of 0 "headroomOf limit (length suggestions)" ?ranked] by simp
    have "answering s (windowsOf templates) (g_Template top_s) \<noteq> []" using 2(1) by (auto simp: topNLocked_eq Let_def)
    then show ?thesis using ranked_eligible [OF mem] 2(3) by (force simp: fits_def)
  next
    case (3 x)
    then have best: "sug = x\<lparr>g_Raw := bestLocked s templates (g_Template x) prfx toks tm\<rparr>"
      using assms(2) Cons by (cases x) (auto simp: Let_def)
    show ?thesis
      using best_eligible [of s templates "g_Template x" prfx toks tm] bestLocked_none
      by (cases "answering s (windowsOf templates) (g_Template x) = []") (force simp: fits_def best)+
  qed
qed (use assms in \<open>simp add: hydrate_def\<close>)

text \<open>No command is invented: a raw command shown with a suggestion was recorded for that template
  in the current context or in a suffix of it.\<close>

theorem hydrate_observed:
  assumes "sug \<in> set (hydrate s suggestions templates prfx toks tm limit)" "g_Raw sug \<noteq> []"
    and "\<forall>x\<in>set suggestions. g_Raw x = []"
  shows "\<exists>w\<in>set (windowsOf templates).
    tlLookup (rs_m s) (rawOuterKey w (g_Template sug)) (g_Raw sug) \<noteq> None"
  by (rule hydrate_known [OF assms])

subsection \<open>Argument tokens of recent commands\<close>

lemma addTokens_inv:
  "distinct tokens \<and> (\<forall>t\<in>set tokens. 3 \<le> length t) \<Longrightarrow>
     distinct (addTokens tokens toks) \<and> (\<forall>t\<in>set (addTokens tokens toks). 3 \<le> length t)
     \<and> set (addTokens tokens toks) = set tokens \<union> {t\<in>set toks. 3 \<le> length t}"
proof (induction tokens toks rule: addTokens.induct)
  case (2 tokens tok toks)
  show ?case
  proof (cases "length tok < 3 \<or> tok \<in> set tokens")
    case True
    then have "set tokens \<union> {t\<in>set (tok # toks). 3 \<le> length t} = set tokens \<union> {t\<in>set toks. 3 \<le> length t}"
      "addTokens tokens (tok # toks) = addTokens tokens toks"
      by auto
    then show ?thesis using 2(1) [OF True 2(3)] by metis
  next
    case False
    then have "distinct (tokens @ [tok]) \<and> (\<forall>t\<in>set (tokens @ [tok]). 3 \<le> length t)"
      using 2(3) by auto
    note IH = 2(2) [OF False this]
    have "set (tokens @ [tok]) \<union> {t\<in>set toks. 3 \<le> length t}
        = set tokens \<union> {t\<in>set (tok # toks). 3 \<le> length t}"
      using False by auto
    moreover have "addTokens tokens (tok # toks) = addTokens (tokens @ [tok]) toks" using False by simp
    ultimately show ?thesis using IH by metis
  qed
qed simp

lemma fold_addTokens:
  "distinct tokens \<and> (\<forall>t\<in>set tokens. 3 \<le> length t) \<Longrightarrow>
     distinct (fold (\<lambda>raw tokens. addTokens tokens (f raw)) raws tokens)
     \<and> set (fold (\<lambda>raw tokens. addTokens tokens (f raw)) raws tokens)
        = set tokens \<union> {t. 3 \<le> length t \<and> (\<exists>raw\<in>set raws. t \<in> set (f raw))}"
proof (induction raws arbitrary: tokens)
  case (Cons raw raws)
  let ?t = "addTokens tokens (f raw)"
  have t: "distinct ?t \<and> (\<forall>t\<in>set ?t. 3 \<le> length t)"
    "set ?t = set tokens \<union> {t\<in>set (f raw). 3 \<le> length t}"
    using addTokens_inv [OF Cons.prems, of "f raw"] by blast+
  have "fold (\<lambda>raw tokens. addTokens tokens (f raw)) (raw # raws) tokens
      = fold (\<lambda>raw tokens. addTokens tokens (f raw)) raws ?t" by simp
  then show ?case
    using Cons.IH [OF t(1)] unfolding t(2) set_simps by auto
qed simp

text \<open>The evidence for reuse is collected without duplicates: exactly the argument tokens of at
  least three bytes of the last five commands.\<close>

theorem collectArgTokens_exact:
  "distinct (collectArgTokens raws parents)
   \<and> set (collectArgTokens raws parents)
      = {t. 3 \<le> length t \<and> (\<exists>raw\<in>set (drop (length raws - 5) raws). t \<in> set (ExtractArgTokens raw parents))}"
  using fold_addTokens [of "[]" "\<lambda>raw. ExtractArgTokens raw parents" "drop (length raws - argLookback) raws"]
  by (auto simp: collectArgTokens_def argLookback_def)

subsection \<open>A concrete hydration\<close>

definition demoSug :: suggestion where
  "demoSug = \<lparr>g_Template = ''cd PATH'', g_Raw = [], g_Score = 1, g_Count = 2\<rparr>"

lemma demoRaws_m:
  "rs_m demoRaws =
     [(rawOuterKey [] ''ls'', [(''ls'', \<lparr>re_count = 1, re_lastSeen = 3\<rparr>)]),
      (rawOuterKey [''git clone REPO''] ''cd PATH'', [(''cd hunch'', \<lparr>re_count = 1, re_lastSeen = 5\<rparr>)])]"
  by (simp add: demoRaws_def recordRaw_def newRawStore_def tlModify_def tlInner_def mapGet_def
      rawEntry0_def rawOuterKey_def nonEmptyStrs_def keyDelimiter_def)

lemma demo_inner:
  "tlInner (rs_m demoRaws) (rawOuterKey [''git clone REPO''] ''cd PATH'')
     = [(''cd hunch'', \<lparr>re_count = 1, re_lastSeen = 5\<rparr>)]"
  by (simp add: demoRaws_m tlInner_def mapGet_def rawOuterKey_def nonEmptyStrs_def keyDelimiter_def)

lemma demo_answering:
  "answering demoRaws (windowsOf [''git clone REPO'']) ''cd PATH''
     = [(''cd hunch'', \<lparr>re_count = 1, re_lastSeen = 5\<rparr>)]"
  by (simp add: answering_def windowsOf_def demo_inner)

lemma demo_ranked:
  "map sc_Raw (topNLocked demoRaws [''git clone REPO''] ''cd PATH'' [] [] 10 n) = [''cd hunch'']"
  by (simp add: topNLocked_eq demo_answering rankBucket_def capTo_def Let_def)

lemma demo_hydrate:
  "hydrate demoRaws [demoSug] [''git clone REPO''] [] [] 10 1 = [demoSug\<lparr>g_Raw := ''cd hunch''\<rparr>]"
proof -
  let ?r = "topNLocked demoRaws [''git clone REPO''] ''cd PATH'' [] [] 10 maxHydrationCandidates"
  obtain x where x: "?r = [x]" "sc_Raw x = ''cd hunch''"
    using demo_ranked [of maxHydrationCandidates] by (auto simp: map_eq_Cons_conv)
  have "extraFrom [x] h 0 = 0" for h by (simp add: extraFrom.simps [of "[x]" h 0])
  then show ?thesis using x by (simp add: hydrate_def demoSug_def Let_def)
qed

definition demoTwo :: rawStore where
  \<comment> \<open>two directories are known, the first more often\<close>
  "demoTwo = recordRaw [] ''cd PATH'' ''cd src'' 5 (recordRaw [] ''cd PATH'' ''cd hunch'' 5
     (recordRaw [] ''cd PATH'' ''cd hunch'' 5 (newRawStore 10)))"

lemma demoTwo_answering:
  "answering demoTwo (windowsOf []) ''cd PATH''
     = [(''cd hunch'', \<lparr>re_count = 2, re_lastSeen = 5\<rparr>), (''cd src'', \<lparr>re_count = 1, re_lastSeen = 5\<rparr>)]"
  by (simp add: answering_def windowsOf_def demoTwo_def recordRaw_def newRawStore_def tlModify_def tlInner_def mapGet_def
      rawEntry0_def rawOuterKey_def nonEmptyStrs_def keyDelimiter_def wrap64_def)

theorem bestLocked_best_witness:
  "bestLocked demoTwo [] ''cd PATH'' ''cd s'' [] 10 = ''cd src''"
proof -
  let ?inner = "[(''cd hunch'', \<lparr>re_count = 2, re_lastSeen = 5\<rparr>), (''cd src'', \<lparr>re_count = 1, re_lastSeen = 5\<rparr>)]"
  obtain e' where "(bestLocked demoTwo [] ''cd PATH'' ''cd s'' [] 10, e') \<in> set ?inner"
    "HasPrefix (bestLocked demoTwo [] ''cd PATH'' ''cd s'' [] 10) ''cd s''"
    using bestLocked_best [OF demoTwo_answering _ refl, of "''cd s''" "[]" 10] by auto
  then show ?thesis by auto
qed

theorem hydrate_shape_witness:
  "\<exists>k. 1 \<le> k \<and> map unhydrated (hydrate demoRaws [demoSug] [''git clone REPO''] [] [] 10 1)
        = replicate k (unhydrated demoSug)"
  using hydrate_shape [of "[demoSug]" demoSug "[]" demoRaws "[''git clone REPO'']" "[]" "[]" 10 1]
  by auto

theorem hydrate_observed_witness:
  "\<exists>w\<in>set (windowsOf [''git clone REPO'']).
     tlLookup (rs_m demoRaws) (rawOuterKey w ''cd PATH'') ''cd hunch'' \<noteq> None"
proof -
  let ?sug = "demoSug\<lparr>g_Raw := ''cd hunch''\<rparr>"
  have "?sug \<in> set (hydrate demoRaws [demoSug] [''git clone REPO''] [] [] 10 1)"
    unfolding demo_hydrate by simp
  moreover have "g_Raw ?sug \<noteq> []" by simp
  moreover have "\<forall>x\<in>set [demoSug]. g_Raw x = []" by (simp add: demoSug_def)
  ultimately have "\<exists>w\<in>set (windowsOf [''git clone REPO'']).
      tlLookup (rs_m demoRaws) (rawOuterKey w (g_Template ?sug)) (g_Raw ?sug) \<noteq> None"
    by (rule hydrate_observed)
  moreover have "g_Template ?sug = ''cd PATH''" "g_Raw ?sug = ''cd hunch''" by (simp_all add: demoSug_def)
  ultimately show ?thesis by (simp only:)
qed

end
