(* ===== verification/Store.thy ===== *)
theory Store
  imports Graph_Merge Graph_Decay Raw_Store
begin

text \<open>
  daemon/store.go: the SQLite database. A table is the map from its primary key to the other
  columns, \<open>INSERT .. ON CONFLICT DO UPDATE\<close> is an update of that map and \<open>DELETE\<close> a filter.
  The state column holds the JSON text of a list of strings; here it holds the list itself
  (the text determines the list for the UTF-8 strings it is built from). A statement or a
  commit can fail for reasons outside the program: an operation takes as its first argument
  whether its transaction commits, and a transaction that does not leaves the tables as they
  were. Times are stored in whole seconds.
\<close>

type_synonym pairKey = "string list \<times> string"

record transRow =
  d_count :: int
  d_lastSeen :: int
  d_nextSuccess :: int
  d_nextFailure :: int
  d_priorSuccess :: int
  d_priorFailure :: int
  d_accepted :: int

record rawRow =
  w_count :: int
  w_lastSeen :: int

record db =
  db_transitions :: "(pairKey \<times> transRow) list"
  db_cwds :: "((pairKey \<times> string) \<times> int) list"
  db_raws :: "((pairKey \<times> string) \<times> rawRow) list"

definition emptyDB :: db where
  "emptyDB = \<lparr>db_transitions = [], db_cwds = [], db_raws = []\<rparr>"

subsection \<open>Transitions\<close>

definition pairOf :: "transition \<Rightarrow> pairKey" where
  "pairOf t = (t_State t, t_Next t)"

definition rowOf :: "transition \<Rightarrow> transRow" where
  \<comment> \<open>the columns bound by the upsert of \<open>save\<close>\<close>
  "rowOf t = \<lparr>d_count = t_Count t, d_lastSeen = Unix (t_LastSeen t), d_nextSuccess = t_NextSuccess t,
     d_nextFailure = t_NextFailure t, d_priorSuccess = t_PriorSuccess t,
     d_priorFailure = t_PriorFailure t, d_accepted = t_Accepted t\<rparr>"

definition upsertTransition :: "transition \<Rightarrow> db \<Rightarrow> db" where
  "upsertTransition t d =
     d\<lparr>db_transitions := mapPut (pairOf t) (rowOf t) (db_transitions d),
       db_cwds := fold (\<lambda>(cwd, c). mapPut (pairOf t, cwd) c) (t_CWDs t) (db_cwds d)\<rparr>"

definition saveRows :: "transition list \<Rightarrow> db \<Rightarrow> db" where
  "saveRows transitions d = fold upsertTransition transitions d"

definition save :: "bool \<Rightarrow> transition list \<Rightarrow> db \<Rightarrow> bool \<times> db" where
  "save commits transitions d = (if commits then (True, saveRows transitions d) else (False, d))"

definition rowTransition :: "pairKey \<times> transRow \<Rightarrow> transition" where
  "rowTransition = (\<lambda>((st, nxt), r).
     \<lparr>t_State = st, t_Next = nxt, t_Count = d_count r, t_LastSeen = time_Unix (d_lastSeen r),
      t_CWDs = [], t_NextSuccess = d_nextSuccess r, t_NextFailure = d_nextFailure r,
      t_PriorSuccess = d_priorSuccess r, t_PriorFailure = d_priorFailure r, t_Accepted = d_accepted r\<rparr>)"

definition loadIndex :: "db \<Rightarrow> (pairKey \<times> nat) list" where
  \<comment> \<open>\<open>index[stateJSON + NUL + next] = len(result)\<close>\<close>
  "loadIndex d = zip (map fst (db_transitions d)) [0..<length (db_transitions d)]"

definition attachCWD :: "(pairKey \<times> nat) list \<Rightarrow> (pairKey \<times> string) \<times> int \<Rightarrow>
    transition list \<Rightarrow> transition list" where
  "attachCWD index = (\<lambda>((pk, cwd), c) result.
     (case map_of index pk of
        None \<Rightarrow> result
      | Some i \<Rightarrow> result[i := (result ! i)\<lparr>t_CWDs := mapPut cwd c (t_CWDs (result ! i))\<rparr>]))"

definition load :: "db \<Rightarrow> transition list" where
  "load d = fold (attachCWD (loadIndex d)) (db_cwds d) (map rowTransition (db_transitions d))"

definition pruneRows :: "transition list \<Rightarrow> string list \<Rightarrow> db \<Rightarrow> db" where
  "pruneRows transitions orphanedTemplates d =
     d\<lparr>db_transitions := filter (\<lambda>(pk, _). pk \<notin> set (map pairOf transitions)) (db_transitions d),
       db_cwds := filter (\<lambda>((pk, _), _). pk \<notin> set (map pairOf transitions)) (db_cwds d),
       db_raws := filter (\<lambda>(((_, template), _), _). template \<notin> set orphanedTemplates) (db_raws d)\<rparr>"

definition prune :: "bool \<Rightarrow> transition list \<Rightarrow> string list \<Rightarrow> db \<Rightarrow> bool \<times> db" where
  "prune commits transitions orphanedTemplates d =
     (if length transitions = 0 \<and> length orphanedTemplates = 0 then (True, d)
      else if commits then (True, pruneRows transitions orphanedTemplates d) else (False, d))"

definition clear :: "bool \<Rightarrow> bool \<Rightarrow> bool \<Rightarrow> db \<Rightarrow> bool \<times> db" where
  \<comment> \<open>three statements outside a transaction: the first that fails ends the operation\<close>
  "clear ok1 ok2 ok3 d =
     (if \<not> ok1 then (False, d)
      else let d1 = d\<lparr>db_transitions := []\<rparr> in
        if \<not> ok2 then (False, d1)
        else let d2 = d1\<lparr>db_cwds := []\<rparr> in
          if \<not> ok3 then (False, d2) else (True, d2\<lparr>db_raws := []\<rparr>))"

subsection \<open>Raw examples\<close>

definition rawRowOf :: "rawRecord \<Rightarrow> rawRow" where
  "rawRowOf rec = \<lparr>w_count = rr_Count rec,
     w_lastSeen = (if \<not> IsZero (rr_LastSeen rec) then Unix (rr_LastSeen rec) else 0)\<rparr>"

definition rawPairOf :: "rawRecord \<Rightarrow> pairKey \<times> string" where
  "rawPairOf rec = ((rr_State rec, rr_Template rec), rr_Raw rec)"

definition saveRawRows :: "rawRecord list \<Rightarrow> db \<Rightarrow> db" where
  "saveRawRows records d =
     d\<lparr>db_raws := fold (\<lambda>rec. mapPut (rawPairOf rec) (rawRowOf rec)) records (db_raws d)\<rparr>"

definition saveRawExamples :: "bool \<Rightarrow> rawRecord list \<Rightarrow> db \<Rightarrow> bool \<times> db" where
  "saveRawExamples commits records d =
     (if commits then (True, saveRawRows records d) else (False, d))"

definition loadRawExamples :: "db \<Rightarrow> rawRecord list" where
  "loadRawExamples d =
     map (\<lambda>(((st, template), raw), r).
       \<lparr>rr_State = st, rr_Template = template, rr_Raw = raw, rr_Count = w_count r,
        rr_LastSeen = time_Unix (w_lastSeen r)\<rparr>) (db_raws d)"

subsection \<open>What the tables hold\<close>

text \<open>\<open>absDB\<close> reads the database as an abstract graph, the specification of \<open>load\<close>.\<close>

definition dbEntry :: "db \<Rightarrow> pairKey \<Rightarrow> transRow \<Rightarrow> aentry" where
  "dbEntry d pk r =
     \<lparr>a_count = d_count r, a_lastSeen = time_Unix (d_lastSeen r),
      a_cwds = (\<lambda>cwd. map_of (db_cwds d) (pk, cwd)), a_nextSuccess = d_nextSuccess r,
      a_nextFailure = d_nextFailure r, a_priorSuccess = d_priorSuccess r,
      a_priorFailure = d_priorFailure r, a_accepted = d_accepted r\<rparr>"

definition absDB :: "db \<Rightarrow> (string \<times> string \<rightharpoonup> aentry)" where
  "absDB d = (\<lambda>(sk, nxt).
     map_option (dbEntry d (Split sk NUL, nxt)) (map_of (db_transitions d) (Split sk NUL, nxt)))"

definition rowOk :: "pairKey \<times> transRow \<Rightarrow> bool" where
  "rowOk = (\<lambda>((st, nxt), r). plainState st \<and> nxt \<noteq> [] \<and> 0 < d_count r \<and> 0 \<le> time_Unix (d_lastSeen r)
     \<and> 0 \<le> d_nextSuccess r \<and> 0 \<le> d_nextFailure r \<and> 0 \<le> d_priorSuccess r
     \<and> 0 \<le> d_priorFailure r \<and> 0 \<le> d_accepted r)"

definition dbInv :: "db \<Rightarrow> bool" where
  "dbInv d \<longleftrightarrow> wfMap (db_transitions d) \<and> wfMap (db_cwds d) \<and> wfMap (db_raws d)
     \<and> (\<forall>row\<in>set (db_transitions d). rowOk row)
     \<and> (\<forall>(((st, _), _), c)\<in>set (db_cwds d). plainState st \<and> 0 \<le> c)"

lemma dbInv_empty [simp]: "dbInv emptyDB"
  by (simp add: dbInv_def emptyDB_def)

subsection \<open>Loading\<close>

definition cwdsOf :: "((pairKey \<times> string) \<times> int) list \<Rightarrow> pairKey \<Rightarrow> (string \<times> int) list" where
  "cwdsOf cs pk = map (\<lambda>((_, cwd), c). (cwd, c)) (filter (\<lambda>((pk', _), _). pk' = pk) cs)"

definition loaded :: "((pairKey \<times> string) \<times> int) list \<Rightarrow> pairKey \<times> transRow \<Rightarrow> transition" where
  "loaded cs row = (rowTransition row)\<lparr>t_CWDs := cwdsOf cs (fst row)\<rparr>"

lemma cwdsOf_simps [simp]:
  "cwdsOf [] pk = []"
  "cwdsOf (cs @ [((pk', cwd), c)]) pk = cwdsOf cs pk @ (if pk' = pk then [(cwd, c)] else [])"
  by (simp_all add: cwdsOf_def)

lemma map_of_cwdsOf: "map_of (cwdsOf cs pk) cwd = map_of cs (pk, cwd)"
  by (induction cs) (auto simp: cwdsOf_def)

lemma keys_cwdsOf: "cwd \<in> fst ` set (cwdsOf cs pk) \<longleftrightarrow> (pk, cwd) \<in> fst ` set cs"
  using map_of_cwdsOf [of cs pk cwd] by (metis map_of_eq_None_iff)

lemma wfMap_cwdsOf: "wfMap cs \<Longrightarrow> wfMap (cwdsOf cs pk)"
proof (induction cs rule: rev_induct)
  case (snoc c cs)
  obtain pk' cwd n where c: "c = ((pk', cwd), n)" by (metis surj_pair)
  show ?case using snoc keys_cwdsOf [of cwd cs pk] by (auto simp: c)
qed simp

lemma mapPut_fresh: "k \<notin> fst ` set m \<Longrightarrow> mapPut k v m = m @ [(k, v)]"
  by (induction m) auto

lemma loaded_Nil: "map rowTransition rows = map (loaded []) rows"
  by (simp add: loaded_def rowTransition_def split_beta)

lemma attach_step:
  assumes rows: "wfMap rows" and fresh: "(pk, cwd) \<notin> fst ` set cs"
  shows "attachCWD (zip (map fst rows) [0..<length rows]) ((pk, cwd), c) (map (loaded cs) rows)
    = map (loaded (cs @ [((pk, cwd), c)])) rows"
proof (cases "pk \<in> fst ` set rows")
  case True
  then obtain i where i: "i < length rows" "fst (rows ! i) = pk"
    by (auto simp: in_set_conv_nth)
  have idx: "map_of (zip (map fst rows) [0..<length rows]) pk = Some i"
    using i rows by (intro map_of_is_SomeI) (auto simp: set_zip intro!: exI [of _ i])
  have no: "cwd \<notin> fst ` set (cwdsOf cs pk)" using fresh by (force simp: cwdsOf_def)
  have other: "fst (rows ! j) = pk \<longleftrightarrow> j = i" if "j < length rows" for j
    using rows i that by (metis length_map nth_eq_iff_index_eq nth_map)
  show ?thesis
    by (rule nth_equalityI)
      (use i other no in \<open>auto simp: attachCWD_def idx loaded_def mapPut_fresh nth_list_update\<close>)
next
  case False
  then have idx: "map_of (zip (map fst rows) [0..<length rows]) pk = None"
    by (subst map_of_zip_is_None) auto
  have "map (loaded cs) rows = map (loaded (cs @ [((pk, cwd), c)])) rows"
    using False by (intro map_cong) (auto simp: loaded_def)
  then show ?thesis by (simp add: attachCWD_def idx)
qed

lemma load_rows: "dbInv d \<Longrightarrow> load d = map (loaded (db_cwds d)) (db_transitions d)"
proof -
  assume d: "dbInv d"
  let ?idx = "zip (map fst (db_transitions d)) [0..<length (db_transitions d)]"
  have "wfMap cs \<Longrightarrow> fold (attachCWD ?idx) cs (map (loaded []) (db_transitions d))
      = map (loaded cs) (db_transitions d)" for cs
  proof (induction cs rule: rev_induct)
    case (snoc c cs)
    obtain pk cwd n where c: "c = ((pk, cwd), n)" by (metis surj_pair)
    have "(pk, cwd) \<notin> fst ` set cs" using snoc.prems by (auto simp: c)
    then show ?case using snoc d by (simp add: c attach_step dbInv_def)
  qed simp
  then show ?thesis using d by (simp add: load_def loadIndex_def loaded_Nil dbInv_def)
qed

lemma pairOf_loaded [simp]: "pairOf (loaded cs row) = fst row"
  by (cases row) (auto simp: loaded_def rowTransition_def pairOf_def)

lemma transitionKey_loaded: "transitionKey (loaded cs row) = (stateKey (fst (fst row)), snd (fst row))"
  using pairOf_loaded [of cs row] by (simp add: transitionKey_def pairOf_def prod_eq_iff)

lemma loaded_valid:
  assumes "dbInv d" "row \<in> set (db_transitions d)"
  shows "validTransition (loaded (db_cwds d) row)" "wfTransition (loaded (db_cwds d) row)"
proof -
  have "rowOk row" using assms by (auto simp: dbInv_def)
  then show "validTransition (loaded (db_cwds d) row)"
    by (auto simp: validTransition_def loaded_def rowTransition_def rowOk_def plainState_def)
  show "wfTransition (loaded (db_cwds d) row)"
    using assms(1) wfMap_cwdsOf by (auto simp: wfTransition_def loaded_def dbInv_def)
qed

lemma aMax_loaded:
  assumes "dbInv d" "(pk, r) \<in> set (db_transitions d)"
  shows "aMax (loaded (db_cwds d) (pk, r)) (absEntry entry0) = dbEntry d pk r"
proof -
  obtain st nxt where pk: "pk = (st, nxt)" by (cases pk)
  have "rowOk (pk, r)" using assms by (auto simp: dbInv_def)
  moreover have "map_of (db_cwds d) (pk, cwd) = Some c \<Longrightarrow> 0 \<le> c" for cwd c
    using assms(1) by (auto simp: dbInv_def dest!: map_of_SomeD)
  ultimately show ?thesis
    by (auto simp: aMax_def loaded_def rowTransition_def dbEntry_def absEntry_def entry0_def pk
        zeroTime_def rowOk_def map_of_cwdsOf fun_eq_iff split: option.splits)
qed


lemma plain_row:
  assumes "dbInv d" "row \<in> set (db_transitions d)"
  shows "Split (stateKey (fst (fst row))) NUL = fst (fst row)"
proof -
  have "rowOk row" using assms by (auto simp: dbInv_def)
  then show ?thesis by (auto simp: rowOk_def plainState_def split_beta intro: Split_stateKey)
qed

lemma distinct_load:
  assumes "dbInv d"
  shows "distinct (map transitionKey (load d))"
proof -
  have "inj_on (\<lambda>row. (stateKey (fst (fst row)), snd (fst row))) (set (db_transitions d))"
  proof (rule inj_onI)
    fix x y
    assume x: "x \<in> set (db_transitions d)" and y: "y \<in> set (db_transitions d)"
      and eq: "(stateKey (fst (fst x)), snd (fst x)) = (stateKey (fst (fst y)), snd (fst y))"
    have "fst (fst x) = Split (stateKey (fst (fst x))) NUL" by (rule plain_row [OF assms x, symmetric])
    also have "\<dots> = Split (stateKey (fst (fst y))) NUL" using eq by simp
    also have "\<dots> = fst (fst y)" by (rule plain_row [OF assms y])
    finally have "fst x = fst y" using eq by (intro prod_eqI) simp_all
    moreover have "inj_on fst (set (db_transitions d))" using assms by (simp add: dbInv_def distinct_map)
    ultimately show "x = y" using x y by (simp add: inj_on_eq_iff)
  qed
  moreover have "distinct (db_transitions d)" using assms by (auto simp: dbInv_def distinct_map)
  ultimately have "distinct (map (\<lambda>row. (stateKey (fst (fst row)), snd (fst row))) (db_transitions d))"
    by (simp add: distinct_map)
  then show ?thesis by (simp add: load_rows [OF assms] comp_def transitionKey_loaded)
qed

lemma lookup_load:
  assumes "dbInv d"
  shows "map_of (map (\<lambda>t. (transitionKey t, t)) (load d)) (sk, nxt)
    = map_option (\<lambda>r. loaded (db_cwds d) ((Split sk NUL, nxt), r)) (map_of (db_transitions d) (Split sk NUL, nxt))"
proof (cases "map_of (db_transitions d) (Split sk NUL, nxt)")
  case None
  have "transitionKey (loaded (db_cwds d) row) \<noteq> (sk, nxt)" if "row \<in> set (db_transitions d)" for row
    using plain_row [OF assms that] that None
    by (auto simp: transitionKey_loaded map_of_eq_None_iff rev_image_eqI)
  then have "(sk, nxt) \<notin> transitionKey ` loaded (db_cwds d) ` set (db_transitions d)"
    by (metis (no_types, lifting) imageE)
  then have "(sk, nxt) \<notin> fst ` set (map (\<lambda>t. (transitionKey t, t)) (load d))"
    unfolding load_rows [OF assms] by (simp only: set_map image_image fst_conv) simp
  then have "map_of (map (\<lambda>t. (transitionKey t, t)) (load d)) (sk, nxt) = None"
    by (simp only: map_of_eq_None_iff) simp
  then show ?thesis using None by simp
next
  case (Some r)
  let ?t = "loaded (db_cwds d) ((Split sk NUL, nxt), r)"
  have "((sk, nxt), ?t) \<in> set (map (\<lambda>t. (transitionKey t, t)) (load d))"
    using map_of_SomeD [OF Some] by (force simp: load_rows [OF assms] transitionKey_loaded)
  then have "map_of (map (\<lambda>t. (transitionKey t, t)) (load d)) (sk, nxt) = Some ?t"
    using distinct_load [OF assms] by (intro map_of_is_SomeI) (simp_all add: comp_def)
  then show ?thesis using Some by simp
qed

text \<open>Reading the database into an empty graph is accepted and gives the graph the tables
  describe: a transition for every row, with the histogram of the second table attached.\<close>

theorem load_refines:
  assumes "dbInv d"
  shows "\<exists>g. Merge (load d) (New ws) = Inr g \<and> absGraph g = absDB d \<and> graphInv g"
proof -
  let ?ts = "load d"
  have ok: "\<forall>t\<in>set ?ts. validTransition t" "\<forall>t\<in>set ?ts. wfTransition t"
    using loaded_valid [OF assms] by (auto simp: load_rows [OF assms])
  then obtain g where g: "Merge ?ts (New ws) = Inr g" by (simp add: Merge_Inr)
  have "aMerge ?ts Map.empty (sk, nxt) = absDB d (sk, nxt)" for sk nxt
    using fold_applyAt_distinct [OF distinct_load [OF assms], of "(sk, nxt)" Map.empty aMax "absEntry entry0"]
      aMax_loaded [OF assms, of "(Split sk NUL, nxt)"]
    by (auto simp: lookup_load [OF assms] absDB_def split: option.splits dest: map_of_SomeD)
  then have "absGraph g = absDB d" using absGraph_Merge [OF g ok(2)] by (auto simp: fun_eq_iff)
  with g graphInv_Merge [OF graphInv_New ok(2) g] show ?thesis by blast
qed

subsection \<open>Saving\<close>

lemma fold_mapPut_wf: "wfMap m \<Longrightarrow> wfMap (fold (\<lambda>x. mapPut (f x) (h x)) xs m)"
  by (induction xs arbitrary: m) (simp_all add: wfMap_mapPut)

lemma map_of_fold_cwds:
  "wfMap hist \<Longrightarrow> map_of (fold (\<lambda>(cwd, c). mapPut (pk, cwd) c) hist cs) (pk', cwd')
    = (case if pk' = pk then map_of hist cwd' else None of None \<Rightarrow> map_of cs (pk', cwd') | Some c \<Rightarrow> Some c)"
proof (induction hist arbitrary: cs)
  case (Cons p hist)
  obtain cwd c where p: "p = (cwd, c)" by (cases p)
  have "map_of hist cwd = None" using Cons.prems by (auto simp: p map_of_eq_None_iff)
  with Cons show ?case by (auto simp: p map_of_mapPut split: option.splits)
qed simp

definition findPair :: "transition list \<Rightarrow> pairKey \<Rightarrow> transition option" where
  "findPair ts pk = map_of (map (\<lambda>t. (pairOf t, t)) ts) pk"

lemma findPair_None: "pk \<notin> pairOf ` set ts \<Longrightarrow> findPair ts pk = None"
  by (force simp: findPair_def map_of_eq_None_iff)

lemma lookup_saveRows:
  assumes "distinct (map pairOf ts)" "\<forall>t\<in>set ts. wfTransition t"
  shows "map_of (db_transitions (saveRows ts d)) pk
      = (case findPair ts pk of None \<Rightarrow> map_of (db_transitions d) pk | Some t \<Rightarrow> Some (rowOf t))
    \<and> map_of (db_cwds (saveRows ts d)) (pk, cwd)
      = (case findPair ts pk of None \<Rightarrow> map_of (db_cwds d) (pk, cwd)
         | Some t \<Rightarrow> (case map_of (t_CWDs t) cwd of None \<Rightarrow> map_of (db_cwds d) (pk, cwd) | Some c \<Rightarrow> Some c))"
  using assms
proof (induction ts arbitrary: d)
  case (Cons t ts)
  have fresh: "findPair ts (pairOf t) = None"
    and find: "findPair (t # ts) pk = (if pk = pairOf t then Some t else findPair ts pk)"
    using Cons.prems(1) by (auto intro!: findPair_None) (simp_all add: findPair_def)
  have step: "saveRows (t # ts) d = saveRows ts (upsertTransition t d)"
    by (simp add: saveRows_def)
  have w: "wfMap (t_CWDs t)" using Cons.prems(2) by (simp add: wfTransition_def)
  have cw: "map_of (db_cwds (upsertTransition t d)) (pk, cwd)
      = (case if pk = pairOf t then map_of (t_CWDs t) cwd else None of
           None \<Rightarrow> map_of (db_cwds d) (pk, cwd) | Some c \<Rightarrow> Some c)"
    by (simp add: upsertTransition_def map_of_fold_cwds [OF w])
  have tr: "map_of (db_transitions (upsertTransition t d)) pk
      = (if pk = pairOf t then Some (rowOf t) else map_of (db_transitions d) pk)"
    by (simp add: upsertTransition_def map_of_mapPut)
  show ?case using Cons.IH [of "upsertTransition t d"] Cons.prems fresh
    unfolding step find cw tr by (auto split: option.splits)
qed (simp add: saveRows_def findPair_def)


definition savable :: "transition \<Rightarrow> bool" where
  "savable t \<longleftrightarrow> plainState (t_State t) \<and> t_Next t \<noteq> [] \<and> 0 < t_Count t \<and> 0 \<le> t_LastSeen t
     \<and> wfMap (t_CWDs t) \<and> (\<forall>(_, c)\<in>set (t_CWDs t). 0 \<le> c)
     \<and> 0 \<le> t_NextSuccess t \<and> 0 \<le> t_NextFailure t \<and> 0 \<le> t_PriorSuccess t
     \<and> 0 \<le> t_PriorFailure t \<and> 0 \<le> t_Accepted t"

lemma All_savable:
  assumes "graphInv g" "t \<in> set (All g)"
  shows "savable t"
proof -
  obtain sk n e where t: "t = itemTransition (sk, n, e)" and e: "lookupEntry g sk n = Some e"
    using assms All_iff [OF graphInvD(1) [OF assms(1)]] by blast
  have "plainState (Split sk NUL)" using Split_parts by (auto simp: plainState_def)
  then show ?thesis using graphInvD(2,3) [OF assms(1) e]
    by (auto simp: t savable_def itemTransition_def entryToTransition_def entryInv_def)
qed

definition secs :: "gotime \<Rightarrow> gotime" where
  \<comment> \<open>what is left of a time after a trip through the database\<close>
  "secs t = time_Unix (Unix t)"

lemma secs_bounds: "t - 1000000000 < secs t \<and> secs t \<le> t"
proof -
  have "(t - unixEpoch) div 1000000000 * 1000000000 = t - unixEpoch - (t - unixEpoch) mod 1000000000"
    by (simp add: minus_mod_eq_div_mult)
  moreover have "0 \<le> (t - unixEpoch) mod 1000000000" "(t - unixEpoch) mod 1000000000 < 1000000000"
    by simp_all
  ultimately show ?thesis by (simp add: secs_def time_Unix_def Unix_def)
qed

lemma secs_nonneg: "0 \<le> t \<Longrightarrow> 0 \<le> secs t"
proof -
  assume "0 \<le> t"
  then have "(- unixEpoch) div 1000000000 \<le> (t - unixEpoch) div 1000000000"
    by (intro zdiv_mono1) auto
  then show ?thesis by (simp add: secs_def time_Unix_def Unix_def unixEpoch_def)
qed

lemma set_mapPut_subset: "set (mapPut k v m) \<subseteq> insert (k, v) (set m)"
  by (induction m) auto

lemma set_fold_cwds:
  "set (fold (\<lambda>(cwd, c). mapPut (pk, cwd) c) hist cs)
     \<subseteq> set cs \<union> {((pk, cwd), c) |cwd c. (cwd, c) \<in> set hist}"
proof (induction hist arbitrary: cs)
  case (Cons p hist)
  obtain cwd c where p: "p = (cwd, c)" by (cases p)
  show ?case using Cons.IH [of "mapPut (pk, cwd) c cs"] set_mapPut_subset [of "(pk, cwd)" c cs]
    by (auto simp: p)
qed simp

lemma wfMap_fold_cwds: "wfMap cs \<Longrightarrow> wfMap (fold (\<lambda>(cwd, c). mapPut (pk, cwd) c) hist cs)"
  by (induction hist arbitrary: cs) (auto simp: wfMap_mapPut)

lemma dbInv_upsert:
  assumes "dbInv d" "savable t"
  shows "dbInv (upsertTransition t d)"
proof -
  have "rowOk (pairOf t, rowOf t)"
    using assms(2) secs_nonneg [of "t_LastSeen t"]
    by (simp add: rowOk_def pairOf_def rowOf_def savable_def secs_def)
  then have "\<forall>row\<in>set (db_transitions (upsertTransition t d)). rowOk row"
    using assms(1) set_mapPut_subset [of "pairOf t" "rowOf t" "db_transitions d"]
    by (auto simp: upsertTransition_def dbInv_def)
  moreover have "(\<forall>(((st, _), _), c)\<in>set (db_cwds (upsertTransition t d)). plainState st \<and> 0 \<le> c)"
    using assms set_fold_cwds [of "pairOf t" "t_CWDs t" "db_cwds d"]
    unfolding dbInv_def savable_def upsertTransition_def pairOf_def by auto
  ultimately show ?thesis using assms(1)
    by (simp add: dbInv_def upsertTransition_def wfMap_mapPut wfMap_fold_cwds)
qed

lemma dbInv_saveRows: "dbInv d \<Longrightarrow> \<forall>t\<in>set ts. savable t \<Longrightarrow> dbInv (saveRows ts d)"
  unfolding saveRows_def by (induction ts arbitrary: d) (simp_all add: dbInv_upsert)

subsection \<open>The database never holds more than the graph\<close>

text \<open>Every row belongs to an entry of the graph, and every directory row to a directory of that
  entry's histogram. Then an upsert of the whole graph replaces everything that is stored.\<close>

definition dbWithin :: "db \<Rightarrow> graph \<Rightarrow> bool" where
  "dbWithin d g \<longleftrightarrow>
     (\<forall>((st, nxt), _)\<in>set (db_transitions d). lookupEntry g (stateKey st) nxt \<noteq> None)
     \<and> (\<forall>(((st, nxt), cwd), _)\<in>set (db_cwds d).
          \<exists>e. lookupEntry g (stateKey st) nxt = Some e \<and> cwd \<in> fst ` set (e_cwds e))"

lemma dbWithin_empty [simp]: "dbWithin emptyDB g"
  by (simp add: dbWithin_def emptyDB_def)

lemma pairs_All:
  assumes "graphInv g"
  shows "distinct (map pairOf (All g))"
    and "findPair (All g) (Split sk NUL, nxt)
      = map_option (\<lambda>e. itemTransition (sk, nxt, e)) (lookupEntry g sk nxt)"
proof -
  note wf = graphInvD(1) [OF assms]
  have "map transitionKey ts = map (\<lambda>(st, n). (stateKey st, n)) (map pairOf ts)" for ts
    by (simp add: transitionKey_def pairOf_def comp_def)
  then show d: "distinct (map pairOf (All g))" using distinct_All [OF wf] by (metis distinct_map)
  show "findPair (All g) (Split sk NUL, nxt)
      = map_option (\<lambda>e. itemTransition (sk, nxt, e)) (lookupEntry g sk nxt)"
  proof (cases "lookupEntry g sk nxt")
    case None
    have "pairOf t \<noteq> (Split sk NUL, nxt)" if "t \<in> set (All g)" for t
    proof
      assume "pairOf t = (Split sk NUL, nxt)"
      then have "stateKey (t_State t) = sk" "t_Next t = nxt" by (simp_all add: pairOf_def)
      then show False using that None All_iff [OF wf, of t]
        by (auto simp: itemTransition_def entryToTransition_def)
    qed
    then show ?thesis using None by (force intro: findPair_None)
  next
    case (Some e)
    then have "itemTransition (sk, nxt, e) \<in> set (All g)" using All_iff [OF wf] by blast
    moreover have "pairOf (itemTransition (sk, nxt, e)) = (Split sk NUL, nxt)"
      by (simp add: pairOf_def itemTransition_def entryToTransition_def)
    ultimately have "((Split sk NUL, nxt), itemTransition (sk, nxt, e)) \<in> set (map (\<lambda>t. (pairOf t, t)) (All g))"
      by (metis (mono_tags, lifting) image_eqI list.set_map)
    then show ?thesis using d Some unfolding findPair_def
      by (intro trans [OF map_of_is_SomeI]) (simp_all add: comp_def)
  qed
qed

text \<open>The entry a row gives back: the same counters and histogram, the time in whole seconds.\<close>

definition secEntry :: "aentry \<Rightarrow> aentry" where
  "secEntry a = a\<lparr>a_lastSeen := secs (a_lastSeen a)\<rparr>"

lemma save_refines:
  assumes inv: "graphInv g" and within: "dbWithin d g"
  shows "absDB (saveRows (All g) d) = (\<lambda>k. map_option secEntry (absGraph g k))"
proof
  fix k :: "string \<times> string"
  obtain sk nxt where k: "k = (sk, nxt)" by (cases k)
  let ?pk = "(Split sk NUL, nxt)"
  have ts: "distinct (map pairOf (All g))" "\<forall>t\<in>set (All g). wfTransition t"
    using pairs_All(1) [OF inv] valid_All [OF inv] by auto
  note look = lookup_saveRows [OF ts, of d ?pk, unfolded pairs_All(2) [OF inv]]
  show "absDB (saveRows (All g) d) k = map_option secEntry (absGraph g k)"
  proof (cases "lookupEntry g sk nxt")
    case None
    have "map_of (db_transitions d) ?pk = None"
    proof (rule ccontr)
      assume "map_of (db_transitions d) ?pk \<noteq> None"
      then obtain r where "(?pk, r) \<in> set (db_transitions d)" by (auto dest: map_of_SomeD)
      then show False using within None by (fastforce simp: dbWithin_def)
    qed
    then show ?thesis using look None by (simp add: absDB_def absGraph_def k)
  next
    case (Some e)
    have "map_of (db_cwds d) (?pk, cwd) = None" if "map_of (e_cwds e) cwd = None" for cwd
    proof (rule ccontr)
      assume "map_of (db_cwds d) (?pk, cwd) \<noteq> None"
      then obtain c where "((?pk, cwd), c) \<in> set (db_cwds d)" by (auto dest: map_of_SomeD)
      then show False using within Some that
        by (fastforce simp: dbWithin_def map_of_eq_None_iff)
    qed
    then have "(\<lambda>cwd. map_of (db_cwds (saveRows (All g) d)) (?pk, cwd)) = map_of (e_cwds e)"
      using look Some by (auto simp: fun_eq_iff itemTransition_def entryToTransition_def split: option.splits)
    then show ?thesis using look Some
      by (simp add: absDB_def absGraph_def k dbEntry_def secEntry_def absEntry_def rowOf_def secs_def
          itemTransition_def entryToTransition_def)
  qed
qed


subsection \<open>Restarting\<close>

text \<open>A restart forgets nothing but fractions of a second: after the whole graph has been saved
  over tables that hold no more than the graph, loading them and merging the result into an empty
  graph is accepted and restores every entry with all its counters and its histogram, the time
  cut to whole seconds.\<close>

theorem restart_restores:
  assumes "graphInv g" "dbInv d" "dbWithin d g"
  shows "\<exists>g'. Merge (load (snd (save True (All g) d))) (New ws) = Inr g'
    \<and> absGraph g' = (\<lambda>k. map_option secEntry (absGraph g k)) \<and> graphInv g'"
proof -
  have "dbInv (saveRows (All g) d)" using assms All_savable dbInv_saveRows by blast
  from load_refines [OF this, of ws] save_refines [OF assms(1,3)]
  show ?thesis by (simp add: save_def)
qed

theorem restart_restores_witness:
  "\<exists>g'. Merge (load (snd (save True (All demoGraph) emptyDB))) (New 2) = Inr g'
     \<and> absGraph g' (''git add PATH'', ''git commit FLAG STR'') \<noteq> None"
proof -
  obtain g' where g': "Merge (load (snd (save True (All demoGraph) emptyDB))) (New 2) = Inr g'"
    "absGraph g' = (\<lambda>k. map_option secEntry (absGraph demoGraph k))"
    using restart_restores [OF graphInv_demoGraph dbInv_empty dbWithin_empty, of 2] by blast
  then show ?thesis by (intro exI [of _ g']) (simp add: absGraph_def lookup_demoGraph)
qed

text \<open>A failed transaction changes nothing, whatever was to be written.\<close>

lemma failed_save [simp]: "save False ts d = (False, d)" "saveRawExamples False rs d = (False, d)"
  by (simp_all add: save_def saveRawExamples_def)

subsection \<open>What keeps the database within the graph\<close>

definition graphLe :: "graph \<Rightarrow> graph \<Rightarrow> bool" where
  "graphLe g g' \<longleftrightarrow> (\<forall>sk n e. lookupEntry g sk n = Some e \<longrightarrow>
     (\<exists>e'. lookupEntry g' sk n = Some e' \<and> fst ` set (e_cwds e) \<subseteq> fst ` set (e_cwds e')))"

lemma graphLe_refl [simp]: "graphLe g g"
  by (auto simp: graphLe_def)

lemma graphLe_trans: "graphLe g g' \<Longrightarrow> graphLe g' g'' \<Longrightarrow> graphLe g g''"
  unfolding graphLe_def by (meson order_trans)

lemma keys_recordEntry: "fst ` set (e_cwds e) \<subseteq> fst ` set (e_cwds (recordEntry obs e))"
  using keys_mapPut [of "o_CWD obs" _ "e_cwds e"] by (auto simp: recordEntry_def)

lemma graphLe_RecordObs: "graphLe g (RecordObs obs g)"
  unfolding graphLe_def lookup_RecordObs using keys_recordEntry by auto

lemma keys_mergeCWDs: "fst ` set into \<subseteq> fst ` set (mergeCWDs from into)"
proof -
  have "fst ` set into \<subseteq> fst ` set (fold (\<lambda>(cwd, c) m. mapPut cwd (max (mapGet 0 m cwd) c) m) ps into)" for ps
  proof (induction ps arbitrary: into)
    case (Cons p ps)
    obtain cwd c where p: "p = (cwd, c)" by (cases p)
    show ?case using Cons.IH [of "mapPut cwd (max (mapGet 0 into cwd) c) into"]
        keys_mapPut [of cwd "max (mapGet 0 into cwd) c" into] by (auto simp: p)
  qed simp
  then show ?thesis by (simp add: mergeCWDs_def)
qed

lemma graphLe_mergeOne: "graphLe g (mergeOne t g)"
  unfolding graphLe_def lookup_mergeOne using keys_mergeCWDs by (auto simp: mergeEntry_def)

lemma graphLe_fold: "(\<And>x g. graphLe g (f x g)) \<Longrightarrow> graphLe g (fold f xs g)"
  by (induction xs arbitrary: g) (auto intro: graphLe_trans)

lemma graphLe_Merge: "Merge seed g = Inr g' \<Longrightarrow> graphLe g g'"
  using graphLe_fold [of mergeOne] graphLe_mergeOne by (auto simp: Merge_Inr)

lemma dbWithin_mono: "dbWithin d g \<Longrightarrow> graphLe g g' \<Longrightarrow> dbWithin d g'"
  unfolding dbWithin_def graphLe_def by fast

text \<open>What is saved may have been read from an earlier graph, as long as the graph has only grown since.\<close>

lemma dbWithin_upsert:
  assumes "dbWithin d g'" "graphInv g" "graphLe g g'" "t \<in> set (All g)"
  shows "dbWithin (upsertTransition t d) g'"
proof -
  obtain sk n e where t: "t = itemTransition (sk, n, e)" and e: "lookupEntry g sk n = Some e"
    using assms All_iff [OF graphInvD(1) [OF assms(2)]] by blast
  obtain e' where e': "lookupEntry g' sk n = Some e'" "fst ` set (e_cwds e) \<subseteq> fst ` set (e_cwds e')"
    using assms(3) e unfolding graphLe_def by blast
  have p: "pairOf t = (Split sk NUL, n)" "t_CWDs t = e_cwds e"
    by (simp_all add: t pairOf_def itemTransition_def entryToTransition_def)
  show ?thesis unfolding dbWithin_def
  proof (intro conjI ballI)
    fix row assume row: "row \<in> set (db_transitions (upsertTransition t d))"
    then have "row = (pairOf t, rowOf t) \<or> row \<in> set (db_transitions d)"
      using set_mapPut_subset [of "pairOf t" "rowOf t" "db_transitions d"] by (auto simp: upsertTransition_def)
    then show "(\<lambda>((st, nxt), _). lookupEntry g' (stateKey st) nxt \<noteq> None) row"
      using assms(1) e' p(1) by (auto simp: dbWithin_def)
  next
    fix row assume row: "row \<in> set (db_cwds (upsertTransition t d))"
    then consider "row \<in> set (db_cwds d)" | cwd c where "row = ((pairOf t, cwd), c)" "(cwd, c) \<in> set (t_CWDs t)"
      using set_fold_cwds [of "pairOf t" "t_CWDs t" "db_cwds d"] by (fastforce simp: upsertTransition_def)
    then show "(\<lambda>(((st, nxt), cwd), _).
        \<exists>e. lookupEntry g' (stateKey st) nxt = Some e \<and> cwd \<in> fst ` set (e_cwds e)) row"
    proof cases
      case 1
      then show ?thesis using assms(1) by (auto simp: dbWithin_def)
    next
      case (2 cwd c)
      then have "cwd \<in> fst ` set (e_cwds e')" using e'(2) p(2) by (metis fst_conv image_eqI subsetD)
      then show ?thesis using 2(1) e'(1) p(1) by simp
    qed
  qed
qed

lemma dbWithin_saveOlder:
  assumes "dbWithin d g'" "graphInv g" "graphLe g g'"
  shows "dbWithin (saveRows (All g) d) g'"
proof -
  have "set ts \<subseteq> set (All g) \<Longrightarrow> dbWithin d g' \<Longrightarrow> dbWithin (fold upsertTransition ts d) g'" for ts d
    by (induction ts arbitrary: d) (auto intro: dbWithin_upsert [OF _ assms(2,3)])
  then show ?thesis using assms(1) by (simp add: saveRows_def)
qed

lemma dbWithin_save: "dbWithin d g \<Longrightarrow> graphInv g \<Longrightarrow> dbWithin (saveRows (All g) d) g"
  by (rule dbWithin_saveOlder) simp_all

lemma pairOf_pruned [simp]: "pairOf (prunedTransition st nxt) = (st, nxt)"
  by (simp add: pairOf_def prunedTransition_def entryToTransition_def)

lemma pruneRows_nil [simp]: "pruneRows [] [] d = d"
  by (simp add: pruneRows_def case_prod_beta)

lemma dbInv_prune: "dbInv d \<Longrightarrow> dbInv (pruneRows ts orphaned d)"
  by (auto simp: dbInv_def pruneRows_def intro: wfMap_filter)

lemma decay_survivor:
  assumes "graphInv g" "Decay tm hl mi g = (r, g')" "plainState st"
    and "lookupEntry g (stateKey st) nxt = Some e" "(st, nxt) \<notin> set (map pairOf (dr_Pruned r))"
  shows "lookupEntry g' (stateKey st) nxt = Some e"
proof -
  note wf = graphInvD(1) [OF assms(1)]
  have r: "r = fst (Decay tm hl mi g)" "g' = snd (Decay tm hl mi g)" using assms(2) by simp_all
  have split: "Split (stateKey st) NUL = st" using assms(3) by (simp add: plainState_def Split_stateKey)
  have "\<not> doomed tm hl mi e"
  proof
    assume "doomed tm hl mi e"
    then have "prunedTransition st nxt \<in> set (dr_Pruned r)"
      using pruned_iff [OF wf] assms(4) split unfolding r by metis
    then show False using assms(5) by (force simp: image_iff)
  qed
  then show ?thesis using lookup_Decay [OF wf] assms(4) unfolding r by simp
qed

text \<open>A decay sweep and the prune of the database that follows it remove the same pairs.\<close>

lemma dbWithin_prune:
  assumes "graphInv g" "dbInv d" "dbWithin d g" "Decay tm hl mi g = (r, g')"
  shows "dbWithin (pruneRows (dr_Pruned r) orphaned d) g'"
  unfolding dbWithin_def
proof (intro conjI ballI)
  fix row assume "row \<in> set (db_transitions (pruneRows (dr_Pruned r) orphaned d))"
  moreover obtain st nxt x where "row = ((st, nxt), x)" by (metis surj_pair)
  ultimately have row: "row = ((st, nxt), x)" "row \<in> set (db_transitions d)"
    "(st, nxt) \<notin> set (map pairOf (dr_Pruned r))"
    by (auto simp: pruneRows_def)
  then have "plainState st" "lookupEntry g (stateKey st) nxt \<noteq> None"
    using assms(2,3) by (auto simp: dbInv_def rowOk_def dbWithin_def)
  then show "(\<lambda>((st, nxt), _). lookupEntry g' (stateKey st) nxt \<noteq> None) row"
    using decay_survivor [OF assms(1,4)] row by auto
next
  fix row assume "row \<in> set (db_cwds (pruneRows (dr_Pruned r) orphaned d))"
  moreover obtain st nxt cwd x where "row = (((st, nxt), cwd), x)" by (metis surj_pair)
  ultimately have row: "row = (((st, nxt), cwd), x)" "row \<in> set (db_cwds d)"
    "(st, nxt) \<notin> set (map pairOf (dr_Pruned r))"
    by (auto simp: pruneRows_def)
  then have "plainState st" and "\<exists>e. lookupEntry g (stateKey st) nxt = Some e \<and> cwd \<in> fst ` set (e_cwds e)"
    using assms(2,3) by (auto simp: dbInv_def dbWithin_def)
  then show "(\<lambda>(((st, nxt), cwd), _).
      \<exists>e. lookupEntry g' (stateKey st) nxt = Some e \<and> cwd \<in> fst ` set (e_cwds e)) row"
    using decay_survivor [OF assms(1,4)] row by auto
qed

lemma clear_done: "clear ok1 ok2 ok3 d = (True, d') \<Longrightarrow> dbInv d' \<and> dbWithin d' g \<and> db_raws d' = []"
  by (auto simp: clear_def Let_def dbInv_def dbWithin_def split: if_splits)

subsection \<open>Raw examples across a restart\<close>

definition rawRowsOk :: "db \<Rightarrow> bool" where
  "rawRowsOk d \<longleftrightarrow> wfMap (db_raws d) \<and> (\<forall>(((st, _), _), _)\<in>set (db_raws d). validState st)"

definition rawsWithin :: "db \<Rightarrow> rawStore \<Rightarrow> bool" where
  "rawsWithin d s \<longleftrightarrow>
     (\<forall>(((st, t), raw), _)\<in>set (db_raws d). tlLookup (rs_m s) (rawOuterKey st t) raw \<noteq> None)"

definition secRaw :: "rawEntry \<Rightarrow> rawEntry" where
  "secRaw e = e\<lparr>re_lastSeen := (if IsZero (re_lastSeen e) then unixEpoch else secs (re_lastSeen e))\<rparr>"

lemma rawsWithin_empty [simp]: "rawsWithin emptyDB s" "rawRowsOk emptyDB"
  by (simp_all add: rawsWithin_def rawRowsOk_def emptyDB_def)

definition rowItem :: "(pairKey \<times> string) \<times> rawRow \<Rightarrow> string \<times> string \<times> rawEntry" where
  "rowItem = (\<lambda>(((st, t), raw), r).
     (rawOuterKey st t, raw, \<lparr>re_count = w_count r, re_lastSeen = time_Unix (w_lastSeen r)\<rparr>))"

lemma loadRaws_rows: "rs_m (loadRaws (loadRawExamples d) s) = tlStore rawEntry0 (map rowItem (db_raws d)) (rs_m s)"
proof -
  have "rs_m (loadRaws (map (\<lambda>(((st, template), raw), r).
       \<lparr>rr_State = st, rr_Template = template, rr_Raw = raw, rr_Count = w_count r,
        rr_LastSeen = time_Unix (w_lastSeen r)\<rparr>) rows) s) = tlStore rawEntry0 (map rowItem rows) (rs_m s)" for rows
    by (induction rows arbitrary: s) (auto simp: loadRaws_def tlStore_def rowItem_def)
  then show ?thesis by (simp add: loadRawExamples_def)
qed

lemma tlStore_member:
  assumes "distinct (map (\<lambda>(k1, k2, v). (k1, k2)) items)" "(a, b, v) \<in> set items"
  shows "tlLookup (tlStore z items m) a b = Some v"
proof -
  have inj: "inj_on (\<lambda>(k1, k2, v). (k1, k2)) (set items)" using assms(1) by (simp add: distinct_map)
  have "v' = v" if "(a, b, v') \<in> set items" for v'
    using inj_onD [OF inj _ that assms(2)] by simp
  with assms(2) have the: "(THE v'. (a, b, v') \<in> set items) = v" by (rule the_equality)
  from assms(2) have ex: "\<exists>v'. (a, b, v') \<in> set items" by (rule exI)
  show ?thesis unfolding tlLookup_store [OF assms(1)] the using ex by (rule if_P)
qed

lemma tlStore_no_member:
  assumes "distinct (map (\<lambda>(k1, k2, v). (k1, k2)) items)" "\<And>v. (a, b, v) \<notin> set items"
  shows "tlLookup (tlStore z items m) a b = tlLookup m a b"
  using assms(2) by (simp add: tlLookup_store [OF assms(1)])

lemma distinct_rowItems:
  assumes "rawRowsOk d"
  shows "distinct (map (\<lambda>(k1, k2, v). (k1, k2)) (map rowItem (db_raws d)))"
proof -
  have "inj_on (\<lambda>((st, t), raw). (rawOuterKey st t, raw)) (fst ` set (db_raws d))"
  proof (rule inj_onI, clarsimp)
    fix st t raw r st' t' r'
    assume "(((st, t), raw), r) \<in> set (db_raws d)" "(((st', t'), raw), r') \<in> set (db_raws d)"
      and eq: "rawOuterKey st t = rawOuterKey st' t'"
    then have "validState st" "validState st'" using assms by (auto simp: rawRowsOk_def)
    then show "st = st' \<and> t = t'" using raw_key.enc_inj [of "(st, t)" "(st', t')"] eq by simp
  qed
  moreover have "map (\<lambda>(k1, k2, v). (k1, k2)) (map rowItem (db_raws d))
      = map (\<lambda>((st, t), raw). (rawOuterKey st t, raw)) (map fst (db_raws d))"
    by (simp add: rowItem_def split_beta)
  ultimately show ?thesis using assms by (simp add: rawRowsOk_def distinct_map del: map_map)
qed


lemma map_of_fold_mapPut:
  "distinct (map f xs) \<Longrightarrow> map_of (fold (\<lambda>x. mapPut (f x) (h x)) xs m) k
     = (case map_of (map (\<lambda>x. (f x, h x)) xs) k of None \<Rightarrow> map_of m k | Some v \<Rightarrow> Some v)"
proof (induction xs arbitrary: m)
  case (Cons x xs)
  have "map_of (map (\<lambda>x. (f x, h x)) xs) (f x) = None"
    using Cons.prems by (force simp: map_of_eq_None_iff)
  then show ?case using Cons by (simp add: map_of_mapPut split: option.splits)
qed simp

lemma snapshot_record:
  assumes "rawInv s"
  shows "rec \<in> set (snapshot s) \<longleftrightarrow> validState (rr_State rec)
    \<and> tlLookup (rs_m s) (rawOuterKey (rr_State rec) (rr_Template rec)) (rr_Raw rec)
        = Some \<lparr>re_count = rr_Count rec, re_lastSeen = rr_LastSeen rec\<rparr>" (is "_ \<longleftrightarrow> ?R")
proof
  have wf: "tlWf (rs_m s)" using assms by (simp add: rawInv_def)
  note items = tlItems_iff [OF wf]
  { assume "rec \<in> set (snapshot s)"
    then obtain k raw e where rec: "rec = itemRecord (k, raw, e)" and i: "(k, raw, e) \<in> set (tlItems (rs_m s))"
      unfolding snapshot_items [OF assms] by auto
    then obtain inner where "(k, inner) \<in> set (rs_m s)"
      using set_tlItems [of k raw e "rs_m s"] by blast
    then obtain st t where "validState st" "k = rawOuterKey st t" "splitOuterKey k = Some (st, t)"
      using rawInv_key [OF assms] by blast
    then show ?R using i items by (auto simp: rec itemRecord_def) }
  { assume R: ?R
    let ?i = "(rawOuterKey (rr_State rec) (rr_Template rec), rr_Raw rec,
        \<lparr>re_count = rr_Count rec, re_lastSeen = rr_LastSeen rec\<rparr>)"
    have "?i \<in> set (tlItems (rs_m s))" using R items by blast
    moreover have "itemRecord ?i = rec" using R splitOuterKey_key by (simp add: itemRecord_def)
    ultimately show "rec \<in> set (snapshot s)" unfolding snapshot_items [OF assms] by (metis image_eqI set_map) }
qed

lemma distinct_snapshot:
  assumes "rawInv s"
  shows "distinct (map rawPairOf (snapshot s))"
proof -
  have wf: "tlWf (rs_m s)" using assms by (simp add: rawInv_def)
  have key: "fst i = rawOuterKey (rr_State (itemRecord i)) (rr_Template (itemRecord i))
      \<and> fst (snd i) = rr_Raw (itemRecord i)" if i_in: "i \<in> set (tlItems (rs_m s))" for i
  proof -
    obtain k raw e where i: "i = (k, raw, e)" by (cases i)
    then obtain inner where "(k, inner) \<in> set (rs_m s)"
      using i_in set_tlItems [of k raw e "rs_m s"] by blast
    then obtain st t where "k = rawOuterKey st t" "splitOuterKey k = Some (st, t)"
      using rawInv_key [OF assms] by blast
    then show ?thesis by (simp add: i itemRecord_def)
  qed
  have d: "distinct (tlItems (rs_m s))" and inj: "inj_on (\<lambda>(k1, k2, v). (k1, k2)) (set (tlItems (rs_m s)))"
    using distinct_tlItems [OF wf] by (simp_all add: distinct_map)
  have "inj_on (\<lambda>i. rawPairOf (itemRecord i)) (set (tlItems (rs_m s)))"
  proof (rule inj_onI)
    fix i j assume ij: "i \<in> set (tlItems (rs_m s))" "j \<in> set (tlItems (rs_m s))"
      and eq: "rawPairOf (itemRecord i) = rawPairOf (itemRecord j)"
    from eq have "rr_State (itemRecord i) = rr_State (itemRecord j)"
      "rr_Template (itemRecord i) = rr_Template (itemRecord j)" "rr_Raw (itemRecord i) = rr_Raw (itemRecord j)"
      by (simp_all add: rawPairOf_def)
    then have "fst i = fst j" "fst (snd i) = fst (snd j)"
      using key [OF ij(1)] key [OF ij(2)] by metis+
    then have "(\<lambda>(k1, k2, v). (k1, k2)) i = (\<lambda>(k1, k2, v). (k1, k2)) j" by (simp add: split_beta)
    then show "i = j" by (rule inj_onD [OF inj _ ij])
  qed
  then show ?thesis using d by (simp add: snapshot_items [OF assms] distinct_map comp_def)
qed

lemma lookup_saveRawRows:
  assumes "rawInv s" "rawsWithin d s" "validState st"
  shows "map_of (db_raws (saveRawRows (snapshot s) d)) ((st, t), raw)
    = map_option (\<lambda>e. rawRowOf \<lparr>rr_State = st, rr_Template = t, rr_Raw = raw, rr_Count = re_count e,
        rr_LastSeen = re_lastSeen e\<rparr>) (tlLookup (rs_m s) (rawOuterKey st t) raw)"
proof -
  let ?l = "map (\<lambda>rec. (rawPairOf rec, rawRowOf rec)) (snapshot s)"
  have look: "map_of (db_raws (saveRawRows (snapshot s) d)) ((st, t), raw)
      = (case map_of ?l ((st, t), raw) of None \<Rightarrow> map_of (db_raws d) ((st, t), raw) | Some v \<Rightarrow> Some v)"
    unfolding saveRawRows_def using map_of_fold_mapPut [OF distinct_snapshot [OF assms(1)]] by simp
  show ?thesis
  proof (cases "tlLookup (rs_m s) (rawOuterKey st t) raw")
    case None
    have "((st, t), raw) \<notin> rawPairOf ` set (snapshot s)"
      using None by (auto simp: snapshot_record [OF assms(1)] rawPairOf_def)
    then have "map_of ?l ((st, t), raw) = None" by (auto simp: map_of_eq_None_iff)
    moreover have "map_of (db_raws d) ((st, t), raw) = None"
    proof (rule ccontr)
      assume "map_of (db_raws d) ((st, t), raw) \<noteq> None"
      then obtain r where "(((st, t), raw), r) \<in> set (db_raws d)" by (auto dest: map_of_SomeD)
      then show False using assms(2) None by (fastforce simp: rawsWithin_def)
    qed
    ultimately show ?thesis using None look by simp
  next
    case (Some e)
    let ?rec = "\<lparr>rr_State = st, rr_Template = t, rr_Raw = raw, rr_Count = re_count e, rr_LastSeen = re_lastSeen e\<rparr>"
    have "?rec \<in> set (snapshot s)" using Some assms(3) by (simp add: snapshot_record [OF assms(1)])
    then have "(rawPairOf ?rec, rawRowOf ?rec) \<in> set ?l" by simp
    then have "map_of ?l (rawPairOf ?rec) = Some (rawRowOf ?rec)"
      using distinct_snapshot [OF assms(1)] by (intro map_of_is_SomeI) (simp_all add: comp_def)
    then show ?thesis using look Some by (simp add: rawPairOf_def)
  qed
qed

lemma keys_put: "fst ` set (mapPut k v m) = insert k (fst ` set m)"
  using keys_mapPut [of k v m] by simp

lemma keys_saveRawRows:
  "fst ` set (db_raws (saveRawRows recs d)) = fst ` set (db_raws d) \<union> rawPairOf ` set recs"
proof -
  have "fst ` set (fold (\<lambda>rec. mapPut (rawPairOf rec) (rawRowOf rec)) recs rows)
      = fst ` set rows \<union> rawPairOf ` set recs" for rows :: "((pairKey \<times> string) \<times> rawRow) list"
    by (induction recs arbitrary: rows) (auto simp: keys_put)
  then show ?thesis by (simp add: saveRawRows_def)
qed

text \<open>Adding to the raw store keeps the rows within it, and so does saving what it once held.\<close>

definition rawsLe :: "rawStore \<Rightarrow> rawStore \<Rightarrow> bool" where
  "rawsLe s s' \<longleftrightarrow> (\<forall>k r. tlLookup (rs_m s) k r \<noteq> None \<longrightarrow> tlLookup (rs_m s') k r \<noteq> None)"

lemma rawsLe_refl [simp]: "rawsLe s s"
  by (simp add: rawsLe_def)

lemma rawsLe_trans: "rawsLe s s' \<Longrightarrow> rawsLe s' s'' \<Longrightarrow> rawsLe s s''"
  unfolding rawsLe_def by blast

lemma rawsWithin_mono: "rawsWithin d s \<Longrightarrow> rawsLe s s' \<Longrightarrow> rawsWithin d s'"
  unfolding rawsWithin_def rawsLe_def by fast

lemma rawsWithin_saveOlder:
  assumes "rawsWithin d s'" "rawInv s" "rawsLe s s'"
  shows "rawsWithin (saveRawRows (snapshot s) d) s'"
proof -
  have "tlLookup (rs_m s') (rawOuterKey st t) raw \<noteq> None"
    if key: "((st, t), raw) \<in> fst ` set (db_raws (saveRawRows (snapshot s) d))" for st t raw
  proof -
    consider "((st, t), raw) \<in> fst ` set (db_raws d)"
      | rec where "rec \<in> set (snapshot s)" "((st, t), raw) = rawPairOf rec"
      using key unfolding keys_saveRawRows by blast
    then show ?thesis
    proof cases
      case 1
      then show ?thesis using assms(1) by (auto simp: rawsWithin_def)
    next
      case (2 rec)
      then have "tlLookup (rs_m s) (rawOuterKey st t) raw \<noteq> None"
        using snapshot_record [OF assms(2), of rec] by (simp add: rawPairOf_def)
      then show ?thesis using assms(3) by (simp add: rawsLe_def)
    qed
  qed
  then show ?thesis by (force simp: rawsWithin_def)
qed

lemma rawsWithin_save: "rawsWithin d s \<Longrightarrow> rawInv s \<Longrightarrow> rawsWithin (saveRawRows (snapshot s) d) s"
  by (rule rawsWithin_saveOlder) simp_all

lemma rawRowsOk_save:
  assumes "rawRowsOk d" "rawInv s"
  shows "rawRowsOk (saveRawRows (snapshot s) d)"
proof -
  have "validState st" if "((st, t), raw) \<in> fst ` set (db_raws (saveRawRows (snapshot s) d))" for st t raw
  proof -
    have "((st, t), raw) \<in> fst ` set (db_raws d) \<union> rawPairOf ` set (snapshot s)"
      using that by (simp add: keys_saveRawRows)
    then consider "((st, t), raw) \<in> fst ` set (db_raws d)"
      | rec where "rec \<in> set (snapshot s)" "((st, t), raw) = rawPairOf rec" by blast
    then show ?thesis
    proof cases
      case 1
      then show ?thesis using assms(1) by (auto simp: rawRowsOk_def)
    next
      case (2 rec)
      then show ?thesis using snapshot_record [OF assms(2), of rec] by (simp add: rawPairOf_def)
    qed
  qed
  moreover have "wfMap (db_raws (saveRawRows (snapshot s) d))"
    using assms(1) unfolding rawRowsOk_def saveRawRows_def by (simp add: fold_mapPut_wf)
  ultimately show ?thesis by (force simp: rawRowsOk_def)
qed


lemma lookup_loadRaws:
  assumes "rawRowsOk d" "validState st"
  shows "tlLookup (rs_m (loadRaws (loadRawExamples d) (newRawStore hl))) (rawOuterKey st t) raw
    = map_option (\<lambda>r. \<lparr>re_count = w_count r, re_lastSeen = time_Unix (w_lastSeen r)\<rparr>)
        (map_of (db_raws d) ((st, t), raw))"
proof (cases "map_of (db_raws d) ((st, t), raw)")
  case None
  have "(rawOuterKey st t, raw, v) \<notin> set (map rowItem (db_raws d))" for v
  proof
    assume "(rawOuterKey st t, raw, v) \<in> set (map rowItem (db_raws d))"
    then obtain st' t' r where row: "(((st', t'), raw), r) \<in> set (db_raws d)"
      and eq: "rawOuterKey st t = rawOuterKey st' t'" by (auto simp: rowItem_def)
    then have "validState st'" using assms(1) by (auto simp: rawRowsOk_def)
    then have "(st, t) = (st', t')" using raw_key.enc_inj [of "(st, t)" "(st', t')"] assms(2) eq by simp
    then show False using row None by (force simp: map_of_eq_None_iff)
  qed
  then show ?thesis using None
    by (simp add: loadRaws_rows newRawStore_def tlStore_no_member [OF distinct_rowItems [OF assms(1)]])
next
  case (Some r)
  have "rowItem (((st, t), raw), r) \<in> set (map rowItem (db_raws d))" using map_of_SomeD [OF Some] by simp
  then have "(rawOuterKey st t, raw, \<lparr>re_count = w_count r, re_lastSeen = time_Unix (w_lastSeen r)\<rparr>)
      \<in> set (map rowItem (db_raws d))" by (simp add: rowItem_def)
  from tlStore_member [OF distinct_rowItems [OF assms(1)] this] Some show ?thesis
    by (simp add: loadRaws_rows)
qed

lemma loaded_raws:
  assumes "rawInv s" "rawRowsOk d" "rawsWithin d s" "validState st"
  shows "tlLookup (rs_m (loadRaws (loadRawExamples (snd (saveRawExamples True (snapshot s) d))) (newRawStore hl)))
      (rawOuterKey st t) raw
    = map_option secRaw (tlLookup (rs_m s) (rawOuterKey st t) raw)"
proof -
  have "time_Unix 0 = unixEpoch" by (simp add: time_Unix_def)
  then show ?thesis
    using lookup_loadRaws [OF rawRowsOk_save [OF assms(2,1)] assms(4), of hl t raw]
      lookup_saveRawRows [OF assms(1,3,4), of t raw]
    by (cases "tlLookup (rs_m s) (rawOuterKey st t) raw")
       (simp_all add: saveRawExamples_def secRaw_def rawRowOf_def secs_def)
qed

text \<open>The raw commands survive a restart too: after a snapshot has been saved over rows that all
  belong to the store, loading them gives back every entry, in its bucket, with its count and its
  time cut to whole seconds.\<close>

theorem restart_raws:
  assumes "rawInv s" "rawRowsOk d" "rawsWithin d s" "validState st"
  shows "tlLookup (rs_m (loadRaws (loadRawExamples (snd (saveRawExamples True (snapshot s) d))) (newRawStore hl)))
      (rawOuterKey st t) raw
    = map_option secRaw (tlLookup (rs_m s) (rawOuterKey st t) raw)"
  by (rule loaded_raws [OF assms])

theorem restart_raws_witness:
  "tlLookup (rs_m demoRaws) (rawOuterKey [''git clone REPO''] ''cd PATH'') ''cd hunch'' \<noteq> None
   \<and> tlLookup (rs_m (loadRaws (loadRawExamples (snd (saveRawExamples True (snapshot demoRaws) emptyDB)))
        (newRawStore 10))) (rawOuterKey [''git clone REPO''] ''cd PATH'') ''cd hunch'' \<noteq> None"
proof -
  have v: "validState [''git clone REPO'']" by (simp add: validState_def)
  have "tlLookup (rs_m demoRaws) (rawOuterKey [''git clone REPO''] ''cd PATH'') ''cd hunch'' \<noteq> None"
    by (simp add: demoRaws_def lookup_recordRaw)
  then show ?thesis
    using restart_raws [OF demoRaws_inv rawsWithin_empty(2) rawsWithin_empty(1) v, of 10 "''cd PATH''" "''cd hunch''"]
    by simp
qed

end
