(* ===== verification/Go_Filepath.thy ===== *)
theory Go_Filepath
  imports Go_Prelude
begin

text \<open>
  The functions of path/filepath the daemon calls, on Unix: \<open>Clean\<close> works on the list of
  path elements, which gives the lexical processing of the Go function, and \<open>Dir\<close> cleans what
  is left of the last slash. \<open>ancestors\<close> is the loop both fallback ladders use to visit the
  parent directories.
\<close>

fun cleanElems :: "bool \<Rightarrow> string list \<Rightarrow> string list \<Rightarrow> string list" where
  \<comment> \<open>\<open>stack\<close> holds the elements kept so far, the last one first\<close>
  "cleanElems rooted stack [] = rev stack"
| "cleanElems rooted stack (el # els) =
     (if el = [] \<or> el = ''.'' then cleanElems rooted stack els
      else if el = ''..'' then
        (case stack of
           [] \<Rightarrow> cleanElems rooted (if rooted then [] else [''..'']) els
         | upper # below \<Rightarrow>
             if upper = ''..'' then cleanElems rooted (''..'' # stack) els
             else cleanElems rooted below els)
      else cleanElems rooted (el # stack) els)"

definition isRooted :: "string \<Rightarrow> bool" where
  "isRooted path \<longleftrightarrow> prefix ''/'' path"

definition Clean :: "string \<Rightarrow> string" where
  "Clean path =
     (let s = Join (cleanElems (isRooted path) [] (Split path CHR ''/'')) ''/''
      in if isRooted path then CHR ''/'' # s else if s = [] then ''.'' else s)"

definition upToSlash :: "string \<Rightarrow> string" where
  \<comment> \<open>\<open>path[:i+1]\<close> for the index of the last slash\<close>
  "upToSlash path = rev (dropWhile (\<lambda>c. c \<noteq> CHR ''/'') (rev path))"

definition Dir :: "string \<Rightarrow> string" where
  "Dir path = Clean (upToSlash path)"

lemma path_examples:
  "Clean ''/a//b/../c/.'' = ''/a/c''" "Clean ''../x/..'' = ''..''" "Clean '''' = ''.''" "Clean ''/..'' = ''/''"
  "Dir ''/home/u/p'' = ''/home/u''" "Dir ''/p'' = ''/''" "Dir ''/'' = ''/''" "Dir ''p'' = ''.''"
  by code_simp+

subsection \<open>Lengths\<close>

definition weight :: "string list \<Rightarrow> nat" where
  "weight els = sum_list (map (\<lambda>el. length el + 1) els)"

lemma weight_simps [simp]:
  "weight [] = 0" "weight (el # els) = length el + 1 + weight els"
  "weight (xs @ ys) = weight xs + weight ys" "weight (rev els) = weight els"
  by (simp_all add: weight_def rev_map [symmetric])

lemma length_Join: "els \<noteq> [] \<Longrightarrow> length (Join els [c]) + 1 = weight els"
  by (induction els "[c]" rule: Join.induct) auto

lemma length_Join_le: "length (Join els [c]) \<le> weight els - 1"
  using length_Join [of els c] by (cases "els = []") auto

lemma weight_Split: "weight (Split s c) = length s + 1"
  by (induction s) (auto split: list.splits)

lemma weight_cleanElems: "weight (cleanElems r stack els) \<le> weight stack + weight (filter (\<lambda>el. el \<noteq> []) els)"
proof (induction r stack els rule: cleanElems.induct)
  case (2 rooted stack el els)
  then show ?case by (cases stack) (auto split: if_splits)
qed simp

text \<open>An element that is empty counts nothing, and a path with a slash at an end has one.\<close>

lemma weight_filter: "weight (filter (\<lambda>el. el \<noteq> []) els) + length (filter (\<lambda>el. el = []) els) = weight els"
  by (induction els) auto

lemma Split_empty_last: "Split (s @ [c]) c = Split s c @ [[]]"
proof (induction s)
  case (Cons x s)
  obtain w ws where "Split s c = w # ws" by (meson Split_nonempty list.exhaust)
  then show ?case using Cons by simp
qed simp

lemma empty_elem: "[] \<in> set els \<Longrightarrow> weight (filter (\<lambda>el. el \<noteq> []) els) < weight els"
proof -
  assume "[] \<in> set els"
  then have "0 < length (filter (\<lambda>el. el = []) els)"
    by (intro length_pos_if_in_set [of "[]"]) simp
  then show ?thesis using weight_filter [of els] by linarith
qed

lemma Split_last_slash: "s \<noteq> [] \<Longrightarrow> last s = c \<Longrightarrow> [] \<in> set (Split s c)"
  using Split_empty_last [of "butlast s" c] append_butlast_last_id [of s] by auto

lemma length_Clean_slash:
  assumes "s \<noteq> []" "last s = CHR ''/''" "s \<noteq> ''/''"
  shows "length (Clean s) < length s"
proof -
  let ?els = "Split s CHR ''/''" and ?out = "cleanElems (isRooted s) [] (Split s CHR ''/'')"
  have out: "weight ?out \<le> weight (filter (\<lambda>el. el \<noteq> []) ?els)"
    using weight_cleanElems [of "isRooted s" "[]" ?els] by simp
  have len: "2 \<le> length s"
    using assms by (cases s; cases "tl s") auto
  show ?thesis
  proof (cases "isRooted s")
    case True
    then obtain s' where s: "s = CHR ''/'' # s'" by (auto simp: isRooted_def prefix_def)
    then have "s' \<noteq> []" "last s' = CHR ''/''" using assms by (auto split: if_splits)
    then have "weight (filter (\<lambda>el. el \<noteq> []) (Split s' CHR ''/'')) < length s' + 1"
      using empty_elem [OF Split_last_slash] by (metis weight_Split)
    then have "weight ?out \<le> length s'" using out s by simp
    then have "length (Join ?out ''/'') \<le> length s' - 1" using length_Join_le [of ?out] by (meson diff_le_mono le_trans)
    then show ?thesis using True s \<open>s' \<noteq> []\<close> by (cases s') (auto simp: Clean_def Let_def)
  next
    case False
    have "weight (filter (\<lambda>el. el \<noteq> []) ?els) < length s + 1"
      using empty_elem [OF Split_last_slash [OF assms(1,2)]] by (metis weight_Split)
    then have "length (Join ?out ''/'') \<le> length s - 1"
      using out length_Join_le [of ?out "CHR ''/''"] by linarith
    then show ?thesis using False len by (auto simp: Clean_def Let_def)
  qed
qed

lemma Clean_consts [simp]: "Clean [] = ''.''" "Clean ''/'' = ''/''" "Dir ''.'' = ''.''" "Dir ''/'' = ''/''"
  by code_simp+

lemma upToSlash_cases:
  "upToSlash path = [] \<or> upToSlash path \<noteq> [] \<and> last (upToSlash path) = CHR ''/''
     \<and> prefix (upToSlash path) path"
proof (cases "dropWhile (\<lambda>c. c \<noteq> CHR ''/'') (rev path)")
  case (Cons c cs)
  then have "c = CHR ''/''" using hd_dropWhile [of "\<lambda>c. c \<noteq> CHR ''/''" "rev path"] by auto
  moreover have "prefix (upToSlash path) path"
    unfolding upToSlash_def suffix_to_prefix [symmetric]
    by (metis rev_rev_ident suffix_dropWhile suffix_to_prefix)
  ultimately show ?thesis using Cons by (simp add: upToSlash_def)
qed (simp add: upToSlash_def)

text \<open>The parent of a path is the path of the current directory, the root, or shorter.\<close>

lemma length_Dir: "Dir path = ''.'' \<or> Dir path = ''/'' \<or> length (Dir path) < length path"
  using upToSlash_cases [of path] length_Clean_slash [of "upToSlash path"]
    prefix_length_le [of "upToSlash path" path]
  unfolding Dir_def by (cases "upToSlash path = ''/''") auto

subsection \<open>The loop over the ancestors\<close>

function ancestorsFrom :: "string \<Rightarrow> string \<Rightarrow> string list" where
  \<comment> \<open>\<open>for parent := ...; parent != cwd && parent != filepath.Dir(parent); parent = filepath.Dir(parent)\<close>\<close>
  "ancestorsFrom cwd parent =
     (if parent \<noteq> cwd \<and> parent \<noteq> Dir parent then parent # ancestorsFrom cwd (Dir parent) else [])"
  by pat_completeness auto
termination
proof (relation "measure (\<lambda>(cwd, parent). if parent = Dir parent then 0 else Suc (length parent))")
  fix cwd parent :: string
  assume "parent \<noteq> cwd \<and> parent \<noteq> Dir parent"
  then show "((cwd, Dir parent), cwd, parent) \<in>
      measure (\<lambda>(cwd, parent). if parent = Dir parent then 0 else Suc (length parent))"
    using length_Dir [of parent] by auto
qed simp

declare ancestorsFrom.simps [simp del]

definition ancestors :: "string \<Rightarrow> string list" where
  "ancestors cwd = (if cwd \<noteq> [] then ancestorsFrom cwd (Dir cwd) else [])"

lemma ancestors_examples:
  "ancestors ''/home/u/p/src'' = [''/home/u/p'', ''/home/u'', ''/home'']"
  "ancestors ''/p'' = []" "ancestors ''..'' = []" "ancestors ''a/b'' = [''a'']"
  by code_simp+

end
