(* ===== verification/Go_Text.thy ===== *)
theory Go_Text
  imports Go_Filepath
begin

text \<open>
  More of the Go standard library on strings: white space in UTF-8, \<open>TrimSpace\<close>, \<open>Fields\<close>,
  \<open>ToLower\<close> on ASCII letters, \<open>Contains\<close>, \<open>strconv.Atoi\<close> and \<open>filepath.Join\<close>.
\<close>

subsection \<open>White space\<close>

text \<open>The encodings of the runes \<open>unicode.IsSpace\<close> accepts.\<close>

definition spaceRunes :: "string list" where
  "spaceRunes =
     map (\<lambda>c. [c]) [TAB, LF, VT, FF, CR, CHR '' ''] @
     [[CHR 0xC2, CHR 0x85], [CHR 0xC2, CHR 0xA0], [CHR 0xE1, CHR 0x9A, CHR 0x80]] @
     map (\<lambda>c. [CHR 0xE2, CHR 0x80, c])
       [CHR 0x80, CHR 0x81, CHR 0x82, CHR 0x83, CHR 0x84, CHR 0x85, CHR 0x86, CHR 0x87, CHR 0x88,
        CHR 0x89, CHR 0x8A, CHR 0xA8, CHR 0xA9, CHR 0xAF] @
     [[CHR 0xE2, CHR 0x81, CHR 0x9F], [CHR 0xE3, CHR 0x80, CHR 0x80]]"

lemma spaceRunes_nonempty: "w \<in> set spaceRunes \<Longrightarrow> w \<noteq> []"
  by (auto simp: spaceRunes_def)

definition spaceAt :: "string \<Rightarrow> nat" where
  \<comment> \<open>the width of the white space the text begins with, 0 where it begins with none\<close>
  "spaceAt s = (case find (\<lambda>w. prefix w s) spaceRunes of None \<Rightarrow> 0 | Some w \<Rightarrow> length w)"

definition spaceAtEnd :: "string \<Rightarrow> nat" where
  "spaceAtEnd s = (case find (\<lambda>w. suffix w s) spaceRunes of None \<Rightarrow> 0 | Some w \<Rightarrow> length w)"

lemma spaceAt_le: "spaceAt s \<le> length s"
  by (auto simp: spaceAt_def find_Some_iff split: option.splits dest: prefix_length_le)

lemma spaceAtEnd_le: "spaceAtEnd s \<le> length s"
  by (auto simp: spaceAtEnd_def find_Some_iff split: option.splits dest: suffix_length_le)

function TrimLeft :: "string \<Rightarrow> string" where
  "TrimLeft s = (if spaceAt s = 0 then s else TrimLeft (drop (spaceAt s) s))"
  by pat_completeness auto
termination
proof (relation "measure length")
  fix s :: string
  assume "spaceAt s \<noteq> 0"
  then show "(drop (spaceAt s) s, s) \<in> measure length" using spaceAt_le [of s] by simp
qed simp

function TrimRight :: "string \<Rightarrow> string" where
  "TrimRight s = (if spaceAtEnd s = 0 then s else TrimRight (take (length s - spaceAtEnd s) s))"
  by pat_completeness auto
termination
proof (relation "measure length")
  fix s :: string
  assume "spaceAtEnd s \<noteq> 0"
  then show "(take (length s - spaceAtEnd s) s, s) \<in> measure length" using spaceAtEnd_le [of s] by simp
qed simp

declare TrimLeft.simps [simp del] TrimRight.simps [simp del]

definition TrimSpace :: "string \<Rightarrow> string" where
  "TrimSpace s = TrimRight (TrimLeft s)"

function fieldsFrom :: "string \<Rightarrow> string \<Rightarrow> string list" where
  \<comment> \<open>\<open>word\<close> is the field under way\<close>
  "fieldsFrom word [] = (if word = [] then [] else [word])"
| "fieldsFrom word (c # cs) =
     (if spaceAt (c # cs) = 0 then fieldsFrom (word @ [c]) cs
      else (if word = [] then [] else [word]) @ fieldsFrom [] (drop (spaceAt (c # cs)) (c # cs)))"
  by pat_completeness auto
termination
  by (relation "measure (\<lambda>(word, s). length s)") auto

definition Fields :: "string \<Rightarrow> string list" where
  "Fields s = fieldsFrom [] s"

lemma text_examples:
  "TrimSpace ''  a b \<newline>'' = ''a b''" "TrimSpace [CHR 0xC2, CHR 0xA0, CHR ''x''] = ''x''"
  "Fields '' git  push '' = [''git'', ''push'']" "Fields '''' = []"
  by code_simp+

subsection \<open>Searching and case\<close>

fun Contains :: "string \<Rightarrow> string \<Rightarrow> bool" where
  "Contains [] w = (w = [])"
| "Contains (c # cs) w = (prefix w (c # cs) \<or> Contains cs w)"

lemma Contains_iff: "Contains s w \<longleftrightarrow> (\<exists>a b. s = a @ w @ b)"
proof (induction s)
  case (Cons c s)
  show ?case
  proof
    assume "Contains (c # s) w"
    then consider b where "c # s = w @ b" | a b where "s = a @ w @ b"
      using Cons by (auto simp: prefix_def)
    then show "\<exists>a b. c # s = a @ w @ b"
    proof cases
      case (1 b)
      then show ?thesis by (intro exI [of _ "[]"] exI [of _ b]) simp
    next
      case (2 a b)
      then show ?thesis by (intro exI [of _ "c # a"] exI [of _ b]) simp
    qed
  next
    assume "\<exists>a b. c # s = a @ w @ b"
    then obtain a b where "c # s = a @ w @ b" by blast
    then have "(\<exists>b. c # s = w @ b) \<or> (\<exists>a b. s = a @ w @ b)" by (cases a) auto
    then show "Contains (c # s) w" using Cons unfolding Contains.simps prefix_def by blast
  qed
qed simp

definition lowerAscii :: "char \<Rightarrow> char" where
  "lowerAscii c = (if 65 \<le> (of_char c :: nat) \<and> (of_char c :: nat) \<le> 90
     then char_of ((of_char c :: nat) + 32) else c)"

definition ToLower :: "string \<Rightarrow> string" where
  "ToLower s = map lowerAscii s"

subsection \<open>Numbers\<close>

definition digitVal :: "char \<Rightarrow> int option" where
  "digitVal c = (if 48 \<le> (of_char c :: nat) \<and> (of_char c :: nat) \<le> 57
     then Some (of_char c - 48) else None)"

fun digitsFrom :: "int \<Rightarrow> string \<Rightarrow> int option" where
  "digitsFrom acc [] = Some acc"
| "digitsFrom acc (c # cs) =
     (case digitVal c of None \<Rightarrow> None | Some v \<Rightarrow> digitsFrom (acc * 10 + v) cs)"

definition Atoi :: "string \<Rightarrow> int option" where
  \<comment> \<open>\<open>strconv.Atoi\<close>: an optional sign, at least one digit, and a value that fits 64 bits\<close>
  "Atoi s =
     (let neg = prefix ''-'' s;
          ds = (if neg \<or> prefix ''+'' s then tl s else s)
      in if ds = [] then None
         else case digitsFrom 0 ds of
                None \<Rightarrow> None
              | Some v \<Rightarrow> (let n = (if neg then - v else v)
                          in if minInt64 \<le> n \<and> n \<le> maxInt64 then Some n else None))"

lemma Atoi_examples:
  "Atoi ''720'' = Some 720" "Atoi ''-3'' = Some (-3)" "Atoi ''+7'' = Some 7" "Atoi '''' = None"
  "Atoi ''-'' = None" "Atoi ''1x'' = None" "Atoi ''9223372036854775808'' = None"
  by code_simp+

subsection \<open>Joining paths\<close>

definition joinPath :: "string list \<Rightarrow> string" where
  \<comment> \<open>\<open>filepath.Join\<close>\<close>
  "joinPath els =
     (case dropWhile (\<lambda>el. el = []) els of [] \<Rightarrow> [] | rest \<Rightarrow> Clean (Join rest ''/''))"

lemma joinPath_examples:
  "joinPath [''/home/u/.cache'', ''hunch.sock''] = ''/home/u/.cache/hunch.sock''"
  "joinPath ['''', ''a'', ''b''] = ''a/b''" "joinPath ['''', ''''] = ''''"
  by code_simp+

subsection \<open>Lines\<close>

lemma Split_lines_append:
  "\<forall>l\<in>set ls. LF \<notin> set l \<Longrightarrow> Split (concat (map (\<lambda>l. l @ [LF]) ls) @ s) LF = ls @ Split s LF"
  by (induction ls) (auto simp: Split_append_sep)

lemma Join_lines: "Join (ls @ [w]) [LF] = concat (map (\<lambda>l. l @ [LF]) ls) @ w"
  by (induction ls) (simp_all add: Join_Cons)

end
