(* ===== verification/Config.thy ===== *)
theory Config
  imports Go_Text
begin

text \<open>
  daemon/config.go: the options of the daemon, their defaults, the overrides by environment
  variables, and the two durations derived from them. Decoding the TOML file is go-toml's and
  \<open>strconv.ParseFloat\<close> is the standard library's; both are parameters (the first as the change it
  makes to the options, whether or not it ends in an error, which is only logged). Floats are
  real numbers, so what \<open>ParseFloat\<close> accepts beyond them (NaN, infinities) has no counterpart.
\<close>

record options =
  op_Socket :: string
  op_DBPath :: string
  op_AcceptKeys :: "string list"
  op_DaemonBin :: string
  op_HalfLifeHours :: int
  op_MaxIdleDays :: int
  op_Alpha :: real
  op_Beta :: real
  op_Gamma :: real
  op_Delta :: real
  op_Epsilon :: real
  op_MinConfidence :: real
  op_MinCount :: int
  op_ExtraParents :: "string list"
  op_Ignore :: "string list"
  op_LogLevel :: string
  op_SeedPath :: string

definition defaults :: options where
  "defaults = \<lparr>op_Socket = [], op_DBPath = [], op_AcceptKeys = [], op_DaemonBin = [],
     op_HalfLifeHours = 720, op_MaxIdleDays = 90, op_Alpha = 1 / 2, op_Beta = 3 / 4, op_Gamma = 1 / 2,
     op_Delta = 1 / 2, op_Epsilon = 1 / 2, op_MinConfidence = 1 / 10, op_MinCount = 2,
     op_ExtraParents = [], op_Ignore = [], op_LogLevel = ''info'', op_SeedPath = []\<rparr>"

definition HalfLife :: "options \<Rightarrow> duration" where
  "HalfLife opt = wrap64 (op_HalfLifeHours opt * time_Hour)"

definition MaxIdle :: "options \<Rightarrow> duration" where
  "MaxIdle opt =
     (if op_MaxIdleDays opt \<le> 0 then 0 else wrap64 (wrap64 (op_MaxIdleDays opt * 24) * time_Hour))"

subsection \<open>Loading\<close>

type_synonym getenv = "string \<Rightarrow> string"

text \<open>The three shapes of override: the text itself, an integer and a float that pass a check; a
  value that does not parse or fails its check is ignored.\<close>

definition overText :: "string \<Rightarrow> (string \<Rightarrow> options \<Rightarrow> options) \<Rightarrow> options \<Rightarrow> options" where
  "overText v put opt = (if v \<noteq> [] then put v opt else opt)"

definition overInt :: "string \<Rightarrow> (int \<Rightarrow> bool) \<Rightarrow> (int \<Rightarrow> options \<Rightarrow> options) \<Rightarrow> options \<Rightarrow> options" where
  "overInt v ok put opt =
     (if v \<noteq> [] then (case Atoi v of None \<Rightarrow> opt | Some n \<Rightarrow> if ok n then put n opt else opt) else opt)"

definition overFloat ::
  "(string \<Rightarrow> real option) \<Rightarrow> string \<Rightarrow> (real \<Rightarrow> options \<Rightarrow> options) \<Rightarrow> options \<Rightarrow> options" where
  "overFloat parseFloat v put opt =
     (if v \<noteq> [] then (case parseFloat v of None \<Rightarrow> opt | Some f \<Rightarrow> if 0 \<le> f then put f opt else opt) else opt)"

definition applyEnv :: "(string \<Rightarrow> real option) \<Rightarrow> getenv \<Rightarrow> options \<Rightarrow> options" where
  "applyEnv parseFloat env opt0 =
     (let o1 = overText (env ''HUNCH_SOCKET'') (\<lambda>v opt. opt\<lparr>op_Socket := v\<rparr>) opt0;
          o2 = overText (env ''HUNCH_DB_PATH'') (\<lambda>v opt. opt\<lparr>op_DBPath := v\<rparr>) o1;
          o3 = overText (env ''HUNCH_ACCEPT_KEYS'') (\<lambda>v opt. opt\<lparr>op_AcceptKeys := Split v CHR '',''\<rparr>) o2;
          o4 = overText (env ''HUNCH_DAEMON_BIN'') (\<lambda>v opt. opt\<lparr>op_DaemonBin := v\<rparr>) o3;
          o5 = overInt (env ''HUNCH_HALF_LIFE_HOURS'') (\<lambda>n. 0 < n) (\<lambda>n opt. opt\<lparr>op_HalfLifeHours := n\<rparr>) o4;
          o6 = overInt (env ''HUNCH_MAX_IDLE_DAYS'') (\<lambda>n. 0 \<le> n) (\<lambda>n opt. opt\<lparr>op_MaxIdleDays := n\<rparr>) o5;
          o7 = overFloat parseFloat (env ''HUNCH_ALPHA'') (\<lambda>f opt. opt\<lparr>op_Alpha := f\<rparr>) o6;
          o8 = overFloat parseFloat (env ''HUNCH_BETA'') (\<lambda>f opt. opt\<lparr>op_Beta := f\<rparr>) o7;
          o9 = overFloat parseFloat (env ''HUNCH_GAMMA'') (\<lambda>f opt. opt\<lparr>op_Gamma := f\<rparr>) o8;
          o10 = overFloat parseFloat (env ''HUNCH_DELTA'') (\<lambda>f opt. opt\<lparr>op_Delta := f\<rparr>) o9;
          o11 = overFloat parseFloat (env ''HUNCH_EPSILON'') (\<lambda>f opt. opt\<lparr>op_Epsilon := f\<rparr>) o10;
          o12 = overInt (env ''HUNCH_MIN_COUNT'') (\<lambda>n. 1 \<le> n) (\<lambda>n opt. opt\<lparr>op_MinCount := n\<rparr>) o11;
          o13 = overFloat parseFloat (env ''HUNCH_MIN_CONFIDENCE'') (\<lambda>f opt. opt\<lparr>op_MinConfidence := f\<rparr>) o12;
          o14 = overText (env ''HUNCH_EXTRA_PARENTS'') (\<lambda>v opt. opt\<lparr>op_ExtraParents := Split v CHR '',''\<rparr>) o13;
          o15 = overText (env ''HUNCH_IGNORE'') (\<lambda>v opt. opt\<lparr>op_Ignore := Split v CHR '',''\<rparr>) o14
      in overText (env ''HUNCH_LOG_LEVEL'') (\<lambda>v opt. opt\<lparr>op_LogLevel := v\<rparr>) o15)"

definition resolvePaths :: "string option \<Rightarrow> string option \<Rightarrow> options \<Rightarrow> options" where
  \<comment> \<open>the directories of the platform, \<open>None\<close> where they cannot be determined\<close>
  "resolvePaths cacheDir dataDir opt0 =
     (let o1 = (if op_Socket opt0 = [] then
           (case cacheDir of None \<Rightarrow> opt0 | Some dir \<Rightarrow> opt0\<lparr>op_Socket := joinPath [dir, ''hunch.sock'']\<rparr>) else opt0)
      in if op_DBPath o1 = [] then
           (case dataDir of None \<Rightarrow> o1 | Some dir \<Rightarrow> o1\<lparr>op_DBPath := joinPath [dir, ''hunch.db'']\<rparr>) else o1)"

record platform =
  pl_configDir :: "string option"
  pl_cacheDir :: "string option"
  pl_dataDir :: "string option"

definition LoadConfig ::
  "(string \<Rightarrow> string option) \<Rightarrow> (string \<Rightarrow> options \<Rightarrow> options) \<Rightarrow> (string \<Rightarrow> real option) \<Rightarrow>
   platform \<Rightarrow> getenv \<Rightarrow> options" where
  \<comment> \<open>\<open>readFile\<close> gives the contents of a file that can be read\<close>
  "LoadConfig readFile decodeToml parseFloat plat env =
     (let base = (case pl_configDir plat of
            None \<Rightarrow> defaults
          | Some dir \<Rightarrow>
              (case readFile (joinPath [dir, ''hunch'', ''config.toml'']) of
                 None \<Rightarrow> defaults
               | Some data \<Rightarrow> decodeToml data defaults))
      in resolvePaths (pl_cacheDir plat) (pl_dataDir plat) (applyEnv parseFloat env base))"

datatype logLevel = LevelDebug | LevelInfo | LevelWarn | LevelError

definition parseLogLevel :: "string \<Rightarrow> logLevel" where
  \<comment> \<open>of daemon.go\<close>
  "parseLogLevel s =
     (let l = ToLower s in
      if l = ''debug'' then LevelDebug else if l = ''info'' then LevelInfo
      else if l = ''warn'' then LevelWarn else if l = ''error'' then LevelError else LevelInfo)"

subsection \<open>Options that make sense\<close>

definition optionsOk :: "options \<Rightarrow> bool" where
  "optionsOk opt \<longleftrightarrow> 0 < op_HalfLifeHours opt \<and> 0 \<le> op_MaxIdleDays opt \<and> 0 \<le> op_Alpha opt
     \<and> 0 \<le> op_Beta opt \<and> 0 \<le> op_Gamma opt \<and> 0 \<le> op_Delta opt \<and> 0 \<le> op_Epsilon opt
     \<and> 0 \<le> op_MinConfidence opt \<and> 1 \<le> op_MinCount opt"

lemma optionsOk_defaults [simp]: "optionsOk defaults"
  by (simp add: optionsOk_def defaults_def)

lemma over_ok:
  "(\<And>v opt. optionsOk opt \<Longrightarrow> optionsOk (put v opt)) \<Longrightarrow> optionsOk opt \<Longrightarrow> optionsOk (overText w put opt)"
  "(\<And>n opt. ok n \<Longrightarrow> optionsOk opt \<Longrightarrow> optionsOk (puti n opt)) \<Longrightarrow> optionsOk opt \<Longrightarrow> optionsOk (overInt w ok puti opt)"
  "(\<And>f opt. 0 \<le> f \<Longrightarrow> optionsOk opt \<Longrightarrow> optionsOk (putf f opt)) \<Longrightarrow> optionsOk opt \<Longrightarrow>
     optionsOk (overFloat pf w putf opt)"
  by (simp_all add: overText_def overInt_def overFloat_def split: option.split)

lemma applyEnv_ok: "optionsOk opt \<Longrightarrow> optionsOk (applyEnv pf env opt)"
  unfolding applyEnv_def Let_def by (intro over_ok) (simp_all add: optionsOk_def)

lemma resolvePaths_ok: "optionsOk (resolvePaths c d opt) \<longleftrightarrow> optionsOk opt"
  by (simp add: resolvePaths_def Let_def optionsOk_def split: option.split)

text \<open>The environment cannot break the options: whatever the variables hold, what is loaded keeps a
  positive half-life in hours, a non-negative idle limit, non-negative weights and thresholds and a
  positive minimum count, provided the configuration file (which nothing validates) does.\<close>

theorem LoadConfig_ok:
  assumes "\<forall>data. optionsOk (decodeToml data defaults)"
  shows "optionsOk (LoadConfig readFile decodeToml parseFloat plat env)"
  using assms unfolding LoadConfig_def Let_def resolvePaths_ok
  by (auto intro!: applyEnv_ok split: option.split)

theorem LoadConfig_ok_witness:
  "optionsOk (LoadConfig (\<lambda>_. Some ''min_count = 3'') (\<lambda>data opt. opt\<lparr>op_MinCount := 3\<rparr>) (\<lambda>_. None)
     \<lparr>pl_configDir = Some ''/home/u/.config'', pl_cacheDir = None, pl_dataDir = None\<rparr>
     (\<lambda>v. if v = ''HUNCH_MIN_COUNT'' then ''-4'' else []))"
  by (rule LoadConfig_ok) (simp add: optionsOk_def defaults_def)

text \<open>A duration in hours is the exact product up to 2562047 hours, about 292 years; the idle limit
  up to 106751 days.\<close>

theorem durations_exact:
  assumes "optionsOk opt" "op_HalfLifeHours opt \<le> 2562047" "op_MaxIdleDays opt \<le> 106751"
  shows "HalfLife opt = op_HalfLifeHours opt * 3600000000000 \<and> 0 < HalfLife opt
    \<and> MaxIdle opt = op_MaxIdleDays opt * 86400000000000"
  using assms by (auto simp: HalfLife_def MaxIdle_def optionsOk_def time_Hour_def)

theorem durations_exact_witness:
  "HalfLife defaults = 2592000000000000 \<and> MaxIdle defaults = 7776000000000000"
  using durations_exact [of defaults] by (simp add: defaults_def optionsOk_def)

text \<open>Beyond that bound the product wraps: an environment variable that passes its check gives a
  negative half-life.\<close>

lemma HalfLife_overflow:
  "op_HalfLifeHours (applyEnv pf (\<lambda>v. if v = ''HUNCH_HALF_LIFE_HOURS'' then ''2562048'' else []) defaults) = 2562048"
  "HalfLife (defaults\<lparr>op_HalfLifeHours := 2562048\<rparr>) < 0"
proof -
  have "Atoi ''2562048'' = Some 2562048" by code_simp
  then show "op_HalfLifeHours (applyEnv pf (\<lambda>v. if v = ''HUNCH_HALF_LIFE_HOURS'' then ''2562048'' else []) defaults)
      = 2562048"
    by (simp add: applyEnv_def Let_def overText_def overInt_def overFloat_def)
  show "HalfLife (defaults\<lparr>op_HalfLifeHours := 2562048\<rparr>) < 0" by code_simp
qed

lemma LevelInfo_default: "parseLogLevel ''verbose'' = LevelInfo" "parseLogLevel ''WARN'' = LevelWarn"
  by code_simp+

subsection \<open>Platform directories\<close>

text \<open>daemon/osutil_unix.go. \<open>home\<close> is what \<open>os.UserHomeDir\<close> finds, the environment is the same
  function as above.\<close>

definition xdgDir :: "string option \<Rightarrow> getenv \<Rightarrow> string \<Rightarrow> string \<Rightarrow> string option" where
  "xdgDir home env var fallback =
     (case home of
        None \<Rightarrow> None
      | Some h \<Rightarrow> (let d = env var in Some (if d = [] then joinPath [h, fallback] else d)))"

definition CacheDir :: "string option \<Rightarrow> getenv \<Rightarrow> string option" where
  "CacheDir home env = xdgDir home env ''XDG_CACHE_HOME'' ''.cache''"

definition DataDir :: "string option \<Rightarrow> getenv \<Rightarrow> string option" where
  "DataDir home env = xdgDir home env ''XDG_DATA_HOME'' ''.local/share''"

definition ConfigDir :: "string option \<Rightarrow> getenv \<Rightarrow> string option" where
  "ConfigDir home env = xdgDir home env ''XDG_CONFIG_HOME'' ''.config''"

definition unixPlatform :: "string option \<Rightarrow> getenv \<Rightarrow> platform" where
  "unixPlatform home env =
     \<lparr>pl_configDir = ConfigDir home env, pl_cacheDir = CacheDir home env, pl_dataDir = DataDir home env\<rparr>"

text \<open>Where the home directory is known, loading always ends with a socket and a database path.\<close>

lemma LoadConfig_paths:
  "op_Socket (LoadConfig readFile decodeToml parseFloat (unixPlatform (Some home) env) env) \<noteq> []
   \<and> op_DBPath (LoadConfig readFile decodeToml parseFloat (unixPlatform (Some home) env) env) \<noteq> []"
proof -
  have "Clean p \<noteq> []" for p by (simp add: Clean_def Let_def)
  then have "joinPath [dir, ''hunch.sock''] \<noteq> []" "joinPath [dir, ''hunch.db''] \<noteq> []" for dir
    by (simp_all add: joinPath_def)
  then show ?thesis
    by (simp add: LoadConfig_def resolvePaths_def unixPlatform_def CacheDir_def DataDir_def xdgDir_def Let_def)
qed

end
