(* ===== verification/Fallback.thy ===== *)
theory Fallback
  imports Predict Go_Filepath
begin

text \<open>
  The fallback ladder of daemon/handlers.go: a query is answered by the first of a list of more
  and more general contexts that has something to offer. \<open>ladder\<close> is generic in the query (the
  daemon and core/eval run the same one over two queries); the locale \<open>ranked_query\<close> is what
  it may expect of a query, and its lemmas hold for both.
\<close>

subsection \<open>Guards\<close>

definition withMinCount :: "suggestion list \<Rightarrow> int \<Rightarrow> suggestion list" where
  "withMinCount suggestions minCount =
     (if minCount \<le> 1 then suggestions else filter (\<lambda>s. minCount \<le> g_Count s) suggestions)"

definition confident :: "real \<Rightarrow> suggestion list \<Rightarrow> bool" where
  "confident minConfidence s \<longleftrightarrow> 0 < length s \<and> minConfidence \<le> g_Score (s ! 0)"

subsection \<open>The ladder\<close>

type_synonym query = "command list \<Rightarrow> string \<Rightarrow> suggestion list"

record fallbackResult =
  fr_suggestions :: "suggestion list"
  fr_level :: string
  fr_state :: "command list"
  fr_cwd :: string

function (sequential) Itoa :: "nat \<Rightarrow> string" where
  \<comment> \<open>the verb \<open>%d\<close> for a natural number\<close>
  "Itoa n =
     (if n < 10 then [char_of (48 + n)] else Itoa (n div 10) @ [char_of (48 + n mod 10)])"
  by pat_completeness auto
termination by (relation "measure id") auto

declare Itoa.simps [simp del]

definition trimLabel :: "nat \<Rightarrow> string" where
  "trimLabel trim = ''shorter history (dropped '' @ Itoa trim @ '' most recent)''"

fun tryAncestors :: "query \<Rightarrow> real \<Rightarrow> command list \<Rightarrow> string list \<Rightarrow> fallbackResult option" where
  \<comment> \<open>level 2\<close>
  "tryAncestors ask minConf prev [] = None"
| "tryAncestors ask minConf prev (parent # parents) =
     (let s = ask prev parent in
      if confident minConf s
      then Some \<lparr>fr_suggestions = s, fr_level = ''ancestor directory'', fr_state = prev, fr_cwd = parent\<rparr>
      else tryAncestors ask minConf prev parents)"

fun tryTrims :: "query \<Rightarrow> real \<Rightarrow> command list \<Rightarrow> nat list \<Rightarrow> fallbackResult option" where
  \<comment> \<open>level 4\<close>
  "tryTrims ask minConf prev [] = None"
| "tryTrims ask minConf prev (trim # trims) =
     (let s = ask (drop trim prev) [] in
      if confident minConf s
      then Some \<lparr>fr_suggestions = s, fr_level = trimLabel trim, fr_state = drop trim prev, fr_cwd = []\<rparr>
      else tryTrims ask minConf prev trims)"

definition ladder :: "query \<Rightarrow> real \<Rightarrow> command list \<Rightarrow> string \<Rightarrow> fallbackResult" where
  "ladder ask minConf prev cwd =
     (let s1 = ask prev cwd in
      if 0 < length s1
      then \<lparr>fr_suggestions = s1, fr_level = ''exact directory'', fr_state = prev, fr_cwd = cwd\<rparr>
      else
        (case tryAncestors ask minConf prev (ancestors cwd) of
           Some r \<Rightarrow> r
         | None \<Rightarrow>
             let s3 = ask prev [] in
             if confident minConf s3
             then \<lparr>fr_suggestions = s3, fr_level = ''no directory'', fr_state = prev, fr_cwd = []\<rparr>
             else
               (case tryTrims ask minConf prev [1..<length prev + 1] of
                  Some r \<Rightarrow> r
                | None \<Rightarrow>
                    \<lparr>fr_suggestions = [], fr_level = ''no match at any level'', fr_state = prev,
                     fr_cwd = cwd\<rparr>)))"

text \<open>The query of the daemon: unlimited, with the prior outcome.\<close>

definition daemonQuery :: "predictor \<Rightarrow> int \<Rightarrow> outcome \<Rightarrow> gotime \<Rightarrow> query" where
  "daemonQuery pr minCount prior tm previous dir =
     withMinCount
       (PredictOn pr \<lparr>s_Previous = previous, s_CWD = dir, s_PriorOutcome = prior\<rparr> tm 0) minCount"

definition predictFallback ::
  "predictor \<Rightarrow> int \<Rightarrow> real \<Rightarrow> command list \<Rightarrow> string \<Rightarrow> outcome \<Rightarrow> gotime \<Rightarrow> fallbackResult" where
  "predictFallback pr minCount minConf prev cwd prior tm =
     ladder (daemonQuery pr minCount prior tm) minConf prev cwd"

definition predictWithFallback ::
  "predictor \<Rightarrow> int \<Rightarrow> real \<Rightarrow> command list \<Rightarrow> string \<Rightarrow> outcome \<Rightarrow> gotime \<Rightarrow> suggestion list" where
  "predictWithFallback pr minCount minConf prev cwd prior tm =
     fr_suggestions (predictFallback pr minCount minConf prev cwd prior tm)"

subsection \<open>What the ladder returns\<close>

lemma tryAncestors_Some:
  "tryAncestors ask mc prev ps = Some r \<Longrightarrow>
     confident mc (fr_suggestions r) \<and> fr_state r = prev \<and> fr_cwd r \<in> set ps
     \<and> fr_suggestions r = ask prev (fr_cwd r)"
  by (induction ps) (auto simp: Let_def split: if_splits)

lemma tryAncestors_None:
  "tryAncestors ask mc prev ps = None \<longleftrightarrow> (\<forall>p\<in>set ps. \<not> confident mc (ask prev p))"
  by (induction ps) (auto simp: Let_def)

lemma tryTrims_Some:
  "tryTrims ask mc prev ts = Some r \<Longrightarrow>
     confident mc (fr_suggestions r) \<and> (\<exists>t\<in>set ts. fr_state r = drop t prev) \<and> fr_cwd r = []
     \<and> fr_suggestions r = ask (fr_state r) []"
  by (induction ts) (auto simp: Let_def split: if_splits)

lemma tryTrims_None:
  "tryTrims ask mc prev ts = None \<longleftrightarrow> (\<forall>t\<in>set ts. \<not> confident mc (ask (drop t prev) []))"
  by (induction ts) (auto simp: Let_def)

lemma ladder_exact:
  "ask prev cwd \<noteq> [] \<Longrightarrow>
     ladder ask mc prev cwd
       = \<lparr>fr_suggestions = ask prev cwd, fr_level = ''exact directory'', fr_state = prev, fr_cwd = cwd\<rparr>"
  by (simp add: ladder_def Let_def)

lemma confident_nonempty: "confident mc s \<Longrightarrow> s \<noteq> []"
  by (auto simp: confident_def)

text \<open>The answer is that of a query, for a suffix of the history; below the exact level it is
  confident.\<close>

lemma ladder_answer:
  assumes "fr_suggestions (ladder ask mc prev cwd) \<noteq> []"
  shows "fr_suggestions (ladder ask mc prev cwd)
      = ask (fr_state (ladder ask mc prev cwd)) (fr_cwd (ladder ask mc prev cwd))
    \<and> suffix (fr_state (ladder ask mc prev cwd)) prev
    \<and> (fr_state (ladder ask mc prev cwd) = prev \<and> fr_cwd (ladder ask mc prev cwd) = cwd
       \<or> confident mc (fr_suggestions (ladder ask mc prev cwd)))"
  using assms
  by (auto simp: ladder_def Let_def suffix_drop split: option.splits if_splits
      dest!: tryAncestors_Some tryTrims_Some)

lemma ladder_empty:
  "fr_suggestions (ladder ask mc prev cwd) = [] \<longleftrightarrow>
     ask prev cwd = [] \<and> (\<forall>p\<in>set (ancestors cwd). \<not> confident mc (ask prev p))
     \<and> (\<forall>t\<le>length prev. \<not> confident mc (ask (drop t prev) []))"
proof -
  have all: "(\<forall>t\<le>length prev. \<not> confident mc (ask (drop t prev) []))
      \<longleftrightarrow> \<not> confident mc (ask prev []) \<and> (\<forall>t\<in>set [1..<length prev + 1]. \<not> confident mc (ask (drop t prev) []))"
    by (metis One_nat_def Suc_eq_plus1 atLeastLessThan_iff drop0 le_SucE less_Suc_eq_le
        not_less_eq_eq set_upt zero_le le_zero_eq)
  show ?thesis
    unfolding all tryAncestors_None [symmetric] tryTrims_None [symmetric]
    by (auto simp: ladder_def Let_def split: option.splits if_splits
        dest!: tryAncestors_Some tryTrims_Some dest: confident_nonempty)
qed

subsection \<open>The interface to a query\<close>

text \<open>What a ladder may expect: answers are ranked by score, and what they offer has been seen
  often enough.\<close>

abbreviation byScore :: "suggestion \<Rightarrow> suggestion \<Rightarrow> bool" where
  "byScore a b \<equiv> g_Score b \<le> g_Score a"

locale ranked_query =
  fixes ask :: "command list \<Rightarrow> string \<Rightarrow> suggestion list" and minCount :: int
  assumes ranked: "sorted_wrt byScore (ask prev dir)"
    and backed: "s \<in> set (ask prev dir) \<Longrightarrow> minCount \<le> 1 \<or> minCount \<le> g_Count s"
begin

lemma confident_iff: "confident mc (ask prev dir) \<longleftrightarrow> (\<exists>s\<in>set (ask prev dir). mc \<le> g_Score s)"
proof (cases "ask prev dir")
  case (Cons s ss)
  then have "\<forall>s'\<in>set ss. g_Score s' \<le> g_Score s" using ranked [of prev dir] by simp
  then show ?thesis using Cons by (force simp: confident_def)
qed (simp add: confident_def)

lemma ladder_backed:
  "s \<in> set (fr_suggestions (ladder ask mc prev cwd)) \<Longrightarrow> minCount \<le> 1 \<or> minCount \<le> g_Count s"
  using ladder_answer [of ask mc prev cwd] backed by (metis empty_iff empty_set)

lemma ladder_ranked: "sorted_wrt byScore (fr_suggestions (ladder ask mc prev cwd))"
  using ladder_answer [of ask mc prev cwd] ranked by (metis sorted_wrt.simps(1))

lemma ladder_silent:
  "fr_suggestions (ladder ask mc prev cwd) = [] \<longleftrightarrow>
     ask prev cwd = []
     \<and> (\<forall>p\<in>set (ancestors cwd). \<forall>s\<in>set (ask prev p). g_Score s < mc)
     \<and> (\<forall>t\<le>length prev. \<forall>s\<in>set (ask (drop t prev) []). g_Score s < mc)"
  unfolding ladder_empty confident_iff by (auto simp: not_le)

end

subsection \<open>The query of the daemon\<close>

lemma PredictOn_ranked: "sorted_wrt byScore (PredictOn pr s tm limit)"
proof -
  have score: "rankScore b \<le> rankScore a" if "a \<le> b" for a b
    using that by (auto simp: less_eq_rank_def less_rank_def split: if_splits)
  have "sorted (map rankOf (scoreTransitionsDetailed ts p))" for ts p
    by (simp add: scoreTransitionsDetailed_eq)
  then have "sorted (map rankOf (Explain pr s tm limit))"
    by (simp add: Explain_def capTo_def Let_def flip: take_map)
  then have "sorted_wrt (\<lambda>a b. rankOf a \<le> rankOf b) (Explain pr s tm limit)"
    by (simp add: sorted_map)
  then have "sorted_wrt (\<lambda>a b. b_Score b \<le> b_Score a) (Explain pr s tm limit)"
    by (rule sorted_wrt_mono_rel [rotated]) (auto dest!: score simp: rankOf_def)
  moreover have "map g_Score (PredictOn pr s tm limit) = map b_Score (Explain pr s tm limit)"
    by (simp add: PredictOn_def Explain_def scoreTransitions_def capTo_def take_map comp_def Let_def)
  ultimately have "sorted_wrt (\<lambda>x y. y \<le> x) (map g_Score (PredictOn pr s tm limit))"
    by (simp add: sorted_wrt_map)
  then show ?thesis unfolding sorted_wrt_map .
qed

lemma withMinCount_laws:
  "sorted_wrt P ss \<Longrightarrow> sorted_wrt P (withMinCount ss mc)"
  "s \<in> set (withMinCount ss mc) \<Longrightarrow> mc \<le> 1 \<or> mc \<le> g_Count s"
  by (auto simp: withMinCount_def sorted_wrt_filter split: if_splits)

interpretation dq: ranked_query "daemonQuery pr minCount prior tm" minCount for pr minCount prior tm
  by unfold_locales (auto simp: daemonQuery_def intro: withMinCount_laws PredictOn_ranked
      dest: withMinCount_laws(2))

text \<open>C18: Every suggestion of the ladder is one of the predictions for a suffix of the history in the
  directory it reports (so an explanation that asks again there explains the same candidates),
  has been observed at least MinCount times, and, unless it comes from the exact context, belongs
  to an answer whose best score reaches MinConfidence.\<close>

theorem fallback_answer:
  assumes "r = predictFallback pr minCount minConf prev cwd prior tm" "fr_suggestions r \<noteq> []"
  shows "fr_suggestions r = daemonQuery pr minCount prior tm (fr_state r) (fr_cwd r)
    \<and> suffix (fr_state r) prev
    \<and> (\<forall>s\<in>set (fr_suggestions r). minCount \<le> 1 \<or> minCount \<le> g_Count s)
    \<and> sorted_wrt byScore (fr_suggestions r)
    \<and> (fr_state r = prev \<and> fr_cwd r = cwd \<or> minConf \<le> g_Score (hd (fr_suggestions r)))"
proof -
  have "confident minConf ss \<Longrightarrow> minConf \<le> g_Score (hd ss)" for ss
    by (cases ss) (auto simp: confident_def)
  then show ?thesis
    using ladder_answer [of "daemonQuery pr minCount prior tm" minConf prev cwd]
      dq.ladder_backed dq.ladder_ranked assms
    unfolding predictFallback_def by blast
qed

text \<open>C12: The daemon stays silent exactly when the exact context has no candidate seen often enough
  and no candidate of any ancestor directory, of the history without a directory, or of a
  shorter history reaches MinConfidence.\<close>

theorem fallback_silent:
  "predictWithFallback pr minCount minConf prev cwd prior tm = [] \<longleftrightarrow>
     daemonQuery pr minCount prior tm prev cwd = []
     \<and> (\<forall>p\<in>set (ancestors cwd). \<forall>s\<in>set (daemonQuery pr minCount prior tm prev p). g_Score s < minConf)
     \<and> (\<forall>t\<le>length prev. \<forall>s\<in>set (daemonQuery pr minCount prior tm (drop t prev) []). g_Score s < minConf)"
  unfolding predictWithFallback_def predictFallback_def by (rule dq.ladder_silent)

subsection \<open>A concrete ladder\<close>

lemma Transitions_demoGraph:
  "Transitions demoGraph (stateTemplates (demoState\<lparr>s_PriorOutcome := prior\<rparr>))
     = [entryToTransition [''git add PATH''] ''git commit FLAG STR'' (recordEntry demoObs entry0)]"
  by (simp add: Transitions_def demoGraph_def RecordObs_def tlModify_def tlInner_def mapGet_def
      New_def stateTemplates_def demoState_def commandOf_def stateKey_single)

lemma demoQuery:
  "map g_Template (daemonQuery (demoPredictor demoGraph) 1 prior tm [commandOf ''git add PATH''] [])
     = [''git commit FLAG STR'']"
proof -
  have "mset (map g_Template (PredictOn (demoPredictor demoGraph) (demoState\<lparr>s_PriorOutcome := prior\<rparr>) tm 0))
      = {#''git commit FLAG STR''#}"
    using PredictOn_templates [of "demoPredictor demoGraph" "demoState\<lparr>s_PriorOutcome := prior\<rparr>" tm]
      demoGraph_scorable by (simp add: Transitions_demoGraph entryToTransition_def)
  then have "map g_Template (PredictOn (demoPredictor demoGraph) (demoState\<lparr>s_PriorOutcome := prior\<rparr>) tm 0)
      = [''git commit FLAG STR'']"
    unfolding mset_single_iff .
  moreover have "demoState\<lparr>s_PriorOutcome := prior\<rparr>
      = \<lparr>s_Previous = [commandOf ''git add PATH''], s_CWD = [], s_PriorOutcome = prior\<rparr>"
    by (simp add: demoState_def)
  ultimately show ?thesis by (simp add: daemonQuery_def withMinCount_def)
qed

theorem fallback_answer_witness:
  "\<exists>r. r = predictFallback (demoPredictor demoGraph) 1 (1 / 10) [commandOf ''git add PATH''] []
         OutcomeUnknown 20
     \<and> map g_Template (fr_suggestions r) = [''git commit FLAG STR'']
     \<and> suffix (fr_state r) [commandOf ''git add PATH'']"
proof -
  let ?q = "daemonQuery (demoPredictor demoGraph) 1 OutcomeUnknown 20"
  have q: "map g_Template (?q [commandOf ''git add PATH''] []) = [''git commit FLAG STR'']"
    by (rule demoQuery)
  then have "?q [commandOf ''git add PATH''] [] \<noteq> []" by auto
  then have "fr_suggestions (predictFallback (demoPredictor demoGraph) 1 (1 / 10)
      [commandOf ''git add PATH''] [] OutcomeUnknown 20) = ?q [commandOf ''git add PATH''] []"
    by (simp add: predictFallback_def ladder_exact)
  with fallback_answer [OF refl, of "demoPredictor demoGraph" 1 "1 / 10"
      "[commandOf ''git add PATH'']" "[]" OutcomeUnknown 20] q
  show ?thesis by auto
qed

lemma daemonQuery_empty: "daemonQuery (demoPredictor (New 2)) mc prior tm prev dir = []"
proof -
  have "Transitions (New 2) ks = []" for ks by (simp add: Transitions_def New_def)
  then show ?thesis
    by (simp add: daemonQuery_def PredictOn_def demoPredictor_def NewPredictor_def
        scoreTransitions_def scoreTransitionsDetailed_def capTo_def withMinCount_def Let_def)
qed

theorem fallback_silent_witness:
  "predictWithFallback (demoPredictor (New 2)) 1 (1 / 10) [commandOf ''git add PATH''] ''/home/u''
     OutcomeUnknown 20 = []"
  using fallback_silent [of "demoPredictor (New 2)" 1 "1 / 10" "[commandOf ''git add PATH'']" "''/home/u''"
      OutcomeUnknown 20]
  by (simp only: daemonQuery_empty) simp

text \<open>A trimmed history keeps the most recent commands and drops the oldest ones: the label of the
  rung says the opposite.\<close>

lemma trim_drops_oldest:
  "tryTrims (\<lambda>prev dir. if prev = [commandOf ''make''] then [sug] else []) (g_Score sug)
       [commandOf ''ls'', commandOf ''make''] [1]
     = Some \<lparr>fr_suggestions = [sug], fr_level = ''shorter history (dropped 1 most recent)'',
         fr_state = [commandOf ''make''], fr_cwd = []\<rparr>"
proof -
  have "trimLabel 1 = ''shorter history (dropped 1 most recent)''" by code_simp
  then show ?thesis by (simp add: confident_def)
qed

end
