(* ===== verification/Normalize.thy ===== *)
theory Normalize
  imports Classify
begin

text \<open>
  core/normalize/normalize.go: the pipeline from a raw command to its template. Segments between
  operators are unwrapped and classified one by one.
\<close>

definition isOperator :: "string \<Rightarrow> bool" where
  "isOperator tok \<longleftrightarrow> tok = ''|'' \<or> tok = ''||'' \<or> tok = ''&&'' \<or> tok = '';''"

definition normalizeOne :: "string list \<Rightarrow> string list \<Rightarrow> string" where
  "normalizeOne toks parents = Join (classifyTokens (unwrapPrefixTokens toks) parents) '' ''"

fun segmentsFrom :: "string list \<Rightarrow> string list \<Rightarrow> string list \<Rightarrow> string list \<Rightarrow> string list" where
  \<comment> \<open>the loop of \<open>normalizeSegments\<close>: the variables segments and current, and the tokens left\<close>
  "segmentsFrom parents segments cur [] =
     (if 0 < length cur then segments @ [normalizeOne cur parents] else segments)"
| "segmentsFrom parents segments cur (tok # toks) =
     (if isOperator tok then
        (if 0 < length cur
         then segmentsFrom parents (segments @ [normalizeOne cur parents] @ [tok]) [] toks
         else segmentsFrom parents (segments @ [tok]) cur toks)
      else segmentsFrom parents segments (cur @ [tok]) toks)"

definition normalizeSegments :: "string list \<Rightarrow> string list \<Rightarrow> string" where
  "normalizeSegments toks parents = Join (segmentsFrom parents [] [] toks) '' ''"

definition Normalize :: "string \<Rightarrow> string list option \<Rightarrow> string" where
  "Normalize raw parents =
     (let toks = Tokenize raw in
      if length toks = 0 then [] else normalizeSegments toks (orDefault parents))"

definition MergeParents :: "string list \<Rightarrow> string list" where
  "MergeParents extras =
     (if length extras = 0 then DefaultParents else DefaultParents @ extras)"

lemma Normalize_examples:
  "Normalize ''sudo -u root git push origin main && cd ../x'' None = ''git push STR && cd PATH''"
  "Normalize ''  '' None = []"
  by code_simp+

subsection \<open>Segments\<close>

lemma segmentsFrom_acc:
  "segmentsFrom parents segments cur toks = segments @ segmentsFrom parents [] cur toks"
proof (induction toks arbitrary: segments cur)
  case (Cons tok toks)
  note IH = Cons.IH [of "segments @ [normalizeOne cur parents] @ [tok]" "[]"]
    Cons.IH [of "[normalizeOne cur parents] @ [tok]" "[]"]
    Cons.IH [of "segments @ [tok]" cur] Cons.IH [of "[tok]" cur] Cons.IH [of segments "cur @ [tok]"]
  show ?case using IH by (cases "cur = []") simp_all
qed simp

lemma segmentsFrom_word:
  "\<forall>tok\<in>set seg. \<not> isOperator tok \<Longrightarrow>
     segmentsFrom parents segments cur (seg @ toks) = segmentsFrom parents segments (cur @ seg) toks"
  by (induction seg arbitrary: cur) auto

definition wordSegment :: "string list \<Rightarrow> bool" where
  "wordSegment seg \<longleftrightarrow> seg \<noteq> [] \<and> (\<forall>tok\<in>set seg. \<not> isOperator tok)"

definition flattenCmd :: "string list \<Rightarrow> (string \<times> string list) list \<Rightarrow> string list" where
  "flattenCmd seg rest = seg @ concat (map (\<lambda>(op, s). op # s) rest)"

lemma segmentsFrom_flatten:
  "wordSegment seg \<Longrightarrow> \<forall>(op, s)\<in>set rest. isOperator op \<and> wordSegment s \<Longrightarrow>
     segmentsFrom parents [] [] (flattenCmd seg rest)
       = normalizeOne seg parents # concat (map (\<lambda>(op, s). [op, normalizeOne s parents]) rest)"
proof (induction rest arbitrary: seg)
  case Nil
  then show ?case
    using segmentsFrom_word [of seg parents "[]" "[]" "[]"]
    by (simp add: flattenCmd_def wordSegment_def)
next
  case (Cons x rest)
  obtain op s where x: "x = (op, s)" by (cases x)
  have "segmentsFrom parents [] [] (flattenCmd seg (x # rest))
      = segmentsFrom parents [] seg (op # flattenCmd s rest)"
    using Cons.prems(1) segmentsFrom_word [of seg parents "[]" "[]"]
    by (simp add: x flattenCmd_def wordSegment_def)
  also have "\<dots> = [normalizeOne seg parents, op] @ segmentsFrom parents [] [] (flattenCmd s rest)"
    using Cons.prems segmentsFrom_acc [of parents "[normalizeOne seg parents, op]"]
    by (simp add: x wordSegment_def)
  finally show ?case using Cons.IH [of s] Cons.prems by (simp add: x)
qed

lemma Join_segments:
  "Join (x # concat (map (\<lambda>(op, s). [op, f s]) rest)) sep
     = x @ concat (map (\<lambda>(op, s). sep @ op @ sep @ f s) rest)"
  by (induction rest arbitrary: x) auto

text \<open>C23: Compound commands are normalized segment by segment: the template of a command line is
  that of its first segment, followed by each operator and the template of the segment after it.\<close>

theorem Normalize_compound:
  assumes "Tokenize raw = flattenCmd seg rest"
    and "wordSegment seg" "\<forall>(op, s)\<in>set rest. isOperator op \<and> wordSegment s"
  shows "Normalize raw parents
    = normalizeOne seg (orDefault parents)
      @ concat (map (\<lambda>(op, s). '' '' @ op @ '' '' @ normalizeOne s (orDefault parents)) rest)"
proof -
  have "flattenCmd seg rest \<noteq> []" using assms(2) by (simp add: flattenCmd_def wordSegment_def)
  then show ?thesis
    using assms by (simp add: Normalize_def normalizeSegments_def segmentsFrom_flatten Join_segments)
qed

theorem Normalize_compound_witness:
  "Normalize ''git add x && make | tee log'' None
     = normalizeOne [''git'', ''add'', ''x''] DefaultParents
       @ '' && '' @ normalizeOne [''make''] DefaultParents
       @ '' | '' @ normalizeOne [''tee'', ''log''] DefaultParents"
proof -
  have "Tokenize ''git add x && make | tee log''
      = flattenCmd [''git'', ''add'', ''x''] [(''&&'', [''make'']), (''|'', [''tee'', ''log''])]"
    by code_simp
  from Normalize_compound [OF this, of None] show ?thesis
    by (simp add: wordSegment_def isOperator_def)
qed

subsection \<open>Empty templates\<close>

lemma normalizeOne_nonempty:
  assumes "toks \<noteq> []" "[] \<notin> set toks"
  shows "normalizeOne toks parents \<noteq> []"
proof -
  have suf: "suffix (unwrapPrefixTokens toks) toks" "unwrapPrefixTokens toks \<noteq> []"
    using stripEnv_suffix [of toks] stripWrappers_suffix [of "stripEnv toks"] assms(1)
      suffix_order.order_trans unfolding unwrapPrefixTokens_def by blast+
  then obtain cmd args where u: "unwrapPrefixTokens toks = cmd # args"
    by (cases "unwrapPrefixTokens toks") auto
  with suf(1) have "cmd \<in> set toks" by (auto simp: suffix_def)
  then have "cmd \<noteq> []" using assms(2) by auto
  moreover obtain xs where "templateOf cmd args (set parents) = cmd # xs"
    by (atomize_elim, auto simp: templateOf_def Let_def remdups_adj_Cons split: list.splits)
  ultimately show ?thesis
    by (simp add: normalizeOne_def u classify_template Join_eq_Nil)
qed

lemma segmentsFrom_nonempty:
  "[] \<notin> set toks \<Longrightarrow> [] \<notin> set cur \<Longrightarrow> [] \<notin> set segments \<Longrightarrow>
     [] \<notin> set (segmentsFrom parents segments cur toks)
     \<and> (segmentsFrom parents segments cur toks = [] \<longleftrightarrow> segments = [] \<and> cur = [] \<and> toks = [])"
proof (induction parents segments cur toks rule: segmentsFrom.induct)
  case (1 parents segments cur)
  then show ?case using normalizeOne_nonempty [of cur parents] by auto
next
  case (2 parents segments cur tok toks)
  then show ?case using normalizeOne_nonempty [of cur parents] by auto
qed

lemma Tokenize_no_empty: "[] \<notin> set (Tokenize raw)"
  using tokLoop_nonempty [of lexer0 raw] by (simp add: Tokenize_def lexer0_def)

text \<open>The template is empty exactly for input without a word or an operator, so a command is
  never recorded under an empty template.\<close>

theorem Normalize_empty: "Normalize raw parents = [] \<longleftrightarrow> Tokenize raw = []"
proof (cases "Tokenize raw = []")
  case False
  let ?segs = "segmentsFrom (orDefault parents) [] [] (Tokenize raw)"
  have "[] \<notin> set ?segs" "?segs \<noteq> []"
    using segmentsFrom_nonempty [of "Tokenize raw" "[]" "[]"] Tokenize_no_empty False by auto
  then have "Join ?segs '' '' \<noteq> []" by (auto simp: Join_eq_Nil)
  then show ?thesis using False by (simp add: Normalize_def normalizeSegments_def)
qed (simp add: Normalize_def)

subsection \<open>Wrappers in front of a whole command\<close>

definition shiftToks :: "string list \<Rightarrow> lexer \<Rightarrow> lexer" where
  "shiftToks ts l = l\<lparr>l_tokens := ts @ l_tokens l\<rparr>"

lemma shiftToks_simps [simp]:
  "l_current (shiftToks ts l) = l_current l" "l_inSingle (shiftToks ts l) = l_inSingle l"
  "l_inDouble (shiftToks ts l) = l_inDouble l" "l_escaped (shiftToks ts l) = l_escaped l"
  "l_tokens (shiftToks ts l) = ts @ l_tokens l"
  "writeByte c (shiftToks ts l) = shiftToks ts (writeByte c l)"
  "emitTok op (shiftToks ts l) = shiftToks ts (emitTok op l)"
  "flushCurrent (shiftToks ts l) = shiftToks ts (flushCurrent l)"
  "(shiftToks ts l)\<lparr>l_escaped := e\<rparr> = shiftToks ts (l\<lparr>l_escaped := e\<rparr>)"
  "(shiftToks ts l)\<lparr>l_inSingle := e\<rparr> = shiftToks ts (l\<lparr>l_inSingle := e\<rparr>)"
  "(shiftToks ts l)\<lparr>l_inDouble := e\<rparr> = shiftToks ts (l\<lparr>l_inDouble := e\<rparr>)"
  by (simp_all add: shiftToks_def writeByte_def emitTok_def flushCurrent_def)

lemma tokLoop_shift: "tokLoop (shiftToks ts l) s = shiftToks ts (tokLoop l s)"
proof (induction l s rule: tokLoop.induct)
  case (2 l ch raw)
  then show ?case by simp
qed simp

lemma Tokenize_word:
  assumes "w \<noteq> []" "\<forall>c\<in>set w. \<not> special c"
  shows "Tokenize (w @ '' '' @ s) = w # Tokenize s"
proof -
  have "tokLoop lexer0 (w @ '' '' @ s) = tokLoop (lexer0\<lparr>l_current := w\<rparr>) ('' '' @ s)"
    using tokLoop_spells [OF spells_plain_word [OF assms(2)], of lexer0 "'' '' @ s"]
    by (simp add: lexer0_def)
  also have "\<dots> = tokLoop (shiftToks [w] lexer0) s"
    using assms(1) by (simp add: blank_def lexer0_def flushCurrent_def shiftToks_def)
  finally show ?thesis by (simp add: Tokenize_def tokLoop_shift)
qed

lemma wrapper_names_plain: "map_of wrapperConfigs w = Some cfg \<Longrightarrow>
    w \<noteq> [] \<and> (\<forall>c\<in>set w. \<not> special c) \<and> \<not> isOperator w"
proof -
  assume "map_of wrapperConfigs w = Some cfg"
  then have "w \<in> set (map fst wrapperConfigs)" by (force dest: map_of_SomeD)
  moreover have "\<forall>v\<in>set (map fst wrapperConfigs).
      v \<noteq> [] \<and> (\<forall>c\<in>set v. \<not> special c) \<and> \<not> isOperator v"
    by (simp add: wrapperConfigs_def special_def blank_def isOperator_def)
  ultimately show ?thesis by blast
qed

lemma normalizeOne_wrapper:
  assumes "map_of wrapperConfigs w = Some cfg" "w \<noteq> ''flock''" "positionalSkip cfg = 0"
    and "commandWord c"
  shows "normalizeOne (w # c # rest) parents = normalizeOne (c # rest) parents"
proof -
  have "ownArgs cfg 0 [] (positionalSkip cfg)" using assms(3) own_end by simp
  then have "unwrapPrefixTokens (w # c # rest) = unwrapPrefixTokens (c # rest)"
    using assms findInnerCommand_word [of cfg "[]" c w rest] unwrap_wrapper [of w c "[]" rest]
    by (simp add: isWrapper_def wrapperCommandIndex_def)
  then show ?thesis by (simp add: normalizeOne_def)
qed

lemma segmentsFrom_first:
  "(\<And>rest. normalizeOne (w # c # rest) parents = normalizeOne (c # rest) parents) \<Longrightarrow>
     segmentsFrom parents [] (w # c # cur) toks = segmentsFrom parents [] (c # cur) toks"
proof (induction toks arbitrary: cur)
  case (Cons tok toks)
  then show ?case using Cons.IH [of "cur @ [tok]"] by simp
qed simp

text \<open>C24: \<open>sudo make\<close> and \<open>make\<close> are one command: putting a wrapper in front of a command
  line (sudo, doas, env, nice, time, nohup and every other one but flock and chroot) does not
  change its template.\<close>

theorem Normalize_wrapper:
  assumes "map_of wrapperConfigs w = Some cfg" "w \<noteq> ''flock''" "positionalSkip cfg = 0"
    and "Tokenize s = c # toks" "commandWord c" "\<not> isOperator c"
  shows "Normalize (w @ '' '' @ s) parents = Normalize s parents"
proof -
  have w: "w \<noteq> []" "\<forall>c\<in>set w. \<not> special c" "\<not> isOperator w"
    using wrapper_names_plain [OF assms(1)] by auto
  have "segmentsFrom (orDefault parents) [] [w, c] toks
      = segmentsFrom (orDefault parents) [] [c] toks"
    by (rule segmentsFrom_first) (rule normalizeOne_wrapper [OF assms(1-3,5)])
  then show ?thesis
    using Tokenize_word [OF w(1,2), of s] w(3) assms(4,6)
    by (simp add: Normalize_def normalizeSegments_def)
qed

theorem Normalize_wrapper_witness:
  "Normalize ''sudo apt update && ls'' None = Normalize ''apt update && ls'' None"
proof -
  have "\<exists>cfg. map_of wrapperConfigs ''sudo'' = Some cfg \<and> positionalSkip cfg = 0"
    by (simp add: wrapperConfigs_def noConfig_def)
  then obtain cfg where "map_of wrapperConfigs ''sudo'' = Some cfg" "positionalSkip cfg = 0"
    by blast
  moreover have "Tokenize ''apt update && ls'' = [''apt'', ''update'', ''&&'', ''ls'']"
    by code_simp
  ultimately show ?thesis
    using Normalize_wrapper [of "''sudo''" cfg "''apt update && ls''" "''apt''"
        "[''update'', ''&&'', ''ls'']" None]
    by (simp add: commandWord_def isFlag_def isEnvAssignment_iff isOperator_def)
qed

text \<open>A template is not a fixed point: the marker of a flag is a word when it is read again, so a
  template must not be normalized a second time.\<close>

lemma Normalize_not_idempotent:
  "Normalize ''ls -la'' None = ''ls FLAG'' \<and> Normalize (Normalize ''ls -la'' None) None = ''ls STR''"
  by code_simp

end
