(* ===== verification/Redact.thy ===== *)
theory Redact
  imports Go_Regexp
begin

text \<open>
  core/redact/redact.go: which raw commands are too sensitive to record. The four built-in
  patterns are terms of \<open>regex\<close>. Under \<open>(?i)\<close> package regexp folds case over Unicode, so that
  a letter s also stands for U+017F and a letter k for U+212A: these are two and three bytes of
  UTF-8. Compiling a pattern of the user is the parameter \<open>compile\<close> (\<open>None\<close> is an error).
\<close>

subsection \<open>Classes and folded letters\<close>

definition isSpace :: "char \<Rightarrow> bool" where
  \<comment> \<open>the class \<open>\s\<close> of package regexp\<close>
  "isSpace c \<longleftrightarrow> c \<in> set [CHR '' '', TAB, LF, FF, CR]"

definition lowerByte :: "char \<Rightarrow> char" where
  "lowerByte c = (if byteIn CHR ''A'' CHR ''Z'' c then char_of (of_char c + 32 :: nat) else c)"

definition isWordByte :: "char \<Rightarrow> bool" where
  "isWordByte c \<longleftrightarrow> byteIn CHR ''a'' CHR ''z'' (lowerByte c)
     \<or> byteIn CHR ''0'' CHR ''9'' c \<or> c = CHR ''_''"

definition longS :: string where "longS = [CHR 0xC5, CHR 0xBF]"
definition kelvin :: string where "kelvin = [CHR 0xE2, CHR 0x84, CHR 0xAA]"

definition RSpace :: regex where "RSpace = RClass isSpace"
definition RNonSpace :: regex where "RNonSpace = RClass (\<lambda>c. \<not> isSpace c)"

definition RWordChar :: regex where
  \<comment> \<open>\<open>[A-Z0-9_]\<close> under \<open>(?i)\<close>\<close>
  "RWordChar = RAlts [RClass isWordByte, RWord longS, RWord kelvin]"

definition RFold :: "char \<Rightarrow> regex" where
  \<comment> \<open>one byte of a literal under \<open>(?i)\<close>\<close>
  "RFold c = RAlts
     [RClass (\<lambda>d. lowerByte d = c),
      if c = CHR ''s'' then RWord longS else RNull,
      if c = CHR ''k'' then RWord kelvin else RNull]"

primrec RLit :: "string \<Rightarrow> regex" where
  "RLit [] = REps"
| "RLit (c # cs) = RSeq (RFold c) (RLit cs)"

primrec RSeqs :: "regex list \<Rightarrow> regex" where
  "RSeqs [] = REps"
| "RSeqs (r # rs) = RSeq r (RSeqs rs)"

subsection \<open>The built-in patterns\<close>

definition RStart :: regex where
  "RStart = RAlt RBegin RSpace"

definition ROptSep :: regex where
  \<comment> \<open>\<open>[_-]?\<close>\<close>
  "ROptSep = ROpt (RClass (\<lambda>c. c = CHR ''_'' \<or> c = CHR ''-''))"

definition secretWords :: "regex list" where
  "secretWords =
     [RLit ''secret'', RLit ''token'', RLit ''password'', RLit ''passwd'',
      RSeqs [RLit ''api'', ROptSep, RLit ''key''],
      RSeqs [RLit ''access'', ROptSep, RLit ''key''],
      RSeqs [RLit ''private'', ROptSep, RLit ''key''],
      RLit ''credential'']"

definition assignmentRe :: regex where
  "assignmentRe = RSeqs
     [RStart, RStar RWordChar, RAlts secretWords, RStar RWordChar, RStar RSpace,
      RChar CHR ''='', RStar RSpace, RNonSpace]"

definition flagWords :: "regex list" where
  "flagWords =
     [RLit ''password'', RLit ''passwd'', RLit ''pass'', RLit ''token'', RLit ''secret'',
      RSeqs [RLit ''api'', ROptSep, RLit ''key''], RLit ''auth'']"

definition secretFlagRe :: regex where
  "secretFlagRe = RSeqs
     [RStart, RChar CHR ''-'', ROpt (RChar CHR ''-''), RAlts flagWords,
      RAlt (RSeq (RChar CHR ''='') RNonSpace) (RSeq (RPlus RSpace) RNonSpace)]"

definition authHeaderRe :: regex where
  "authHeaderRe = RSeqs
     [RLit ''authorization:'', RStar RSpace, RPlus RNonSpace, RPlus RSpace, RNonSpace]"

definition userPassRe :: regex where
  "userPassRe = RSeqs
     [RStart, RWord ''-u'', RPlus RSpace, RPlus RNonSpace, RChar CHR '':'', RNonSpace]"

definition builtinPatterns :: "regex list" where
  "builtinPatterns = [assignmentRe, secretFlagRe, authHeaderRe, userPassRe]"

subsection \<open>The matcher\<close>

record matcher =
  patterns :: "regex list"

fun addExtra :: "(string \<Rightarrow> regex option) \<Rightarrow> regex list \<Rightarrow> string list \<Rightarrow> regex list" where
  \<comment> \<open>the loop of \<open>New\<close>\<close>
  "addExtra compile pats [] = pats"
| "addExtra compile pats (p # extra) =
     (if p = [] then addExtra compile pats extra
      else (case compile p of
              None \<Rightarrow> addExtra compile pats extra
            | Some re \<Rightarrow> addExtra compile (pats @ [re]) extra))"

definition NewMatcher :: "(string \<Rightarrow> regex option) \<Rightarrow> string list \<Rightarrow> matcher" where
  "NewMatcher compile extra = \<lparr>patterns = addExtra compile builtinPatterns extra\<rparr>"

fun anyMatch :: "regex list \<Rightarrow> string \<Rightarrow> bool" where
  "anyMatch [] raw = False"
| "anyMatch (re # res) raw = (if MatchString re raw then True else anyMatch res raw)"

definition IsSensitive :: "matcher \<Rightarrow> string \<Rightarrow> bool" where
  "IsSensitive m raw = anyMatch (patterns m) raw"

subsection \<open>The user's patterns\<close>

lemma anyMatch_iff: "anyMatch res raw \<longleftrightarrow> (\<exists>re\<in>set res. MatchString re raw)"
  by (induction res) auto

lemma addExtra_set:
  "set (addExtra compile pats extra)
     = set pats \<union> {re. \<exists>p\<in>set extra. p \<noteq> [] \<and> compile p = Some re}"
  by (induction extra arbitrary: pats) (auto split: option.splits)

lemma IsSensitive_iff:
  "IsSensitive (NewMatcher compile extra) raw \<longleftrightarrow>
     (\<exists>re\<in>set builtinPatterns. MatchString re raw)
     \<or> (\<exists>p\<in>set extra. p \<noteq> [] \<and> (\<exists>re. compile p = Some re \<and> MatchString re raw))"
  by (auto simp: IsSensitive_def NewMatcher_def anyMatch_iff addExtra_set)

text \<open>A bad entry in the user's ignore list cannot disable redaction: an empty or invalid
  pattern changes nothing, wherever it stands in the list.\<close>

theorem invalid_pattern_ignored:
  assumes "p = [] \<or> compile p = None"
  shows "NewMatcher compile (xs @ p # ys) = NewMatcher compile (xs @ ys)"
proof -
  have "addExtra compile pats (xs @ p # ys) = addExtra compile pats (xs @ ys)" for pats
    using assms by (induction xs arbitrary: pats) (auto split: option.splits)
  then show ?thesis by (simp add: NewMatcher_def)
qed

theorem invalid_pattern_ignored_witness:
  "NewMatcher (\<lambda>p. if p = ''('' then None else Some (RWord p)) [''a'', ''('', ''b'']
     = NewMatcher (\<lambda>p. if p = ''('' then None else Some (RWord p)) [''a'', ''b'']"
  using invalid_pattern_ignored [of "''(''" "\<lambda>p. if p = ''('' then None else Some (RWord p)"
      "[''a'']" "[''b'']"] by simp

subsection \<open>Secrets are caught\<close>

text \<open>The names a secret goes by, in lower case.\<close>

definition secretNames :: "string list" where
  "secretNames =
     [''secret'', ''token'', ''password'', ''passwd'', ''credential'',
      ''apikey'', ''api_key'', ''api-key'', ''accesskey'', ''access_key'', ''access-key'',
      ''privatekey'', ''private_key'', ''private-key'']"

definition secretFlags :: "string list" where
  "secretFlags =
     [''password'', ''passwd'', ''pass'', ''token'', ''secret'', ''auth'',
      ''apikey'', ''api_key'', ''api-key'']"

definition wordStart :: "string \<Rightarrow> bool" where
  "wordStart pre \<longleftrightarrow> pre = [] \<or> isSpace (last pre)"

definition spaces :: "string \<Rightarrow> bool" where
  "spaces s \<longleftrightarrow> (\<forall>c\<in>set s. isSpace c)"

lemma RLit_folds: "map lowerByte w = kw \<Longrightarrow> rmatch b (RLit kw) w rest"
proof (induction kw arbitrary: w b)
  case (Cons c kw)
  then obtain d ds where w: "w = [d] @ ds" "lowerByte d = c" "map lowerByte ds = kw"
    by (cases w) auto
  have "rmatch b (RFold c) [d] (ds @ rest)" using w(2) by (simp add: RFold_def)
  then have "rmatch b (RSeq (RFold c) (RLit kw)) ([d] @ ds) rest"
    by (rule rmatch.seq) (use Cons.IH w(3) in simp)
  then show ?case by (simp add: w(1))
qed simp

lemma RSeqs_step:
  "rmatch b r u (v @ rest) \<Longrightarrow> rmatch (b \<and> u = []) (RSeqs rs) v rest \<Longrightarrow>
     rmatch b (RSeqs (r # rs)) (u @ v) rest"
  by (simp add: rmatch.seq)

lemma RSeqs_end: "rmatch b (RSeqs []) [] rest"
  by simp

lemma RStar_space: "spaces s \<Longrightarrow> rmatch b (RStar RSpace) s rest"
  by (simp add: RSpace_def rmatch_class_star spaces_def)

lemma RPlus_space: "spaces s \<Longrightarrow> s \<noteq> [] \<Longrightarrow> rmatch b (RPlus RSpace) s rest"
  by (simp add: RSpace_def rmatch_class_plus spaces_def)

lemma RPlus_nonspace: "\<forall>c\<in>set s. \<not> isSpace c \<Longrightarrow> s \<noteq> [] \<Longrightarrow> rmatch b (RPlus RNonSpace) s rest"
  by (simp add: RNonSpace_def rmatch_class_plus)

lemma RNonSpace_one: "\<not> isSpace c \<Longrightarrow> rmatch b RNonSpace [c] rest"
  by (simp add: RNonSpace_def)

lemma RStar_wordByte: "\<forall>c\<in>set s. isWordByte c \<Longrightarrow> rmatch b (RStar RWordChar) s rest"
proof (induction s arbitrary: b)
  case (Cons c s)
  then have "rmatch b RWordChar [c] (s @ rest)" by (simp add: RWordChar_def)
  then have "rmatch b (RStar RWordChar) ([c] @ s) rest"
    by (rule rmatch.star1) (use Cons in simp)
  then show ?case by simp
qed (simp add: rmatch.star0)

text \<open>A pattern that begins with \<open>(^|\s)\<close> is found wherever a word may start.\<close>

lemma MatchString_start:
  assumes "wordStart pre" "\<And>b. rmatch b (RSeqs rs) w rest"
  shows "MatchString (RSeqs (RStart # rs)) (pre @ w @ rest)"
proof (cases "pre = []")
  case True
  have "rmatch True (RSeqs (RStart # rs)) ([] @ w) rest"
    by (rule RSeqs_step) (use assms(2) in \<open>simp_all add: RStart_def\<close>)
  then show ?thesis using True unfolding MatchString_iff by force
next
  case False
  then obtain c where c: "isSpace c" "pre = butlast pre @ [c]"
    using assms(1) by (metis append_butlast_last_id wordStart_def)
  have "rmatch (butlast pre = []) (RSeqs (RStart # rs)) ([c] @ w) rest"
    by (rule RSeqs_step) (use assms(2) c(1) in \<open>simp_all add: RStart_def RSpace_def\<close>)
  moreover have "pre @ w @ rest = butlast pre @ ([c] @ w) @ rest"
    using c(2) by (metis append.assoc)
  ultimately show ?thesis unfolding MatchString_iff by metis
qed

lemma sep_match: "x = [] \<or> x = ''_'' \<or> x = ''-'' \<Longrightarrow> rmatch b ROptSep x rest"
  by (auto simp: ROptSep_def)

lemma lowerByte_changed: "lowerByte d \<noteq> d \<Longrightarrow> (97 :: nat) \<le> of_char (lowerByte d)"
  by (auto simp: lowerByte_def byteIn_def less_eq_char_def of_char_of split: if_splits)

lemma lowerByte_low: "lowerByte d = c \<Longrightarrow> of_char c < (97 :: nat) \<Longrightarrow> d = c"
  using lowerByte_changed [of d] by (cases "lowerByte d = d") simp_all

lemma three_part:
  assumes "map lowerByte w = a @ x @ c" "x = [] \<or> x = ''_'' \<or> x = ''-''"
  shows "rmatch b (RSeqs [RLit a, ROptSep, RLit c]) w rest"
proof -
  obtain wa wx wc where w: "w = wa @ wx @ wc" "map lowerByte wa = a" "map lowerByte wx = x"
      "map lowerByte wc = c"
    using assms(1) by (auto simp: map_eq_append_conv append_eq_map_conv)
  have "z = CHR ''_''" if "lowerByte z = CHR ''_''" for z using that by (rule lowerByte_low) simp
  moreover have "z = CHR ''-''" if "lowerByte z = CHR ''-''" for z
    using that by (rule lowerByte_low) simp
  ultimately have "wx = x" using w(3) assms(2) by (auto simp: map_eq_Cons_conv)
  then have "rmatch b (RSeqs [RLit a, ROptSep, RLit c]) (wa @ wx @ wc @ []) rest"
    using assms(2) w by (intro RSeqs_step RSeqs_end RLit_folds sep_match) auto
  then show ?thesis using w(1) by simp
qed

lemma secret_names_match:
  assumes "map lowerByte w \<in> set secretNames"
  shows "rmatch b (RAlts secretWords) w rest"
proof -
  consider "map lowerByte w \<in> set [''secret'', ''token'', ''password'', ''passwd'', ''credential'']"
    | x where "map lowerByte w = ''api'' @ x @ ''key''" "x = [] \<or> x = ''_'' \<or> x = ''-''"
    | x where "map lowerByte w = ''access'' @ x @ ''key''" "x = [] \<or> x = ''_'' \<or> x = ''-''"
    | x where "map lowerByte w = ''private'' @ x @ ''key''" "x = [] \<or> x = ''_'' \<or> x = ''-''"
    using assms by (simp add: secretNames_def) (elim disjE; simp)
  then show ?thesis
  proof cases
    case 1
    then show ?thesis
      by (auto simp: secretWords_def intro: RLit_folds simp del: RLit.simps)
  next
    case (2 x)
    from three_part [OF this] show ?thesis unfolding secretWords_def rmatch_alts by simp
  next
    case (3 x)
    from three_part [OF this] show ?thesis unfolding secretWords_def rmatch_alts by simp
  next
    case (4 x)
    from three_part [OF this] show ?thesis unfolding secretWords_def rmatch_alts by simp
  qed
qed

lemma secret_flags_match:
  assumes "map lowerByte w \<in> set secretFlags"
  shows "rmatch b (RAlts flagWords) w rest"
proof -
  consider "map lowerByte w \<in> set [''password'', ''passwd'', ''pass'', ''token'', ''secret'', ''auth'']"
    | x where "map lowerByte w = ''api'' @ x @ ''key''" "x = [] \<or> x = ''_'' \<or> x = ''-''"
    using assms by (simp add: secretFlags_def) (elim disjE; simp)
  then show ?thesis
  proof cases
    case 1
    then show ?thesis
      by (auto simp: flagWords_def intro: RLit_folds simp del: RLit.simps)
  next
    case (2 x)
    from three_part [OF this] show ?thesis unfolding flagWords_def rmatch_alts by simp
  qed
qed

lemma builtin_caught:
  "re \<in> set builtinPatterns \<Longrightarrow> MatchString re raw \<Longrightarrow> IsSensitive (NewMatcher compile extra) raw"
  by (auto simp: IsSensitive_iff)

lemma secret_assignment_sensitive:
  assumes "wordStart pre" "\<forall>c\<in>set (a @ b). isWordByte c" "map lowerByte name \<in> set secretNames"
    and "spaces s1" "spaces s2" "\<not> isSpace v"
  shows "IsSensitive (NewMatcher compile extra)
    (pre @ a @ name @ b @ s1 @ ''='' @ s2 @ [v] @ rest)"
proof (rule builtin_caught)
  have "rmatch bg (RSeqs [RStar RWordChar, RAlts secretWords, RStar RWordChar, RStar RSpace,
      RChar CHR ''='', RStar RSpace, RNonSpace]) (a @ name @ b @ s1 @ ''='' @ s2 @ [v] @ []) rest" for bg
    using assms
    by (intro RSeqs_step RSeqs_end RStar_wordByte secret_names_match RStar_space RNonSpace_one) auto
  then have "MatchString assignmentRe (pre @ (a @ name @ b @ s1 @ ''='' @ s2 @ [v] @ []) @ rest)"
    unfolding assignmentRe_def by (rule MatchString_start [OF assms(1)])
  then show "MatchString assignmentRe (pre @ a @ name @ b @ s1 @ ''='' @ s2 @ [v] @ rest)"
    by simp
qed (simp add: builtinPatterns_def)

text \<open>C26: An assignment to a secret-like variable is never recorded: whatever identifier
  characters stand around the secret's name, in whatever case, anywhere a word may start.\<close>

theorem secret_assignment_caught:
  assumes "wordStart pre" "\<forall>c\<in>set (a @ b). isWordByte c" "map lowerByte name \<in> set secretNames"
    and "spaces s1" "spaces s2" "\<not> isSpace v"
  shows "IsSensitive (NewMatcher compile extra)
    (pre @ a @ name @ b @ s1 @ ''='' @ s2 @ [v] @ rest)"
  by (rule secret_assignment_sensitive [OF assms])

theorem secret_assignment_caught_witness:
  "IsSensitive (NewMatcher (\<lambda>p. None) []) ''export GH_Token_2=abc''"
proof -
  have "\<forall>c\<in>set (''GH_'' @ ''_2''). isWordByte c" "map lowerByte ''Token'' \<in> set secretNames"
    "wordStart ''export ''" "\<not> isSpace CHR ''a''" by code_simp+
  then show ?thesis
    using secret_assignment_caught
        [of "''export ''" "''GH_''" "''_2''" "''Token''" "[]" "[]" "CHR ''a''" "\<lambda>p. None" "[]" "''bc''"]
    by (simp add: spaces_def)
qed

text \<open>A secret-bearing flag with a value is never recorded, with one dash or two, and with the
  value after an equals sign or after blanks.\<close>

theorem secret_flag_caught:
  assumes "wordStart pre" "dash = ''-'' \<or> dash = ''--''" "map lowerByte name \<in> set secretFlags"
    and "sep = ''='' \<or> sep \<noteq> [] \<and> spaces sep" "\<not> isSpace v"
  shows "IsSensitive (NewMatcher compile extra) (pre @ dash @ name @ sep @ [v] @ rest)"
proof (rule builtin_caught)
  obtain d where d: "dash = ''-'' @ d" "d = [] \<or> d = ''-''" using assms(2) by auto
  have val: "rmatch bg (RAlt (RSeq (RChar CHR ''='') RNonSpace) (RSeq (RPlus RSpace) RNonSpace))
      (sep @ [v]) (r :: string)" for bg r
    using assms(4)
  proof
    assume "sep = ''=''"
    then show ?thesis
      using rmatch.seq [of bg "RChar CHR ''=''" "''=''" "[v]" r RNonSpace] RNonSpace_one assms(5)
      by simp
  next
    assume "sep \<noteq> [] \<and> spaces sep"
    then show ?thesis
      using rmatch.seq [of bg "RPlus RSpace" sep "[v]" r RNonSpace] RNonSpace_one RPlus_space assms(5)
      by simp
  qed
  have "rmatch bg (RSeqs [RChar CHR ''-'', ROpt (RChar CHR ''-''), RAlts flagWords,
      RAlt (RSeq (RChar CHR ''='') RNonSpace) (RSeq (RPlus RSpace) RNonSpace)])
      (''-'' @ d @ name @ (sep @ [v]) @ []) rest" for bg
    using assms d(2)
    by (intro RSeqs_step RSeqs_end secret_flags_match val) auto
  then have "MatchString secretFlagRe (pre @ (''-'' @ d @ name @ (sep @ [v]) @ []) @ rest)"
    unfolding secretFlagRe_def by (rule MatchString_start [OF assms(1)])
  then show "MatchString secretFlagRe (pre @ dash @ name @ sep @ [v] @ rest)"
    by (simp add: d(1))
qed (simp add: builtinPatterns_def)

theorem secret_flag_caught_witness:
  "IsSensitive (NewMatcher (\<lambda>p. None) []) ''mysql --Password hunter2''"
proof -
  have "wordStart ''mysql ''" "map lowerByte ''Password'' \<in> set secretFlags"
    "spaces '' ''" "\<not> isSpace CHR ''h''" by code_simp+
  then show ?thesis
    using secret_flag_caught
        [of "''mysql ''" "''--''" "''Password''" "'' ''" "CHR ''h''" "\<lambda>p. None" "[]" "''unter2''"]
    by simp
qed

text \<open>An authorization header with a scheme and a credential is never recorded, in whatever
  case it is written and wherever it stands.\<close>

theorem auth_header_caught:
  assumes "map lowerByte hdr = ''authorization:''" "spaces s1"
    and "scheme \<noteq> []" "\<forall>c\<in>set scheme. \<not> isSpace c" "s2 \<noteq> []" "spaces s2" "\<not> isSpace v"
  shows "IsSensitive (NewMatcher compile extra) (pre @ hdr @ s1 @ scheme @ s2 @ [v] @ rest)"
proof (rule builtin_caught)
  have "rmatch (pre = []) authHeaderRe (hdr @ s1 @ scheme @ s2 @ [v] @ []) rest"
    unfolding authHeaderRe_def using assms
    by (intro RSeqs_step RSeqs_end RLit_folds RStar_space RPlus_nonspace RPlus_space RNonSpace_one)
       auto
  then show "MatchString authHeaderRe (pre @ hdr @ s1 @ scheme @ s2 @ [v] @ rest)"
    unfolding MatchString_iff by (metis append.assoc append_Nil2)
qed (simp add: builtinPatterns_def)

theorem auth_header_caught_witness:
  "IsSensitive (NewMatcher (\<lambda>p. None) []) ''curl -H authorization: Bearer abc''"
proof -
  have "map lowerByte ''authorization:'' = ''authorization:''" "spaces '' ''"
    "\<forall>c\<in>set ''Bearer''. \<not> isSpace c" "\<not> isSpace CHR ''a''" by code_simp+
  then show ?thesis
    using auth_header_caught [of "''authorization:''" "'' ''" "''Bearer''" "'' ''" "CHR ''a''"
        "\<lambda>p. None" "[]" "''curl -H ''" "''bc''"] by simp
qed

subsection \<open>Ordinary commands are kept\<close>

lemma RSeqs_cons_iff:
  "rmatch b (RSeqs (r # rs)) w rest \<longleftrightarrow>
     (\<exists>u v. w = u @ v \<and> rmatch b r u (v @ rest) \<and> rmatch (b \<and> u = []) (RSeqs rs) v rest)"
  by (simp add: rmatch_seq_iff)

lemma RSeqs_uses:
  assumes "rmatch b (RSeqs rs) w rest" "r \<in> set rs"
    and "\<And>b u t. rmatch b r u t \<Longrightarrow> c \<in> set u"
  shows "c \<in> set w"
  using assms(1,2)
proof (induction rs arbitrary: b w)
  case (Cons q rs)
  then obtain u v where "w = u @ v" "rmatch b q u (v @ rest)" "rmatch (b \<and> u = []) (RSeqs rs) v rest"
    by (auto simp: rmatch_seq_iff)
  then show ?case using Cons assms(3) by auto
qed simp

lemma RLit_colon: "rmatch b (RLit kw) u t \<Longrightarrow> CHR '':'' \<in> set kw \<Longrightarrow> CHR '':'' \<in> set u"
proof (induction kw arbitrary: b u)
  case (Cons c kw)
  then obtain x y where u: "u = x @ y" "rmatch b (RFold c) x (y @ t)"
      "rmatch (b \<and> x = []) (RLit kw) y t"
    by (auto simp: rmatch_seq_iff)
  show ?case
  proof (cases "c = CHR '':''")
    case True
    then obtain d where "x = [d]" "lowerByte d = CHR '':''" using u(2) by (auto simp: RFold_def)
    then show ?thesis using u(1) lowerByte_low [of d "CHR '':''"] by simp
  next
    case False
    then show ?thesis using Cons.IH [OF u(3)] Cons.prems u(1) by simp
  qed
qed simp

lemma ordinary_not_sensitive:
  assumes "CHR ''='' \<notin> set raw" "CHR '':'' \<notin> set raw"
    and "\<And>u t. raw = u @ ''-'' @ t \<Longrightarrow> \<not> wordStart u"
  shows "\<not> IsSensitive (NewMatcher compile []) raw"
proof -
  have uses: "\<not> MatchString (RSeqs rs) raw"
    if "RChar c \<in> set rs" "c \<notin> set raw" for rs c
  proof
    assume "MatchString (RSeqs rs) raw"
    then obtain u w t where "raw = u @ w @ t" "rmatch (u = []) (RSeqs rs) w t"
      unfolding MatchString_iff by blast
    with RSeqs_uses [OF this(2) that(1), of c] that(2) show False by auto
  qed
  have "\<not> MatchString secretFlagRe raw"
  proof
    assume "MatchString secretFlagRe raw"
    then obtain u w t where raw: "raw = u @ w @ t" and m: "rmatch (u = []) secretFlagRe w t"
      unfolding MatchString_iff by blast
    then obtain p q where w: "w = p @ ''-'' @ q" and p: "rmatch (u = []) RStart p (''-'' @ q @ t)"
      unfolding secretFlagRe_def RSeqs_cons_iff [of _ RStart] RSeqs_cons_iff [of _ "RChar CHR ''-''"]
        rmatch_char by auto
    from p have "wordStart (u @ p)"
      by (auto simp: RStart_def RSpace_def wordStart_def)
    with assms(3) [of "u @ p" "q @ t"] raw w show False by simp
  qed
  moreover have "\<not> MatchString assignmentRe raw"
    unfolding assignmentRe_def by (rule uses [of "CHR ''=''"]) (use assms(1) in simp_all)
  moreover have "\<not> MatchString userPassRe raw"
    unfolding userPassRe_def by (rule uses [of "CHR '':''"]) (use assms(2) in simp_all)
  moreover have "\<not> MatchString authHeaderRe raw"
  proof
    have lit: "CHR '':'' \<in> set u" if "rmatch b (RLit ''authorization:'') u t" for b u t
      using RLit_colon [OF that] by simp
    assume "MatchString authHeaderRe raw"
    then obtain u w t where "raw = u @ w @ t" "rmatch (u = []) authHeaderRe w t"
      unfolding MatchString_iff by blast
    moreover have "CHR '':'' \<in> set w"
      by (rule RSeqs_uses [OF calculation(2) [unfolded authHeaderRe_def], of "RLit ''authorization:''"])
         (use lit in \<open>simp_all del: RLit.simps\<close>)
    ultimately show False using assms(2) by simp
  qed
  ultimately show ?thesis
    by (simp add: IsSensitive_iff builtinPatterns_def)
qed

text \<open>The built-in patterns leave ordinary commands alone: text without an equals sign,
  without a colon and without a word that begins with a dash is never taken for a secret, so a
  commit message that mentions a password is recorded.\<close>

theorem ordinary_command_kept:
  assumes "CHR ''='' \<notin> set raw" "CHR '':'' \<notin> set raw"
    and "\<And>u t. raw = u @ ''-'' @ t \<Longrightarrow> \<not> wordStart u"
  shows "\<not> IsSensitive (NewMatcher compile []) raw"
  by (rule ordinary_not_sensitive [OF assms])

theorem ordinary_command_kept_witness:
  "\<not> IsSensitive (NewMatcher (\<lambda>p. None) []) ''git commit fix the password prompt''"
proof -
  let ?raw = "''git commit fix the password prompt''"
  have "CHR ''='' \<notin> set ?raw" "CHR '':'' \<notin> set ?raw" "CHR ''-'' \<notin> set ?raw"
    by simp_all
  moreover from this(3) have "?raw = u @ ''-'' @ t \<Longrightarrow> \<not> wordStart u" for u t
    by (metis in_set_conv_decomp append_Cons append_Nil)
  ultimately show ?thesis by (intro ordinary_command_kept)
qed

end
