(* ===== verification/Backoff.thy ===== *)
theory Backoff
  imports Graph
begin

text \<open>
  core/graph/backoff.go: the state keys one observation is recorded under. The daemon, the
  history import and the evaluator expand every observation through \<open>BackoffStates\<close> and
  record it once per state, which \<open>recordAll\<close> does.
\<close>

fun allEmpty :: "string list \<Rightarrow> bool" where
  "allEmpty [] = True"
| "allEmpty (s # ss) = (if s \<noteq> [] then False else allEmpty ss)"

definition appendIfInformative :: "string list list \<Rightarrow> string list \<Rightarrow> string list list" where
  "appendIfInformative states candidate =
     (if length candidate = 0 \<or> allEmpty candidate then states else states @ [candidate])"

definition BackoffStates :: "string list \<Rightarrow> bool \<Rightarrow> string list list" where
  "BackoffStates state hasCWD =
     (let states = [state];
          cwd = (hasCWD \<and> length state > 0);
          templates = (if cwd then drop 1 state else state);
          states = (if cwd then appendIfInformative states templates else states)
      in if length templates > 1 then appendIfInformative states (drop 1 templates) else states)"

definition recordAll :: "string list list \<Rightarrow> (string list \<Rightarrow> observation) \<Rightarrow> graph \<Rightarrow> graph" where
  \<comment> \<open>\<open>for _, st := range states { g.RecordObs(...) }\<close>\<close>
  "recordAll states obs g = fold (\<lambda>st. RecordObs (obs st)) states g"

lemma allEmpty_iff: "allEmpty ss \<longleftrightarrow> (\<forall>s\<in>set ss. s = [])"
  by (induction ss) auto

lemma BackoffStates_hd: "BackoffStates state c \<noteq> [] \<and> hd (BackoffStates state c) = state"
  by (simp add: BackoffStates_def appendIfInformative_def Let_def)

lemma BackoffStates_tl:
  "s \<in> set (tl (BackoffStates state c)) \<Longrightarrow>
     \<not> allEmpty s \<and> (\<exists>n\<in>{1, 2}. n < length state \<and> s = drop n state)"
  by (auto simp: BackoffStates_def appendIfInformative_def Let_def numeral_2_eq_2
      split: if_splits)

text \<open>A shorter history has a strictly shorter key, so the keys of one expansion never
  collide and one observation bumps each of them once.\<close>

lemma length_stateKey_drop:
  "0 < n \<Longrightarrow> n < length state \<Longrightarrow> length (stateKey (drop n state)) < length (stateKey state)"
proof (induction n arbitrary: state)
  case (Suc n)
  obtain w ws where state: "state = w # ws" "ws \<noteq> []"
    using Suc.prems by (cases state; cases "tl state") auto
  have "length (stateKey (drop n ws)) \<le> length (stateKey ws)"
    using Suc state by (cases "n = 0") (auto intro: less_imp_le)
  with state show ?case by (simp add: stateKey_def Join_Cons)
qed simp

lemma stateKey_drop_neq:
  assumes "m < n" "n < length state"
  shows "stateKey (drop n state) \<noteq> stateKey (drop m state)"
proof -
  have "length (stateKey (drop (n - m) (drop m state))) < length (stateKey (drop m state))"
    using assms by (intro length_stateKey_drop) auto
  moreover have "drop (n - m) (drop m state) = drop n state" using assms by simp
  ultimately show ?thesis by (metis nat_neq_iff)
qed

lemma distinct_stateKeys: "distinct (map stateKey (BackoffStates state c))"
proof (cases state)
  case (Cons a s)
  note A = Cons
  show ?thesis
  proof (cases s)
    case (Cons b t)
    have "stateKey (b # t) \<noteq> stateKey (a # b # t)"
      using stateKey_drop_neq [of 0 1 "a # b # t"] by simp
    moreover have "t \<noteq> [] \<Longrightarrow> stateKey t \<noteq> stateKey (a # b # t)"
      using stateKey_drop_neq [of 0 2 "a # b # t"] by (simp add: numeral_2_eq_2)
    moreover have "t \<noteq> [] \<Longrightarrow> stateKey t \<noteq> stateKey (b # t)"
      using stateKey_drop_neq [of 0 1 "b # t"] by simp
    ultimately show ?thesis
      by (cases "t = []") (simp_all add: A Cons BackoffStates_def appendIfInformative_def Let_def)
  qed (simp add: A BackoffStates_def appendIfInformative_def Let_def)
qed (simp add: BackoffStates_def)

lemma lookup_recordAll_other:
  "(\<forall>st\<in>set states. stateKey (o_State (obs st)) \<noteq> sk) \<Longrightarrow>
     lookupEntry (recordAll states obs g) sk n = lookupEntry g sk n"
  unfolding recordAll_def by (induction states arbitrary: g) (auto simp: lookup_RecordObs)

lemma lookup_recordAll_next:
  "\<forall>st. o_Next (obs st) \<noteq> n \<Longrightarrow> lookupEntry (recordAll states obs g) sk n = lookupEntry g sk n"
  unfolding recordAll_def by (induction states arbitrary: g) (auto simp: lookup_RecordObs)

lemma lookup_recordAll:
  assumes "distinct (map stateKey states)" "st \<in> set states"
    and "\<forall>st. o_State (obs st) = st" "o_Next (obs st) \<noteq> []"
  shows "lookupEntry (recordAll states obs g) (stateKey st) (o_Next (obs st)) =
     Some (recordEntry (obs st)
       (case lookupEntry g (stateKey st) (o_Next (obs st)) of None \<Rightarrow> entry0 | Some e \<Rightarrow> e))"
  using assms(1,2)
proof (induction states arbitrary: g)
  case (Cons s states)
  have step: "recordAll (s # states) obs g = recordAll states obs (RecordObs (obs s) g)"
    by (simp add: recordAll_def)
  show ?case
  proof (cases "s = st")
    case True
    with Cons.prems have "\<forall>s\<in>set states. stateKey (o_State (obs s)) \<noteq> stateKey st"
      using assms(3) by (auto simp: image_iff)
    then show ?thesis using True assms(3,4)
        lookup_recordAll_other [of states obs "stateKey st" "RecordObs (obs st) g" "o_Next (obs st)"]
      by (simp add: step [unfolded True] lookup_RecordObs)
  next
    case False
    with Cons.prems have "st \<in> set states" "stateKey st \<noteq> stateKey s"
      by (auto simp: image_iff)
    with Cons show ?thesis using assms(3) by (simp add: step lookup_RecordObs)
  qed
qed simp

subsection \<open>Properties\<close>

lemma roomy_graphInv_recordAll:
  assumes "distinct (map stateKey states)" "\<forall>st. o_State (obs st) = st"
    and "graphInv g" "\<forall>st\<in>set states. \<forall>e.
      lookupEntry g (stateKey st) (o_Next (obs st)) = Some e \<longrightarrow> roomyEntry e"
  shows "graphInv (recordAll states obs g)"
  using assms(1,3,4)
proof (induction states arbitrary: g)
  case (Cons s states)
  let ?g = "RecordObs (obs s) g"
  have "graphInv ?g"
  proof (cases "o_Next (obs s) = []")
    case False
    let ?old = "case lookupEntry g (stateKey s) (o_Next (obs s)) of None \<Rightarrow> entry0 | Some e \<Rightarrow> e"
    have "entryPre ?old" "roomyEntry ?old"
      using Cons.prems(3) graphInvD(3) [OF Cons.prems(2)]
      by (auto simp: entryPre_def split: option.splits)
    then have "entryInv (recordEntry (obs s) ?old)" by (rule recordEntry_inv)
    with False assms(2) graphInvD [OF Cons.prems(2)] show ?thesis
      unfolding graphInv_def
      by (auto simp: lookup_RecordObs RecordObs_def [of "obs s"] tlWf_modify tlLookup_modify
          split: if_splits)
  qed (use Cons.prems in \<open>simp add: RecordObs_def\<close>)
  moreover have "\<forall>st\<in>set states. \<forall>e.
      lookupEntry ?g (stateKey st) (o_Next (obs st)) = Some e \<longrightarrow> roomyEntry e"
    using Cons.prems assms(2) by (fastforce simp: lookup_RecordObs image_iff)
  ultimately show ?case using Cons by (simp add: recordAll_def)
qed (simp add: recordAll_def)

lemma recordAll_counts:
  fixes obs :: "string list \<Rightarrow> observation"
  assumes inv: "graphInv g" "roomy g"
    and obs: "\<forall>st. o_State (obs st) = st \<and> o_Next (obs st) = nxt" "nxt \<noteq> []"
  shows "graphInv (recordAll (BackoffStates state c) obs g)
    \<and> (\<forall>st\<in>set (BackoffStates state c). \<exists>e.
         lookupEntry (recordAll (BackoffStates state c) obs g) (stateKey st) nxt = Some e
       \<and> observed (obs st) (case lookupEntry g (stateKey st) nxt of None \<Rightarrow> entry0 | Some e \<Rightarrow> e) e)
    \<and> (\<forall>sk n. sk \<notin> stateKey ` set (BackoffStates state c) \<longrightarrow>
         lookupEntry (recordAll (BackoffStates state c) obs g) sk n = lookupEntry g sk n)"
proof -
  have "graphInv (recordAll (BackoffStates state c) obs g)"
    using roomy_graphInv_recordAll [OF distinct_stateKeys] inv obs(1) by (simp add: roomy_def)
  moreover have "observed (obs st) old (recordEntry (obs st) old)"
    if "old = (case lookupEntry g (stateKey st) nxt of None \<Rightarrow> entry0 | Some e \<Rightarrow> e)" for st old
    using inv graphInvD(3) [OF inv(1)] that
    by (intro recordEntry_observed) (auto simp: entryPre_def roomy_def split: option.splits)
  ultimately show ?thesis
    using lookup_recordAll [OF distinct_stateKeys] obs
    by (fastforce intro: lookup_recordAll_other)
qed

text \<open>Recording an observation under all its backoff states keeps the graph well formed,
  counts it exactly once under each of those state keys (they never collide), and leaves every
  entry under any other state key as it was.\<close>

theorem recordAll_once_each:
  fixes obs :: "string list \<Rightarrow> observation"
  assumes inv: "graphInv g" "roomy g"
    and obs: "\<forall>st. o_State (obs st) = st \<and> o_Next (obs st) = nxt" "nxt \<noteq> []"
  shows "graphInv (recordAll (BackoffStates state c) obs g)
    \<and> (\<forall>st\<in>set (BackoffStates state c). \<exists>e.
         lookupEntry (recordAll (BackoffStates state c) obs g) (stateKey st) nxt = Some e
       \<and> observed (obs st) (case lookupEntry g (stateKey st) nxt of None \<Rightarrow> entry0 | Some e \<Rightarrow> e) e)
    \<and> (\<forall>sk n. sk \<notin> stateKey ` set (BackoffStates state c) \<longrightarrow>
         lookupEntry (recordAll (BackoffStates state c) obs g) sk n = lookupEntry g sk n)"
  by (rule recordAll_counts [OF inv obs])

theorem recordAll_once_each_witness:
  "graphInv (New 2) \<and> roomy (New 2)
    \<and> BackoffStates [''/p'', ''ls'', ''git add PATH''] True
        = [[''/p'', ''ls'', ''git add PATH''], [''ls'', ''git add PATH''], [''git add PATH'']]
    \<and> (\<exists>e. lookupEntry (recordAll (BackoffStates [''/p'', ''ls'', ''git add PATH''] True)
             (\<lambda>st. demoObs\<lparr>o_State := st\<rparr>) (New 2))
           (stateKey [''git add PATH'']) ''git commit FLAG STR'' = Some e \<and> e_count e = 1)"
proof -
  have b: "BackoffStates [''/p'', ''ls'', ''git add PATH''] True
      = [[''/p'', ''ls'', ''git add PATH''], [''ls'', ''git add PATH''], [''git add PATH'']]"
    by (simp add: BackoffStates_def appendIfInformative_def)
  have n: "o_Next demoObs = ''git commit FLAG STR''" by simp
  have "lookupEntry (New 2) sk n = None" for sk n by (simp add: New_def)
  with recordAll_once_each [of "New 2" "\<lambda>st. demoObs\<lparr>o_State := st\<rparr>" "''git commit FLAG STR''"
      "[''/p'', ''ls'', ''git add PATH'']" True] b n
  show ?thesis by (auto simp: observed_def entry0_def)
qed

end
