(* ===== verification/Daemon.thy ===== *)
theory Daemon
  imports Store Config Fallback Normalize Redact Backoff
begin

text \<open>
  The daemon of daemon/daemon.go and its request handlers of daemon/handlers.go: the state they
  share, every operation on it, and the dispatch of a request. The graph and the predictor are
  reached through atomic pointers, and the predictor holds a pointer to a graph of its own, so
  graphs live in a heap of objects; \<open>graphOf\<close> is the graph the daemon records into and
  \<open>livePredictor\<close> is the predictor together with the graph it really reads. A handler is one
  step here; theory Flush interleaves its parts with those of a flush.

  What a step takes from outside the program (the clock, the parsers of the standard library, the
  file system, whether a database transaction commits) is the record \<open>world\<close>.
\<close>

datatype fileInfo = NotExist | StatError string | Symlink | Irregular | Regular

record world =
  wo_now :: gotime
  wo_parseTime :: "string \<Rightarrow> string + gotime"
  wo_formatTime :: "gotime \<Rightarrow> string"
  wo_decodeSeed :: "string \<Rightarrow> string + seed"
  wo_quote :: "string \<Rightarrow> string"
  wo_abs :: "string \<Rightarrow> string + string"
  wo_lstat :: "string \<Rightarrow> fileInfo"
  wo_readFile :: "string \<Rightarrow> string + string"
  wo_saveOk :: bool
  wo_saveRawsOk :: bool
  wo_pruneOk :: bool
  wo_clearOk :: "bool \<times> bool \<times> bool"

record daemon =
  dm_opts :: options
  dm_heap :: "nat \<Rightarrow> graph"
  dm_fresh :: nat
  dm_g :: nat
  dm_pred :: predictor
  dm_predG :: nat
  dm_raws :: rawStore
  dm_db :: db
  dm_parents :: "string list option"
  dm_redactor :: matcher
  dm_dirty :: int
  dm_flushCh :: bool

definition graphOf :: "daemon \<Rightarrow> graph" where
  "graphOf d = dm_heap d (dm_g d)"

definition setGraph :: "graph \<Rightarrow> daemon \<Rightarrow> daemon" where
  "setGraph g d = d\<lparr>dm_heap := (dm_heap d)(dm_g d := g)\<rparr>"

definition livePredictor :: "daemon \<Rightarrow> predictor" where
  "livePredictor d = (dm_pred d)\<lparr>pr_g := dm_heap d (dm_predG d)\<rparr>"

definition newPredictor :: "options \<Rightarrow> graph \<Rightarrow> predictor" where
  "newPredictor opt g =
     NewPredictor g (HalfLife opt) (op_Alpha opt) (op_Beta opt) (op_Gamma opt) (op_Delta opt) (op_Epsilon opt)"

definition storePredictor :: "daemon \<Rightarrow> daemon" where
  \<comment> \<open>\<open>d.pred.Store(d.newPredictor(d.g.Load()))\<close>\<close>
  "storePredictor d = d\<lparr>dm_pred := newPredictor (dm_opts d) (graphOf d), dm_predG := dm_g d\<rparr>"

text \<open>What \<open>Run\<close> builds before anything is loaded. The database handle and the predictor are still
  unset there; both are stored by \<open>start\<close>.\<close>

definition newDaemon :: "(string \<Rightarrow> regex option) \<Rightarrow> options \<Rightarrow> daemon" where
  "newDaemon compile opt =
     \<lparr>dm_opts = opt, dm_heap = (\<lambda>_. New 2), dm_fresh = 1, dm_g = 0, dm_pred = newPredictor opt (New 2),
      dm_predG = 0, dm_raws = newRawStore (HalfLife opt), dm_db = emptyDB,
      dm_parents = Some (MergeParents (op_ExtraParents opt)), dm_redactor = NewMatcher compile (op_Ignore opt),
      dm_dirty = 0, dm_flushCh = False\<rparr>"

subsection \<open>Flushing\<close>

definition flushThreshold :: int where "flushThreshold = 50"

definition wrap32 :: "int \<Rightarrow> int" where
  "wrap32 n = signed_take_bit 31 n"

definition flushDB :: "world \<Rightarrow> daemon \<Rightarrow> bool \<times> daemon" where
  "flushDB w d =
     (let transitions = All (graphOf d);
          (ok, db1) = (if 0 < length transitions then save (wo_saveOk w) transitions (dm_db d) else (True, dm_db d))
      in if \<not> ok then (False, d\<lparr>dm_db := db1\<rparr>)
         else let rawSnapshot = snapshot (dm_raws d);
                  (_, db2) = (if 0 < length rawSnapshot then saveRawExamples (wo_saveRawsOk w) rawSnapshot db1
                              else (True, db1))
              in (True, d\<lparr>dm_db := db2\<rparr>))"

definition flush :: "world \<Rightarrow> daemon \<Rightarrow> daemon" where
  "flush w d =
     (let (ok, d1) = flushDB w d
      in if ok then d1\<lparr>dm_dirty := 0, dm_flushCh := (if 0 < dm_dirty d1 then True else dm_flushCh d1)\<rparr>
         else d1)"

definition decay :: "world \<Rightarrow> daemon \<Rightarrow> daemon" where
  "decay w d =
     (let (res, g') = Decay (wo_now w) (HalfLife (dm_opts d)) (MaxIdle (dm_opts d)) (graphOf d);
          d1 = setGraph g' d
      in if length (dr_Pruned res) = 0 \<and> length (dr_Orphaned res) = 0 then d1
         else d1\<lparr>dm_raws := dropOrphaned (dr_Orphaned res) (dm_raws d1),
                 dm_db := snd (prune (wo_pruneOk w) (dr_Pruned res) (dr_Orphaned res) (dm_db d1))\<rparr>)"

subsection \<open>Importing a seed\<close>

definition ItoaInt :: "int \<Rightarrow> string" where
  "ItoaInt n = (if n < 0 then CHR ''-'' # Itoa (nat (- n)) else Itoa (nat n))"

fun mergeErrorText :: "mergeError \<Rightarrow> string" where
  "mergeErrorText (EmptyState i) = ''transition '' @ Itoa i @ '': empty state''"
| "mergeErrorText (EmptyNext i) = ''transition '' @ Itoa i @ '': empty next''"
| "mergeErrorText (CountNotPositive i c) =
     ''transition '' @ Itoa i @ '': count must be positive, got '' @ ItoaInt c"

text \<open>The text of a seed error quotes the next template (the verb \<open>%q\<close>).\<close>

fun seedErrorText :: "(string \<Rightarrow> string) \<Rightarrow> seedError \<Rightarrow> string" where
  "seedErrorText quote NoTransitions = ''seed contains no transitions''"
| "seedErrorText quote (MissingLastSeen i nxt) =
     ''transition '' @ Itoa i @ '' ('' @ quote nxt @ ''): missing or unparseable last_seen''"

definition importSeedFromBytes :: "world \<Rightarrow> string \<Rightarrow> daemon \<Rightarrow> string + daemon" where
  "importSeedFromBytes w data d =
     (case wo_decodeSeed w data of
        Inl err \<Rightarrow> Inl (''unmarshal seed: '' @ err)
      | Inr sd \<Rightarrow>
          (case seedValidate sd of
             Some err \<Rightarrow> Inl (''invalid seed: '' @ seedErrorText (wo_quote w) err)
           | None \<Rightarrow>
               (case Merge (sd_Transitions sd) (graphOf d) of
                  Inl err \<Rightarrow> Inl (''merge seed: '' @ mergeErrorText err)
                | Inr g' \<Rightarrow> Inr (flush w (setGraph g' d)))))"

definition importSeed :: "world \<Rightarrow> string \<Rightarrow> daemon \<Rightarrow> string + daemon" where
  "importSeed w path d =
     (case wo_readFile w path of
        Inl err \<Rightarrow> Inl (''read seed: '' @ err)
      | Inr data \<Rightarrow> importSeedFromBytes w data d)"

definition checkImportable :: "world \<Rightarrow> string \<Rightarrow> string option" where
  \<comment> \<open>the error, if any\<close>
  "checkImportable w path =
     (case wo_lstat w path of
        NotExist \<Rightarrow> Some ''file not found''
      | StatError err \<Rightarrow> Some (''stat: '' @ err)
      | Symlink \<Rightarrow> Some ''symlinks not allowed''
      | Irregular \<Rightarrow> Some ''not a regular file''
      | Regular \<Rightarrow> None)"


subsection \<open>What the operations touch\<close>

lemma setGraph_simps [simp]:
  "graphOf (setGraph g d) = g" "dm_g (setGraph g d) = dm_g d" "dm_raws (setGraph g d) = dm_raws d"
  "dm_db (setGraph g d) = dm_db d" "dm_opts (setGraph g d) = dm_opts d" "dm_predG (setGraph g d) = dm_predG d"
  "dm_pred (setGraph g d) = dm_pred d" "dm_fresh (setGraph g d) = dm_fresh d"
  "dm_dirty (setGraph g d) = dm_dirty d" "dm_flushCh (setGraph g d) = dm_flushCh d"
  "dm_parents (setGraph g d) = dm_parents d" "dm_redactor (setGraph g d) = dm_redactor d"
  by (simp_all add: setGraph_def graphOf_def)

lemma graphOf_update [simp]:
  "graphOf (d\<lparr>dm_raws := r\<rparr>) = graphOf d" "graphOf (d\<lparr>dm_db := b\<rparr>) = graphOf d"
  "graphOf (d\<lparr>dm_dirty := n\<rparr>) = graphOf d" "graphOf (d\<lparr>dm_flushCh := c\<rparr>) = graphOf d"
  "graphOf (d\<lparr>dm_pred := p\<rparr>) = graphOf d" "graphOf (d\<lparr>dm_predG := a\<rparr>) = graphOf d"
  by (simp_all add: graphOf_def)

lemma storePredictor_simps [simp]:
  "graphOf (storePredictor d) = graphOf d" "dm_g (storePredictor d) = dm_g d"
  "dm_predG (storePredictor d) = dm_g d" "dm_raws (storePredictor d) = dm_raws d"
  "dm_db (storePredictor d) = dm_db d" "dm_opts (storePredictor d) = dm_opts d"
  "dm_fresh (storePredictor d) = dm_fresh d" "dm_redactor (storePredictor d) = dm_redactor d"
  "dm_parents (storePredictor d) = dm_parents d" "dm_dirty (storePredictor d) = dm_dirty d"
  by (simp_all add: storePredictor_def)

lemma flushDB_eq:
  "flushDB w d =
     (if wo_saveOk w \<or> All (graphOf d) = []
      then (True, d\<lparr>dm_db := (if wo_saveRawsOk w then saveRawRows (snapshot (dm_raws d)) else id)
                     (saveRows (All (graphOf d)) (dm_db d))\<rparr>)
      else (False, d))"
  by (auto simp: flushDB_def Let_def save_def saveRawExamples_def saveRows_def saveRawRows_def)

lemma flush_simps [simp]:
  "graphOf (flush w d) = graphOf d" "dm_g (flush w d) = dm_g d" "dm_raws (flush w d) = dm_raws d"
  "dm_opts (flush w d) = dm_opts d" "dm_predG (flush w d) = dm_predG d" "dm_fresh (flush w d) = dm_fresh d"
  "dm_pred (flush w d) = dm_pred d" "dm_redactor (flush w d) = dm_redactor d"
  "dm_parents (flush w d) = dm_parents d" "dm_heap (flush w d) = dm_heap d"
  by (simp_all add: flush_def flushDB_eq)

lemma dm_db_flush:
  "dm_db (flush w d) =
     (if wo_saveOk w \<or> All (graphOf d) = []
      then (if wo_saveRawsOk w then saveRawRows (snapshot (dm_raws d)) else id)
             (saveRows (All (graphOf d)) (dm_db d))
      else dm_db d)"
  by (simp add: flush_def flushDB_eq)

subsection \<open>The invariant\<close>

text \<open>The graph, the raw store and the tables are well formed; the tables hold no more than what is
  in memory; the predictor reads the graph that is recorded into.\<close>

definition daemonInv :: "daemon \<Rightarrow> bool" where
  "daemonInv d \<longleftrightarrow> graphInv (graphOf d) \<and> rawInv (dm_raws d) \<and> dbInv (dm_db d)
     \<and> dbWithin (dm_db d) (graphOf d) \<and> rawRowsOk (dm_db d) \<and> rawsWithin (dm_db d) (dm_raws d)
     \<and> dm_predG d = dm_g d \<and> dm_g d < dm_fresh d"

lemma saveRows_raws [simp]: "db_raws (saveRows ts d) = db_raws d"
proof -
  have "db_raws (fold upsertTransition ts d) = db_raws d"
    by (induction ts arbitrary: d) (simp_all add: upsertTransition_def)
  then show ?thesis by (simp add: saveRows_def)
qed

lemma saveRawRows_tables [simp]:
  "db_transitions (saveRawRows rs d) = db_transitions d" "db_cwds (saveRawRows rs d) = db_cwds d"
  by (simp_all add: saveRawRows_def)

lemma raws_cong:
  "db_raws d = db_raws d' \<Longrightarrow> rawRowsOk d = rawRowsOk d'"
  "db_raws d = db_raws d' \<Longrightarrow> rawsWithin d s = rawsWithin d' s"
  by (simp_all add: rawRowsOk_def rawsWithin_def)

lemma dbInv_raws: "dbInv d \<Longrightarrow> wfMap (db_raws (saveRawRows rs d)) \<Longrightarrow> dbInv (saveRawRows rs d)"
  by (simp add: dbInv_def)

lemma dbWithin_raws: "dbWithin d g \<Longrightarrow> dbWithin (saveRawRows rs d) g"
  by (simp add: dbWithin_def)

lemma daemonInv_flush:
  assumes "daemonInv d"
  shows "daemonInv (flush w d)"
proof -
  let ?s = "dm_raws d" and ?g = "graphOf d"
  let ?d1 = "saveRows (All ?g) (dm_db d)"
  have inv: "graphInv ?g" "rawInv ?s" "dbInv (dm_db d)" "dbWithin (dm_db d) ?g" "rawRowsOk (dm_db d)"
    "rawsWithin (dm_db d) ?s" using assms by (auto simp: daemonInv_def)
  have 1: "dbInv ?d1" "dbWithin ?d1 ?g" "rawRowsOk ?d1" "rawsWithin ?d1 ?s"
    using inv dbInv_saveRows All_savable dbWithin_save raws_cong [of ?d1 "dm_db d"] by auto
  moreover have "rawRowsOk (saveRawRows (snapshot ?s) ?d1)" "rawsWithin (saveRawRows (snapshot ?s) ?d1) ?s"
    using rawRowsOk_save [OF 1(3) inv(2)] rawsWithin_save [OF 1(4) inv(2)] .
  moreover from this have "dbInv (saveRawRows (snapshot ?s) ?d1)" "dbWithin (saveRawRows (snapshot ?s) ?d1) ?g"
    using dbInv_raws [OF 1(1)] dbWithin_raws [OF 1(2)] by (simp_all add: rawRowsOk_def)
  moreover have "dm_db (flush w d) \<in> {dm_db d, ?d1, saveRawRows (snapshot ?s) ?d1}"
    unfolding dm_db_flush by simp
  ultimately show ?thesis using assms inv unfolding daemonInv_def flush_simps by auto
qed

lemma daemonInv_decay:
  assumes "daemonInv d" "wo_pruneOk w"
  shows "daemonInv (decay w d)"
proof -
  obtain res g' where dec: "Decay (wo_now w) (HalfLife (dm_opts d)) (MaxIdle (dm_opts d)) (graphOf d) = (res, g')"
    by fastforce
  have inv: "graphInv (graphOf d)" "rawInv (dm_raws d)" "dbInv (dm_db d)" "dbWithin (dm_db d) (graphOf d)"
    "rawRowsOk (dm_db d)" "rawsWithin (dm_db d) (dm_raws d)" using assms by (auto simp: daemonInv_def)
  let ?db = "pruneRows (dr_Pruned res) (dr_Orphaned res) (dm_db d)"
  have g': "graphInv g'" using graphInv_Decay [OF inv(1)] dec by (metis snd_conv)
  have raws: "rawInv (dropOrphaned (dr_Orphaned res) (dm_raws d))" by (rule rawInv_dropOrphaned [OF inv(2)])
  have db: "dbInv ?db" "dbWithin ?db g'"
    using dbInv_prune [OF inv(3)] dbWithin_prune [OF inv(1,3,4) dec] by auto
  have rows: "rawRowsOk ?db" using inv(5) by (auto simp: rawRowsOk_def pruneRows_def intro: wfMap_filter)
  have within: "rawsWithin ?db (dropOrphaned (dr_Orphaned res) (dm_raws d))"
    unfolding rawsWithin_def
  proof
    fix row assume row: "row \<in> set (db_raws ?db)"
    moreover obtain st t raw r where "row = (((st, t), raw), r)" by (metis surj_pair)
    ultimately have r: "row = (((st, t), raw), r)" "row \<in> set (db_raws (dm_db d))" "t \<notin> set (dr_Orphaned res)"
      by (auto simp: pruneRows_def)
    then have v: "validState st" and l: "tlLookup (rs_m (dm_raws d)) (rawOuterKey st t) raw \<noteq> None"
      using inv(5,6) by (auto simp: rawRowsOk_def rawsWithin_def)
    have "\<not> orphanKey (dr_Orphaned res) (rawOuterKey st t)"
      using splitOuterKey_key [OF v] r(3) by (simp add: orphanKey_def)
    then show "(\<lambda>(((st, t), raw), _).
        tlLookup (rs_m (dropOrphaned (dr_Orphaned res) (dm_raws d))) (rawOuterKey st t) raw \<noteq> None) row"
      using l by (simp add: r(1) lookup_dropOrphaned)
  qed

  show ?thesis
    using assms inv g' raws db rows within
    by (auto simp: decay_def dec Let_def daemonInv_def prune_def)
qed

subsection \<open>A concrete daemon\<close>

definition demoWorld :: world where
  "demoWorld = \<lparr>wo_now = 100, wo_parseTime = (\<lambda>_. Inl ''bad time''), wo_formatTime = (\<lambda>_. []),
     wo_decodeSeed = (\<lambda>_. Inl ''bad json''), wo_quote = id, wo_abs = Inr, wo_lstat = (\<lambda>_. NotExist),
     wo_readFile = (\<lambda>_. Inl ''no file''), wo_saveOk = True, wo_saveRawsOk = True, wo_pruneOk = True,
     wo_clearOk = (True, True, True)\<rparr>"

definition demoDaemon :: daemon where
  "demoDaemon = newDaemon (\<lambda>_. None) defaults"

lemma demoDaemon_simps [simp]:
  "graphOf demoDaemon = New 2" "dm_raws demoDaemon = newRawStore (HalfLife defaults)"
  "dm_db demoDaemon = emptyDB" "dm_dirty demoDaemon = 0" "dm_flushCh demoDaemon = False"
  "dm_redactor demoDaemon = NewMatcher (\<lambda>_. None) []" "dm_predG demoDaemon = 0" "dm_g demoDaemon = 0"
  "dm_opts demoDaemon = defaults" "dm_fresh demoDaemon = 1"
  by (simp_all add: demoDaemon_def newDaemon_def graphOf_def defaults_def)

lemma daemonInv_new: "daemonInv (newDaemon compile opt)"
  by (simp add: daemonInv_def newDaemon_def graphOf_def)

end
