(* ===== verification/Runnable.thy ===== *)
theory Runnable
  imports Go_Text
begin

text \<open>
  ipc/runnable.go: what may be shown of a suggestion. A template that still holds a placeholder
  describes a shape of commands and is never offered as a command.
\<close>

definition placeholders :: "string set" where
  "placeholders = {''FLAG'', ''PATH'', ''REPO'', ''HASH'', ''NUM'', ''STR'', ''KWARGS''}"

fun anyPlaceholder :: "string list \<Rightarrow> bool" where
  "anyPlaceholder [] = False"
| "anyPlaceholder (tok # toks) = (if tok \<in> placeholders then True else anyPlaceholder toks)"

definition DisplayCommand :: "string \<Rightarrow> string \<Rightarrow> string" where
  "DisplayCommand raw template =
     (if raw \<noteq> [] then raw
      else if anyPlaceholder (Fields template) then [] else template)"

lemma anyPlaceholder_iff: "anyPlaceholder toks \<longleftrightarrow> set toks \<inter> placeholders \<noteq> {}"
  by (induction toks) auto

subsection \<open>Fields of a template\<close>

definition spaceFree :: "string \<Rightarrow> bool" where
  \<comment> \<open>no white space begins in the word, whatever follows it\<close>
  "spaceFree w \<longleftrightarrow> (\<forall>c\<in>set w. of_char c < (128 :: nat) \<and> c \<notin> {TAB, LF, VT, FF, CR, CHR '' ''})"

lemma spaceAt_ascii:
  assumes "of_char c < (128 :: nat)" "c \<notin> {TAB, LF, VT, FF, CR, CHR '' ''}"
  shows "spaceAt (c # s) = 0"
proof -
  have "c \<noteq> CHR 0xC2" "c \<noteq> CHR 0xE1" "c \<noteq> CHR 0xE2" "c \<noteq> CHR 0xE3" using assms(1) by auto
  then have "\<not> prefix w (c # s)" if "w \<in> set spaceRunes" for w
    using that assms(2) by (auto simp: spaceRunes_def)
  then have "find (\<lambda>w. prefix w (c # s)) spaceRunes = None" by (auto simp: find_None_iff)
  then show ?thesis by (simp add: spaceAt_def)
qed

lemma fieldsFrom_word: "spaceFree w \<Longrightarrow> fieldsFrom acc (w @ s) = fieldsFrom (acc @ w) s"
  by (induction w arbitrary: acc) (auto simp: spaceFree_def spaceAt_ascii)

lemma spaceAt_blank: "spaceAt (CHR '' '' # s) = 1"
  by (simp add: spaceAt_def spaceRunes_def)

lemma Fields_Join:
  "\<forall>w\<in>set ws. spaceFree w \<and> w \<noteq> [] \<Longrightarrow> Fields (Join ws '' '') = ws"
proof -
  have "fieldsFrom [] (Join ws '' '') = ws" if "\<forall>w\<in>set ws. spaceFree w \<and> w \<noteq> []"
    using that
  proof (induction ws "'' ''" rule: Join.induct)
    case (2 x)
    then show ?case using fieldsFrom_word [of x "[]" "[]"] by simp
  next
    case (3 x y zs)
    then show ?case using fieldsFrom_word [of x "[]" "CHR '' '' # Join (y # zs) '' ''"]
      by (simp add: spaceAt_blank)
  qed simp
  then show "\<forall>w\<in>set ws. spaceFree w \<and> w \<noteq> [] \<Longrightarrow> Fields (Join ws '' '') = ws"
    by (simp add: Fields_def)
qed

text \<open>What is shown is the concrete command where there is one. A template of words is shown as it
  is exactly when none of its words is a placeholder; otherwise nothing is shown.\<close>

theorem DisplayCommand_runnable:
  assumes "\<forall>w\<in>set ws. spaceFree w \<and> w \<noteq> []"
  shows "DisplayCommand raw (Join ws '' '')
    = (if raw \<noteq> [] then raw
       else if set ws \<inter> {''FLAG'', ''PATH'', ''REPO'', ''HASH'', ''NUM'', ''STR'', ''KWARGS''} = {}
         then Join ws '' '' else [])"
  by (simp add: DisplayCommand_def Fields_Join [OF assms] anyPlaceholder_iff placeholders_def)

theorem DisplayCommand_runnable_witness:
  "DisplayCommand [] ''git push'' = ''git push'' \<and> DisplayCommand [] ''git commit FLAG STR'' = []
     \<and> DisplayCommand ''git commit -m x'' ''git commit FLAG STR'' = ''git commit -m x''"
proof -
  have "\<forall>w\<in>set [''git'', ''push'']. spaceFree w \<and> w \<noteq> []"
    "\<forall>w\<in>set [''git'', ''commit'', ''FLAG'', ''STR'']. spaceFree w \<and> w \<noteq> []"
    by (simp_all add: spaceFree_def)
  from DisplayCommand_runnable [OF this(1), of "[]"] DisplayCommand_runnable [OF this(2)]
  show ?thesis by simp
qed

end
