(* ===== verification/Handlers.thy ===== *)
theory Handlers
  imports Daemon Runnable
begin

text \<open>
  The request handlers of daemon/handlers.go and their dispatch, with the two filters of
  daemon.go they apply. A handler takes what it uses of the outside, the request and the state,
  and returns the response it writes and the new state. Writing the response can fail only on
  the side of the client, which changes nothing here.
\<close>

definition parseAt :: "world \<Rightarrow> string \<Rightarrow> string + gotime" where
  \<comment> \<open>of daemon/ipc.go\<close>
  "parseAt w s =
     (if TrimSpace s = [] then Inr zeroTime
      else case wo_parseTime w s of Inl err \<Rightarrow> Inl (''parse at: '' @ err) | Inr t \<Rightarrow> Inr t)"

definition requestTime :: "world \<Rightarrow> string \<Rightarrow> string + gotime" where
  "requestTime w raw =
     (case parseAt w raw of
        Inl err \<Rightarrow> Inl err
      | Inr tm \<Rightarrow> if IsZero tm then Inr (wo_now w) else Inr tm)"

subsection \<open>Recording\<close>

definition signalFlush :: "daemon \<Rightarrow> daemon" where
  \<comment> \<open>\<open>if d.dirty.Add(1) >= flushThreshold\<close> and the send that never blocks\<close>
  "signalFlush d =
     (let n = wrap32 (dm_dirty d + 1)
      in d\<lparr>dm_dirty := n, dm_flushCh := (if flushThreshold \<le> n then True else dm_flushCh d)\<rparr>)"

definition recordStates :: "string list option \<Rightarrow> request \<Rightarrow> string list list" where
  \<comment> \<open>the normalized state of the request and its generalizations\<close>
  "recordStates parents req =
     BackoffStates ((if q_CWD req \<noteq> [] then [Clean (q_CWD req)] else []) @
         map (\<lambda>raw. Normalize raw parents) (q_State req)) (q_CWD req \<noteq> [])"

definition accepts :: "string list option \<Rightarrow> request \<Rightarrow> bool" where
  "accepts parents req \<longleftrightarrow>
     q_Suggested req \<noteq> [] \<and> Normalize (q_Suggested req) parents = Normalize (q_Next req) parents"

definition recordObsOf :: "string list option \<Rightarrow> request \<Rightarrow> gotime \<Rightarrow> string list \<Rightarrow> observation" where
  "recordObsOf parents req tm st =
     \<lparr>o_State = st, o_Next = Normalize (q_Next req) parents, o_At = tm, o_CWD = q_CWD req,
      o_NextOutcome = q_Outcome req, o_PriorOutcome = q_PriorOutcome req, o_Accepted = accepts parents req\<rparr>"

definition handleRecord :: "world \<Rightarrow> request \<Rightarrow> daemon \<Rightarrow> response \<times> daemon" where
  "handleRecord w req d =
     (case requestTime w (q_At req) of
        Inl err \<Rightarrow> (ErrorResponse (''bad at: '' @ err), d)
      | Inr tm \<Rightarrow>
          if IsSensitive (dm_redactor d) (q_Next req) then (OKResponse, d)
          else
            (let parents = dm_parents d;
                 states = recordStates parents req;
                 d1 = setGraph (recordAll states (recordObsOf parents req tm) (graphOf d)) d;
                 d2 = d1\<lparr>dm_raws := fold (\<lambda>st. recordRaw st (Normalize (q_Next req) parents) (q_Next req) tm)
                        states (dm_raws d1)\<rparr>
             in (OKResponse, signalFlush d2)))"

definition handleRecordRaws :: "world \<Rightarrow> request \<Rightarrow> daemon \<Rightarrow> response \<times> daemon" where
  "handleRecordRaws w req d =
     (OKResponse, d\<lparr>dm_raws := mergeExamples (q_RawExamples req) (wo_now w) (dm_raws d)\<rparr>)"

subsection \<open>Predicting\<close>

definition filterByPrefix :: "suggestion list \<Rightarrow> string \<Rightarrow> string list option \<Rightarrow> suggestion list" where
  "filterByPrefix suggestions prfx parents =
     (let normPrefix = Normalize prfx parents
      in filter (\<lambda>s. HasPrefix (g_Template s) normPrefix) suggestions)"

definition cdTarget :: "string \<Rightarrow> string" where
  "cdTarget raw = TrimSpace (TrimPrefix raw ''cd '')"

definition suppressCdToCurrent :: "suggestion list \<Rightarrow> string \<Rightarrow> suggestion list" where
  "suppressCdToCurrent suggestions cwd =
     (if cwd = [] \<or> length suggestions = 0 then suggestions
      else filter (\<lambda>s. \<not> (g_Template s = ''cd PATH'' \<and> g_Raw s \<noteq> [] \<and>
             (let target = cdTarget (g_Raw s)
              in target = ''.'' \<or> HasSuffix cwd (''/'' @ target) \<or> cwd = target))) suggestions)"

definition previousOf :: "string list option \<Rightarrow> request \<Rightarrow> command list" where
  "previousOf parents req = map (\<lambda>raw. commandOf (Normalize raw parents)) (q_State req)"

definition cleanCWD :: "request \<Rightarrow> string" where
  "cleanCWD req = (if q_CWD req \<noteq> [] then Clean (q_CWD req) else q_CWD req)"

definition templatesOf :: "command list \<Rightarrow> string list" where
  "templatesOf prev = map c_Template (filter (\<lambda>cmd. c_Template cmd \<noteq> []) prev)"

definition fallbackOf :: "daemon \<Rightarrow> request \<Rightarrow> gotime \<Rightarrow> fallbackResult" where
  \<comment> \<open>the call of \<open>d.predictFallback\<close> both handlers make\<close>
  "fallbackOf d req tm =
     predictFallback (livePredictor d) (op_MinCount (dm_opts d)) (op_MinConfidence (dm_opts d))
       (previousOf (dm_parents d) req) (cleanCWD req) (q_PriorOutcome req) tm"

definition shownBefore :: "daemon \<Rightarrow> request \<Rightarrow> gotime \<Rightarrow> suggestion list" where
  \<comment> \<open>the suggestions of \<open>handlePredict\<close> before they are hydrated\<close>
  "shownBefore d req tm =
     (let s0 = fr_suggestions (fallbackOf d req tm);
          s1 = (if q_Prefix req \<noteq> [] then filterByPrefix s0 (q_Prefix req) (dm_parents d) else s0);
          s2 = suppressCdToCurrent s1 (cleanCWD req)
      in if 0 < q_Limit req \<and> q_Limit req < int (length s2) then take (nat (q_Limit req)) s2 else s2)"

definition handlePredict :: "world \<Rightarrow> request \<Rightarrow> daemon \<Rightarrow> response \<times> daemon" where
  "handlePredict w req d =
     (case requestTime w (q_At req) of
        Inl err \<Rightarrow> (ErrorResponse (''bad at: '' @ err), d)
      | Inr tm \<Rightarrow>
          (SuggestionsResponse (hydrate (dm_raws d) (shownBefore d req tm)
             (templatesOf (previousOf (dm_parents d) req)) (q_Prefix req)
             (collectArgTokens (q_State req) (dm_parents d)) tm (q_Limit req)), d))"

definition withCandidates ::
  "daemon \<Rightarrow> request \<Rightarrow> gotime \<Rightarrow> string list \<Rightarrow> scoreBreakdownJSON \<Rightarrow> scoreBreakdownJSON" where
  "withCandidates d req tm templates b =
     (let ranked = topNLocked (dm_raws d) templates (bj_Next b) (q_Prefix req)
            (collectArgTokens (q_State req) (dm_parents d)) tm maxHydrationCandidates
      in if length ranked < 2 then b
         else b\<lparr>bj_HydrationCandidates := map (\<lambda>r. \<lparr>hc_Raw = sc_Raw r, hc_Score = sc_Score r\<rparr>) ranked\<rparr>)"

definition handleExplain :: "world \<Rightarrow> request \<Rightarrow> daemon \<Rightarrow> response \<times> daemon" where
  "handleExplain w req d =
     (case requestTime w (q_At req) of
        Inl err \<Rightarrow> (ErrorResponse (''bad at: '' @ err), d)
      | Inr tm \<Rightarrow>
          (let fr = fallbackOf d req tm;
               templates = templatesOf (fr_state fr);
               limit = (if q_Limit req \<le> 0 then 5 else q_Limit req);
               breakdown = Explain (livePredictor d)
                 \<lparr>s_Previous = fr_state fr, s_CWD = fr_cwd fr, s_PriorOutcome = q_PriorOutcome req\<rparr> tm limit
           in (ExplainResponse
                 \<lparr>ex_Level = fr_level fr, ex_State = templates, ex_CWD = fr_cwd fr,
                  ex_MinConfidence = op_MinConfidence (dm_opts d), ex_MinCount = op_MinCount (dm_opts d),
                  ex_Breakdown = map (withCandidates d req tm templates) (BreakdownFromPredict breakdown)\<rparr>, d)))"

subsection \<open>Maintenance\<close>

definition handleReset :: "world \<Rightarrow> daemon \<Rightarrow> response \<times> daemon" where
  \<comment> \<open>a new graph object, and a new predictor over it\<close>
  "handleReset w d =
     (let d1 = d\<lparr>dm_heap := (dm_heap d)(dm_fresh d := New 2), dm_g := dm_fresh d, dm_fresh := dm_fresh d + 1\<rparr>;
          d2 = storePredictor d1;
          (ok1, ok2, ok3) = wo_clearOk w
      in (OKResponse, d2\<lparr>dm_db := snd (clear ok1 ok2 ok3 (dm_db d2)), dm_raws := resetRaws (dm_raws d2),
            dm_dirty := 0\<rparr>))"

definition handleExport :: "world \<Rightarrow> daemon \<Rightarrow> response \<times> daemon" where
  "handleExport w d =
     (TransitionsResponse (map (TransitionFromGraph (wo_formatTime w)) (All (graphOf d))), d)"

definition handleStats :: "daemon \<Rightarrow> response \<times> daemon" where
  "handleStats d =
     (StatsResponse \<lparr>sr_Size = Size (graphOf d), sr_HalfLife = HalfLife (dm_opts d),
        sr_Alpha = op_Alpha (dm_opts d), sr_DBPath = op_DBPath (dm_opts d)\<rparr>, d)"

definition handleConfig :: "daemon \<Rightarrow> response \<times> daemon" where
  "handleConfig d =
     (ConfigResponse \<lparr>cr_AcceptKeys = op_AcceptKeys (dm_opts d), cr_ExtraParents = op_ExtraParents (dm_opts d),
        cr_HalfLife = HalfLife (dm_opts d), cr_Alpha = op_Alpha (dm_opts d)\<rparr>, d)"

definition handleNormalize :: "request \<Rightarrow> daemon \<Rightarrow> response \<times> daemon" where
  "handleNormalize req d =
     (let raw = (if q_Next req = [] \<and> 0 < length (q_State req) then last (q_State req) else q_Next req)
      in if raw = [] then (ErrorResponse ''no input to normalize'', d)
         else (NormalizeResponse \<lparr>nr_Raw = raw, nr_Template = Normalize raw (dm_parents d)\<rparr>, d))"

definition handleImport :: "world \<Rightarrow> request \<Rightarrow> daemon \<Rightarrow> response \<times> daemon" where
  "handleImport w req d =
     (if q_SeedData req \<noteq> [] then
        (case importSeedFromBytes w (q_SeedData req) d of
           Inl err \<Rightarrow> (ErrorResponse (''import failed: '' @ err), d)
         | Inr d' \<Rightarrow> (OKResponse, storePredictor d'))
      else if q_Next req = [] then (ErrorResponse ''import path required'', d)
      else case wo_abs w (q_Next req) of
             Inl err \<Rightarrow> (ErrorResponse (''bad path: '' @ err), d)
           | Inr path \<Rightarrow>
               (case checkImportable w path of
                  Some err \<Rightarrow> (ErrorResponse err, d)
                | None \<Rightarrow>
                    (case importSeed w path d of
                       Inl err \<Rightarrow> (ErrorResponse (''import failed: '' @ err), d)
                     | Inr d' \<Rightarrow> (OKResponse, storePredictor d'))))"

subsection \<open>Dispatch\<close>

definition dispatch :: "world \<Rightarrow> request \<Rightarrow> daemon \<Rightarrow> response \<times> daemon" where
  "dispatch w req d =
     (if q_Op req = ''record'' then handleRecord w req d
      else if q_Op req = ''predict'' then handlePredict w req d
      else if q_Op req = ''explain'' then handleExplain w req d
      else if q_Op req = ''reset'' then handleReset w d
      else if q_Op req = ''export'' then handleExport w d
      else if q_Op req = ''stats'' then handleStats d
      else if q_Op req = ''normalize'' then handleNormalize req d
      else if q_Op req = ''config'' then handleConfig d
      else if q_Op req = ''import'' then handleImport w req d
      else if q_Op req = ''record_raws'' then handleRecordRaws w req d
      else (ErrorResponse (''unknown op: '' @ q_Op req), d))"

definition handleConn :: "world \<Rightarrow> request option \<Rightarrow> daemon \<Rightarrow> response \<times> daemon" where
  \<comment> \<open>\<open>None\<close>: the message does not decode to a request\<close>
  "handleConn w msg d =
     (case msg of None \<Rightarrow> (ErrorResponse ''bad request'', d) | Some req \<Rightarrow> dispatch w req d)"


subsection \<open>What changes the state and what does not\<close>

lemma asking_simps [simp]:
  "snd (handlePredict w req d) = d" "snd (handleExplain w req d) = d" "snd (handleExport w d) = d"
  "snd (handleStats d) = d" "snd (handleConfig d) = d" "snd (handleNormalize req d) = d"
  by (simp_all add: handlePredict_def handleExplain_def handleExport_def handleStats_def handleConfig_def
      handleNormalize_def Let_def split: sum.split)

lemma answers_ok [simp]: "fst (handleReset w d) = OKResponse" "fst (handleRecordRaws w req d) = OKResponse"
  by (simp_all add: handleReset_def handleRecordRaws_def Let_def split: prod.split)

lemma record_error: "fst (handleRecord w req d) = ErrorResponse err \<Longrightarrow> snd (handleRecord w req d) = d"
  by (simp add: handleRecord_def Let_def split: sum.splits if_splits)

lemma import_error: "fst (handleImport w req d) = ErrorResponse err \<Longrightarrow> snd (handleImport w req d) = d"
  by (simp add: handleImport_def split: sum.splits if_splits option.splits)

text \<open>Asking never changes anything: no operation other than \<open>record\<close>, \<open>record_raws\<close>, \<open>import\<close> and
  \<open>reset\<close> changes the state, and neither does a message that is no request.\<close>

theorem queries_read_only:
  assumes "\<forall>req. msg = Some req \<longrightarrow> q_Op req \<notin> {''record'', ''record_raws'', ''import'', ''reset''}"
  shows "snd (handleConn w msg d) = d"
  using assms
  by (cases msg) (simp_all add: handleConn_def dispatch_def)

theorem queries_read_only_witness:
  "snd (handleConn demoWorld (Some (request0\<lparr>q_Op := ''predict'', q_Next := ''ls''\<rparr>)) demoDaemon) = demoDaemon"
  by (rule queries_read_only) (simp add: request0_def)

text \<open>An operation that reports an error has changed nothing, and every message is answered.\<close>

theorem error_changes_nothing:
  assumes "fst (handleConn w msg d) = ErrorResponse err"
  shows "snd (handleConn w msg d) = d"
  using assms
  by (cases msg) (simp_all add: handleConn_def dispatch_def record_error import_error split: if_splits)

theorem error_changes_nothing_witness:
  "fst (handleConn demoWorld (Some (request0\<lparr>q_Op := ''frob''\<rparr>)) demoDaemon) = ErrorResponse ''unknown op: frob''
   \<and> snd (handleConn demoWorld (Some (request0\<lparr>q_Op := ''frob''\<rparr>)) demoDaemon) = demoDaemon"
proof -
  have "fst (handleConn demoWorld (Some (request0\<lparr>q_Op := ''frob''\<rparr>)) demoDaemon)
      = ErrorResponse ''unknown op: frob''"
    by (simp add: handleConn_def dispatch_def)
  with error_changes_nothing [OF this] show ?thesis by simp
qed

text \<open>A sensitive command leaves no trace: recording one is answered like any other (so the shell
  notices nothing), and graph, raw commands, counters and database stay as they were.\<close>

theorem sensitive_not_recorded:
  assumes "IsSensitive (dm_redactor d) (q_Next req)" "requestTime w (q_At req) = Inr tm"
  shows "handleRecord w req d = (OKResponse, d)"
  using assms by (simp add: handleRecord_def)

lemma demo_time [simp]: "requestTime demoWorld [] = Inr 100"
proof -
  have "TrimSpace [] = []" by code_simp
  then show ?thesis by (simp add: requestTime_def parseAt_def demoWorld_def IsZero_def zeroTime_def)
qed

theorem sensitive_not_recorded_witness:
  "handleRecord demoWorld (request0\<lparr>q_Next := ''export GH_Token_2=abc''\<rparr>) demoDaemon = (OKResponse, demoDaemon)"
proof (rule sensitive_not_recorded)
  have "\<forall>c\<in>set (''GH_'' @ ''_2''). isWordByte c" "map lowerByte ''Token'' \<in> set secretNames"
    "wordStart ''export ''" "\<not> isSpace CHR ''a''" by code_simp+
  then show "IsSensitive (dm_redactor demoDaemon) (q_Next (request0\<lparr>q_Next := ''export GH_Token_2=abc''\<rparr>))"
    using secret_assignment_sensitive
        [of "''export ''" "''GH_''" "''_2''" "''Token''" "[]" "[]" "CHR ''a''" "\<lambda>p. None" "[]" "''bc''"]
    by (simp add: spaces_def)
  show "requestTime demoWorld (q_At (request0\<lparr>q_Next := ''export GH_Token_2=abc''\<rparr>)) = Inr 100"
    by (simp add: request0_def)
qed

subsection \<open>Recording\<close>

lemma signalFlush_simps [simp]:
  "graphOf (signalFlush d) = graphOf d" "dm_raws (signalFlush d) = dm_raws d" "dm_db (signalFlush d) = dm_db d"
  "dm_predG (signalFlush d) = dm_predG d" "dm_g (signalFlush d) = dm_g d" "dm_fresh (signalFlush d) = dm_fresh d"
  "dm_opts (signalFlush d) = dm_opts d" "dm_redactor (signalFlush d) = dm_redactor d"
  "dm_parents (signalFlush d) = dm_parents d"
  by (simp_all add: signalFlush_def Let_def graphOf_def)

lemma handleRecord_eq:
  assumes "requestTime w (q_At req) = Inr tm" "\<not> IsSensitive (dm_redactor d) (q_Next req)"
  shows "handleRecord w req d =
    (OKResponse, signalFlush
      ((setGraph (recordAll (recordStates (dm_parents d) req) (recordObsOf (dm_parents d) req tm) (graphOf d)) d)
         \<lparr>dm_raws := fold (\<lambda>st. recordRaw st (Normalize (q_Next req) (dm_parents d)) (q_Next req) tm)
            (recordStates (dm_parents d) req) (dm_raws d)\<rparr>))"
  using assms by (simp add: handleRecord_def Let_def)

lemma lookup_recordRaws_kept:
  "tlLookup (rs_m s) k raw \<noteq> None \<Longrightarrow> tlLookup (rs_m (fold (\<lambda>st. recordRaw st t r tm) states s)) k raw \<noteq> None"
  by (induction states arbitrary: s) (auto simp: lookup_recordRaw)

lemma lookup_recordRaws:
  "st \<in> set states \<Longrightarrow> tlLookup (rs_m (fold (\<lambda>st. recordRaw st t r tm) states s)) (rawOuterKey st t) r \<noteq> None"
proof (induction states arbitrary: s)
  case (Cons x states)
  show ?case
  proof (cases "st = x")
    case True
    have "tlLookup (rs_m (recordRaw x t r tm s)) (rawOuterKey x t) r \<noteq> None" by (simp add: lookup_recordRaw)
    from lookup_recordRaws_kept [OF this] show ?thesis by (simp add: True)
  next
    case False
    then show ?thesis using Cons by simp
  qed
qed simp

lemma record_keeps:
  "handleRecord w req d = (r, d') \<Longrightarrow> dm_opts d' = dm_opts d \<and> dm_parents d' = dm_parents d \<and> dm_pred d' = dm_pred d
     \<and> dm_predG d' = dm_predG d \<and> dm_g d' = dm_g d \<and> dm_redactor d' = dm_redactor d \<and> dm_db d' = dm_db d"
  by (auto simp: handleRecord_def Let_def signalFlush_def setGraph_def split: sum.splits if_splits)

text \<open>Every state of the request gets the observation once, and the raw command with it.\<close>

lemma record_counts:
  assumes rec: "requestTime w (q_At req) = Inr tm" "\<not> IsSensitive (dm_redactor d) (q_Next req)"
    and nxt: "nxt = Normalize (q_Next req) (dm_parents d)" "nxt \<noteq> []"
    and inv: "graphInv (graphOf d)" "roomy (graphOf d)"
    and result: "handleRecord w req d = (r, d')"
  shows "r = OKResponse" "graphInv (graphOf d')" "dm_db d' = dm_db d"
    and "graphOf d' = recordAll (recordStates (dm_parents d) req) (recordObsOf (dm_parents d) req tm) (graphOf d)"
    and "st \<in> set (recordStates (dm_parents d) req) \<Longrightarrow>
         (\<exists>e. lookupEntry (graphOf d') (stateKey st) nxt = Some e
            \<and> e_count e = 1 + (case lookupEntry (graphOf d) (stateKey st) nxt of None \<Rightarrow> 0 | Some e0 \<Rightarrow> e_count e0))
         \<and> tlLookup (rs_m (dm_raws d')) (rawOuterKey st nxt) (q_Next req) \<noteq> None"
proof -
  let ?states = "recordStates (dm_parents d) req"
  let ?obs = "recordObsOf (dm_parents d) req tm"
  have d': "r = OKResponse" "graphOf d' = recordAll ?states ?obs (graphOf d)" "dm_db d' = dm_db d"
    "dm_raws d' = fold (\<lambda>st. recordRaw st nxt (q_Next req) tm) ?states (dm_raws d)"
    using result by (auto simp: handleRecord_eq [OF rec] nxt)
  then show "r = OKResponse" "dm_db d' = dm_db d" "graphOf d' = recordAll ?states ?obs (graphOf d)" by blast+
  have obs: "\<forall>st. o_State (?obs st) = st \<and> o_Next (?obs st) = nxt" by (simp add: recordObsOf_def nxt)
  have counts: "graphInv (graphOf d')"
    "\<And>st. st \<in> set ?states \<Longrightarrow> \<exists>e. lookupEntry (graphOf d') (stateKey st) nxt = Some e
      \<and> observed (?obs st) (case lookupEntry (graphOf d) (stateKey st) nxt of None \<Rightarrow> entry0 | Some e \<Rightarrow> e) e"
    using recordAll_counts [OF inv(1,2) obs nxt(2)] unfolding recordStates_def d'(2) by blast+
  show "graphInv (graphOf d')" by (rule counts(1))
  show "(\<exists>e. lookupEntry (graphOf d') (stateKey st) nxt = Some e
      \<and> e_count e = 1 + (case lookupEntry (graphOf d) (stateKey st) nxt of None \<Rightarrow> 0 | Some e0 \<Rightarrow> e_count e0))
    \<and> tlLookup (rs_m (dm_raws d')) (rawOuterKey st nxt) (q_Next req) \<noteq> None" if "st \<in> set ?states"
    using counts(2) [OF that] lookup_recordRaws [OF that] unfolding d'(4)
    by (auto simp: observed_def entry0_def split: option.splits)
qed

text \<open>C8: Recording a command that is not sensitive observes it once under each of its states (the full
  one and its generalizations), files the raw command under the same states, so that what can be
  suggested can also be shown, and asks for a flush from the fiftieth unsaved record on.\<close>

theorem record_effect:
  assumes rec: "requestTime w (q_At req) = Inr tm" "\<not> IsSensitive (dm_redactor d) (q_Next req)"
    and nxt: "nxt = Normalize (q_Next req) (dm_parents d)" "nxt \<noteq> []"
    and inv: "graphInv (graphOf d)" "roomy (graphOf d)" "0 \<le> dm_dirty d" "dm_dirty d < 2147483647"
    and result: "handleRecord w req d = (r, d')"
  shows "r = OKResponse \<and> graphInv (graphOf d')
    \<and> (\<forall>st\<in>set (recordStates (dm_parents d) req).
         (\<exists>e. lookupEntry (graphOf d') (stateKey st) nxt = Some e
            \<and> e_count e = 1 + (case lookupEntry (graphOf d) (stateKey st) nxt of None \<Rightarrow> 0 | Some e0 \<Rightarrow> e_count e0))
         \<and> tlLookup (rs_m (dm_raws d')) (rawOuterKey st nxt) (q_Next req) \<noteq> None)
    \<and> dm_dirty d' = dm_dirty d + 1
    \<and> dm_flushCh d' = (dm_flushCh d \<or> 50 \<le> dm_dirty d')
    \<and> dm_db d' = dm_db d"
proof -
  have "dm_dirty d' = wrap32 (dm_dirty d + 1) \<and> dm_flushCh d' = (dm_flushCh d \<or> 50 \<le> dm_dirty d')"
    using result by (auto simp: handleRecord_eq [OF rec] signalFlush_def Let_def flushThreshold_def)
  moreover have "wrap32 (dm_dirty d + 1) = dm_dirty d + 1"
    using inv by (simp add: wrap32_def signed_take_bit_int_eq_self)
  ultimately show ?thesis using record_counts [OF rec nxt inv(1,2) result] by auto
qed


lemma ls_not_sensitive: "\<not> IsSensitive (NewMatcher compile []) ''ls''"
proof (rule ordinary_not_sensitive)
  fix u t :: string assume "''ls'' = u @ ''-'' @ t"
  then have "CHR ''-'' \<in> set ''ls''" by simp
  then show "\<not> wordStart u" by simp
qed simp_all

lemma ls_template: "Normalize ''ls'' ps \<noteq> []"
proof -
  have "Tokenize ''ls'' = [''ls'']" by code_simp
  then show ?thesis by (simp add: Normalize_empty)
qed

definition demoRequest :: request where
  "demoRequest = request0\<lparr>q_Op := ''record'', q_Next := ''ls'', q_CWD := ''/p''\<rparr>"

lemma demoRequest_simps [simp]:
  "q_At demoRequest = []" "q_Next demoRequest = ''ls''" "q_CWD demoRequest = ''/p''" "q_State demoRequest = []"
  "q_Op demoRequest = ''record''"
  by (simp_all add: demoRequest_def request0_def)

lemma demoRequest_states: "recordStates ps demoRequest = [[''/p'']]"
proof -
  have "Clean ''/p'' = ''/p''" by code_simp
  then show ?thesis by (simp add: recordStates_def BackoffStates_def appendIfInformative_def)
qed

theorem record_effect_witness:
  "\<exists>d'. handleRecord demoWorld demoRequest demoDaemon = (OKResponse, d') \<and> dm_dirty d' = 1 \<and> \<not> dm_flushCh d'
     \<and> (\<exists>e. lookupEntry (graphOf d') ''/p'' (Normalize ''ls'' (dm_parents demoDaemon)) = Some e \<and> e_count e = 1)
     \<and> tlLookup (rs_m (dm_raws d')) (rawOuterKey [''/p''] (Normalize ''ls'' (dm_parents demoDaemon))) ''ls'' \<noteq> None"
proof -
  obtain r d' where res: "handleRecord demoWorld demoRequest demoDaemon = (r, d')" by fastforce
  have t: "requestTime demoWorld (q_At demoRequest) = Inr 100" by simp
  have s: "\<not> IsSensitive (dm_redactor demoDaemon) (q_Next demoRequest)" by (simp add: ls_not_sensitive)
  have n: "Normalize (q_Next demoRequest) (dm_parents demoDaemon) \<noteq> []" by (simp add: ls_template)
  have none: "lookupEntry (New 2) sk nxt = None" for sk nxt by (simp add: New_def)
  then have "roomy (graphOf demoDaemon)" by (simp add: roomy_def)
  from record_effect [OF t s refl n _ this _ _ res] show ?thesis
    by (simp add: demoRequest_states stateKey_def none res)
qed

subsection \<open>Predicting and explaining\<close>


lemma shownBefore_fallback:
  assumes "s \<in> set (shownBefore d req tm)"
  shows "s \<in> set (fr_suggestions (fallbackOf d req tm))"
    and "q_Prefix req \<noteq> [] \<Longrightarrow> HasPrefix (g_Template s) (Normalize (q_Prefix req) (dm_parents d))"
  using assms
  by (auto simp: shownBefore_def Let_def filterByPrefix_def suppressCdToCurrent_def
      split: if_splits dest!: in_set_takeD)

lemma length_shownBefore: "0 < q_Limit req \<Longrightarrow> int (length (shownBefore d req tm)) \<le> q_Limit req"
  by (simp add: shownBefore_def Let_def)


definition rungState :: "daemon \<Rightarrow> request \<Rightarrow> gotime \<Rightarrow> state" where
  \<comment> \<open>the context the ladder answered from\<close>
  "rungState d req tm =
     \<lparr>s_Previous = fr_state (fallbackOf d req tm), s_CWD = fr_cwd (fallbackOf d req tm),
      s_PriorOutcome = q_PriorOutcome req\<rparr>"

lemma fallbackOf_answer:
  assumes "s \<in> set (fr_suggestions (fallbackOf d req tm))"
  shows "s \<in> set (PredictOn (livePredictor d) (rungState d req tm) tm 0)"
    and "op_MinCount (dm_opts d) \<le> 1 \<or> op_MinCount (dm_opts d) \<le> g_Count s"
proof -
  have ne: "fr_suggestions (fallbackOf d req tm) \<noteq> []" using assms by auto
  have "fr_suggestions (fallbackOf d req tm) = daemonQuery (livePredictor d) (op_MinCount (dm_opts d))
      (q_PriorOutcome req) tm (fr_state (fallbackOf d req tm)) (fr_cwd (fallbackOf d req tm))"
    using ladder_answer ne unfolding fallbackOf_def predictFallback_def by blast
  then have "s \<in> set (withMinCount (PredictOn (livePredictor d) (rungState d req tm) tm 0) (op_MinCount (dm_opts d)))"
    using assms by (simp add: daemonQuery_def rungState_def)
  then show "s \<in> set (PredictOn (livePredictor d) (rungState d req tm) tm 0)"
    "op_MinCount (dm_opts d) \<le> 1 \<or> op_MinCount (dm_opts d) \<le> g_Count s"
    by (auto simp: withMinCount_def split: if_splits)
qed

lemma PredictOn_bare: "s \<in> set (PredictOn pr st tm limit) \<Longrightarrow> g_Raw s = []"
  by (auto simp: PredictOn_def Let_def split: if_splits)

lemma hydrate_member:
  assumes "s \<in> set (hydrate rs suggestions templates prfx toks tm limit)"
  shows "\<exists>s0\<in>set suggestions. unhydrated s = unhydrated s0"
proof (cases suggestions)
  case Nil
  then show ?thesis using assms by (simp add: hydrate_def)
next
  case (Cons top_s others)
  obtain k where "map unhydrated (hydrate rs suggestions templates prfx toks tm limit)
      = replicate k (unhydrated top_s) @ map unhydrated others"
    using hydrate_unhydrated [OF Cons, of rs templates prfx toks tm limit] by blast
  then have "unhydrated s \<in> set (replicate k (unhydrated top_s) @ map unhydrated others)"
    using assms by (metis image_eqI set_map)
  then show ?thesis by (auto simp: Cons split: if_splits)
qed

lemma unhydrated_fields:
  "unhydrated s = unhydrated s0 \<Longrightarrow> g_Template s = g_Template s0 \<and> g_Score s = g_Score s0 \<and> g_Count s = g_Count s0"
  by (cases s; cases s0) (simp add: unhydrated_def)

lemma length_hydrate:
  assumes "0 < limit" "int (length suggestions) \<le> limit"
  shows "int (length (hydrate rs suggestions templates prfx toks tm limit)) \<le> limit"
proof (cases suggestions)
  case Nil
  then show ?thesis using assms by (simp add: hydrate_def)
next
  case (Cons top_s others)
  show ?thesis using hydrate_unhydrated [OF Cons, of rs templates prfx toks tm limit] assms by blast
qed

lemma suppress_never_fires:
  \<comment> \<open>the filter against suggesting the current directory runs before any raw command is attached\<close>
  "(\<And>s. s \<in> set ss \<Longrightarrow> g_Raw s = []) \<Longrightarrow> suppressCdToCurrent ss cwd = ss"
  by (auto simp: suppressCdToCurrent_def intro!: filter_True)

definition typedOf :: "daemon \<Rightarrow> request \<Rightarrow> gotime \<Rightarrow> suggestion list" where
  \<comment> \<open>the answer of the ladder, less what does not continue the typed prefix\<close>
  "typedOf d req tm = filter (\<lambda>s. q_Prefix req \<noteq> [] \<longrightarrow> HasPrefix (g_Template s) (Normalize (q_Prefix req) (dm_parents d)))
     (fr_suggestions (fallbackOf d req tm))"

lemma answer_bare: "s \<in> set (fr_suggestions (fallbackOf d req tm)) \<Longrightarrow> g_Raw s = []"
  using fallbackOf_answer(1) PredictOn_bare by blast

lemma shownBefore_typed:
  "shownBefore d req tm = (if 0 < q_Limit req then take (nat (q_Limit req)) (typedOf d req tm) else typedOf d req tm)"
proof -
  have "(if q_Prefix req \<noteq> [] then filterByPrefix (fr_suggestions (fallbackOf d req tm)) (q_Prefix req) (dm_parents d)
      else fr_suggestions (fallbackOf d req tm)) = typedOf d req tm"
    by (simp add: typedOf_def filterByPrefix_def Let_def)
  moreover have "suppressCdToCurrent (typedOf d req tm) (cleanCWD req) = typedOf d req tm"
    by (rule suppress_never_fires) (auto simp: typedOf_def dest: answer_bare)
  ultimately show ?thesis by (auto simp: shownBefore_def Let_def)
qed

lemma handlePredict_hydrates:
  assumes "requestTime w (q_At req) = Inr tm" "shown = shownBefore d req tm"
  obtains ss where "handlePredict w req d = (SuggestionsResponse ss, d)"
    "0 < q_Limit req \<Longrightarrow> int (length ss) \<le> q_Limit req"
    "shown = [] \<Longrightarrow> ss = []"
    "\<And>best others. shown = best # others \<Longrightarrow> \<exists>k. 1 \<le> k \<and> k \<le> 3 \<and> map unhydrated ss = replicate k best @ others"
    "\<And>s. s \<in> set ss \<Longrightarrow> \<exists>s0\<in>set shown. unhydrated s = s0"
    "\<And>s. s \<in> set ss \<Longrightarrow> fits (dm_raws d) (templatesOf (previousOf (dm_parents d) req)) (q_Prefix req) s"
    "\<And>s. s \<in> set ss \<Longrightarrow> g_Raw s \<noteq> [] \<Longrightarrow> \<exists>win\<in>set (windowsOf (templatesOf (previousOf (dm_parents d) req))).
       tlLookup (rs_m (dm_raws d)) (rawOuterKey win (g_Template s)) (g_Raw s) \<noteq> None"
proof -
  let ?h = "hydrate (dm_raws d) shown (templatesOf (previousOf (dm_parents d) req)) (q_Prefix req)
      (collectArgTokens (q_State req) (dm_parents d)) tm (q_Limit req)"
  have bare: "\<forall>x\<in>set shown. g_Raw x = []" using shownBefore_fallback(1) answer_bare unfolding assms(2) by blast
  then have un: "unhydrated x = x" if "x \<in> set shown" for x using that by (cases x) (auto simp: unhydrated_def)
  show ?thesis
  proof (rule that)
    show "handlePredict w req d = (SuggestionsResponse ?h, d)" using assms by (simp add: handlePredict_def)
    show "0 < q_Limit req \<Longrightarrow> int (length ?h) \<le> q_Limit req"
      using length_hydrate length_shownBefore assms(2) by blast
    show "shown = [] \<Longrightarrow> ?h = []" by (simp add: hydrate_def)
    show "\<exists>k. 1 \<le> k \<and> k \<le> 3 \<and> map unhydrated ?h = replicate k best @ others" if "shown = best # others" for best others
      using hydrate_unhydrated [OF that] un by (fastforce simp: that map_idI)
    show "\<exists>s0\<in>set shown. unhydrated s = s0" if "s \<in> set ?h" for s using hydrate_member [OF that] un by metis
    show "fits (dm_raws d) (templatesOf (previousOf (dm_parents d) req)) (q_Prefix req) s" if "s \<in> set ?h" for s
      by (rule hydrate_fits [OF that bare])
    show "\<exists>win\<in>set (windowsOf (templatesOf (previousOf (dm_parents d) req))).
        tlLookup (rs_m (dm_raws d)) (rawOuterKey win (g_Template s)) (g_Raw s) \<noteq> None"
      if "s \<in> set ?h" "g_Raw s \<noteq> []" for s by (rule hydrate_known [OF that bare])
  qed
qed

lemma handlePredict_known:
  assumes "requestTime w (q_At req) = Inr tm"
  shows "\<exists>ss. handlePredict w req d = (SuggestionsResponse ss, d) \<and> (0 < q_Limit req \<longrightarrow> int (length ss) \<le> q_Limit req)
    \<and> (\<forall>s\<in>set ss. g_Raw s \<noteq> [] \<longrightarrow> (\<exists>win\<in>set (windowsOf (templatesOf (previousOf (dm_parents d) req))).
         tlLookup (rs_m (dm_raws d)) (rawOuterKey win (g_Template s)) (g_Raw s) \<noteq> None))"
  by (rule handlePredict_hydrates [OF assms refl, of d]) blast

lemma templates_withCandidates: "bj_Next (withCandidates d req tm ts b) = bj_Next b"
  by (simp add: withCandidates_def Let_def)

lemma Explain_cap: "Explain pr s tm limit = capTo limit (Explain pr s tm 0)"
  by (simp add: Explain_def capTo_def Let_def)

text \<open>An explanation explains the prediction: for the same request and time it reports the rung the
  ladder answered from, it lists the best candidates of that very context in the order predictions
  are ranked, and everything that is suggested is one of the candidates so ranked.\<close>

theorem explain_same_rung:
  assumes "requestTime w (q_At req) = Inr tm"
  shows "\<exists>ex. handleExplain w req d = (ExplainResponse ex, d)
    \<and> ex_Level ex = fr_level (fallbackOf d req tm) \<and> ex_CWD ex = fr_cwd (fallbackOf d req tm)
    \<and> map bj_Next (ex_Breakdown ex)
        = capTo (if q_Limit req \<le> 0 then 5 else q_Limit req)
            (map g_Template (PredictOn (livePredictor d) (rungState d req tm) tm 0))
    \<and> set (map g_Template (shownBefore d req tm))
        \<subseteq> set (map g_Template (PredictOn (livePredictor d) (rungState d req tm) tm 0))"
proof -
  let ?limit = "if q_Limit req \<le> 0 then 5 else q_Limit req"
  have "map bj_Next (map (withCandidates d req tm ts) (BreakdownFromPredict bs)) = map b_Next bs" for ts bs
    by (simp add: BreakdownFromPredict_def templates_withCandidates comp_def)
  moreover have "map b_Next (Explain (livePredictor d) (rungState d req tm) tm ?limit)
      = capTo ?limit (map g_Template (PredictOn (livePredictor d) (rungState d req tm) tm 0))"
    unfolding Predict_matches_Explain Explain_cap [of _ _ _ ?limit]
    by (simp add: capTo_def take_map comp_def)
  ultimately have ex: "\<exists>ex. handleExplain w req d = (ExplainResponse ex, d)
    \<and> ex_Level ex = fr_level (fallbackOf d req tm) \<and> ex_CWD ex = fr_cwd (fallbackOf d req tm)
    \<and> map bj_Next (ex_Breakdown ex)
        = capTo ?limit (map g_Template (PredictOn (livePredictor d) (rungState d req tm) tm 0))"
    using assms by (simp add: handleExplain_def Let_def rungState_def)
  moreover have "set (map g_Template (shownBefore d req tm))
        \<subseteq> set (map g_Template (PredictOn (livePredictor d) (rungState d req tm) tm 0))"
    using shownBefore_fallback(1) fallbackOf_answer(1) by fastforce
  ultimately show ?thesis by blast
qed

theorem explain_same_rung_witness:
  "\<exists>ex. handleExplain demoWorld demoRequest demoDaemon = (ExplainResponse ex, demoDaemon)
     \<and> ex_CWD ex = fr_cwd (fallbackOf demoDaemon demoRequest 100)"
proof -
  have "requestTime demoWorld (q_At demoRequest) = Inr 100" by simp
  from explain_same_rung [OF this, of demoDaemon] show ?thesis by blast
qed


lemma suppress_after_hydrate:
  "suppressCdToCurrent [\<lparr>g_Template = ''cd PATH'', g_Raw = ''cd src'', g_Score = 1, g_Count = 2\<rparr>] ''/p/src'' = []"
proof -
  have "cdTarget ''cd src'' = ''src''" by code_simp
  then show ?thesis by (simp add: suppressCdToCurrent_def suffix_def)
qed

subsection \<open>Resetting\<close>

lemma handleReset_eq:
  assumes "wo_clearOk w = (ok1, ok2, ok3)"
  shows "handleReset w d = (OKResponse,
    (storePredictor (d\<lparr>dm_heap := (dm_heap d)(dm_fresh d := New 2), dm_g := dm_fresh d, dm_fresh := dm_fresh d + 1\<rparr>))
      \<lparr>dm_db := snd (clear ok1 ok2 ok3 (dm_db d)), dm_raws := resetRaws (dm_raws d), dm_dirty := 0\<rparr>)"
  using assms by (simp add: handleReset_def Let_def)

lemma Transitions_empty: "Transitions (New ws) st = []"
  by (simp add: Transitions_def New_def)

lemma PredictOn_empty: "pr_g pr = New ws \<Longrightarrow> PredictOn pr st tm limit = []"
  by (simp add: PredictOn_def Transitions_empty)

lemma ladder_no_answers: "(\<And>prev dir. ask prev dir = []) \<Longrightarrow> fr_suggestions (ladder ask mc prev cwd) = []"
  by (subst ladder_empty) (simp add: confident_def)

text \<open>C33: A reset forgets: afterwards nothing is exported, nothing is predicted from any context (the
  predictor reads the new graph, not the old one), no raw command is left, a flush writes nothing
  back, and if the three deletes succeed the next start loads nothing.\<close>

theorem reset_forgets:
  assumes "handleReset w d = (r, d')"
  shows "r = OKResponse \<and> All (graphOf d') = [] \<and> snapshot (dm_raws d') = []
    \<and> (\<forall>req tm. fr_suggestions (fallbackOf d' req tm) = [])
    \<and> (\<forall>w'. dm_db (flush w' d') = dm_db d')
    \<and> (wo_clearOk w = (True, True, True) \<longrightarrow> load (dm_db d') = [] \<and> loadRawExamples (dm_db d') = [])"
proof -
  obtain ok1 ok2 ok3 where ok: "wo_clearOk w = (ok1, ok2, ok3)" by (cases "wo_clearOk w")
  note d' = assms [unfolded handleReset_eq [OF ok], simplified, THEN conjunct2, symmetric]
  have g: "graphOf d' = New 2" by (simp add: d' graphOf_def storePredictor_def)
  have live: "pr_g (livePredictor d') = New 2" by (simp add: d' livePredictor_def storePredictor_def)
  have "fr_suggestions (fallbackOf d' req tm) = []" for req tm
    unfolding fallbackOf_def predictFallback_def
    by (rule ladder_no_answers) (simp add: daemonQuery_def PredictOn_empty [OF live] withMinCount_def)
  moreover have all: "All (graphOf d') = []" by (simp add: g All_def New_def)
  moreover have snap: "snapshot (dm_raws d') = []" by (simp add: d' resetRaws_def snapshot_def)
  moreover have "dm_db (flush w' d') = dm_db d'" for w'
    by (simp add: dm_db_flush all snap saveRows_def saveRawRows_def)
  moreover have "r = OKResponse" using assms by (simp add: handleReset_eq [OF ok])
  moreover have "load (dm_db d') = [] \<and> loadRawExamples (dm_db d') = []" if "ok1" "ok2" "ok3"
    using that by (simp add: d' clear_def Let_def load_def loadRawExamples_def)
  ultimately show ?thesis using ok by auto
qed

theorem reset_forgets_witness:
  "All (graphOf (snd (handleReset demoWorld demoDaemon))) = []
     \<and> load (dm_db (snd (handleReset demoWorld demoDaemon))) = []"
proof -
  have "wo_clearOk demoWorld = (True, True, True)" by (simp add: demoWorld_def)
  with reset_forgets [OF prod.collapse [symmetric], of demoWorld demoDaemon] show ?thesis by blast
qed

text \<open>The three deletes are no transaction: where one fails, part of the data stays and comes back.\<close>

lemma clear_partial:
  "clear True False True d = (False, d\<lparr>db_transitions := []\<rparr>)"
  "clear False ok2 ok3 d = (False, d)"
  by (simp_all add: clear_def Let_def)

subsection \<open>Importing\<close>

lemma seedCheckFrom_None: "seedCheckFrom i ts = None \<longleftrightarrow> (\<forall>t\<in>set ts. \<not> IsZero (t_LastSeen t))"
  by (induction ts arbitrary: i) auto

lemma seedValidate_None: "seedValidate s = None \<longleftrightarrow> sd_Transitions s \<noteq> [] \<and> (\<forall>t\<in>set (sd_Transitions s). \<not> IsZero (t_LastSeen t))"
  by (simp add: seedValidate_def seedCheckFrom_None)

definition goodSeed :: "world \<Rightarrow> string \<Rightarrow> seed \<Rightarrow> bool" where
  \<comment> \<open>the data decodes to a seed with transitions, each with a time, a state, a next command and a count\<close>
  "goodSeed w data sd \<longleftrightarrow> wo_decodeSeed w data = Inr sd \<and> sd_Transitions sd \<noteq> []
     \<and> (\<forall>t\<in>set (sd_Transitions sd). \<not> IsZero (t_LastSeen t) \<and> t_State t \<noteq> [] \<and> t_Next t \<noteq> [] \<and> 0 < t_Count t)"

definition importableFile :: "world \<Rightarrow> string \<Rightarrow> string \<Rightarrow> bool" where
  \<comment> \<open>a regular file, no link, that can be read\<close>
  "importableFile w name data \<longleftrightarrow> name \<noteq> []
     \<and> (\<exists>path. wo_abs w name = Inr path \<and> wo_lstat w path = Regular \<and> wo_readFile w path = Inr data)"

lemma importBytes_good:
  assumes "goodSeed w data sd"
  shows "importSeedFromBytes w data d = Inr (flush w (setGraph (fold mergeOne (sd_Transitions sd) (graphOf d)) d))"
    and "Merge (sd_Transitions sd) (graphOf d) = Inr (fold mergeOne (sd_Transitions sd) (graphOf d))"
proof -
  show m: "Merge (sd_Transitions sd) (graphOf d) = Inr (fold mergeOne (sd_Transitions sd) (graphOf d))"
    using assms by (simp add: Merge_Inr goodSeed_def validTransition_def)
  have "seedValidate sd = None" using assms by (simp add: goodSeed_def seedValidate_None)
  then show "importSeedFromBytes w data d = Inr (flush w (setGraph (fold mergeOne (sd_Transitions sd) (graphOf d)) d))"
    using assms m by (simp add: importSeedFromBytes_def goodSeed_def)
qed

lemma importBytes_bad:
  assumes "\<nexists>sd. goodSeed w data sd"
  shows "\<exists>err. importSeedFromBytes w data d = Inl err"
proof (cases "wo_decodeSeed w data")
  case (Inr sd)
  have "seedValidate sd = None \<Longrightarrow> \<not> (\<forall>t\<in>set (sd_Transitions sd). validTransition t)"
    using assms Inr by (auto simp: goodSeed_def seedValidate_None validTransition_def)
  then have "Merge (sd_Transitions sd) (graphOf d) \<noteq> Inr g" if "seedValidate sd = None" for g using that Merge_Inr by blast
  then show ?thesis using Inr by (auto simp: importSeedFromBytes_def split: option.split sum.split)
qed (simp add: importSeedFromBytes_def)

lemma handleImport_file:
  assumes "q_SeedData req = []" "importableFile w (q_Next req) data"
  shows "handleImport w req d = (case importSeedFromBytes w data d of
     Inl err \<Rightarrow> (ErrorResponse (''import failed: '' @ err), d) | Inr d' \<Rightarrow> (OKResponse, storePredictor d'))"
  using assms by (auto simp: handleImport_def importableFile_def checkImportable_def importSeed_def split: sum.split)

lemma handleImport_noFile:
  assumes "q_SeedData req = []" "\<nexists>data. importableFile w (q_Next req) data"
  shows "\<exists>err. handleImport w req d = (ErrorResponse err, d)"
  using assms
  by (auto simp: handleImport_def importableFile_def checkImportable_def importSeed_def split: sum.split fileInfo.split)

text \<open>C32: An import is all or nothing. What it reads is the data sent with the request or, without any, the
  file it names, which must be a readable regular file and no symbolic link. It is accepted exactly when
  that parses as a seed that has transitions, each with a time, a state, a next command and a positive
  count; then the answer is ok, the graph is the merge, the predictor reads it, and the merged graph is
  saved at once if the transaction commits (if it does not, the answer is ok all the same, the tables are
  as before and nothing counts as unsaved: a finding). Otherwise the answer is an error and nothing at
  all has changed.\<close>

theorem import_all_or_nothing:
  assumes "handleImport w req d = (r, d')"
    and "reads = (\<lambda>data. if q_SeedData req \<noteq> [] then data = q_SeedData req else importableFile w (q_Next req) data)"
  shows "(\<forall>data sd. reads data \<and> goodSeed w data sd \<longrightarrow>
        r = OKResponse \<and> Merge (sd_Transitions sd) (graphOf d) = Inr (graphOf d')
      \<and> dm_raws d' = dm_raws d \<and> dm_predG d' = dm_g d' \<and> dm_g d' = dm_g d
      \<and> db_transitions (dm_db d') = db_transitions (if wo_saveOk w then saveRows (All (graphOf d')) (dm_db d) else dm_db d)
      \<and> (\<not> wo_saveOk w \<and> All (graphOf d') \<noteq> [] \<longrightarrow> dm_db d' = dm_db d \<and> dm_dirty d' = dm_dirty d))
    \<and> ((\<nexists>data sd. reads data \<and> goodSeed w data sd) \<longrightarrow> (\<exists>err. r = ErrorResponse err) \<and> d' = d)"
proof -
  have accepted: "r = OKResponse \<and> d' = storePredictor (flush w (setGraph (fold mergeOne (sd_Transitions sd) (graphOf d)) d))"
    if "reads data" "goodSeed w data sd" for data sd
    using that assms handleImport_file [of req w data d] importBytes_good(1) [OF that(2), of d]
    by (auto simp: handleImport_def split: if_splits)
  have rejected: "\<exists>err. handleImport w req d = (ErrorResponse err, d)" if none: "\<nexists>data sd. reads data \<and> goodSeed w data sd"
  proof (cases "\<exists>data. reads data")
    case True
    then obtain data where data: "reads data" by blast
    then obtain err where "importSeedFromBytes w data d = Inl err" using none importBytes_bad by blast
    then show ?thesis using data assms(2) handleImport_file [of req w data d] by (auto simp: handleImport_def split: if_splits)
  next
    case False
    then have "q_SeedData req = []" unfolding assms(2) by (cases "q_SeedData req = []") simp_all
    moreover from this have "\<nexists>data. importableFile w (q_Next req) data" using False unfolding assms(2) by simp
    ultimately have "q_SeedData req = []" "\<nexists>data. importableFile w (q_Next req) data" by simp_all
    then show ?thesis by (rule handleImport_noFile)
  qed
  have "r = OKResponse \<and> Merge (sd_Transitions sd) (graphOf d) = Inr (graphOf d') \<and> dm_raws d' = dm_raws d
      \<and> dm_predG d' = dm_g d' \<and> dm_g d' = dm_g d
      \<and> db_transitions (dm_db d') = db_transitions (if wo_saveOk w then saveRows (All (graphOf d')) (dm_db d) else dm_db d)
      \<and> (\<not> wo_saveOk w \<and> All (graphOf d') \<noteq> [] \<longrightarrow> dm_db d' = dm_db d \<and> dm_dirty d' = dm_dirty d)"
    if "reads data" "goodSeed w data sd" for data sd
    using accepted [OF that] importBytes_good(2) [OF that(2), of d]
    by (auto simp: dm_db_flush saveRows_def flush_def flushDB_eq)
  then show ?thesis using rejected assms(1) by auto
qed

definition demoSeed :: seed where
  "demoSeed = \<lparr>sd_Version = 1, sd_Source = ''test'', sd_GeneratedAt = 5, sd_Transitions = [demoTransition]\<rparr>"

definition seedWorld :: "fileInfo \<Rightarrow> world" where
  \<comment> \<open>a seed lies in a file of the given kind\<close>
  "seedWorld kind = demoWorld\<lparr>wo_decodeSeed := (\<lambda>_. Inr demoSeed), wo_lstat := (\<lambda>_. kind), wo_readFile := (\<lambda>_. Inr ''{}'')\<rparr>"

lemma demoSeed_good: "goodSeed (seedWorld kind) data demoSeed" "goodSeed (seedWorld kind) data sd \<longleftrightarrow> sd = demoSeed"
  by (auto simp: goodSeed_def seedWorld_def demoSeed_def demoTransition_def IsZero_def)

lemma importable_demo: "importableFile (seedWorld kind) name data \<longleftrightarrow> name \<noteq> [] \<and> kind = Regular \<and> data = ''{}''"
  by (auto simp: importableFile_def seedWorld_def demoWorld_def)

theorem import_all_or_nothing_witness:
  "Merge [demoTransition] (New 2) = Inr (graphOf (snd (handleImport (seedWorld Regular) (request0\<lparr>q_Next := ''seed.json''\<rparr>) demoDaemon)))
   \<and> fst (handleImport (seedWorld Regular) (request0\<lparr>q_Next := ''seed.json''\<rparr>) demoDaemon) = OKResponse
   \<and> snd (handleImport (seedWorld Symlink) (request0\<lparr>q_Next := ''seed.json''\<rparr>) demoDaemon) = demoDaemon"
proof -
  let ?q = "request0\<lparr>q_Next := ''seed.json''\<rparr>"
  have q: "q_SeedData ?q = []" "q_Next ?q = ''seed.json''" by (simp_all add: request0_def)
  have t: "sd_Transitions demoSeed = [demoTransition]" by (simp add: demoSeed_def)
  show ?thesis
    using import_all_or_nothing [OF prod.collapse [symmetric] refl, where w = "seedWorld Regular" and req = ?q and d = demoDaemon]
      import_all_or_nothing [OF prod.collapse [symmetric] refl, where w = "seedWorld Symlink" and req = ?q and d = demoDaemon]
    by (simp add: q importable_demo demoSeed_good t)
qed

subsection \<open>What goes around the redaction\<close>

text \<open>Only \<open>record\<close> asks the redactor. Raw commands that arrive with \<open>record_raws\<close>, which is how the
  import of a shell history delivers them, are stored whatever they contain.\<close>

lemma record_raws_unfiltered:
  assumes "x_Template ex \<noteq> []" "x_Raw ex \<noteq> []"
  shows "tlLookup (rs_m (dm_raws (snd (handleRecordRaws w (request0\<lparr>q_RawExamples := [ex]\<rparr>) d))))
    (rawOuterKey (x_State ex) (x_Template ex)) (x_Raw ex) \<noteq> None"
  using assms
  by (simp add: handleRecordRaws_def mergeExamples_def mergeExample_def Let_def tlLookup_modify request0_def)

end
