(* ===== verification/Flush.thy ===== *)
theory Flush
  imports Handlers
begin

text \<open>
  How records and flushes of daemon/daemon.go and daemon/handlers.go interleave. Elsewhere a flush
  is one step; here it is the steps between which a record of another connection can run: the lock
  is taken, the graph is read, the transaction commits or fails, and \<open>dirty\<close> is swapped. A record
  first changes the graph and only then counts itself. The counters \<open>fs_mem\<close> and \<open>fs_disk\<close> are the
  number of records in the graph and the number of them in the database. The counter \<open>dirty\<close>, an
  \<open>atomic.Int32\<close>, does not wrap here: it is set back at every flush, at least every five seconds.
\<close>

datatype phase = Idle | Locked | Saving nat | Saved

record fstate =
  fs_mem :: nat
  fs_disk :: nat
  fs_pending :: nat  \<comment> \<open>records in the graph that are not counted yet\<close>
  fs_dirty :: nat
  fs_token :: bool  \<comment> \<open>the one place of \<open>flushCh\<close>\<close>
  fs_phase :: phase

definition start0 :: fstate where
  "start0 = \<lparr>fs_mem = 0, fs_disk = 0, fs_pending = 0, fs_dirty = 0, fs_token = False, fs_phase = Idle\<rparr>"

text \<open>The steps of \<open>handleRecord\<close>.\<close>

definition addRecord :: "fstate \<Rightarrow> fstate" where
  "addRecord s = s\<lparr>fs_mem := fs_mem s + 1, fs_pending := fs_pending s + 1\<rparr>"

definition countRecord :: "fstate \<Rightarrow> fstate" where
  "countRecord s =
     s\<lparr>fs_pending := fs_pending s - 1, fs_dirty := fs_dirty s + 1,
       fs_token := (if flushThreshold \<le> int (fs_dirty s + 1) then True else fs_token s)\<rparr>"

text \<open>The steps of \<open>flush\<close> after the lock is taken: \<open>snap\<close> is \<open>All\<close>, \<open>commit\<close> the transaction, and
  \<open>swap\<close> what follows a successful save.\<close>

definition snap :: "fstate \<Rightarrow> fstate" where
  "snap s = s\<lparr>fs_phase := Saving (fs_mem s)\<rparr>"

definition commit :: "nat \<Rightarrow> fstate \<Rightarrow> fstate" where
  "commit n s = s\<lparr>fs_disk := n, fs_phase := Saved\<rparr>"

definition swap :: "fstate \<Rightarrow> fstate" where
  "swap s = s\<lparr>fs_dirty := 0, fs_token := (if 0 < fs_dirty s then True else fs_token s), fs_phase := Idle\<rparr>"

inductive work :: "fstate \<Rightarrow> fstate \<Rightarrow> bool" where
  \<comment> \<open>what the daemon does by itself when nothing is recorded and nothing fails\<close>
  work_count: "0 < fs_pending s \<Longrightarrow> work s (countRecord s)"
| work_token: "fs_phase s = Idle \<Longrightarrow> fs_token s \<Longrightarrow> work s (s\<lparr>fs_token := False, fs_phase := Locked\<rparr>)"
| work_tick: "fs_phase s = Idle \<Longrightarrow> 0 < fs_dirty s \<Longrightarrow> work s (s\<lparr>fs_phase := Locked\<rparr>)"
| work_snap: "fs_phase s = Locked \<Longrightarrow> work s (snap s)"
| work_commit: "fs_phase s = Saving n \<Longrightarrow> work s (commit n s)"
| work_swap: "fs_phase s = Saved \<Longrightarrow> work s (swap s)"

inductive run :: "bool \<Rightarrow> fstate \<Rightarrow> bool" for faulty where
  run_start: "run faulty start0"
| run_work: "run faulty s \<Longrightarrow> work s s' \<Longrightarrow> run faulty s'"
| run_record: "run faulty s \<Longrightarrow> run faulty (addRecord s)"
| run_direct: "run faulty s \<Longrightarrow> fs_phase s = Idle \<Longrightarrow> run faulty (s\<lparr>fs_phase := Locked\<rparr>)"
  \<comment> \<open>the flush of an import\<close>
| run_fail: "run faulty s \<Longrightarrow> faulty \<Longrightarrow> fs_phase s = Saving n \<Longrightarrow> run faulty (s\<lparr>fs_phase := Idle\<rparr>)"

inductive_cases workE: "work s s'"

lemmas step_defs = addRecord_def countRecord_def snap_def commit_def swap_def

subsection \<open>Nothing is forgotten\<close>

text \<open>A record that is not in the database is one that still has to count itself, one that is counted,
  or one that a pending token will save. What a flush has read from the graph is treated as saved.\<close>

fun accounted :: "fstate \<Rightarrow> phase \<Rightarrow> bool" where
  "accounted s Idle \<longleftrightarrow> fs_token s \<or> fs_mem s \<le> fs_disk s + fs_pending s + fs_dirty s"
| "accounted s Locked \<longleftrightarrow> True"
| "accounted s (Saving n) \<longleftrightarrow> fs_disk s \<le> n \<and> n \<le> fs_mem s \<and> fs_mem s \<le> n + fs_pending s + fs_dirty s"
| "accounted s Saved \<longleftrightarrow> fs_mem s \<le> fs_disk s + fs_pending s + fs_dirty s"

definition flushInv :: "fstate \<Rightarrow> bool" where
  "flushInv s \<longleftrightarrow> fs_disk s \<le> fs_mem s \<and> accounted s (fs_phase s)"

lemma flushInv_work: "work s s' \<Longrightarrow> flushInv s \<Longrightarrow> flushInv s'"
  by (cases rule: work.cases, assumption) (cases "fs_phase s"; auto simp: flushInv_def step_defs)+

lemma flushInv_run: "run False s \<Longrightarrow> flushInv s"
proof (induction rule: run.induct)
  case run_start
  show ?case by (simp add: flushInv_def start0_def)
next
  case (run_work s s')
  then show ?case using flushInv_work by blast
next
  case (run_record s)
  then show ?case by (cases "fs_phase s") (auto simp: flushInv_def addRecord_def)
qed (simp_all add: flushInv_def)

lemma work_stuck:
  assumes "\<nexists>s'. work s s'"
  shows "fs_pending s = 0 \<and> fs_dirty s = 0 \<and> \<not> fs_token s \<and> fs_phase s = Idle"
proof -
  have "fs_pending s = 0" using assms work_count by blast
  moreover have "fs_phase s = Idle" using assms work_snap work_commit work_swap by (cases "fs_phase s") blast+
  moreover from this have "\<not> fs_token s" "fs_dirty s = 0" using assms work_token work_tick by blast+
  ultimately show ?thesis by blast
qed

subsection \<open>Flushing comes to an end\<close>

fun phaseEffort :: "fstate \<Rightarrow> phase \<Rightarrow> nat" where
  "phaseEffort s Idle = (if 0 < fs_dirty s then 8 else 0)"
| "phaseEffort s Locked = (if 0 < fs_dirty s then 4 else 0) + 3"
| "phaseEffort s (Saving _) = (if 0 < fs_dirty s then 4 else 0) + 2"
| "phaseEffort s Saved = (if 0 < fs_dirty s then 4 else 0) + 1"

definition effort :: "fstate \<Rightarrow> nat" where
  "effort s = 13 * fs_pending s + (if fs_token s then 4 else 0) + phaseEffort s (fs_phase s)"

lemma work_decreases: "work s s' \<Longrightarrow> effort s' < effort s"
  by (cases rule: work.cases, assumption) (cases "fs_phase s"; auto simp: effort_def step_defs)+

lemma work_bounded: "(work ^^ n) s s' \<Longrightarrow> n + effort s' \<le> effort s"
proof (induction n arbitrary: s')
  case (Suc n)
  then obtain m where "(work ^^ n) s m" "work m s'" by auto
  with Suc.IH work_decreases show ?case by fastforce
qed simp

lemma run_works: "(work ^^ n) s s' \<Longrightarrow> run faulty s \<Longrightarrow> run faulty s'"
proof (induction n arbitrary: s')
  case (Suc n)
  then obtain m where "(work ^^ n) s m" "work m s'" by auto
  with Suc show ?case using run_work by blast
qed simp

text \<open>C14: If saves do not fail, then whatever interleaving of records and flushes led to a state, the
  daemon saves everything by itself once recording pauses: it comes to rest after at most
  \<open>effort\<close> steps (at most two flushes once every record has counted itself), and at rest every
  record of the graph is in the database.\<close>

theorem flush_settles:
  assumes "run False s" "(work ^^ n) s s'"
  shows "n \<le> effort s \<and> ((\<nexists>s''. work s' s'') \<longrightarrow> fs_disk s' = fs_mem s' \<and> fs_mem s' = fs_mem s)"
proof -
  have "fs_mem s' = fs_mem s"
    using assms(2)
  proof (induction n arbitrary: s')
    case (Suc n)
    then obtain m where m: "(work ^^ n) s m" "work m s'" by auto
    have "fs_mem s' = fs_mem m" using m(2) by (cases rule: work.cases) (simp_all add: step_defs)
    with Suc.IH [OF m(1)] show ?case by simp
  qed simp
  moreover have "flushInv s'" by (rule flushInv_run [OF run_works [OF assms(2,1)]])
  ultimately show ?thesis
    using work_bounded [OF assms(2)] work_stuck [of s'] by (auto simp: flushInv_def)
qed

lemma run_one_record: "run faulty (addRecord start0)"
  by (intro run_record run_start)

theorem flush_settles_witness:
  "\<exists>s'. (work ^^ 9) (addRecord start0) s' \<and> fs_disk s' = 1 \<and> fs_mem s' = 1"
proof -
  define s1 where "s1 = countRecord (addRecord start0)"
  define s2 where "s2 = s1\<lparr>fs_phase := Locked\<rparr>"
  define s3 where "s3 = swap (commit 1 (snap s2))"
  define s4 where "s4 = s3\<lparr>fs_token := False, fs_phase := Locked\<rparr>"
  define s5 where "s5 = swap (commit 1 (snap s4))"
  note defs = s1_def s2_def s3_def s4_def s5_def step_defs start0_def flushThreshold_def
  have "work (addRecord start0) s1" unfolding s1_def by (rule work_count) (simp add: defs)
  moreover have "work s1 s2" unfolding s2_def by (rule work_tick) (simp_all add: defs)
  moreover have "work s2 (snap s2)" by (rule work_snap) (simp add: defs)
  moreover have "work (snap s2) (commit 1 (snap s2))" by (rule work_commit) (simp add: defs)
  moreover have "work (commit 1 (snap s2)) s3" unfolding s3_def by (rule work_swap) (simp add: defs)
  moreover have "work s3 s4" unfolding s4_def by (rule work_token) (simp_all add: defs)
  moreover have "work s4 (snap s4)" by (rule work_snap) (simp add: defs)
  moreover have "work (snap s4) (commit 1 (snap s4))" by (rule work_commit) (simp add: defs)
  moreover have "work (commit 1 (snap s4)) s5" unfolding s5_def by (rule work_swap) (simp add: defs)
  ultimately have nine: "(work ^^ 9) (addRecord start0) s5"
    unfolding numeral_eq_Suc pred_numeral_simps relpowp.simps BitM.simps
    by - (assumption | rule refl relcomppI)+
  have "\<nexists>s''. work s5 s''"
    by (auto simp: defs elim!: workE)
  then show ?thesis using flush_settles [OF run_one_record nine] nine by (auto simp: step_defs start0_def)
qed

text \<open>With failing saves this is lost in one case: if the flush that a token asks for fails, the
  counter was already set back by the flush before, and what was recorded meanwhile stays unsaved,
  with nothing left to do, until the next record.\<close>

lemma lost_retry:
  "\<exists>s. run True s \<and> (\<nexists>s'. work s s') \<and> fs_disk s < fs_mem s"
proof -
  define s1 where "s1 = countRecord (addRecord start0)"
  define s2 where "s2 = snap (s1\<lparr>fs_phase := Locked\<rparr>)"
  define s3 where "s3 = swap (commit 1 (countRecord (addRecord s2)))"
  define s4 where "s4 = snap (s3\<lparr>fs_token := False, fs_phase := Locked\<rparr>)"
  define s5 where "s5 = s4\<lparr>fs_phase := Idle\<rparr>"
  note defs = s1_def s2_def s3_def s4_def s5_def step_defs start0_def flushThreshold_def
  have "run True s1" unfolding s1_def by (rule run_work [OF run_one_record work_count]) (simp add: defs)
  then have "run True (s1\<lparr>fs_phase := Locked\<rparr>)" by (rule run_direct) (simp add: defs)
  then have "run True s2" unfolding s2_def by (rule run_work) (rule work_snap, simp)
  then have "run True (addRecord s2)" by (rule run_record)
  then have "run True (countRecord (addRecord s2))" by (rule run_work) (rule work_count, simp add: defs)
  then have "run True (commit 1 (countRecord (addRecord s2)))" by (rule run_work) (rule work_commit, simp add: defs)
  then have "run True s3" unfolding s3_def by (rule run_work) (rule work_swap, simp add: defs)
  then have "run True (s3\<lparr>fs_token := False, fs_phase := Locked\<rparr>)"
    by (rule run_work) (rule work_token, simp_all add: defs)
  then have "run True s4" unfolding s4_def by (rule run_work) (rule work_snap, simp)
  then have "run True s5" unfolding s5_def by (rule run_fail) (simp_all add: defs)
  moreover have "\<nexists>s'. work s5 s'" by (auto simp: defs elim!: workE)
  moreover have "fs_disk s5 < fs_mem s5" by (simp add: defs)
  ultimately show ?thesis by blast
qed

subsection \<open>The steps make up the operations\<close>

text \<open>Run without interruption, the steps are what the handlers and \<open>flush\<close> do to the counter and
  the channel of the daemon.\<close>

definition sees :: "daemon \<Rightarrow> fstate \<Rightarrow> bool" where
  "sees d s \<longleftrightarrow> dm_dirty d = int (fs_dirty s) \<and> dm_flushCh d = fs_token s \<and> fs_phase s = Idle"

lemma flush_is_steps:
  assumes "sees d s" "fst (flushDB w d)"
  shows "sees (flush w d) (swap (commit (fs_mem s) (snap (s\<lparr>fs_phase := Locked\<rparr>))))"
  using assms by (auto simp: sees_def flush_def flushDB_def Let_def step_defs split: prod.splits if_splits)

lemma failed_flush_is_steps:
  assumes "sees d s" "\<not> fst (flushDB w d)"
  shows "sees (flush w d) (s\<lparr>fs_phase := Idle\<rparr>)"
  using assms by (auto simp: sees_def flush_def flushDB_def Let_def split: prod.splits if_splits)

lemma record_is_steps:
  assumes "sees d s" "fs_pending s = 0" "int (fs_dirty s) + 1 < 2 ^ 31"
  shows "sees (signalFlush d) (countRecord (addRecord s))"
proof -
  have "wrap32 (int (fs_dirty s) + 1) = int (fs_dirty s) + 1"
    unfolding wrap32_def by (rule signed_take_bit_int_eq_self) (use assms(3) in simp_all)
  then show ?thesis using assms(1,2) by (simp add: sees_def signalFlush_def step_defs Let_def add.commute)
qed

end
