(* ===== verification/Interleaving.thy ===== *)
theory Interleaving
  imports Handlers
begin

text \<open>
  Connections are served concurrently (\<open>go d.handleConn(conn)\<close> in daemon/daemon.go). Here the handlers that
  change the graph are programs of atomic actions, an action being one call that holds a lock, one
  statement of the database outside a transaction or one atomic operation, and several of them run
  interleaved. A thread has two registers, the graph pointer it has loaded and whether the last delete
  succeeded. Flushing is left to theory Flush. The programs are those of \<open>handleRecord\<close>, \<open>handleReset\<close>
  and the end of \<open>handleImport\<close> in daemon/handlers.go.
\<close>

datatype act =
    LoadGraph  \<comment> \<open>\<open>d.g.Load()\<close>\<close>
  | Observe observation  \<comment> \<open>\<open>g.RecordObs\<close>\<close>
  | FileRaw "string list" string string gotime  \<comment> \<open>\<open>d.raws.record\<close>\<close>
  | CountRecord  \<comment> \<open>\<open>d.dirty.Add(1)\<close> and the signal\<close>
  | StoreGraph  \<comment> \<open>\<open>d.g.Store(graph.New(2))\<close>\<close>
  | StorePredictor  \<comment> \<open>\<open>d.pred.Store(d.newPredictor(g))\<close>\<close>
  | DeleteTransitions | DeleteCWDs | DeleteRaws  \<comment> \<open>the three statements of \<open>d.st.clear\<close>\<close>
  | ResetRaws | ZeroDirty

record regs =
  rg_g :: "nat option"  \<comment> \<open>the graph pointer loaded last\<close>
  rg_ok :: bool  \<comment> \<open>no delete of the \<open>clear\<close> has failed\<close>

definition regs0 :: regs where
  "regs0 = \<lparr>rg_g = None, rg_ok = True\<rparr>"

fun exec :: "world \<Rightarrow> act \<Rightarrow> regs \<times> daemon \<Rightarrow> regs \<times> daemon" where
  "exec w LoadGraph (r, d) = (r\<lparr>rg_g := Some (dm_g d)\<rparr>, d)"
| "exec w (Observe obs) (r, d) =
     (r, case rg_g r of None \<Rightarrow> d | Some g \<Rightarrow> d\<lparr>dm_heap := (dm_heap d)(g := RecordObs obs (dm_heap d g))\<rparr>)"
| "exec w (FileRaw st t raw tm) (r, d) = (r, d\<lparr>dm_raws := recordRaw st t raw tm (dm_raws d)\<rparr>)"
| "exec w CountRecord (r, d) = (r, signalFlush d)"
| "exec w StoreGraph (r, d) =
     (r\<lparr>rg_g := Some (dm_fresh d)\<rparr>,
      d\<lparr>dm_heap := (dm_heap d)(dm_fresh d := New 2), dm_g := dm_fresh d, dm_fresh := dm_fresh d + 1\<rparr>)"
| "exec w StorePredictor (r, d) =
     (r, case rg_g r of None \<Rightarrow> d | Some g \<Rightarrow> d\<lparr>dm_pred := newPredictor (dm_opts d) (dm_heap d g), dm_predG := g\<rparr>)"
| "exec w DeleteTransitions (r, d) =
     (case wo_clearOk w of (ok, _, _) \<Rightarrow>
        (r\<lparr>rg_ok := ok\<rparr>, if ok then d\<lparr>dm_db := (dm_db d)\<lparr>db_transitions := []\<rparr>\<rparr> else d))"
| "exec w DeleteCWDs (r, d) =
     (case wo_clearOk w of (_, ok, _) \<Rightarrow>
        (r\<lparr>rg_ok := rg_ok r \<and> ok\<rparr>, if rg_ok r \<and> ok then d\<lparr>dm_db := (dm_db d)\<lparr>db_cwds := []\<rparr>\<rparr> else d))"
| "exec w DeleteRaws (r, d) =
     (case wo_clearOk w of (_, _, ok) \<Rightarrow>
        (r\<lparr>rg_ok := rg_ok r \<and> ok\<rparr>, if rg_ok r \<and> ok then d\<lparr>dm_db := (dm_db d)\<lparr>db_raws := []\<rparr>\<rparr> else d))"
| "exec w ResetRaws (r, d) = (r, d\<lparr>dm_raws := resetRaws (dm_raws d)\<rparr>)"
| "exec w ZeroDirty (r, d) = (r, d\<lparr>dm_dirty := 0\<rparr>)"

subsection \<open>The handlers as programs\<close>

definition recordProgram :: "world \<Rightarrow> daemon \<Rightarrow> request \<Rightarrow> act list" where
  \<comment> \<open>of the daemon it uses the normalizer's and the redactor's settings, which never change\<close>
  "recordProgram w d req =
     (case requestTime w (q_At req) of
        Inl _ \<Rightarrow> []
      | Inr tm \<Rightarrow>
          if IsSensitive (dm_redactor d) (q_Next req) then []
          else (let states = recordStates (dm_parents d) req
                in [LoadGraph] @ map (\<lambda>st. Observe (recordObsOf (dm_parents d) req tm st)) states
                   @ map (\<lambda>st. FileRaw st (Normalize (q_Next req) (dm_parents d)) (q_Next req) tm) states @ [CountRecord]))"

definition resetProgram :: "act list" where
  "resetProgram = [StoreGraph, StorePredictor, DeleteTransitions, DeleteCWDs, DeleteRaws, ResetRaws, ZeroDirty]"

definition importTail :: "act list" where
  \<comment> \<open>what \<open>handleImport\<close> does after the seed is merged and flushed\<close>
  "importTail = [LoadGraph, StorePredictor]"

text \<open>Run without interruption they are the handlers.\<close>

lemma fold_observe:
  assumes "rg_g r = Some (dm_g d)"
  shows "fold (exec w) (map (\<lambda>st. Observe (obs st)) states) (r, d) = (r, setGraph (recordAll states obs (graphOf d)) d)"
  using assms
proof (induction states arbitrary: d)
  case Nil
  show ?case by (simp add: recordAll_def setGraph_def graphOf_def)
next
  case (Cons st states)
  let ?d = "d\<lparr>dm_heap := (dm_heap d)(dm_g d := RecordObs (obs st) (dm_heap d (dm_g d)))\<rparr>"
  show ?case using Cons.IH [of ?d] Cons.prems by (simp add: setGraph_def graphOf_def recordAll_def)
qed

lemma fold_file:
  "fold (exec w) (map (\<lambda>st. FileRaw st t raw tm) states) (r, d)
     = (r, d\<lparr>dm_raws := fold (\<lambda>st. recordRaw st t raw tm) states (dm_raws d)\<rparr>)"
  by (induction states arbitrary: d) simp_all

lemma record_sequential: "snd (fold (exec w) (recordProgram w d req) (r, d)) = snd (handleRecord w req d)"
proof (cases "requestTime w (q_At req)")
  case (Inr tm)
  show ?thesis
  proof (cases "IsSensitive (dm_redactor d) (q_Next req)")
    case False
    then show ?thesis
      using fold_observe [of "r\<lparr>rg_g := Some (dm_g d)\<rparr>" d w "recordObsOf (dm_parents d) req tm"]
      by (simp add: recordProgram_def Inr handleRecord_eq [OF Inr] Let_def fold_file)
  qed (simp add: recordProgram_def Inr handleRecord_def)
qed (simp add: recordProgram_def handleRecord_def)

lemma reset_sequential: "snd (fold (exec w) resetProgram (r, d)) = snd (handleReset w d)"
  by (cases "wo_clearOk w")
    (simp add: resetProgram_def handleReset_def storePredictor_def graphOf_def clear_def Let_def)

lemma import_sequential: "snd (fold (exec w) importTail (r, d)) = storePredictor d"
  by (simp add: importTail_def storePredictor_def graphOf_def)

subsection \<open>Interleaved runs\<close>

record thread =
  th_reg :: regs
  th_done :: "act list"
  th_todo :: "act list"

definition begun :: "act list \<Rightarrow> thread" where
  "begun p = \<lparr>th_reg = regs0, th_done = [], th_todo = p\<rparr>"

inductive irun :: "world \<Rightarrow> act list list \<Rightarrow> daemon \<Rightarrow> thread list \<Rightarrow> daemon \<Rightarrow> bool" for w programs d0 where
  irun_start: "irun w programs d0 (map begun programs) d0"
| irun_step: "irun w programs d0 ts d \<Longrightarrow> i < length ts \<Longrightarrow> th_todo (ts ! i) = a # rest \<Longrightarrow>
    exec w a (th_reg (ts ! i), d) = (r, d') \<Longrightarrow>
    irun w programs d0 (ts[i := \<lparr>th_reg = r, th_done = th_done (ts ! i) @ [a], th_todo = rest\<rparr>]) d'"

definition finished :: "thread list \<Rightarrow> bool" where
  "finished ts \<longleftrightarrow> (\<forall>t\<in>set ts. th_todo t = [])"

text \<open>Nothing can stop a thread, so every run can be completed.\<close>

lemma irun_thread:
  assumes "irun w programs d0 ts d" "i < length ts"
  shows "irun w programs d0 (ts[i := \<lparr>th_reg = fst (fold (exec w) (th_todo (ts ! i)) (th_reg (ts ! i), d)),
      th_done = th_done (ts ! i) @ th_todo (ts ! i), th_todo = []\<rparr>]) (snd (fold (exec w) (th_todo (ts ! i)) (th_reg (ts ! i), d)))"
  using assms
proof (induction "th_todo (ts ! i)" arbitrary: ts d)
  case Nil
  then have same: "\<lparr>th_reg = th_reg (ts ! i), th_done = th_done (ts ! i), th_todo = []\<rparr> = ts ! i" by simp
  show ?case using Nil(2) unfolding Nil(1) [symmetric]
    by (simp only: fold_simps fst_conv snd_conv append_Nil2 same list_update_id)
next
  case (Cons a rest)
  obtain r d' where e: "exec w a (th_reg (ts ! i), d) = (r, d')" by fastforce
  let ?ts = "ts[i := \<lparr>th_reg = r, th_done = th_done (ts ! i) @ [a], th_todo = rest\<rparr>]"
  have "irun w programs d0 ?ts d'" using irun_step [OF Cons.prems Cons.hyps(2) [symmetric] e] .
  from Cons.hyps(1) [OF _ this] show ?case using Cons.prems(2) e by (simp flip: Cons.hyps(2))
qed

lemma irun_complete:
  assumes "irun w programs d0 ts d"
  shows "\<exists>ts' d'. irun w programs d0 ts' d' \<and> finished ts'"
  using assms
proof (induction "length (filter (\<lambda>t. th_todo t \<noteq> []) ts)" arbitrary: ts d rule: less_induct)
  case less
  show ?case
  proof (cases "finished ts")
    case False
    then obtain i where i: "i < length ts" "th_todo (ts ! i) \<noteq> []" by (auto simp: finished_def in_set_conv_nth)
    let ?t = "\<lparr>th_reg = fst (fold (exec w) (th_todo (ts ! i)) (th_reg (ts ! i), d)), th_done = th_done (ts ! i) @ th_todo (ts ! i), th_todo = []\<rparr>"
    have split: "ts = take i ts @ ts ! i # drop (Suc i) ts" using i(1) by (rule id_take_nth_drop)
    have "length (filter (\<lambda>t. th_todo t \<noteq> []) (ts[i := ?t])) < length (filter (\<lambda>t. th_todo t \<noteq> []) ts)"
      using i by (subst (2) split) (simp add: upd_conv_take_nth_drop)
    then show ?thesis using less.hyps irun_thread [OF less.prems i(1)] by blast
  qed (use less.prems in blast)
qed

subsection \<open>The effect of actions, up to their order\<close>

text \<open>An observation acts on one entry of the abstract graph of Graph_Merge, a filed command on one
  counter. Both commute, also where counters wrap around.\<close>

definition obsKey :: "observation \<Rightarrow> string \<times> string" where
  "obsKey obs = (stateKey (o_State obs), o_Next obs)"

definition aRecord :: "observation \<Rightarrow> aentry \<Rightarrow> aentry" where
  "aRecord obs a =
     a\<lparr>a_count := bump (a_count a),
       a_lastSeen := max (a_lastSeen a) (o_At obs),
       a_cwds := (if o_CWD obs \<noteq> []
          then (a_cwds a)(o_CWD obs \<mapsto> bump (case a_cwds a (o_CWD obs) of None \<Rightarrow> 0 | Some c \<Rightarrow> c)) else a_cwds a),
       a_nextSuccess := (if o_NextOutcome obs = OutcomeSuccess then bump (a_nextSuccess a) else a_nextSuccess a),
       a_nextFailure := (if o_NextOutcome obs = OutcomeFailure then bump (a_nextFailure a) else a_nextFailure a),
       a_priorSuccess := (if o_PriorOutcome obs = OutcomeSuccess then bump (a_priorSuccess a) else a_priorSuccess a),
       a_priorFailure := (if o_PriorOutcome obs = OutcomeFailure then bump (a_priorFailure a) else a_priorFailure a),
       a_accepted := (if o_Accepted obs then bump (a_accepted a) else a_accepted a)\<rparr>"

interpretation observing: keyed_commuting obsKey aRecord "absEntry entry0"
  by unfold_locales (auto simp: aRecord_def max.left_commute max.commute max.assoc fun_eq_iff)

interpretation filing: keyed_commuting "id :: string \<times> string \<Rightarrow> _" "\<lambda>_ n. wrap64 (n + 1)" 0
  by unfold_locales simp

definition rawCounts :: "rawStore \<Rightarrow> (string \<times> string \<rightharpoonup> int)" where
  "rawCounts s = (\<lambda>(k, raw). map_option re_count (tlLookup (rs_m s) k raw))"

abbreviation recordAbs where "recordAbs \<equiv> fold (applyAt obsKey aRecord (absEntry entry0))"
abbreviation fileAbs where "fileAbs \<equiv> fold (applyAt (id :: string \<times> string \<Rightarrow> _) (\<lambda>_ n. wrap64 (n + 1)) 0)"

definition countOne :: "int \<times> bool \<Rightarrow> int \<times> bool" where
  "countOne = (\<lambda>(n, ch). let n' = wrap32 (n + 1) in (n', if flushThreshold \<le> n' then True else ch))"

definition observed_in :: "act list \<Rightarrow> observation list" where
  "observed_in = List.map_filter (\<lambda>a. case a of Observe obs \<Rightarrow> if o_Next obs = [] then None else Some obs | _ \<Rightarrow> None)"

definition filed_in :: "act list \<Rightarrow> (string \<times> string) list" where
  "filed_in = List.map_filter (\<lambda>a. case a of FileRaw st t raw tm \<Rightarrow> Some (rawOuterKey st t, raw) | _ \<Rightarrow> None)"

definition times_in :: "act list \<Rightarrow> (string \<times> string \<times> gotime) list" where
  "times_in = List.map_filter (\<lambda>a. case a of FileRaw st t raw tm \<Rightarrow> Some (rawOuterKey st t, raw, tm) | _ \<Rightarrow> None)"

lemma map_filter_facts:
  "List.map_filter f (xs @ ys) = List.map_filter f xs @ List.map_filter f ys"
  "mset xs = mset zs \<Longrightarrow> mset (List.map_filter f xs) = mset (List.map_filter f zs)"
  by (simp_all add: List.map_filter_def mset_filter)

lemma absEntry_record: "absEntry (recordEntry obs e) = aRecord obs (absEntry e)"
  by (simp add: absEntry_def recordEntry_def aRecord_def After_def max_def mapGet_def fun_eq_iff map_of_mapPut)

lemma absGraph_record:
  "absGraph (RecordObs obs g) = recordAbs (observed_in [Observe obs]) (absGraph g)"
proof (cases "o_Next obs = []")
  case False
  have "absGraph (RecordObs obs g) = applyAt obsKey aRecord (absEntry entry0) obs (absGraph g)"
    using False
    by (auto simp: absGraph_def applyAt_def obsKey_def lookup_RecordObs absEntry_record fun_eq_iff split: option.splits)
  then show ?thesis using False by (simp add: observed_in_def List.map_filter_def)
qed (simp add: RecordObs_def observed_in_def List.map_filter_def)

lemma rawCounts_record:
  "rawCounts (recordRaw st t raw tm s) = applyAt id (\<lambda>_ n. wrap64 (n + 1)) 0 (rawOuterKey st t, raw) (rawCounts s)"
  by (auto simp: rawCounts_def applyAt_def lookup_recordRaw rawEntry0_def fun_eq_iff split: option.splits)

subsection \<open>What a set of actions has done\<close>

definition recordAct :: "act \<Rightarrow> bool" where
  "recordAct a \<longleftrightarrow> (case a of LoadGraph \<Rightarrow> True | Observe _ \<Rightarrow> True | FileRaw _ _ _ _ \<Rightarrow> True | CountRecord \<Rightarrow> True | _ \<Rightarrow> False)"

definition lastFiled :: "act list \<Rightarrow> rawStore \<Rightarrow> rawStore \<Rightarrow> bool" where
  \<comment> \<open>a command that was filed bears the time of one of the filings, another is as before\<close>
  "lastFiled acts s0 s \<longleftrightarrow> (\<forall>k raw e. tlLookup (rs_m s) k raw = Some e \<longrightarrow>
     (if (k, raw) \<in> set (filed_in acts) then (k, raw, re_lastSeen e) \<in> set (times_in acts)
      else tlLookup (rs_m s0) k raw = Some e))"

lemma filed_append: "filed_in (p @ q) = filed_in p @ filed_in q" "times_in (p @ q) = times_in p @ times_in q"
  by (simp_all add: filed_in_def times_in_def map_filter_facts(1))

lemma filed_file: "filed_in [FileRaw st t raw tm] = [(rawOuterKey st t, raw)]" "times_in [FileRaw st t raw tm] = [(rawOuterKey st t, raw, tm)]"
  by (simp_all add: filed_in_def times_in_def List.map_filter_simps)

lemma lastFiled_file: "lastFiled acts s0 s \<Longrightarrow> lastFiled (acts @ [FileRaw st t raw tm]) s0 (recordRaw st t raw tm s)"
  unfolding lastFiled_def filed_append filed_file lookup_recordRaw by auto

lemma lastFiled_other: "filed_in [a] = [] \<Longrightarrow> times_in [a] = [] \<Longrightarrow> lastFiled acts s0 s \<Longrightarrow> lastFiled (acts @ [a]) s0 s"
  by (simp add: lastFiled_def filed_append)

definition effectOf :: "act list \<Rightarrow> daemon \<Rightarrow> daemon \<Rightarrow> bool" where
  \<comment> \<open>\<open>d\<close> is \<open>d0\<close> after the actions of \<open>acts\<close>, as far as their order does not matter\<close>
  "effectOf acts d0 d \<longleftrightarrow>
     absGraph (graphOf d) = recordAbs (observed_in acts) (absGraph (graphOf d0))
   \<and> rawCounts (dm_raws d) = fileAbs (filed_in acts) (rawCounts (dm_raws d0))
   \<and> lastFiled acts (dm_raws d0) (dm_raws d)
   \<and> (dm_dirty d, dm_flushCh d) = (countOne ^^ count (mset acts) CountRecord) (dm_dirty d0, dm_flushCh d0)
   \<and> dm_g d = dm_g d0 \<and> dm_predG d = dm_predG d0 \<and> dm_pred d = dm_pred d0 \<and> dm_db d = dm_db d0"

lemma effectOf_step:
  assumes "effectOf acts d0 d" "exec w a (r, d) = (r', d')" "recordAct a" "a \<noteq> LoadGraph \<Longrightarrow> rg_g r = Some (dm_g d0)"
  shows "effectOf (acts @ [a]) d0 d' \<and> rg_g r' = Some (dm_g d0)"
proof (cases a)
  case (Observe obs)
  then have r: "rg_g r = Some (dm_g d)" using assms(1,4) by (simp add: effectOf_def)
  then have "graphOf d' = RecordObs obs (graphOf d)" using assms(2) Observe by (auto simp: graphOf_def)
  then have "absGraph (graphOf d') = recordAbs (observed_in [a]) (absGraph (graphOf d))"
    by (simp add: absGraph_record Observe)
  then have "absGraph (graphOf d') = recordAbs (observed_in (acts @ [a])) (absGraph (graphOf d0))"
    using assms(1) by (simp add: effectOf_def observed_in_def map_filter_facts(1))
  then show ?thesis using assms(1,2) r Observe
    by (auto simp: effectOf_def lastFiled_other filed_in_def times_in_def map_filter_facts(1) List.map_filter_simps)
next
  case (FileRaw st t raw tm)
  then show ?thesis using assms
    by (auto simp: effectOf_def graphOf_def filed_in_def observed_in_def map_filter_facts(1) List.map_filter_simps rawCounts_record
        lastFiled_file)
next
  case CountRecord
  then show ?thesis using assms
    by (auto simp: effectOf_def lastFiled_other graphOf_def filed_in_def times_in_def observed_in_def map_filter_facts(1) List.map_filter_simps
        signalFlush_def countOne_def Let_def split: prod.splits)
qed (use assms in \<open>auto simp: effectOf_def lastFiled_other recordAct_def filed_in_def times_in_def observed_in_def map_filter_facts(1) List.map_filter_simps\<close>)

lemma effectOf_perm:
  assumes "effectOf acts d0 d" "effectOf acts' d0 d'" "mset acts = mset acts'"
  shows "absGraph (graphOf d) = absGraph (graphOf d') \<and> rawCounts (dm_raws d) = rawCounts (dm_raws d')
    \<and> dm_dirty d = dm_dirty d' \<and> dm_flushCh d = dm_flushCh d' \<and> dm_db d = dm_db d'
    \<and> dm_g d = dm_g d' \<and> dm_predG d = dm_predG d' \<and> dm_pred d = dm_pred d'"
proof -
  have "recordAbs (observed_in acts) A = recordAbs (observed_in acts') A" for A
    by (rule observing.fold_perm) (simp add: observed_in_def map_filter_facts(2) [OF assms(3)])
  moreover have "fileAbs (filed_in acts) A = fileAbs (filed_in acts') A" for A
    by (rule filing.fold_perm) (simp add: filed_in_def map_filter_facts(2) [OF assms(3)])
  ultimately show ?thesis using assms unfolding effectOf_def by (metis Pair_inject)
qed

definition recording :: "act list \<Rightarrow> bool" where
  "recording p \<longleftrightarrow> list_all recordAct p \<and> (p \<noteq> [] \<longrightarrow> hd p = LoadGraph)"

lemma recording_program: "recording (recordProgram w d req)"
  by (auto simp: recording_def recordProgram_def Let_def list_all_iff recordAct_def split: sum.splits)

lemma effectOf_fold:
  "effectOf acts d0 d \<Longrightarrow> list_all recordAct p \<Longrightarrow> rg_g r = Some (dm_g d0) \<or> p = [] \<or> hd p = LoadGraph \<Longrightarrow>
     effectOf (acts @ p) d0 (snd (fold (exec w) p (r, d)))"
proof (induction p arbitrary: acts d r)
  case (Cons a p)
  obtain r' d' where e: "exec w a (r, d) = (r', d')" by fastforce
  have "effectOf (acts @ [a]) d0 d' \<and> rg_g r' = Some (dm_g d0)"
    by (rule effectOf_step [OF Cons.prems(1) e]) (use Cons.prems(2,3) in auto)
  then show ?case using Cons.IH [of "acts @ [a]" d' r'] Cons.prems(2) e by simp
qed simp

lemma effectOf_refl: "effectOf [] d d"
  by (simp add: effectOf_def lastFiled_def observed_in_def filed_in_def List.map_filter_simps)

lemma mset_done_update:
  assumes "i < length ts"
  shows "mset (concat (map th_done (ts[i := \<lparr>th_reg = r, th_done = th_done (ts ! i) @ [a], th_todo = rest\<rparr>])))
    = add_mset a (mset (concat (map th_done ts)))"
proof -
  have "ts = take i ts @ ts ! i # drop (Suc i) ts" using assms by (rule id_take_nth_drop)
  then have "mset (concat (map th_done ts))
      = mset (concat (map th_done (take i ts))) + mset (th_done (ts ! i)) + mset (concat (map th_done (drop (Suc i) ts)))"
    by (metis (no_types, lifting) add.assoc concat.simps(2) concat_append list.simps(9) map_append mset_append)
  then show ?thesis using assms by (simp add: upd_conv_take_nth_drop)
qed

lemma irun_effect:
  assumes "irun w programs d0 ts d" "list_all recording programs"
  shows "length ts = length programs \<and> (\<forall>i<length ts. th_done (ts ! i) @ th_todo (ts ! i) = programs ! i
        \<and> (th_done (ts ! i) \<noteq> [] \<longrightarrow> rg_g (th_reg (ts ! i)) = Some (dm_g d0)))
    \<and> (\<exists>acts. mset acts = mset (concat (map th_done ts)) \<and> effectOf acts d0 d)"
  using assms(1)
proof induction
  case irun_start
  show ?case using effectOf_refl by (auto simp: begun_def comp_def intro!: exI [of _ "[]"])
next
  case (irun_step ts d i a rest r d')
  note t = irun_step.hyps(2-4)
  have len: "length ts = length programs"
    and shape: "\<And>j. j < length ts \<Longrightarrow> th_done (ts ! j) @ th_todo (ts ! j) = programs ! j
        \<and> (th_done (ts ! j) \<noteq> [] \<longrightarrow> rg_g (th_reg (ts ! j)) = Some (dm_g d0))" using irun_step.IH by blast+
  obtain acts where acts: "mset acts = mset (concat (map th_done ts))" "effectOf acts d0 d" using irun_step.IH by blast
  have prog: "recording (programs ! i)" using assms(2) t(1) len by (simp add: list_all_length)
  have "programs ! i = th_done (ts ! i) @ a # rest" using shape [OF t(1)] t(2) by simp
  then have "recordAct a" "a \<noteq> LoadGraph \<Longrightarrow> th_done (ts ! i) \<noteq> []"
    using prog by (auto simp: recording_def)
  then have step: "effectOf (acts @ [a]) d0 d' \<and> rg_g r = Some (dm_g d0)"
    by (intro effectOf_step [OF acts(2) t(3)]) (use shape [OF t(1)] in auto)
  let ?ts = "ts[i := \<lparr>th_reg = r, th_done = th_done (ts ! i) @ [a], th_todo = rest\<rparr>]"
  have "mset (acts @ [a]) = mset (concat (map th_done ?ts))"
    unfolding mset_done_update [OF t(1)] by (simp add: acts(1))
  moreover have "th_done (?ts ! j) @ th_todo (?ts ! j) = programs ! j \<and> (th_done (?ts ! j) \<noteq> [] \<longrightarrow> rg_g (th_reg (?ts ! j)) = Some (dm_g d0))"
    if "j < length ?ts" for j
    using that shape [of j] shape [OF t(1)] t(1,2) step by (cases "j = i") simp_all
  moreover have "length ?ts = length programs" using len by simp
  ultimately show ?case using step by blast
qed

subsection \<open>Concurrent records are as good as one after another\<close>

definition oneByOne :: "world \<Rightarrow> request list \<Rightarrow> daemon \<Rightarrow> daemon" where
  "oneByOne w reqs d = fold (\<lambda>req d. snd (handleRecord w req d)) reqs d"

lemma oneByOne_effect:
  "effectOf (concat (map (recordProgram w d0) reqs)) d0 (oneByOne w reqs d0)
   \<and> dm_parents (oneByOne w reqs d0) = dm_parents d0 \<and> dm_redactor (oneByOne w reqs d0) = dm_redactor d0"
proof (induction reqs rule: rev_induct)
  case (snoc req reqs)
  let ?d = "oneByOne w reqs d0"
  have kept: "dm_parents ?d = dm_parents d0" "dm_redactor ?d = dm_redactor d0" using snoc.IH by simp_all
  have same: "recordProgram w ?d req = recordProgram w d0 req" unfolding recordProgram_def kept ..
  have "recording (recordProgram w d0 req)" by (rule recording_program)
  then have "effectOf (concat (map (recordProgram w d0) reqs) @ recordProgram w d0 req) d0
      (snd (fold (exec w) (recordProgram w d0 req) (regs0, ?d)))"
    using snoc.IH by (intro effectOf_fold) (auto simp: recording_def)
  then have "effectOf (concat (map (recordProgram w d0) reqs) @ recordProgram w d0 req) d0 (snd (handleRecord w req ?d))"
    unfolding record_sequential [of w ?d req regs0, unfolded same] .
  moreover have "dm_parents (snd (handleRecord w req ?d)) = dm_parents ?d \<and> dm_redactor (snd (handleRecord w req ?d)) = dm_redactor ?d"
    using record_keeps [of w req ?d, OF prod.collapse [symmetric]] by blast
  ultimately show ?case using snoc.IH by (simp add: oneByOne_def)
qed (simp add: oneByOne_def effectOf_refl)

lemma times_program:
  "(k, raw, tm) \<in> set (times_in (recordProgram w d req)) \<Longrightarrow> q_Next req = raw \<and> requestTime w (q_At req) = Inr tm"
  by (auto simp: recordProgram_def times_in_def List.map_filter_def Let_def split: sum.splits if_splits act.splits)

lemma times_concat: "set (times_in (concat ps)) = (\<Union>p\<in>set ps. set (times_in p))"
proof -
  have "times_in [] = []" by (simp add: times_in_def List.map_filter_simps(2))
  then show ?thesis by (induction ps) (simp_all add: filed_append(2))
qed

lemma mset_programs:
  assumes "mset order = mset reqs"
  shows "mset (concat (map p order)) = mset (concat (map p reqs))"
proof -
  have "mset (concat (map p rs)) = \<Sum>\<^sub># (image_mset (mset \<circ> p) (mset rs))" for rs by (induction rs) auto
  then show ?thesis using assms by simp
qed

text \<open>C13: Recording loses nothing to concurrency: however the threads of any number of records interleave,
  when they have finished the graph (every counter, time and directory), the counts of the raw commands,
  the unsaved counter and the flush signal are what they are after handling the requests one at a time,
  in whatever order; pointers and database are untouched. A raw command either has its old entry or bears
  the time of one of the requests that sent it; which one does depend on the order
  (\<open>last_record_wins\<close>). Every run can be finished.\<close>

theorem concurrent_records:
  assumes "irun w (map (recordProgram w d0) reqs) d0 ts d"
  shows "(finished ts \<and> mset order = mset reqs \<longrightarrow>
        absGraph (graphOf d) = absGraph (graphOf (oneByOne w order d0))
      \<and> rawCounts (dm_raws d) = rawCounts (dm_raws (oneByOne w order d0))
      \<and> (\<forall>k raw e. tlLookup (rs_m (dm_raws d)) k raw = Some e \<longrightarrow>
           tlLookup (rs_m (dm_raws d0)) k raw = Some e
         \<or> (\<exists>req\<in>set reqs. q_Next req = raw \<and> requestTime w (q_At req) = Inr (re_lastSeen e)))
      \<and> dm_dirty d = dm_dirty (oneByOne w order d0) \<and> dm_flushCh d = dm_flushCh (oneByOne w order d0)
      \<and> dm_db d = dm_db d0 \<and> dm_g d = dm_g d0 \<and> dm_predG d = dm_predG d0)
    \<and> (\<exists>ts' d'. irun w (map (recordProgram w d0) reqs) d0 ts' d' \<and> finished ts')"
proof (intro conjI impI)
  let ?ps = "map (recordProgram w d0) reqs"
  assume f: "finished ts \<and> mset order = mset reqs"
  have rec: "list_all recording ?ps" by (simp add: list_all_iff recording_program)
  obtain acts where acts: "mset acts = mset (concat (map th_done ts))" "effectOf acts d0 d"
    using irun_effect [OF assms rec] by blast
  have dones: "map th_done ts = ?ps"
    using irun_effect [OF assms rec] f by (intro nth_equalityI) (auto simp: finished_def)
  have m: "mset acts = mset (concat (map (recordProgram w d0) order))" using acts(1) dones mset_programs f by metis
  note same = effectOf_perm [OF acts(2) conjunct1 [OF oneByOne_effect] m]
  then show "absGraph (graphOf d) = absGraph (graphOf (oneByOne w order d0))"
    "rawCounts (dm_raws d) = rawCounts (dm_raws (oneByOne w order d0))"
    "dm_dirty d = dm_dirty (oneByOne w order d0)" "dm_flushCh d = dm_flushCh (oneByOne w order d0)" by blast+
  show "dm_db d = dm_db d0" "dm_g d = dm_g d0" "dm_predG d = dm_predG d0" using acts(2) by (simp_all add: effectOf_def)
  have "set (times_in acts) = set (times_in (concat ?ps))"
    using map_filter_facts(2) [OF acts(1) [unfolded dones]] unfolding times_in_def by (metis mset_eq_setD)
  also have "\<dots> = (\<Union>req\<in>set reqs. set (times_in (recordProgram w d0 req)))"
    by (simp add: times_concat)
  finally show "\<forall>k raw e. tlLookup (rs_m (dm_raws d)) k raw = Some e \<longrightarrow>
      tlLookup (rs_m (dm_raws d0)) k raw = Some e
      \<or> (\<exists>req\<in>set reqs. q_Next req = raw \<and> requestTime w (q_At req) = Inr (re_lastSeen e))"
    using acts(2) times_program by (fastforce simp: effectOf_def lastFiled_def split: if_splits)
qed (rule irun_complete [OF assms])

theorem concurrent_records_witness:
  "\<exists>ts d. irun demoWorld (map (recordProgram demoWorld demoDaemon) [demoRequest, demoRequest\<lparr>q_Next := ''cd''\<rparr>]) demoDaemon ts d
     \<and> finished ts
     \<and> absGraph (graphOf d) = absGraph (graphOf (oneByOne demoWorld [demoRequest\<lparr>q_Next := ''cd''\<rparr>, demoRequest] demoDaemon))"
proof -
  obtain ts d where run: "finished ts"
    "irun demoWorld (map (recordProgram demoWorld demoDaemon) [demoRequest, demoRequest\<lparr>q_Next := ''cd''\<rparr>]) demoDaemon ts d"
    using irun_complete [OF irun_start] by blast
  show ?thesis
    using concurrent_records [OF run(2), of "[demoRequest\<lparr>q_Next := ''cd''\<rparr>, demoRequest]"] run by auto
qed

text \<open>\<open>rawStore.record\<close> overwrites the time, unlike the graph and unlike \<open>mergeExamples\<close>, which keep the later
  one: whichever request is handled last sets it, also when its own time is the earlier.\<close>

lemma last_record_wins:
  assumes "requestTime w (q_At req) = Inr tm" "\<not> IsSensitive (dm_redactor d) (q_Next req)" "st \<in> set (recordStates (dm_parents d) req)"
  shows "\<exists>e. tlLookup (rs_m (dm_raws (snd (handleRecord w req d)))) (rawOuterKey st (Normalize (q_Next req) (dm_parents d))) (q_Next req) = Some e
    \<and> re_lastSeen e = tm"
proof -
  let ?t = "Normalize (q_Next req) (dm_parents d)" and ?raw = "q_Next req"
  have "\<exists>e. tlLookup (rs_m (fold (\<lambda>st. recordRaw st ?t ?raw tm) states s)) (rawOuterKey st ?t) ?raw = Some e \<and> re_lastSeen e = tm"
    if "st \<in> set states \<or> (\<exists>e. tlLookup (rs_m s) (rawOuterKey st ?t) ?raw = Some e \<and> re_lastSeen e = tm)" for states s
    using that
  proof (induction states arbitrary: s)
    case (Cons x states)
    then show ?case
      using Cons.IH [of "recordRaw x ?t ?raw tm s"] by (auto simp: lookup_recordRaw)
  qed simp
  then show ?thesis using assms by (simp add: handleRecord_eq [OF assms(1,2)])
qed

subsection \<open>What a reset races with\<close>

text \<open>One action, all of another thread, then the rest: the schedule of both findings below.\<close>

lemma irun_preempted:
  assumes "p = a # rest" "exec w a (regs0, d0) = (r, d1)" "snd (fold (exec w) q (regs0, d1)) = d2"
    "snd (fold (exec w) rest (r, d2)) = d3"
  shows "\<exists>ts. irun w [p, q] d0 ts d3 \<and> finished ts"
proof -
  have one: "irun w [p, q] d0 [\<lparr>th_reg = r, th_done = [a], th_todo = rest\<rparr>, begun q] d1"
    using irun_step [OF irun_start, of 0 "[p, q]" a rest w d0 r d1] assms(1,2) by (simp add: begun_def)
  note two = irun_thread [OF one, of 1, simplified]
  show ?thesis
    using irun_thread [OF two, of 0, simplified] assms(3,4)
    by (fastforce simp: begun_def finished_def)
qed

text \<open>\<open>handleImport\<close> loads the graph and builds its predictor without holding \<open>flushMu\<close>. If a reset runs in
  between, predictions keep being made from the graph that was to be forgotten, while records go to the
  new one.\<close>

lemma import_undoes_reset:
  assumes "dm_g d0 \<noteq> dm_fresh d0"
  shows "\<exists>ts d. irun w [importTail, resetProgram] d0 ts d \<and> finished ts
    \<and> graphOf d = New 2 \<and> dm_predG d \<noteq> dm_g d \<and> dm_heap d (dm_predG d) = graphOf d0"
proof -
  obtain d2 where d2: "snd (fold (exec w) resetProgram (regs0, d0)) = d2" by blast
  then have new: "graphOf d2 = New 2" "dm_g d2 = dm_fresh d0" "dm_heap d2 (dm_g d0) = graphOf d0"
    using assms by (auto simp: resetProgram_def graphOf_def split: prod.splits)
  obtain ts where "irun w [importTail, resetProgram] d0 ts (snd (fold (exec w) [StorePredictor] (regs0\<lparr>rg_g := Some (dm_g d0)\<rparr>, d2)))"
      "finished ts"
    using irun_preempted [OF importTail_def exec.simps(1) d2 refl] by blast
  then show ?thesis using new assms
    by (intro exI [of _ ts] exI [of _ "snd (fold (exec w) [StorePredictor] (regs0\<lparr>rg_g := Some (dm_g d0)\<rparr>, d2))"]) (simp add: graphOf_def)
qed

lemma observe_elsewhere:
  assumes "dm_g d \<noteq> g" "rg_g r = Some g"
  shows "fst (fold (exec w) (map (\<lambda>st. Observe (obs st)) sts) (r, d)) = r
    \<and> graphOf (snd (fold (exec w) (map (\<lambda>st. Observe (obs st)) sts) (r, d))) = graphOf d
    \<and> dm_dirty (snd (fold (exec w) (map (\<lambda>st. Observe (obs st)) sts) (r, d))) = dm_dirty d"
  using assms
proof (induction sts arbitrary: d)
  case (Cons st sts)
  show ?case using Cons.IH [of "d\<lparr>dm_heap := (dm_heap d)(g := RecordObs (obs st) (dm_heap d g))\<rparr>"] Cons.prems
    by (simp add: graphOf_def)
qed simp

text \<open>A record that has loaded the graph before a reset observes into the old graph and files its raw
  command, and counts itself, after the reset: no order of the two requests has that outcome.\<close>

lemma record_straddles_reset:
  assumes time: "requestTime w (q_At req) = Inr tm" and plain: "\<not> IsSensitive (dm_redactor d0) (q_Next req)"
    and new: "dm_g d0 \<noteq> dm_fresh d0" and st: "st \<in> set (recordStates (dm_parents d0) req)"
  shows "\<exists>ts d. irun w [recordProgram w d0 req, resetProgram] d0 ts d \<and> finished ts \<and> graphOf d = New 2 \<and> dm_dirty d = 1
    \<and> tlLookup (rs_m (dm_raws d)) (rawOuterKey st (Normalize (q_Next req) (dm_parents d0))) (q_Next req) \<noteq> None"
proof -
  let ?states = "recordStates (dm_parents d0) req"
  let ?t = "Normalize (q_Next req) (dm_parents d0)"
  let ?obs = "map (\<lambda>st. Observe (recordObsOf (dm_parents d0) req tm st)) ?states"
  let ?files = "map (\<lambda>st. FileRaw st ?t (q_Next req) tm) ?states"
  obtain d2 where d2: "snd (fold (exec w) resetProgram (regs0, d0)) = d2" by blast
  then have reset: "graphOf d2 = New 2" "dm_g d2 = dm_fresh d0" "dm_dirty d2 = 0"
    by (auto simp: resetProgram_def graphOf_def split: prod.splits)
  obtain d3 where d3: "fold (exec w) ?obs (regs0\<lparr>rg_g := Some (dm_g d0)\<rparr>, d2) = (regs0\<lparr>rg_g := Some (dm_g d0)\<rparr>, d3)"
    "graphOf d3 = New 2" "dm_dirty d3 = 0"
    using observe_elsewhere [of d2 "dm_g d0" "regs0\<lparr>rg_g := Some (dm_g d0)\<rparr>" w "recordObsOf (dm_parents d0) req tm" ?states] reset new
    by (auto simp: prod_eq_iff intro: that)
  let ?d = "snd (fold (exec w) (?obs @ ?files @ [CountRecord]) (regs0\<lparr>rg_g := Some (dm_g d0)\<rparr>, d2))"
  have end_: "?d = signalFlush (d3\<lparr>dm_raws := fold (\<lambda>st. recordRaw st ?t (q_Next req) tm) ?states (dm_raws d3)\<rparr>)"
    by (simp add: d3(1) fold_file)
  have prog: "recordProgram w d0 req = LoadGraph # ?obs @ ?files @ [CountRecord]"
    by (simp add: recordProgram_def time plain Let_def)
  obtain ts where "irun w [recordProgram w d0 req, resetProgram] d0 ts ?d" "finished ts"
    using irun_preempted [OF prog exec.simps(1) d2 refl] by blast
  moreover have "graphOf ?d = New 2" "dm_dirty ?d = 1"
    unfolding end_ using d3 by (simp_all add: signalFlush_def Let_def wrap32_def graphOf_def)
  moreover have "tlLookup (rs_m (dm_raws ?d)) (rawOuterKey st ?t) (q_Next req) \<noteq> None"
    unfolding end_ using lookup_recordRaws [OF st] by simp
  ultimately show ?thesis by blast
qed

end
