(* ===== verification/Plain_Text.thy ===== *)
theory Plain_Text
  imports Normalize Go_Filepath
begin

text \<open>
  Text without NUL bytes stays without them: no stage of normalization and no cleaning of a path
  introduces one. The keys of the graph and of the raw store are built with NUL separators, so
  this is what keeps them apart for ordinary requests.
\<close>

definition plain :: "string \<Rightarrow> bool" where
  "plain s \<longleftrightarrow> NUL \<notin> set s"

definition plains :: "string list \<Rightarrow> bool" where
  "plains ws \<longleftrightarrow> (\<forall>w\<in>set ws. plain w)"

lemma plain_simps [simp]:
  "plain []" "plain (c # s) \<longleftrightarrow> c \<noteq> NUL \<and> plain s" "plain (s @ t) \<longleftrightarrow> plain s \<and> plain t"
  by (auto simp: plain_def)

lemma plains_simps [simp]:
  "plains []" "plains (w # ws) \<longleftrightarrow> plain w \<and> plains ws" "plains (ws @ vs) \<longleftrightarrow> plains ws \<and> plains vs"
  by (auto simp: plains_def)

lemma plain_tl [simp]: "plain s \<Longrightarrow> plain (tl s)"
  by (cases s) simp_all

lemma plains_tl [simp]: "plains ws \<Longrightarrow> plains (tl ws)"
  by (cases ws) simp_all

lemma plains_mono: "plains ws \<Longrightarrow> set vs \<subseteq> set ws \<Longrightarrow> plains vs"
  unfolding plains_def by blast

lemma plains_rev [simp]: "plains (rev ws) = plains ws"
  by (simp add: plains_def)

lemma Join_plain: "plain sep \<Longrightarrow> plains ws \<Longrightarrow> plain (Join ws sep)"
  by (induction ws sep rule: Join.induct) simp_all

subsection \<open>Tokens\<close>

definition plainLex :: "lexer \<Rightarrow> bool" where
  "plainLex l \<longleftrightarrow> plain (l_current l) \<and> plains (l_tokens l)"

lemma plainLex_simps [simp]:
  "plainLex (l\<lparr>l_escaped := b\<rparr>) = plainLex l" "plainLex (l\<lparr>l_inSingle := b\<rparr>) = plainLex l"
  "plainLex (l\<lparr>l_inDouble := b\<rparr>) = plainLex l"
  "plainLex l \<Longrightarrow> plainLex (flushCurrent l)"
  "plainLex l \<Longrightarrow> ch \<noteq> NUL \<Longrightarrow> plainLex (writeByte ch l)"
  "plainLex l \<Longrightarrow> plain op \<Longrightarrow> plainLex (emitTok op l)"
  by (simp_all add: plainLex_def)

lemma tokLoop_plainLex: "plain s \<Longrightarrow> plainLex l \<Longrightarrow> plainLex (tokLoop l s)"
  by (induction l s rule: tokLoop.induct) simp_all

lemma Tokenize_plain: "plain raw \<Longrightarrow> plains (Tokenize raw)"
proof -
  assume "plain raw"
  moreover have "plainLex lexer0" by (simp add: plainLex_def lexer0_def)
  ultimately have "plainLex (flushCurrent (tokLoop lexer0 raw))" by (simp add: tokLoop_plainLex)
  then show ?thesis by (simp only: Tokenize_def plainLex_def)
qed

subsection \<open>Templates\<close>

lemma classifyTokens_plain: "plains toks \<Longrightarrow> plains (classifyTokens toks ps)"
proof -
  assume toks: "plains toks"
  have "set (take 1 toks) \<subseteq> set toks" "set (take 1 (drop 1 toks)) \<subseteq> set toks"
    using set_take_subset set_drop_subset by fastforce+
  then have "set (classifyTokens toks ps) \<subseteq> set (toks @ markers)"
    using classify_vocabulary [of toks ps] by (auto split: if_splits)
  moreover have "plains (toks @ markers)" using toks by (simp add: markers_def)
  ultimately show ?thesis by (rule plains_mono [rotated])
qed

lemma normalizeOne_plain: "plains toks \<Longrightarrow> plain (normalizeOne toks ps)"
  unfolding normalizeOne_def
proof (intro Join_plain classifyTokens_plain)
  assume "plains toks"
  moreover have "set (unwrapPrefixTokens toks) \<subseteq> set toks"
    using unwrap_suffix [of toks] set_mono_suffix by blast
  ultimately show "plains (unwrapPrefixTokens toks)" by (rule plains_mono)
qed simp

lemma segmentsFrom_plain:
  "plains toks \<Longrightarrow> plains acc \<Longrightarrow> plains cur \<Longrightarrow> plains (segmentsFrom ps acc cur toks)"
  by (induction ps acc cur toks rule: segmentsFrom.induct) (simp_all add: normalizeOne_plain)

lemma Normalize_plain: "plain raw \<Longrightarrow> plain (Normalize raw ps)"
  unfolding Normalize_def normalizeSegments_def Let_def
  by (simp add: Join_plain segmentsFrom_plain Tokenize_plain)

subsection \<open>Paths\<close>

lemma Split_plain: "plain s \<Longrightarrow> plains (Split s c)"
  by (induction s) (auto split: list.splits)

lemma cleanElems_plain: "plains els \<Longrightarrow> plains stack \<Longrightarrow> plains (cleanElems r stack els)"
  by (induction r stack els rule: cleanElems.induct) (auto split: list.split if_splits)

lemma Clean_plain: "plain path \<Longrightarrow> plain (Clean path)"
  unfolding Clean_def Let_def
  by (simp add: Join_plain cleanElems_plain Split_plain)

end
