(* ===== verification/Daemon_Run.thy ===== *)
theory Daemon_Run
  imports Handlers Plain_Text
begin

text \<open>
  Runs of the daemon: every state that requests, flushes and decay sweeps can lead to, in any
  order. The invariant of theory Daemon holds in all of them, as long as the two operations that
  delete rows (prune and clear) do not fail and no counter of the graph has reached the largest
  64-bit integer; a save may fail at any time.
\<close>

definition plainRequest :: "request \<Rightarrow> bool" where
  "plainRequest req \<longleftrightarrow> plains (q_State req) \<and> plain (q_CWD req)
     \<and> (\<forall>ex\<in>set (q_RawExamples req). plainExample ex)"

definition worldOk :: "world \<Rightarrow> bool" where
  \<comment> \<open>deletes succeed, and a decoded histogram is a map\<close>
  "worldOk w \<longleftrightarrow> wo_pruneOk w \<and> wo_clearOk w = (True, True, True)
     \<and> (\<forall>data sd. wo_decodeSeed w data = Inr sd \<longrightarrow> (\<forall>t\<in>set (sd_Transitions sd). wfTransition t))"

text \<open>\<open>flushToken\<close> and \<open>flushTick\<close> are the two ways the loop of \<open>flushLoop\<close> comes to flush.\<close>

definition flushToken :: "world \<Rightarrow> daemon \<Rightarrow> daemon" where
  "flushToken w d = (if dm_flushCh d then flush w (d\<lparr>dm_flushCh := False\<rparr>) else d)"

definition flushTick :: "world \<Rightarrow> daemon \<Rightarrow> daemon" where
  "flushTick w d = (if 0 < dm_dirty d then flush w d else d)"

inductive reach :: "(request \<Rightarrow> bool) \<Rightarrow> daemon \<Rightarrow> bool" for ok where
  reach_new: "reach ok (storePredictor (newDaemon compile opt))"
| reach_request: "reach ok d \<Longrightarrow> ok req \<Longrightarrow> worldOk w \<Longrightarrow> roomy (graphOf d) \<Longrightarrow> reach ok (snd (dispatch w req d))"
| reach_token: "reach ok d \<Longrightarrow> reach ok (flushToken w d)"
| reach_tick: "reach ok d \<Longrightarrow> reach ok (flushTick w d)"
| reach_decay: "reach ok d \<Longrightarrow> worldOk w \<Longrightarrow> reach ok (decay w d)"

subsection \<open>Every step keeps the invariant\<close>

lemma daemonInv_cong:
  assumes "graphOf d' = graphOf d" "dm_raws d' = dm_raws d" "dm_db d' = dm_db d" "dm_predG d' = dm_predG d"
    "dm_g d' = dm_g d" "dm_fresh d' = dm_fresh d"
  shows "daemonInv d' = daemonInv d"
  using assms by (simp add: daemonInv_def)

lemma daemonInv_token: "daemonInv d \<Longrightarrow> daemonInv (flushToken w d)"
  using daemonInv_cong [of "d\<lparr>dm_flushCh := False\<rparr>" d]
  by (simp add: flushToken_def daemonInv_flush)

lemma daemonInv_tick: "daemonInv d \<Longrightarrow> daemonInv (flushTick w d)"
  by (simp add: flushTick_def daemonInv_flush)

lemma BackoffStates_sub: "st \<in> set (BackoffStates state c) \<Longrightarrow> set st \<subseteq> set state"
proof -
  assume st: "st \<in> set (BackoffStates state c)"
  then have "st = state \<or> st \<in> set (tl (BackoffStates state c))"
    using BackoffStates_hd [of state c] by (cases "BackoffStates state c") auto
  then show ?thesis using BackoffStates_tl [of st state c] set_drop_subset by fastforce
qed

lemma recordStates_plain:
  assumes "plainRequest req" "st \<in> set (recordStates ps req)"
  shows "\<forall>x\<in>set st. NUL \<notin> set x"
proof -
  let ?state = "(if q_CWD req \<noteq> [] then [Clean (q_CWD req)] else []) @ map (\<lambda>raw. Normalize raw ps) (q_State req)"
  have "plains (map (\<lambda>raw. Normalize raw ps) (q_State req))"
    using assms(1) Normalize_plain by (auto simp: plainRequest_def plains_def)
  then have "plains ?state" using assms(1) Clean_plain by (simp add: plainRequest_def)
  moreover have "set st \<subseteq> set ?state" using assms(2) unfolding recordStates_def by (rule BackoffStates_sub)
  ultimately have "plains st" by (rule plains_mono)
  then show ?thesis by (simp add: plains_def plain_def)
qed

lemma rawInv_recordRaws:
  "rawInv s \<Longrightarrow> \<forall>st\<in>set states. \<forall>x\<in>set st. NUL \<notin> set x \<Longrightarrow>
     rawInv (fold (\<lambda>st. recordRaw st t r tm) states s)"
  by (induction states arbitrary: s) (simp_all add: rawInv_record)

lemma rawsLe_recordRaws: "rawsLe s (fold (\<lambda>st. recordRaw st t r tm) states s)"
  using lookup_recordRaws_kept by (simp add: rawsLe_def)

lemma rawsLe_mergeExamples: "rawsLe s (mergeExamples exs now s)"
proof -
  have one: "tlLookup (rs_m s) k r \<noteq> None \<Longrightarrow> tlLookup (rs_m (mergeExample now ex s)) k r \<noteq> None" for ex s k r
    by (simp add: mergeExample_def Let_def tlLookup_modify)
  have "tlLookup (rs_m s) k r \<noteq> None \<Longrightarrow> tlLookup (rs_m (fold (mergeExample now) exs s)) k r \<noteq> None" for k r
  proof (induction exs arbitrary: s)
    case (Cons ex exs)
    from Cons.IH [OF one [OF Cons.prems]] show ?case by simp
  qed simp
  then show ?thesis by (simp add: rawsLe_def mergeExamples_def)
qed

lemma graphLe_recordAll: "graphLe g (recordAll states obs g)"
  unfolding recordAll_def by (rule graphLe_fold) (rule graphLe_RecordObs)

lemma daemonInv_grow:
  assumes "daemonInv d" "graphInv (graphOf d')" "rawInv (dm_raws d')" "graphLe (graphOf d) (graphOf d')"
    "rawsLe (dm_raws d) (dm_raws d')" "dm_db d' = dm_db d" "dm_predG d' = dm_predG d" "dm_g d' = dm_g d"
    "dm_fresh d' = dm_fresh d"
  shows "daemonInv d'"
  using assms dbWithin_mono rawsWithin_mono unfolding daemonInv_def by metis

lemma graphInv_record:
  assumes "graphInv g" "roomy g"
  shows "graphInv (recordAll (recordStates ps req) (recordObsOf ps req tm) g)"
  unfolding recordStates_def
  by (rule roomy_graphInv_recordAll [OF distinct_stateKeys])
     (use assms in \<open>simp_all add: recordObsOf_def roomy_def\<close>)

lemma daemonInv_record:
  assumes "daemonInv d" "plainRequest req" "roomy (graphOf d)"
  shows "daemonInv (snd (handleRecord w req d))"
proof (cases "requestTime w (q_At req)")
  case (Inr tm)
  show ?thesis
  proof (cases "IsSensitive (dm_redactor d) (q_Next req)")
    case False
    note eq = handleRecord_eq [OF Inr False]
    have inv: "graphInv (graphOf d)" "rawInv (dm_raws d)" using assms(1) by (auto simp: daemonInv_def)
    show ?thesis
      unfolding eq snd_conv
      by (rule daemonInv_grow [OF assms(1)])
        (use inv graphInv_record [OF inv(1) assms(3)] rawInv_recordRaws [OF inv(2)] recordStates_plain [OF assms(2)]
          graphLe_recordAll rawsLe_recordRaws in simp_all)
  qed (use assms Inr in \<open>simp add: handleRecord_def\<close>)
qed (use assms in \<open>simp add: handleRecord_def\<close>)

lemma daemonInv_recordRaws:
  assumes "daemonInv d" "plainRequest req"
  shows "daemonInv (snd (handleRecordRaws w req d))"
proof -
  have inv: "graphInv (graphOf d)" "rawInv (dm_raws d)" using assms(1) by (auto simp: daemonInv_def)
  show ?thesis
    unfolding handleRecordRaws_def snd_conv
    by (rule daemonInv_grow [OF assms(1)])
      (use assms(2) inv rawInv_mergeExamples rawsLe_mergeExamples in \<open>simp_all add: plainRequest_def\<close>)
qed

lemma daemonInv_setGraph:
  assumes "daemonInv d" "graphInv g" "graphLe (graphOf d) g"
  shows "daemonInv (setGraph g d)"
  by (rule daemonInv_grow [OF assms(1)])
    (use assms in \<open>simp_all add: daemonInv_def rawsLe_def\<close>)

lemma daemonInv_storePredictor: "daemonInv d \<Longrightarrow> daemonInv (storePredictor d)"
  by (simp add: daemonInv_def)

lemma daemonInv_importBytes:
  assumes "daemonInv d" "worldOk w" "importSeedFromBytes w data d = Inr d'"
  shows "daemonInv d'"
proof -
  obtain sd g' where sd: "wo_decodeSeed w data = Inr sd" "Merge (sd_Transitions sd) (graphOf d) = Inr g'"
    and d': "d' = flush w (setGraph g' d)"
    using assms(3) by (auto simp: importSeedFromBytes_def split: sum.splits option.splits)
  have "\<forall>t\<in>set (sd_Transitions sd). wfTransition t" using assms(2) sd(1) by (simp add: worldOk_def)
  moreover have "graphInv (graphOf d)" using assms(1) by (simp add: daemonInv_def)
  ultimately have "graphInv g'" using graphInv_Merge sd(2) by blast
  with graphLe_Merge [OF sd(2)] show ?thesis
    unfolding d' by (intro daemonInv_flush daemonInv_setGraph assms(1))
qed

lemma daemonInv_import:
  assumes "daemonInv d" "worldOk w"
  shows "daemonInv (snd (handleImport w req d))"
proof -
  have "importSeed w path d = Inr d' \<Longrightarrow> daemonInv d'" for path d'
    using daemonInv_importBytes [OF assms] by (auto simp: importSeed_def split: sum.splits)
  then show ?thesis
    using daemonInv_importBytes [OF assms] assms(1)
    by (auto simp: handleImport_def daemonInv_storePredictor split: sum.split option.split)
qed

lemma daemonInv_reset:
  assumes "daemonInv d" "worldOk w"
  shows "daemonInv (snd (handleReset w d))"
proof -
  have ok: "wo_clearOk w = (True, True, True)" using assms(2) by (simp add: worldOk_def)
  show ?thesis
    by (simp add: handleReset_eq [OF ok] daemonInv_def graphOf_def storePredictor_def clear_def Let_def
        dbInv_def dbWithin_def rawRowsOk_def rawsWithin_def)
qed

lemma daemonInv_dispatch:
  assumes "daemonInv d" "plainRequest req" "worldOk w" "roomy (graphOf d)"
  shows "daemonInv (snd (dispatch w req d))"
  using assms daemonInv_record daemonInv_recordRaws daemonInv_import daemonInv_reset
  by (simp add: dispatch_def)

lemma daemonInv_reach:
  assumes "reach plainRequest d"
  shows "daemonInv d"
  using assms
proof (induction rule: reach.induct)
  case (reach_new compile opt)
  show ?case by (rule daemonInv_storePredictor [OF daemonInv_new])
qed (simp_all add: daemonInv_dispatch daemonInv_token daemonInv_tick daemonInv_decay worldOk_def)

text \<open>C7: Whatever sequence of requests, flushes and sweeps a daemon goes through, its memory and its
  database stay well formed, the database holds nothing that is not in memory, and the predictor
  reads the graph that records go into.\<close>

theorem reach_invariant:
  assumes "reach plainRequest d"
  shows "daemonInv d"
  by (rule daemonInv_reach [OF assms])


lemma worldOk_demo [simp]: "worldOk demoWorld"
  by (simp add: worldOk_def demoWorld_def)

lemma plain_demoRequest [simp]: "plainRequest demoRequest"
  by (simp add: plainRequest_def demoRequest_def request0_def plain_def)

lemma reach_demo: "reach ok (storePredictor demoDaemon)"
  unfolding demoDaemon_def by (rule reach_new)

lemma roomy_demo: "roomy (graphOf (storePredictor demoDaemon))"
  by (simp add: roomy_def New_def)

theorem reach_invariant_witness:
  "daemonInv (flushTick demoWorld (snd (dispatch demoWorld demoRequest (storePredictor demoDaemon))))"
  by (rule reach_invariant)
     (intro reach_tick reach_request reach_demo worldOk_demo plain_demoRequest roomy_demo)

subsection \<open>Restarting a running daemon\<close>

text \<open>The state a new process loads: what \<open>start\<close> does with the database before it sweeps.\<close>

definition bootState :: "daemon \<Rightarrow> db \<Rightarrow> mergeError + daemon" where
  \<comment> \<open>\<open>fresh\<close> is the daemon \<open>Run\<close> built\<close>
  "bootState fresh d =
     (case Merge (load d) (graphOf fresh) of
        Inl err \<Rightarrow> Inl err
      | Inr g \<Rightarrow> Inr ((setGraph g fresh)\<lparr>dm_db := d, dm_raws := loadRaws (loadRawExamples d) (dm_raws fresh)\<rparr>))"

lemma validState_key:
  assumes "rawInv s" "tlLookup (rs_m s) k raw \<noteq> None"
  shows "\<exists>st t. validState st \<and> k = rawOuterKey st t"
  using assms unfolding rawInv_def by (metis not_None_eq)

lemma lookup_loaded_key:
  assumes "rawRowsOk d" "tlLookup (rs_m (loadRaws (loadRawExamples d) (newRawStore hl))) k raw \<noteq> None"
  shows "\<exists>st t. validState st \<and> k = rawOuterKey st t"
proof (rule ccontr)
  assume no: "\<not> (\<exists>st t. validState st \<and> k = rawOuterKey st t)"
  have "(k, raw, v) \<notin> set (map rowItem (db_raws d))" for v
    using no assms(1) by (fastforce simp: rowItem_def rawRowsOk_def)
  then show False using assms(2)
    by (simp add: loadRaws_rows newRawStore_def tlStore_no_member [OF distinct_rowItems [OF assms(1)]])
qed

text \<open>A daemon that stops and starts again knows what it knew: from any reachable state, once a flush
  has committed both transactions, a new process accepts what it reads from the database and holds
  the same graph and the same raw commands, with times cut to whole seconds.\<close>

theorem restart_keeps_knowledge:
  assumes "reach plainRequest d" "wo_saveOk w" "wo_saveRawsOk w" "d1 = flush w d"
  shows "\<exists>d2. bootState (newDaemon compile opt) (dm_db d1) = Inr d2
    \<and> absGraph (graphOf d2) = (\<lambda>k. map_option secEntry (absGraph (graphOf d) k))
    \<and> (\<forall>k raw. tlLookup (rs_m (dm_raws d2)) k raw = map_option secRaw (tlLookup (rs_m (dm_raws d)) k raw))"
proof -
  have inv: "daemonInv d" by (rule daemonInv_reach [OF assms(1)])
  let ?s = "dm_raws d" and ?g = "graphOf d"
  let ?d1 = "saveRows (All ?g) (dm_db d)"
  have db: "dm_db d1 = saveRawRows (snapshot ?s) ?d1" using assms(2-4) by (simp add: dm_db_flush)
  have "daemonInv d1" unfolding assms(4) by (rule daemonInv_flush [OF inv])
  then have dbi: "dbInv (dm_db d1)" "rawRowsOk (dm_db d1)" by (simp_all add: daemonInv_def)
  obtain g where g: "Merge (load (dm_db d1)) (New 2) = Inr g" "absGraph g = absDB (dm_db d1)"
    using load_refines [OF dbi(1), of 2] by blast
  have "dbEntry (dm_db d1) = dbEntry ?d1" by (intro ext) (simp add: db dbEntry_def)
  then have "absDB (dm_db d1) = absDB ?d1" by (simp add: db absDB_def)
  then have graph: "absGraph g = (\<lambda>k. map_option secEntry (absGraph ?g k))"
    using g(2) save_refines inv by (simp add: daemonInv_def)
  let ?loaded = "loadRaws (loadRawExamples (dm_db d1)) (newRawStore (HalfLife opt))"
  have ok: "rawInv ?s" "rawRowsOk ?d1" "rawsWithin ?d1 ?s"
    using inv raws_cong [of ?d1 "dm_db d"] by (simp_all add: daemonInv_def)
  have raws: "tlLookup (rs_m ?loaded) k raw = map_option secRaw (tlLookup (rs_m ?s) k raw)" for k raw
  proof (cases "\<exists>st t. validState st \<and> k = rawOuterKey st t")
    case True
    then obtain st t where "validState st" "k = rawOuterKey st t" by blast
    then show ?thesis using loaded_raws [OF ok, of st "HalfLife opt" t raw] by (simp add: db saveRawExamples_def)
  next
    case False
    then show ?thesis using validState_key [OF ok(1), of k raw] lookup_loaded_key [OF dbi(2), of "HalfLife opt" k raw]
      by (metis option.map_disc_iff)
  qed
  have "bootState (newDaemon compile opt) (dm_db d1)
      = Inr ((setGraph g (newDaemon compile opt))\<lparr>dm_db := dm_db d1, dm_raws := ?loaded\<rparr>)"
    using g(1) by (simp add: bootState_def newDaemon_def graphOf_def)
  then show ?thesis using graph raws by simp
qed

theorem restart_keeps_knowledge_witness:
  "\<exists>d2. bootState (newDaemon (\<lambda>_. None) defaults)
      (dm_db (flush demoWorld (snd (dispatch demoWorld demoRequest (storePredictor demoDaemon))))) = Inr d2"
proof -
  have "reach plainRequest (snd (dispatch demoWorld demoRequest (storePredictor demoDaemon)))"
    by (intro reach_request reach_demo worldOk_demo plain_demoRequest roomy_demo)
  from restart_keeps_knowledge [OF this _ _ refl, of demoWorld "\<lambda>_. None" defaults] show ?thesis
    by (auto simp: demoWorld_def)
qed

subsection \<open>No secret is kept\<close>

definition noSecrets :: "daemon \<Rightarrow> bool" where
  "noSecrets d \<longleftrightarrow>
     (\<forall>k raw. tlLookup (rs_m (dm_raws d)) k raw \<noteq> None \<longrightarrow> \<not> IsSensitive (dm_redactor d) raw)
     \<and> (\<forall>((_, raw), _)\<in>set (db_raws (dm_db d)). \<not> IsSensitive (dm_redactor d) raw)"

lemma noSecrets_flush:
  assumes "noSecrets d" "daemonInv d"
  shows "noSecrets (flush w d)"
proof -
  have raws: "rawInv (dm_raws d)" using assms(2) by (simp add: daemonInv_def)
  have "\<not> IsSensitive (dm_redactor d) raw"
    if key: "(pk, raw) \<in> fst ` set (db_raws (saveRawRows (snapshot (dm_raws d)) (saveRows ts (dm_db d))))" for pk raw ts
  proof -
    consider "(pk, raw) \<in> fst ` set (db_raws (dm_db d))"
      | rec where "rec \<in> set (snapshot (dm_raws d))" "(pk, raw) = rawPairOf rec"
      using key unfolding keys_saveRawRows by (auto simp: saveRows_raws)
    then show ?thesis
    proof cases
      case 1
      then show ?thesis using assms(1) by (auto simp: noSecrets_def)
    next
      case (2 rec)
      then have "tlLookup (rs_m (dm_raws d)) (rawOuterKey (rr_State rec) (rr_Template rec)) raw \<noteq> None"
        using snapshot_record [OF raws, of rec] by (simp add: rawPairOf_def)
      then show ?thesis using assms(1) by (simp add: noSecrets_def)
    qed
  qed
  then have "\<forall>((_, raw), _)\<in>set (db_raws (saveRawRows (snapshot (dm_raws d)) (saveRows (All (graphOf d)) (dm_db d)))).
      \<not> IsSensitive (dm_redactor d) raw" by force
  then show ?thesis using assms(1) by (auto simp: noSecrets_def dm_db_flush)
qed

lemma noSecrets_cong:
  "dm_raws d' = dm_raws d \<Longrightarrow> dm_db d' = dm_db d \<Longrightarrow> dm_redactor d' = dm_redactor d \<Longrightarrow> noSecrets d' = noSecrets d"
  by (simp add: noSecrets_def)

lemma noSecrets_decay: "noSecrets d \<Longrightarrow> noSecrets (decay w d)"
  by (auto simp: noSecrets_def decay_def Let_def prune_def pruneRows_def lookup_dropOrphaned split: prod.splits if_splits)

lemma lookup_recordRaws_new:
  "tlLookup (rs_m (fold (\<lambda>st. recordRaw st t r tm) states s)) k raw \<noteq> None \<Longrightarrow>
     raw = r \<or> tlLookup (rs_m s) k raw \<noteq> None"
proof (induction states arbitrary: s)
  case (Cons st states)
  then have "raw = r \<or> tlLookup (rs_m (recordRaw st t r tm s)) k raw \<noteq> None" by simp
  then show ?case by (auto simp: lookup_recordRaw split: if_splits)
qed simp

lemma noSecrets_record: "noSecrets d \<Longrightarrow> noSecrets (snd (handleRecord w req d))"
  using lookup_recordRaws_new by (fastforce simp: noSecrets_def handleRecord_def Let_def split: sum.split)

lemma noSecrets_setGraph: "noSecrets (setGraph g d) = noSecrets d"
  by (rule noSecrets_cong) simp_all

lemma noSecrets_import:
  assumes "noSecrets d" "daemonInv d" "worldOk w"
  shows "noSecrets (snd (handleImport w req d))"
proof -
  have bytes: "noSecrets d'" if imported: "importSeedFromBytes w data d = Inr d'" for data d'
  proof -
    obtain sd g' where sd: "wo_decodeSeed w data = Inr sd" "Merge (sd_Transitions sd) (graphOf d) = Inr g'"
      and d': "d' = flush w (setGraph g' d)"
      using imported by (auto simp: importSeedFromBytes_def split: sum.splits option.splits)
    have "\<forall>t\<in>set (sd_Transitions sd). wfTransition t" using assms(3) sd(1) by (simp add: worldOk_def)
    then have "graphInv g'" using graphInv_Merge sd(2) assms(2) by (metis daemonInv_def)
    then have "daemonInv (setGraph g' d)"
      by (intro daemonInv_setGraph assms(2) graphLe_Merge [OF sd(2)])
    then show ?thesis unfolding d' using noSecrets_flush assms(1) noSecrets_setGraph by blast
  qed
  have "noSecrets (storePredictor d') = noSecrets d'" for d' by (rule noSecrets_cong) simp_all
  then show ?thesis
    using bytes assms(1)
    by (auto simp: handleImport_def importSeed_def split: sum.split option.split sum.splits)
qed

lemma noSecrets_reset:
  assumes "worldOk w"
  shows "noSecrets (snd (handleReset w d))"
proof -
  have ok: "wo_clearOk w = (True, True, True)" using assms by (simp add: worldOk_def)
  show ?thesis by (simp add: handleReset_eq [OF ok] noSecrets_def clear_def Let_def resetRaws_def)
qed

lemma noSecrets_dispatch:
  assumes "noSecrets d" "daemonInv d" "worldOk w" "q_Op req \<noteq> ''record_raws''"
  shows "noSecrets (snd (dispatch w req d))"
  using assms noSecrets_record noSecrets_import noSecrets_reset by (simp add: dispatch_def)

definition typedRequest :: "request \<Rightarrow> bool" where
  \<comment> \<open>a request of a shell at work: everything but the upload of a history file\<close>
  "typedRequest req \<longleftrightarrow> plainRequest req \<and> q_Op req \<noteq> ''record_raws''"

lemma reach_mono: "reach ok d \<Longrightarrow> (\<And>req. ok req \<Longrightarrow> ok' req) \<Longrightarrow> reach ok' d"
  by (induction rule: reach.induct) (blast intro: reach.intros)+

lemma redactor_import: "dm_redactor (snd (handleImport w req d)) = dm_redactor d"
proof -
  have "importSeedFromBytes w data d = Inr d' \<Longrightarrow> dm_redactor d' = dm_redactor d" for data d'
    by (auto simp: importSeedFromBytes_def split: sum.splits option.splits)
  then show ?thesis by (simp add: handleImport_def importSeed_def split: sum.split option.split)
qed

lemma redactor_dispatch: "dm_redactor (snd (dispatch w req d)) = dm_redactor d"
proof -
  have "dm_redactor (snd (handleRecord w req d)) = dm_redactor d"
    by (simp add: handleRecord_def Let_def split: sum.split)
  moreover have "dm_redactor (snd (handleRecordRaws w req d)) = dm_redactor d"
    by (simp add: handleRecordRaws_def)
  moreover have "dm_redactor (snd (handleReset w d)) = dm_redactor d"
    by (simp add: handleReset_def Let_def split: prod.split)
  ultimately show ?thesis by (simp add: dispatch_def redactor_import)
qed

lemma noSecrets_token: "noSecrets d \<Longrightarrow> daemonInv d \<Longrightarrow> noSecrets (flushToken w d)"
proof -
  assume d: "noSecrets d" "daemonInv d"
  let ?d = "d\<lparr>dm_flushCh := False\<rparr>"
  have "noSecrets ?d = noSecrets d" by (rule noSecrets_cong) simp_all
  moreover have "daemonInv ?d = daemonInv d" by (rule daemonInv_cong) (simp_all add: graphOf_def)
  ultimately show ?thesis using d noSecrets_flush [of ?d w] by (simp add: flushToken_def)
qed

lemma noSecrets_tick: "noSecrets d \<Longrightarrow> daemonInv d \<Longrightarrow> noSecrets (flushTick w d)"
  by (simp add: flushTick_def noSecrets_flush)

text \<open>As long as no history file is uploaded, no command the redactor calls sensitive is ever kept in
  memory or written to the database, whatever the daemon is asked, flushes and prunes.\<close>

theorem no_secret_kept:
  assumes "reach typedRequest d" "IsSensitive (dm_redactor d) raw"
  shows "tlLookup (rs_m (dm_raws d)) k raw = None \<and> map_of (db_raws (dm_db d)) ((st, t), raw) = None"
proof -
  have inv: "daemonInv d" if "reach typedRequest d" for d
    by (rule daemonInv_reach [OF reach_mono [OF that]]) (simp add: typedRequest_def)
  have "noSecrets d" using assms(1)
  proof (induction rule: reach.induct)
    case (reach_new compile opt)
    then show ?case by (simp add: noSecrets_def newDaemon_def newRawStore_def emptyDB_def)
  next
    case (reach_request d req w)
    then show ?case using noSecrets_dispatch inv by (simp add: typedRequest_def)
  qed (simp_all add: noSecrets_token noSecrets_tick noSecrets_decay inv)
  then show ?thesis using assms(2) by (force simp: noSecrets_def map_of_eq_None_iff)
qed

theorem no_secret_kept_witness:
  "map_of (db_raws (dm_db (flushTick demoWorld (snd (dispatch demoWorld demoRequest (storePredictor demoDaemon))))))
     (([], ''export ARG''), ''export API_TOKEN=abc'') = None"
proof -
  let ?d = "snd (dispatch demoWorld demoRequest (storePredictor demoDaemon))"
  have "reach typedRequest (flushTick demoWorld ?d)"
    by (intro reach_tick reach_request reach_demo worldOk_demo roomy_demo) (simp add: typedRequest_def)
  moreover have "IsSensitive (dm_redactor ?d) ''export API_TOKEN=abc''"
  proof -
    have "\<forall>c\<in>set (''API_'' @ []). isWordByte c" "map lowerByte ''TOKEN'' \<in> set secretNames"
      "wordStart ''export ''" "\<not> isSpace CHR ''a''" by code_simp+
    then show ?thesis
      using secret_assignment_sensitive
        [of "''export ''" "''API_''" "[]" "''TOKEN''" "[]" "[]" "CHR ''a''" "\<lambda>p. None" "[]" "''bc''"]
      by (simp add: spaces_def redactor_dispatch)
  qed
  ultimately show ?thesis
    using no_secret_kept [of "flushTick demoWorld ?d" "''export API_TOKEN=abc''" "[]" "[]" "''export ARG''"]
    by (simp add: flushTick_def)
qed

end
