(* ===== verification/Concurrency.thy ===== *)
theory Concurrency
  imports Interleaving Daemon_Run
begin

text \<open>
  The whole daemon with its goroutines and the lock \<open>flushMu\<close> of daemon/daemon.go: any number of
  requests, flushes and sweeps run interleaved, each a program of atomic operations. An operation is one
  call that holds the lock of the graph or of the raw store, one database transaction (or one statement
  outside any), one atomic operation, or taking and releasing \<open>flushMu\<close>. Theory Interleaving has the operations of records, resets
  and the end of an import; here are those of the flush, the sweep and the merge, and the lock. Programs are straight
  lines: what the source skips after an error or an empty result is an operation that does nothing then.
\<close>

datatype micro =
    Act act
  | LockMu | UnlockMu  \<comment> \<open>\<open>d.flushMu\<close>\<close>
  | SnapGraph  \<comment> \<open>\<open>g.All()\<close>\<close>
  | SaveGraph  \<comment> \<open>\<open>st.save\<close>\<close>
  | SnapRaws  \<comment> \<open>\<open>d.raws.snapshot()\<close>\<close>
  | SaveRaws  \<comment> \<open>\<open>st.saveRawExamples\<close>\<close>
  | SwapDirty  \<comment> \<open>\<open>d.dirty.Swap(0)\<close> and the signal\<close>
  | MergeSeed "transition list"  \<comment> \<open>\<open>g.Merge\<close>\<close>
  | MergeRaws "rawExample list" gotime  \<comment> \<open>\<open>d.raws.mergeExamples\<close>\<close>
  | Sweep  \<comment> \<open>\<open>g.Decay\<close>\<close>
  | DropOrphans  \<comment> \<open>\<open>d.raws.dropOrphaned\<close>\<close>
  | PrunePairs  \<comment> \<open>\<open>st.prune\<close>\<close>

record locals =
  lo_g :: "nat option"  \<comment> \<open>the graph pointer loaded last\<close>
  lo_ts :: "transition list"
  lo_raws :: "rawRecord list"
  lo_ok :: bool  \<comment> \<open>no save of this flush, or no delete of this reset, has failed\<close>
  lo_res :: decayResult

definition locals0 :: locals where
  "locals0 = \<lparr>lo_g = None, lo_ts = [], lo_raws = [], lo_ok = True, lo_res = \<lparr>dr_Pruned = [], dr_Orphaned = []\<rparr>\<rparr>"

definition regsOf :: "locals \<Rightarrow> regs" where
  "regsOf l = \<lparr>rg_g = lo_g l, rg_ok = lo_ok l\<rparr>"

lemma regsOf_simps [simp]: "rg_g (regsOf l) = lo_g l" "rg_ok (regsOf l) = lo_ok l" "regsOf (l\<lparr>lo_g := rg_g r, lo_ok := rg_ok r\<rparr>) = r"
  by (simp_all add: regsOf_def)

definition nothingSwept :: "locals \<Rightarrow> bool" where
  \<comment> \<open>\<open>len(res.Pruned) == 0 && len(res.Orphaned) == 0\<close>\<close>
  "nothingSwept l \<longleftrightarrow> length (dr_Pruned (lo_res l)) = 0 \<and> length (dr_Orphaned (lo_res l)) = 0"

fun perform :: "world \<Rightarrow> micro \<Rightarrow> locals \<times> daemon \<Rightarrow> locals \<times> daemon" where
  "perform w (Act a) (l, d) = (let (r, d') = exec w a (regsOf l, d) in (l\<lparr>lo_g := rg_g r, lo_ok := rg_ok r\<rparr>, d'))"
| "perform w LockMu (l, d) = (l, d)"
| "perform w UnlockMu (l, d) = (l, d)"
| "perform w SnapGraph (l, d) =
     (case lo_g l of None \<Rightarrow> l | Some g \<Rightarrow> l\<lparr>lo_ts := All (dm_heap d g), lo_ok := True\<rparr>, d)"
| "perform w SaveGraph (l, d) =
     (if 0 < length (lo_ts l)
      then let (ok, db') = save (wo_saveOk w) (lo_ts l) (dm_db d) in (l\<lparr>lo_ok := ok\<rparr>, d\<lparr>dm_db := db'\<rparr>)
      else (l, d))"
| "perform w SnapRaws (l, d) = (if lo_ok l then l\<lparr>lo_raws := snapshot (dm_raws d)\<rparr> else l, d)"
| "perform w SaveRaws (l, d) =
     (l, if lo_ok l \<and> 0 < length (lo_raws l)
         then d\<lparr>dm_db := snd (saveRawExamples (wo_saveRawsOk w) (lo_raws l) (dm_db d))\<rparr> else d)"
| "perform w SwapDirty (l, d) =
     (l, if lo_ok l then d\<lparr>dm_dirty := 0, dm_flushCh := (if 0 < dm_dirty d then True else dm_flushCh d)\<rparr> else d)"
| "perform w (MergeSeed ts) (l, d) =
     (l, case lo_g l of None \<Rightarrow> d | Some g \<Rightarrow>
           (case Merge ts (dm_heap d g) of Inl _ \<Rightarrow> d | Inr g' \<Rightarrow> d\<lparr>dm_heap := (dm_heap d)(g := g')\<rparr>))"
| "perform w (MergeRaws exs tm) (l, d) = (l, d\<lparr>dm_raws := mergeExamples exs tm (dm_raws d)\<rparr>)"
| "perform w Sweep (l, d) =
     (case lo_g l of None \<Rightarrow> (l, d) | Some g \<Rightarrow>
        (let (res, g') = Decay (wo_now w) (HalfLife (dm_opts d)) (MaxIdle (dm_opts d)) (dm_heap d g)
         in (l\<lparr>lo_res := res\<rparr>, d\<lparr>dm_heap := (dm_heap d)(g := g')\<rparr>)))"
| "perform w DropOrphans (l, d) =
     (l, if nothingSwept l then d else d\<lparr>dm_raws := dropOrphaned (dr_Orphaned (lo_res l)) (dm_raws d)\<rparr>)"
| "perform w PrunePairs (l, d) =
     (l, if nothingSwept l then d
         else d\<lparr>dm_db := snd (prune (wo_pruneOk w) (dr_Pruned (lo_res l)) (dr_Orphaned (lo_res l)) (dm_db d))\<rparr>)"

subsection \<open>The goroutines as programs\<close>

definition flushProgram :: "micro list" where
  "flushProgram = [LockMu, Act LoadGraph, SnapGraph, SaveGraph, SnapRaws, SaveRaws, SwapDirty, UnlockMu]"

definition decayProgram :: "micro list" where
  "decayProgram = [LockMu, Act LoadGraph, Sweep, DropOrphans, PrunePairs, UnlockMu]"

definition seedTransitions :: "world \<Rightarrow> string \<Rightarrow> transition list option" where
  \<comment> \<open>what \<open>importSeedFromBytes\<close> merges, if anything\<close>
  "seedTransitions w data =
     (case wo_decodeSeed w data of
        Inl _ \<Rightarrow> None
      | Inr sd \<Rightarrow> if seedValidate sd = None \<and> validateTransitions (sd_Transitions sd) = None
                  then Some (sd_Transitions sd) else None)"

definition importTransitions :: "world \<Rightarrow> request \<Rightarrow> transition list option" where
  "importTransitions w req =
     (if q_SeedData req \<noteq> [] then seedTransitions w (q_SeedData req)
      else if q_Next req = [] then None
      else case wo_abs w (q_Next req) of
             Inl _ \<Rightarrow> None
           | Inr path \<Rightarrow>
               if checkImportable w path \<noteq> None then None
               else case wo_readFile w path of Inl _ \<Rightarrow> None | Inr data \<Rightarrow> seedTransitions w data)"

definition importProgram :: "world \<Rightarrow> request \<Rightarrow> micro list" where
  "importProgram w req =
     (case importTransitions w req of
        None \<Rightarrow> []
      | Some ts \<Rightarrow> [Act LoadGraph, MergeSeed ts] @ flushProgram @ map Act importTail)"

definition requestProgram :: "world \<Rightarrow> daemon \<Rightarrow> request \<Rightarrow> micro list" where
  \<comment> \<open>the operations with which a request changes the daemon\<close>
  "requestProgram w d req =
     (if q_Op req = ''record'' then map Act (recordProgram w d req)
      else if q_Op req = ''reset'' then LockMu # map Act resetProgram @ [UnlockMu]
      else if q_Op req = ''import'' then importProgram w req
      else if q_Op req = ''record_raws'' then [MergeRaws (q_RawExamples req) (wo_now w)]
      else [])"

text \<open>Run alone, the programs are the steps of the coarse model.\<close>

lemma fold_Act:
  "fold (perform w) (map Act p) (l, d) =
     (l\<lparr>lo_g := rg_g (fst (fold (exec w) p (regsOf l, d))), lo_ok := rg_ok (fst (fold (exec w) p (regsOf l, d)))\<rparr>,
      snd (fold (exec w) p (regsOf l, d)))"
proof (induction p arbitrary: l d)
  case Nil
  show ?case by simp
next
  case (Cons a p)
  obtain r d' where "exec w a (regsOf l, d) = (r, d')" by fastforce
  then show ?case using Cons.IH [of "l\<lparr>lo_g := rg_g r, lo_ok := rg_ok r\<rparr>" d'] by simp
qed

lemma flush_sequential: "snd (fold (perform w) flushProgram (l, d)) = flush w d"
proof (cases "All (graphOf d) = []")
  case True
  then show ?thesis
    by (simp add: flushProgram_def flush_def flushDB_eq graphOf_def saveRawExamples_def saveRows_def saveRawRows_def)
next
  case False
  then show ?thesis
    by (cases "wo_saveOk w")
       (simp_all add: flushProgram_def flush_def flushDB_eq graphOf_def save_def saveRawExamples_def saveRawRows_def)
qed

lemma decay_sequential: "snd (fold (perform w) decayProgram (l, d)) = decay w d"
  by (simp add: decayProgram_def decay_def setGraph_def graphOf_def nothingSwept_def Let_def split: prod.split)

lemma Merge_validates: "Merge ts g = (case validateTransitions ts of Some err \<Rightarrow> Inl err | None \<Rightarrow> Inr (fold mergeOne ts g))"
  by (simp add: Merge_def)

lemma import_bytes:
  "(case importSeedFromBytes w data d of Inl _ \<Rightarrow> d | Inr d' \<Rightarrow> storePredictor d') =
     (case seedTransitions w data of None \<Rightarrow> d
      | Some ts \<Rightarrow> storePredictor (flush w (setGraph (fold mergeOne ts (graphOf d)) d)))"
  by (simp add: importSeedFromBytes_def seedTransitions_def Merge_validates split: sum.split option.split)

lemma import_state:
  "snd (handleImport w req d) =
     (case importTransitions w req of None \<Rightarrow> d
      | Some ts \<Rightarrow> storePredictor (flush w (setGraph (fold mergeOne ts (graphOf d)) d)))"
proof -
  have bytes: "snd (case importSeedFromBytes w data d of Inl err \<Rightarrow> (f err, d) | Inr d' \<Rightarrow> (r, storePredictor d'))
      = (case seedTransitions w data of None \<Rightarrow> d
         | Some ts \<Rightarrow> storePredictor (flush w (setGraph (fold mergeOne ts (graphOf d)) d)))" for f r data
    unfolding import_bytes [symmetric] by (simp split: sum.split)
  show ?thesis
    by (auto simp: handleImport_def importTransitions_def importSeed_def bytes split: sum.split option.split)
qed

lemma importTransitions_valid: "importTransitions w req = Some ts \<Longrightarrow> validateTransitions ts = None"
  by (auto simp: importTransitions_def seedTransitions_def split: if_splits sum.splits)

theorem programs_sequential:
  "snd (fold (perform w) (requestProgram w d req) (locals0, d)) = snd (dispatch w req d)"
proof -
  have rec: "snd (fold (perform w) (map Act (recordProgram w d req)) (locals0, d)) = snd (handleRecord w req d)"
    using record_sequential [of w d req] by (simp add: fold_Act)
  have res: "snd (fold (perform w) (LockMu # map Act resetProgram @ [UnlockMu]) (locals0, d)) = snd (handleReset w d)"
    using reset_sequential [of w _ d] by (simp add: fold_Act)
  have "snd (fold (perform w) (importProgram w req) (locals0, d)) = snd (handleImport w req d)"
  proof (cases "importTransitions w req")
    case (Some ts)
    obtain l where l: "fold (perform w) flushProgram (locals0\<lparr>lo_g := Some (dm_g d)\<rparr>, setGraph (fold mergeOne ts (graphOf d)) d)
        = (l, flush w (setGraph (fold mergeOne ts (graphOf d)) d))"
      using flush_sequential by (metis prod.collapse)
    show ?thesis using l importTransitions_valid [OF Some]
      by (simp add: importProgram_def import_state Some Merge_validates fold_Act importTail_def setGraph_def
          graphOf_def storePredictor_def)
  qed (simp add: importProgram_def import_state)
  then show ?thesis using rec res
    by (simp add: requestProgram_def dispatch_def handleRecordRaws_def)
qed

subsection \<open>Interleaved runs\<close>

record task =
  ta_loc :: locals
  ta_todo :: "micro list"

record sys =
  sy_daemon :: daemon
  sy_lock :: "nat option"  \<comment> \<open>the task that holds \<open>flushMu\<close>\<close>
  sy_tasks :: "task list"

definition spawn :: "micro list \<Rightarrow> sys \<Rightarrow> sys" where
  \<comment> \<open>\<open>go\<close>\<close>
  "spawn p s = s\<lparr>sy_tasks := sy_tasks s @ [\<lparr>ta_loc = locals0, ta_todo = p\<rparr>]\<rparr>"

definition enabled :: "sys \<Rightarrow> nat \<Rightarrow> bool" where
  \<comment> \<open>taking the lock waits until it is free, nothing else waits\<close>
  "enabled s i \<longleftrightarrow> i < length (sy_tasks s) \<and> ta_todo (sy_tasks s ! i) \<noteq> []
     \<and> (hd (ta_todo (sy_tasks s ! i)) = LockMu \<longrightarrow> sy_lock s = None)"

definition advance :: "world \<Rightarrow> nat \<Rightarrow> sys \<Rightarrow> sys" where
  "advance w i s =
     (let t = sy_tasks s ! i;
          a = hd (ta_todo t);
          (l, d) = perform w a (ta_loc t, sy_daemon s)
      in \<lparr>sy_daemon = d,
          sy_lock = (if a = LockMu then Some i else if a = UnlockMu then None else sy_lock s),
          sy_tasks = (sy_tasks s)[i := \<lparr>ta_loc = l, ta_todo = tl (ta_todo t)\<rparr>]\<rparr>)"

text \<open>A request may arrive at any time, the flush loop acts on a token or a tick with something unsaved,
  and a sweep may start. What comes from outside can differ at every step; \<open>env\<close> says what it can be
  (whether every save and delete may fail, or the deletes succeed). Steps are taken in states that
  satisfy \<open>calm\<close>.\<close>

definition alone :: "daemon \<Rightarrow> sys" where
  "alone d = \<lparr>sy_daemon = d, sy_lock = None, sy_tasks = []\<rparr>"

inductive crun :: "(world \<Rightarrow> bool) \<Rightarrow> (request \<Rightarrow> bool) \<Rightarrow> (daemon \<Rightarrow> bool) \<Rightarrow> sys \<Rightarrow> sys \<Rightarrow> bool" for env ok calm s0 where
  crun_start: "crun env ok calm s0 s0"
| crun_request: "crun env ok calm s0 s \<Longrightarrow> ok req \<Longrightarrow> env w \<Longrightarrow>
    crun env ok calm s0 (spawn (requestProgram w (sy_daemon s) req) s)"
| crun_token: "crun env ok calm s0 s \<Longrightarrow> dm_flushCh (sy_daemon s) \<Longrightarrow>
    crun env ok calm s0 (spawn flushProgram (s\<lparr>sy_daemon := (sy_daemon s)\<lparr>dm_flushCh := False\<rparr>\<rparr>))"
| crun_tick: "crun env ok calm s0 s \<Longrightarrow> 0 < dm_dirty (sy_daemon s) \<Longrightarrow> crun env ok calm s0 (spawn flushProgram s)"
| crun_sweep: "crun env ok calm s0 s \<Longrightarrow> crun env ok calm s0 (spawn decayProgram s)"
| crun_step: "crun env ok calm s0 s \<Longrightarrow> enabled s i \<Longrightarrow> env w \<Longrightarrow> calm (sy_daemon s) \<Longrightarrow>
    crun env ok calm s0 (advance w i s)"

subsection \<open>The discipline of the lock\<close>

text \<open>Where a task stands in its critical section. \<open>Free\<close> is outside of it.\<close>

datatype stage = Free | Held | Loaded | Snapped | RawsSnapped | Swept | Dropped | Renewed | NoRows | NoDirs | Emptied

definition openAct :: "act \<Rightarrow> bool" where
  \<comment> \<open>allowed without the lock\<close>
  "openAct a = (case a of LoadGraph \<Rightarrow> True | Observe _ \<Rightarrow> True | FileRaw _ _ _ _ \<Rightarrow> True | CountRecord \<Rightarrow> True
     | StorePredictor \<Rightarrow> True | _ \<Rightarrow> False)"

definition stageAfter :: "stage \<Rightarrow> micro \<Rightarrow> stage option" where
  "stageAfter st a =
     (case st of
        Free \<Rightarrow> (case a of LockMu \<Rightarrow> Some Held | Act b \<Rightarrow> if openAct b then Some Free else None
                 | MergeSeed _ \<Rightarrow> Some Free | MergeRaws _ _ \<Rightarrow> Some Free | _ \<Rightarrow> None)
      | Held \<Rightarrow> (case a of UnlockMu \<Rightarrow> Some Free | Act LoadGraph \<Rightarrow> Some Loaded | Act StoreGraph \<Rightarrow> Some Renewed
                 | SnapRaws \<Rightarrow> Some RawsSnapped | SwapDirty \<Rightarrow> Some Held | _ \<Rightarrow> None)
      | Loaded \<Rightarrow> (case a of SnapGraph \<Rightarrow> Some Snapped | Sweep \<Rightarrow> Some Swept | _ \<Rightarrow> None)
      | Snapped \<Rightarrow> (case a of SaveGraph \<Rightarrow> Some Held | _ \<Rightarrow> None)
      | RawsSnapped \<Rightarrow> (case a of SaveRaws \<Rightarrow> Some Held | _ \<Rightarrow> None)
      | Swept \<Rightarrow> (case a of DropOrphans \<Rightarrow> Some Dropped | _ \<Rightarrow> None)
      | Dropped \<Rightarrow> (case a of PrunePairs \<Rightarrow> Some Held | _ \<Rightarrow> None)
      | Renewed \<Rightarrow> (case a of Act StorePredictor \<Rightarrow> Some Renewed | Act DeleteTransitions \<Rightarrow> Some NoRows
                    | _ \<Rightarrow> None)
      | NoRows \<Rightarrow> (case a of Act DeleteCWDs \<Rightarrow> Some NoDirs | _ \<Rightarrow> None)
      | NoDirs \<Rightarrow> (case a of Act DeleteRaws \<Rightarrow> Some Emptied | _ \<Rightarrow> None)
      | Emptied \<Rightarrow> (case a of UnlockMu \<Rightarrow> Some Free | Act ResetRaws \<Rightarrow> Some Emptied | Act ZeroDirty \<Rightarrow> Some Emptied
                 | _ \<Rightarrow> None))"

fun follows :: "stage \<Rightarrow> micro list \<Rightarrow> bool" where
  "follows st [] \<longleftrightarrow> st = Free"
| "follows st (a # p) \<longleftrightarrow> (case stageAfter st a of None \<Rightarrow> False | Some st' \<Rightarrow> follows st' p)"

lemmas stage_simps = stageAfter_def openAct_def

lemma follows_open: "\<forall>a\<in>set p. stageAfter Free a = Some Free \<Longrightarrow> follows Free (p @ q) = follows Free q"
  by (induction p) simp_all

lemma follows_flush: "follows Free (flushProgram @ q) = follows Free q"
  by (simp add: flushProgram_def stage_simps)

lemma follows_programs: "follows Free flushProgram" "follows Free decayProgram" "follows Free (requestProgram w d req)"
proof -
  show "follows Free flushProgram" "follows Free decayProgram"
    by (simp_all add: flushProgram_def decayProgram_def stage_simps)
  have "\<forall>a\<in>set (map Act (recordProgram w d req)). stageAfter Free a = Some Free"
    by (auto simp: recordProgram_def Let_def stage_simps split: sum.splits)
  from follows_open [OF this, of "[]"] have "follows Free (map Act (recordProgram w d req))" by simp
  moreover have "follows Free (LockMu # map Act resetProgram @ [UnlockMu])"
    by (simp add: resetProgram_def stage_simps)
  moreover have "follows Free ([Act LoadGraph, MergeSeed ts] @ flushProgram @ map Act importTail)" for ts
    by (simp add: follows_flush importTail_def stage_simps)
  then have "follows Free (importProgram w req)"
    by (simp add: importProgram_def split: option.split)
  ultimately show "follows Free (requestProgram w d req)"
    by (simp add: requestProgram_def stage_simps)
qed

definition locked :: "(nat \<Rightarrow> stage) \<Rightarrow> sys \<Rightarrow> bool" where
  \<comment> \<open>\<open>st\<close> tells the stage of each task; the one that is not free holds the lock\<close>
  "locked st s \<longleftrightarrow> (\<forall>i<length (sy_tasks s). follows (st i) (ta_todo (sy_tasks s ! i)) \<and> (st i \<noteq> Free \<longleftrightarrow> sy_lock s = Some i))
     \<and> (\<forall>i. sy_lock s = Some i \<longrightarrow> i < length (sy_tasks s))"

lemma locked_spawn:
  assumes "locked st s" "follows Free p"
  shows "locked (st(length (sy_tasks s) := Free)) (spawn p s)"
  using assms by (auto simp: locked_def spawn_def nth_append less_Suc_eq)

lemma advance_sel:
  assumes "perform w (hd (ta_todo (sy_tasks s ! i))) (ta_loc (sy_tasks s ! i), sy_daemon s) = (l, d)"
  shows "sy_daemon (advance w i s) = d"
    "sy_tasks (advance w i s) = (sy_tasks s)[i := \<lparr>ta_loc = l, ta_todo = tl (ta_todo (sy_tasks s ! i))\<rparr>]"
    "sy_lock (advance w i s) = (if hd (ta_todo (sy_tasks s ! i)) = LockMu then Some i
       else if hd (ta_todo (sy_tasks s ! i)) = UnlockMu then None else sy_lock s)"
  using assms by (simp_all add: advance_def Let_def)

lemma stage_LockMu: "stageAfter st LockMu = Some st' \<Longrightarrow> st = Free \<and> st' \<noteq> Free"
  by (cases st) (simp_all add: stageAfter_def)

lemma stage_UnlockMu: "stageAfter st UnlockMu = Some st' \<Longrightarrow> st \<noteq> Free \<and> st' = Free"
  by (cases st) (simp_all add: stageAfter_def)

lemma stage_other:
  assumes "stageAfter st a = Some st'" "a \<noteq> LockMu" "a \<noteq> UnlockMu"
  shows "st' = Free \<longleftrightarrow> st = Free"
proof (cases a)
  case (Act b)
  then show ?thesis using assms(1) by (cases st; cases b) (simp_all add: stage_simps)
qed (use assms in \<open>cases st; simp add: stageAfter_def\<close>)+

lemmas stage_lock = stage_LockMu stage_UnlockMu stage_other

lemma locked_step:
  assumes "locked st s" "enabled s i"
  obtains a st' where "hd (ta_todo (sy_tasks s ! i)) = a" "stageAfter (st i) a = Some st'"
    "locked (st(i := st')) (advance w i s)"
proof -
  obtain a p where todo: "ta_todo (sy_tasks s ! i) = a # p" and i: "i < length (sy_tasks s)"
    using assms(2) by (cases "ta_todo (sy_tasks s ! i)") (auto simp: enabled_def)
  then have "follows (st i) (a # p)" using assms(1) unfolding locked_def by metis
  then obtain st' where st': "stageAfter (st i) a = Some st'" "follows st' p" by (auto split: option.splits)
  obtain l d where "perform w (hd (ta_todo (sy_tasks s ! i))) (ta_loc (sy_tasks s ! i), sy_daemon s) = (l, d)" by fastforce
  note sel = advance_sel [OF this]
  have free: "a = LockMu \<Longrightarrow> sy_lock s = None" using assms(2) todo by (simp add: enabled_def)
  have lock: "st j \<noteq> Free \<longleftrightarrow> sy_lock s = Some j" if "j < length (sy_tasks s)" for j
    using assms(1) that by (simp add: locked_def)
  define L where "L = (if a = LockMu then Some i else if a = UnlockMu then None else sy_lock s)"
  have "(st(i := st')) j \<noteq> Free \<longleftrightarrow> L = Some j" if "j < length (sy_tasks s)" for j
  proof -
    consider "a = LockMu" | "a = UnlockMu" | "a \<noteq> LockMu" "a \<noteq> UnlockMu" by blast
    then show ?thesis
    proof cases
      case 1
      then show ?thesis using free lock [OF that] stage_LockMu [of "st i" st'] st'(1) by (simp add: L_def)
    next
      case 2
      then have "sy_lock s = Some i" "st' = Free" using lock [OF i] stage_UnlockMu [of "st i" st'] st'(1) by simp_all
      then show ?thesis using 2 lock [OF that] by (auto simp: L_def)
    next
      case 3
      then show ?thesis using lock [OF that] lock [OF i] stage_other [OF st'(1)] by (simp add: L_def)
    qed
  qed
  moreover have "follows ((st(i := st')) j) (ta_todo (sy_tasks (advance w i s) ! j))" if "j < length (sy_tasks s)" for j
    using assms(1) that i st'(2) by (simp add: sel locked_def nth_list_update todo)
  moreover have "j < length (sy_tasks s)" if "L = Some j" for j
    using that assms(1) i by (auto simp: L_def locked_def split: if_splits)
  ultimately have "locked (st(i := st')) (advance w i s)"
    unfolding locked_def by (simp add: sel todo L_def)
  then show thesis using that todo st'(1) by auto
qed

lemma crun_locked: "crun env ok calm (alone d0) s \<Longrightarrow> \<exists>st. locked st s"
proof (induction rule: crun.induct)
  case crun_start
  show ?case by (simp add: locked_def alone_def)
next
  case (crun_token s)
  then obtain st where "locked st s" by blast
  then have "locked st (s\<lparr>sy_daemon := (sy_daemon s)\<lparr>dm_flushCh := False\<rparr>\<rparr>)" by (simp add: locked_def)
  from locked_spawn [OF this follows_programs(1)] show ?case by blast
next
  case (crun_step s i w)
  then show ?case using locked_step by metis
qed (use locked_spawn follows_programs in blast)+

text \<open>Whoever holds the lock can go on, so the daemon never deadlocks.\<close>

lemma locked_enabled:
  assumes "locked st s" "i < length (sy_tasks s)" "ta_todo (sy_tasks s ! i) \<noteq> []"
  shows "\<exists>j. enabled s j"
proof (cases "sy_lock s")
  case None
  then show ?thesis using assms(2,3) by (auto simp: enabled_def)
next
  case (Some j)
  then have j: "j < length (sy_tasks s)" "st j \<noteq> Free" "follows (st j) (ta_todo (sy_tasks s ! j))"
    using assms(1) by (auto simp: locked_def)
  then obtain a p where todo: "ta_todo (sy_tasks s ! j) = a # p" by (cases "ta_todo (sy_tasks s ! j)") auto
  then obtain st' where "stageAfter (st j) a = Some st'" using j(3) by (auto split: option.splits)
  then have "a \<noteq> LockMu" using stage_LockMu j(2) by blast
  then show ?thesis using j(1) todo by (auto simp: enabled_def)
qed

definition idle :: "sys \<Rightarrow> bool" where
  "idle s \<longleftrightarrow> (\<forall>t\<in>set (sy_tasks s). ta_todo t = [])"

definition work_left :: "sys \<Rightarrow> nat" where
  "work_left s = sum_list (map (length \<circ> ta_todo) (sy_tasks s))"

lemma work_advance: "enabled s i \<Longrightarrow> work_left (advance w i s) < work_left s"
proof -
  assume e: "enabled s i"
  obtain l d where p: "perform w (hd (ta_todo (sy_tasks s ! i))) (ta_loc (sy_tasks s ! i), sy_daemon s) = (l, d)" by fastforce
  have i: "i < length (sy_tasks s)" "ta_todo (sy_tasks s ! i) \<noteq> []" using e by (simp_all add: enabled_def)
  have "sy_tasks s = take i (sy_tasks s) @ sy_tasks s ! i # drop (Suc i) (sy_tasks s)" using i(1) by (rule id_take_nth_drop)
  then have "work_left s = sum_list (map (length \<circ> ta_todo) (take i (sy_tasks s))) + length (ta_todo (sy_tasks s ! i))
      + sum_list (map (length \<circ> ta_todo) (drop (Suc i) (sy_tasks s)))"
    unfolding work_left_def by (metis (no_types, lifting) add.assoc comp_apply list.simps(9) map_append sum_list.Cons sum_list_append)
  then show ?thesis
    using i unfolding work_left_def advance_sel(2) [OF p] by (simp add: upd_conv_take_nth_drop)
qed

text \<open>C11: The daemon never deadlocks, whatever fails: as long as a task has something left to do one can take a
  step, every step leaves less to do, and from every reachable state the daemon finishes whatever it has
  begun, in at most as many steps as are left, with the lock released, if it is given no more to do.\<close>

theorem no_deadlock:
  assumes "crun env ok (\<lambda>_. True) (alone d0) s" "env w0"
  shows "(\<not> idle s \<longrightarrow> (\<exists>i. enabled s i))
    \<and> (\<forall>i w. enabled s i \<longrightarrow> work_left (advance w i s) < work_left s)
    \<and> (\<exists>s'. crun env ok (\<lambda>_. True) (alone d0) s' \<and> idle s' \<and> sy_lock s' = None \<and> length (sy_tasks s') = length (sy_tasks s))"
proof -
  have progress: "\<exists>i. enabled s i" if run: "crun env ok (\<lambda>_. True) (alone d0) s" "\<not> idle s" for s
  proof -
    obtain st where "locked st s" using crun_locked [OF run(1)] by blast
    moreover obtain i where "i < length (sy_tasks s)" "ta_todo (sy_tasks s ! i) \<noteq> []"
      using run(2) by (auto simp: idle_def in_set_conv_nth)
    ultimately show ?thesis by (rule locked_enabled)
  qed
  have "\<exists>s'. crun env ok (\<lambda>_. True) (alone d0) s' \<and> idle s' \<and> sy_lock s' = None \<and> length (sy_tasks s') = length (sy_tasks s)"
    using assms(1)
  proof (induction "work_left s" arbitrary: s rule: less_induct)
    case less
    show ?case
    proof (cases "idle s")
      case True
      obtain st where st: "locked st s" using crun_locked [OF less.prems] by blast
      have "sy_lock s = None"
      proof (cases "sy_lock s")
        case (Some i)
        then have "i < length (sy_tasks s)" using st by (simp add: locked_def)
        moreover from this have "ta_todo (sy_tasks s ! i) = []" using True by (simp add: idle_def)
        ultimately show ?thesis using st Some by (force simp: locked_def)
      qed
      then show ?thesis using less.prems True by blast
    next
      case False
      then obtain i where i: "enabled s i" using progress [OF less.prems] by blast
      have "crun env ok (\<lambda>_. True) (alone d0) (advance w0 i s)" using crun_step [OF less.prems i assms(2)] by simp
      from less.hyps [OF work_advance [OF i] this] show ?thesis by (simp add: advance_def Let_def case_prod_beta)
    qed
  qed
  then show ?thesis using progress [OF assms(1)] work_advance by blast
qed

definition demoSys :: sys where
  \<comment> \<open>a record has arrived and a sweep has begun and taken the lock\<close>
  "demoSys = advance demoWorld 1 (spawn decayProgram
     (spawn (requestProgram demoWorld (storePredictor demoDaemon) demoRequest)
       (alone (storePredictor demoDaemon))))"

lemma crun_demo:
  assumes "env demoWorld" "ok demoRequest" "calm (storePredictor demoDaemon)"
  shows "crun env ok calm (alone (storePredictor demoDaemon)) demoSys"
proof -
  have "crun env ok calm (alone (storePredictor demoDaemon)) (spawn decayProgram
      (spawn (requestProgram demoWorld (storePredictor demoDaemon) demoRequest) (alone (storePredictor demoDaemon))))"
    using crun_request [OF crun_start, of ok demoRequest env demoWorld calm "alone (storePredictor demoDaemon)"] assms
    by (intro crun_sweep) (simp add: alone_def)
  from crun_step [OF this _ assms(1), of 1] show ?thesis
    using assms(3) by (simp add: demoSys_def enabled_def spawn_def decayProgram_def alone_def)
qed

lemma demoSys_lock: "sy_lock demoSys = Some 1" "length (sy_tasks demoSys) = 2"
  by (simp_all add: demoSys_def advance_def spawn_def decayProgram_def Let_def alone_def)

theorem no_deadlock_witness:
  "\<exists>s'. crun worldOk (\<lambda>_. True) (\<lambda>_. True) (alone (storePredictor demoDaemon)) s' \<and> idle s' \<and> sy_lock s' = None \<and> length (sy_tasks s') = 2"
  using no_deadlock [OF crun_demo [of worldOk "\<lambda>_. True" "\<lambda>_. True", OF worldOk_demo TrueI TrueI] worldOk_demo] demoSys_lock(2) by metis

subsection \<open>The coarse steps are runs\<close>

lemma crun_one:
  assumes "crun env ok (\<lambda>_. True) s0 s" "i < length (sy_tasks s)" "ta_todo (sy_tasks s ! i) = a # p"
    "a = LockMu \<Longrightarrow> sy_lock s = None" "env w" "perform w a (ta_loc (sy_tasks s ! i), sy_daemon s) = (l, d)"
  shows "crun env ok (\<lambda>_. True) s0 \<lparr>sy_daemon = d, sy_lock = (if a = LockMu then Some i else if a = UnlockMu then None else sy_lock s),
    sy_tasks = (sy_tasks s)[i := \<lparr>ta_loc = l, ta_todo = p\<rparr>]\<rparr>"
proof -
  have "enabled s i" using assms(2-4) by (simp add: enabled_def)
  from crun_step [OF assms(1) this assms(5)] assms(3,6) show ?thesis by (simp add: advance_def)
qed

fun stageAfters :: "stage \<Rightarrow> micro list \<Rightarrow> stage option" where
  "stageAfters st [] = Some st"
| "stageAfters st (a # p) = (case stageAfter st a of None \<Rightarrow> None | Some st' \<Rightarrow> stageAfters st' p)"

lemma follows_stageAfters: "follows st p \<longleftrightarrow> stageAfters st p = Some Free"
  by (induction p arbitrary: st) (auto split: option.split)

text \<open>A task that owns the lock, or finds it free, can do the next part of its program without interruption.\<close>

lemma crun_part:
  assumes "crun env ok (\<lambda>_. True) s0 s" "i < length (sy_tasks s)" "ta_todo (sy_tasks s ! i) = p @ q" "stageAfters st p = Some st'"
    "sy_lock s = (if st = Free then None else Some i)" "env w"
  shows "crun env ok (\<lambda>_. True) s0 \<lparr>sy_daemon = snd (fold (perform w) p (ta_loc (sy_tasks s ! i), sy_daemon s)),
    sy_lock = (if st' = Free then None else Some i),
    sy_tasks = (sy_tasks s)[i := \<lparr>ta_loc = fst (fold (perform w) p (ta_loc (sy_tasks s ! i), sy_daemon s)), ta_todo = q\<rparr>]\<rparr>"
  using assms(1-5)
proof (induction p arbitrary: s st)
  case Nil
  then have "\<lparr>ta_loc = ta_loc (sy_tasks s ! i), ta_todo = q\<rparr> = sy_tasks s ! i" by simp
  moreover have "s = \<lparr>sy_daemon = sy_daemon s, sy_lock = sy_lock s, sy_tasks = sy_tasks s\<rparr>" by simp
  ultimately show ?case using Nil by (simp only: fold_simps fst_conv snd_conv list_update_id stageAfters.simps option.inject)
next
  case (Cons a p)
  obtain st1 where st1: "stageAfter st a = Some st1" "stageAfters st1 p = Some st'"
    using Cons.prems(4) by (auto split: option.splits)
  obtain l d where e: "perform w a (ta_loc (sy_tasks s ! i), sy_daemon s) = (l, d)" by fastforce
  let ?s = "\<lparr>sy_daemon = d, sy_lock = (if a = LockMu then Some i else if a = UnlockMu then None else sy_lock s),
    sy_tasks = (sy_tasks s)[i := \<lparr>ta_loc = l, ta_todo = p @ q\<rparr>]\<rparr>"
  have free: "a = LockMu \<Longrightarrow> sy_lock s = None" using Cons.prems(5) st1(1) stage_LockMu by auto
  have one: "crun env ok (\<lambda>_. True) s0 ?s"
    by (rule crun_one [OF Cons.prems(1,2) _ free assms(6) e]) (use Cons.prems(3) in simp_all)
  have "sy_lock ?s = (if st1 = Free then None else Some i)"
    using Cons.prems(5) st1(1) stage_LockMu [of st st1] stage_UnlockMu [of st st1] stage_other [OF st1(1)] by auto
  from Cons.IH [OF one _ _ st1(2) this] show ?case using Cons.prems(2) e by simp
qed

lemma crun_open:
  assumes "crun env ok (\<lambda>_. True) s0 s" "i < length (sy_tasks s)" "ta_todo (sy_tasks s ! i) = p @ q"
    "LockMu \<notin> set p" "UnlockMu \<notin> set p" "env w"
  shows "crun env ok (\<lambda>_. True) s0 \<lparr>sy_daemon = snd (fold (perform w) p (ta_loc (sy_tasks s ! i), sy_daemon s)), sy_lock = sy_lock s,
    sy_tasks = (sy_tasks s)[i := \<lparr>ta_loc = fst (fold (perform w) p (ta_loc (sy_tasks s ! i), sy_daemon s)), ta_todo = q\<rparr>]\<rparr>"
  using assms(1-5)
proof (induction p arbitrary: s)
  case Nil
  then have "\<lparr>ta_loc = ta_loc (sy_tasks s ! i), ta_todo = q\<rparr> = sy_tasks s ! i" by simp
  moreover have "s = \<lparr>sy_daemon = sy_daemon s, sy_lock = sy_lock s, sy_tasks = sy_tasks s\<rparr>" by simp
  ultimately show ?case using Nil by (simp only: fold_simps fst_conv snd_conv list_update_id)
next
  case (Cons a p)
  obtain l d where e: "perform w a (ta_loc (sy_tasks s ! i), sy_daemon s) = (l, d)" by fastforce
  have "crun env ok (\<lambda>_. True) s0 \<lparr>sy_daemon = d, sy_lock = sy_lock s, sy_tasks = (sy_tasks s)[i := \<lparr>ta_loc = l, ta_todo = p @ q\<rparr>]\<rparr>"
  proof -
    have "a = LockMu \<Longrightarrow> sy_lock s = None" using Cons.prems(4) by simp
    from crun_one [OF Cons.prems(1,2) _ this assms(6) e, of "p @ q"] show ?thesis using Cons.prems(3-5) by auto
  qed
  from Cons.IH [OF this] show ?case using Cons.prems(2,4,5) e by simp
qed

lemma crun_whole:
  assumes "crun env ok (\<lambda>_. True) s0 (spawn p s)" "idle s" "sy_lock s = None" "follows Free p" "env w"
  shows "\<exists>s'. crun env ok (\<lambda>_. True) s0 s' \<and> idle s' \<and> sy_lock s' = None
    \<and> sy_daemon s' = snd (fold (perform w) p (locals0, sy_daemon s))"
proof -
  have "sy_lock (spawn p s) = (if Free = Free then None else Some (length (sy_tasks s)))"
    using assms(3) by (simp add: spawn_def)
  from crun_part [OF assms(1) _ _ assms(4) [unfolded follows_stageAfters] this assms(5), of "[]"]
  have "crun env ok (\<lambda>_. True) s0 \<lparr>sy_daemon = snd (fold (perform w) p (locals0, sy_daemon s)), sy_lock = None,
      sy_tasks = sy_tasks s @ [\<lparr>ta_loc = fst (fold (perform w) p (locals0, sy_daemon s)), ta_todo = []\<rparr>]\<rparr>"
    by (simp add: spawn_def)
  moreover have "idle \<lparr>sy_daemon = snd (fold (perform w) p (locals0, sy_daemon s)), sy_lock = None,
      sy_tasks = sy_tasks s @ [\<lparr>ta_loc = fst (fold (perform w) p (locals0, sy_daemon s)), ta_todo = []\<rparr>]\<rparr>"
    using assms(2) by (auto simp: idle_def)
  ultimately show ?thesis by (metis sys.select_convs(1,2))
qed

lemma flush_world: "\<exists>w'. worldOk w' \<and> flush w' d = flush w d"
proof -
  let ?w = "demoWorld\<lparr>wo_saveOk := wo_saveOk w, wo_saveRawsOk := wo_saveRawsOk w\<rparr>"
  have "worldOk ?w" using worldOk_demo by (simp add: worldOk_def)
  moreover have "flush ?w d = flush w d" by (simp add: flush_def flushDB_eq)
  ultimately show ?thesis by blast
qed

text \<open>Every state of the coarse model, where requests, flushes and sweeps follow each other, is a state of the
  interleaved one at which nothing is left to do.\<close>

lemma coarse_refined:
  assumes "reach ok d"
  shows "\<exists>compile opt s. crun worldOk ok (\<lambda>_. True) (alone (storePredictor (newDaemon compile opt))) s \<and> idle s \<and> sy_lock s = None \<and> sy_daemon s = d"
  using assms
proof (induction rule: reach.induct)
  case (reach_new compile opt)
  show ?case by (intro exI conjI, rule crun_start) (simp_all add: idle_def alone_def)
next
  case (reach_request d req w)
  then obtain compile opt s where s: "crun worldOk ok (\<lambda>_. True) (alone (storePredictor (newDaemon compile opt))) s" "idle s" "sy_lock s = None"
    "sy_daemon s = d" by blast
  from crun_whole [OF crun_request [OF s(1) reach_request(2,3)] s(2,3) follows_programs(3) reach_request(3)]
  show ?case unfolding programs_sequential s(4) by blast
next
  case (reach_token d w)
  then obtain compile opt s where s: "crun worldOk ok (\<lambda>_. True) (alone (storePredictor (newDaemon compile opt))) s" "idle s" "sy_lock s = None"
    "sy_daemon s = d" by blast
  show ?case
  proof (cases "dm_flushCh d")
    case True
    let ?s = "s\<lparr>sy_daemon := (sy_daemon s)\<lparr>dm_flushCh := False\<rparr>\<rparr>"
    obtain w' where w': "worldOk w'" "flush w' (d\<lparr>dm_flushCh := False\<rparr>) = flush w (d\<lparr>dm_flushCh := False\<rparr>)"
      using flush_world by blast
    have "idle ?s" "sy_lock ?s = None" using s(2,3) by (simp_all add: idle_def)
    from crun_whole [OF crun_token [OF s(1)] this follows_programs(1) w'(1)] True show ?thesis
      unfolding flush_sequential s(4) by (simp add: flushToken_def w'(2)) blast
  qed (use s in \<open>auto simp: flushToken_def\<close>)
next
  case (reach_tick d w)
  then obtain compile opt s where s: "crun worldOk ok (\<lambda>_. True) (alone (storePredictor (newDaemon compile opt))) s" "idle s" "sy_lock s = None"
    "sy_daemon s = d" by blast
  show ?case
  proof (cases "0 < dm_dirty d")
    case True
    obtain w' where w': "worldOk w'" "flush w' d = flush w d" using flush_world by blast
    from crun_whole [OF crun_tick [OF s(1)] s(2,3) follows_programs(1) w'(1)] True show ?thesis
      unfolding flush_sequential s(4) by (simp add: flushTick_def w'(2)) blast
  qed (use s in \<open>auto simp: flushTick_def\<close>)
next
  case (reach_decay d w)
  then obtain compile opt s where s: "crun worldOk ok (\<lambda>_. True) (alone (storePredictor (newDaemon compile opt))) s" "idle s" "sy_lock s = None"
    "sy_daemon s = d" by blast
  from crun_whole [OF crun_sweep [OF s(1)] s(2,3) follows_programs(2) reach_decay(2)]
  show ?case unfolding decay_sequential s(4) by blast
qed

end
