(* ===== verification/Schema.thy ===== *)
theory Schema
  imports Store
begin

text \<open>
  daemon/store.go: the schema of the database and its migrations. Tables are named here with the
  columns they have at each version; a row of \<open>transitions\<close> is the list of its integer columns by
  name. Statements are those of the migration scripts: creating a table that is missing, adding a
  column with default 0 (an error if the table is missing or has the column), and copying
  \<open>raw_examples\<close> to its new form. A migration is one transaction. Indexes have no content.
\<close>

record table =
  tb_columns :: "string list"
  tb_rows :: "(pairKey \<times> (string \<times> int) list) list"

datatype rawTable = NoRaws | OldRaws "((string \<times> string) \<times> int) list" | NewRaws "((pairKey \<times> string) \<times> rawRow) list"

record sqlFile =
  sf_version :: nat
  sf_transitions :: "table option"
  sf_cwds :: "((pairKey \<times> string) \<times> int) list option"
  sf_raws :: rawTable

definition emptyFile :: sqlFile where
  "emptyFile = \<lparr>sf_version = 0, sf_transitions = None, sf_cwds = None, sf_raws = NoRaws\<rparr>"

definition addColumn :: "string \<Rightarrow> table \<Rightarrow> table option" where
  "addColumn c t =
     (if c \<in> set (tb_columns t) then None
      else Some \<lparr>tb_columns = tb_columns t @ [c], tb_rows = map (\<lambda>(k, r). (k, r @ [(c, 0)])) (tb_rows t)\<rparr>)"

fun addColumns :: "string list \<Rightarrow> table \<Rightarrow> table option" where
  "addColumns [] t = Some t"
| "addColumns (c # cs) t = (case addColumn c t of None \<Rightarrow> None | Some t' \<Rightarrow> addColumns cs t')"

definition alterTransitions :: "string list \<Rightarrow> sqlFile \<Rightarrow> sqlFile option" where
  "alterTransitions cs f =
     (case sf_transitions f of
        None \<Rightarrow> None
      | Some t \<Rightarrow> (case addColumns cs t of None \<Rightarrow> None | Some t' \<Rightarrow> Some (f\<lparr>sf_transitions := Some t'\<rparr>)))"

definition migration1 :: "sqlFile \<Rightarrow> sqlFile option" where
  "migration1 f =
     Some (f\<lparr>sf_transitions :=
               (case sf_transitions f of
                  None \<Rightarrow> Some \<lparr>tb_columns = [''count'', ''last_seen''], tb_rows = []\<rparr>
                | Some t \<Rightarrow> Some t),
             sf_raws := (case sf_raws f of NoRaws \<Rightarrow> OldRaws [] | raws \<Rightarrow> raws)\<rparr>)"

definition migration2 :: "sqlFile \<Rightarrow> sqlFile option" where
  "migration2 f =
     (case alterTransitions [''next_success'', ''next_failure'', ''prior_success'', ''prior_failure''] f of
        None \<Rightarrow> None
      | Some f' \<Rightarrow> Some (f'\<lparr>sf_cwds := (case sf_cwds f' of None \<Rightarrow> Some [] | Some cwds \<Rightarrow> Some cwds)\<rparr>))"

definition migration3 :: "sqlFile \<Rightarrow> sqlFile option" where
  "migration3 f = alterTransitions [''accepted''] f"

definition migration4 :: "int \<Rightarrow> sqlFile \<Rightarrow> sqlFile option" where
  \<comment> \<open>at the second \<open>now\<close>; the copy fails where it would break the primary key\<close>
  "migration4 now f =
     (case sf_raws f of
        NoRaws \<Rightarrow> None
      | OldRaws rs \<Rightarrow>
          Some (f\<lparr>sf_raws := NewRaws (map (\<lambda>((template, raw), c).
             ((([], template), raw), \<lparr>w_count = c, w_lastSeen = now\<rparr>)) rs)\<rparr>)
      | NewRaws rs \<Rightarrow>
          if distinct (map (\<lambda>(((_, template), raw), _). (template, raw)) rs)
          then Some (f\<lparr>sf_raws := NewRaws (map (\<lambda>(((_, template), raw), r).
                 ((([], template), raw), \<lparr>w_count = w_count r, w_lastSeen = now\<rparr>)) rs)\<rparr>)
          else None)"

definition migrations :: "int \<Rightarrow> (sqlFile \<Rightarrow> sqlFile option) list" where
  "migrations now = [migration1, migration2, migration3, migration4 now]"

function migrateFrom :: "(nat \<Rightarrow> bool) \<Rightarrow> (sqlFile \<Rightarrow> sqlFile option) list \<Rightarrow> nat \<Rightarrow> sqlFile \<Rightarrow>
    (nat \<times> sqlFile) + sqlFile" where
  \<comment> \<open>\<open>commits i\<close>: the transaction of migration i commits; \<open>Inl (i, f)\<close>: migration i failed on f\<close>
  "migrateFrom commits ms i f =
     (if length ms \<le> i then Inr f
      else case (if commits i then (ms ! i) f else None) of
             None \<Rightarrow> Inl (i, f)
           | Some f' \<Rightarrow> migrateFrom commits ms (i + 1) (f'\<lparr>sf_version := i + 1\<rparr>))"
  by pat_completeness auto
termination by (relation "measure (\<lambda>(commits, ms, i, f). length ms - i)") auto

declare migrateFrom.simps [simp del]

definition migrate :: "(nat \<Rightarrow> bool) \<Rightarrow> int \<Rightarrow> sqlFile \<Rightarrow> (nat \<times> sqlFile) + sqlFile" where
  "migrate commits now f = migrateFrom commits (migrations now) (sf_version f) f"

subsection \<open>Opening\<close>

datatype openError = OpenFailed string | WALFailed string | SyncFailed string | MigrationFailed nat

definition openStore ::
  "string option \<Rightarrow> string option \<Rightarrow> string option \<Rightarrow> (nat \<Rightarrow> bool) \<Rightarrow> int \<Rightarrow> sqlFile \<Rightarrow> openError option \<times> sqlFile" where
  \<comment> \<open>the errors, if any, of opening the database and of the two pragmas; the file is left as the
      failed migration found it\<close>
  "openStore openErr walErr syncErr commits now f =
     (case openErr of Some e \<Rightarrow> (Some (OpenFailed e), f) | None \<Rightarrow>
     (case walErr of Some e \<Rightarrow> (Some (WALFailed e), f) | None \<Rightarrow>
     (case syncErr of Some e \<Rightarrow> (Some (SyncFailed e), f) | None \<Rightarrow>
     (case migrate commits now f of Inl (i, f') \<Rightarrow> (Some (MigrationFailed (i + 1)), f') | Inr f' \<Rightarrow> (None, f')))))"

text \<open>The tables of a file at the last version, as theory Store has them.\<close>

definition allColumns :: "string list" where
  "allColumns = [''count'', ''last_seen'', ''next_success'', ''next_failure'', ''prior_success'',
     ''prior_failure'', ''accepted'']"

definition column :: "(string \<times> int) list \<Rightarrow> string \<Rightarrow> int" where
  "column r c = (case map_of r c of None \<Rightarrow> 0 | Some v \<Rightarrow> v)"

definition fullRow :: "(string \<times> int) list \<Rightarrow> transRow" where
  "fullRow r = \<lparr>d_count = column r ''count'', d_lastSeen = column r ''last_seen'',
     d_nextSuccess = column r ''next_success'', d_nextFailure = column r ''next_failure'',
     d_priorSuccess = column r ''prior_success'', d_priorFailure = column r ''prior_failure'',
     d_accepted = column r ''accepted''\<rparr>"

definition tablesOf :: "sqlFile \<Rightarrow> db option" where
  \<comment> \<open>\<open>None\<close>: a query of the store names a table or column that is missing\<close>
  "tablesOf f =
     (case (sf_transitions f, sf_cwds f, sf_raws f) of
        (Some t, Some cwds, NewRaws raws) \<Rightarrow>
          if set allColumns \<subseteq> set (tb_columns t)
          then Some \<lparr>db_transitions = map (\<lambda>(k, r). (k, fullRow r)) (tb_rows t), db_cwds = cwds, db_raws = raws\<rparr>
          else None
      | _ \<Rightarrow> None)"

definition fileOf :: "db \<Rightarrow> sqlFile" where
  \<comment> \<open>the file that holds the given tables at the last version\<close>
  "fileOf d = \<lparr>sf_version = 4,
     sf_transitions = Some \<lparr>tb_columns = allColumns, tb_rows = map (\<lambda>(k, r). (k,
       zip allColumns [d_count r, d_lastSeen r, d_nextSuccess r, d_nextFailure r, d_priorSuccess r,
         d_priorFailure r, d_accepted r])) (db_transitions d)\<rparr>,
     sf_cwds = Some (db_cwds d), sf_raws = NewRaws (db_raws d)\<rparr>"

lemma tables_fileOf [simp]: "tablesOf (fileOf d) = Some d"
proof -
  have "fullRow (zip allColumns [d_count r, d_lastSeen r, d_nextSuccess r, d_nextFailure r, d_priorSuccess r,
         d_priorFailure r, d_accepted r]) = r" for r
    by (simp add: fullRow_def column_def allColumns_def)
  then show ?thesis by (simp add: tablesOf_def fileOf_def o_def case_prod_beta)
qed

subsection \<open>Migrating\<close>

text \<open>A file of the first release: written before there was a migration runner.\<close>

definition legacyFile :: "(pairKey \<times> int \<times> int) list \<Rightarrow> ((string \<times> string) \<times> int) list \<Rightarrow> sqlFile" where
  "legacyFile ts rs = \<lparr>sf_version = 0,
     sf_transitions = Some \<lparr>tb_columns = [''count'', ''last_seen''],
       tb_rows = map (\<lambda>(k, c, seen). (k, [(''count'', c), (''last_seen'', seen)])) ts\<rparr>,
     sf_cwds = None, sf_raws = OldRaws rs\<rparr>"

lemma migrate_four:
  "sf_version f = 0 \<Longrightarrow> migrate (\<lambda>_. True) now f =
     (case migration1 f of None \<Rightarrow> Inl (0, f) | Some f1 \<Rightarrow>
     (case migration2 (f1\<lparr>sf_version := 1\<rparr>) of None \<Rightarrow> Inl (1, f1\<lparr>sf_version := 1\<rparr>) | Some f2 \<Rightarrow>
     (case migration3 (f2\<lparr>sf_version := 2\<rparr>) of None \<Rightarrow> Inl (2, f2\<lparr>sf_version := 2\<rparr>) | Some f3 \<Rightarrow>
     (case migration4 now (f3\<lparr>sf_version := 3\<rparr>) of None \<Rightarrow> Inl (3, f3\<lparr>sf_version := 3\<rparr>) | Some f4 \<Rightarrow>
        Inr (f4\<lparr>sf_version := 4\<rparr>)))))"
  by (simp add: migrate_def migrations_def migrateFrom.simps numeral_eq_Suc split: option.split)

lemmas migration_defs = migration1_def migration2_def migration3_def migration4_def alterTransitions_def addColumn_def

lemma migrate_legacy:
  "\<exists>f. migrate (\<lambda>_. True) now (legacyFile ts rs) = Inr f \<and> sf_version f = 4
     \<and> tablesOf f = Some \<lparr>db_transitions = map (\<lambda>(k, c, seen). (k,
           \<lparr>d_count = c, d_lastSeen = seen, d_nextSuccess = 0, d_nextFailure = 0, d_priorSuccess = 0,
            d_priorFailure = 0, d_accepted = 0\<rparr>)) ts,
         db_cwds = [],
         db_raws = map (\<lambda>((template, raw), c). ((([], template), raw), \<lparr>w_count = c, w_lastSeen = now\<rparr>)) rs\<rparr>"
proof -
  have v: "sf_version (legacyFile ts rs) = 0" by (simp add: legacyFile_def)
  show ?thesis
    unfolding migrate_four [OF v]
    by (simp add: legacyFile_def migration_defs tablesOf_def allColumns_def fullRow_def column_def)
       (auto simp: fullRow_def column_def)
qed

text \<open>C27: Upgrading loses nothing: a database of the first release migrates to the last version, where
  every transition is loaded with its count and time and with all newer counters zero, and every
  raw command is loaded with its count, under the empty context, as seen at the migration.\<close>

theorem migrate_keeps_history:
  "\<exists>f d. migrate (\<lambda>_. True) now (legacyFile ts rs) = Inr f \<and> tablesOf f = Some d
     \<and> load d = map (\<lambda>((st, nxt), c, seen).
          \<lparr>t_State = st, t_Next = nxt, t_Count = c, t_LastSeen = time_Unix seen, t_CWDs = [],
           t_NextSuccess = 0, t_NextFailure = 0, t_PriorSuccess = 0, t_PriorFailure = 0, t_Accepted = 0\<rparr>) ts
     \<and> loadRawExamples d = map (\<lambda>((template, raw), c).
          \<lparr>rr_State = [], rr_Template = template, rr_Raw = raw, rr_Count = c, rr_LastSeen = time_Unix now\<rparr>) rs"
proof -
  obtain f where f: "migrate (\<lambda>_. True) now (legacyFile ts rs) = Inr f"
    and d: "tablesOf f = Some \<lparr>db_transitions = map (\<lambda>(k, c, seen). (k,
           \<lparr>d_count = c, d_lastSeen = seen, d_nextSuccess = 0, d_nextFailure = 0, d_priorSuccess = 0,
            d_priorFailure = 0, d_accepted = 0\<rparr>)) ts, db_cwds = [],
         db_raws = map (\<lambda>((template, raw), c). ((([], template), raw), \<lparr>w_count = c, w_lastSeen = now\<rparr>)) rs\<rparr>"
    using migrate_legacy by blast
  show ?thesis
    by (intro exI conjI, rule f, rule d)
       (auto simp: load_def loadRawExamples_def rowTransition_def)
qed

text \<open>A file that does not exist yet becomes the empty database.\<close>

lemma migrate_fresh:
  "\<exists>f. migrate (\<lambda>_. True) now emptyFile = Inr f \<and> sf_version f = 4 \<and> tablesOf f = Some emptyDB"
proof -
  have v: "sf_version emptyFile = 0" by (simp add: emptyFile_def)
  show ?thesis unfolding migrate_four [OF v]
    by (simp add: emptyFile_def migration_defs tablesOf_def allColumns_def emptyDB_def)
qed

lemma migrateFrom_failed:
  assumes "migrateFrom commits ms i f = Inl (j, f')" "sf_version f = i"
  shows "i \<le> j \<and> j < length ms \<and> sf_version f' = j
    \<and> migrateFrom (\<lambda>_. True) ms j f' = migrateFrom (\<lambda>_. True) ms i f"
  using assms
proof (induction commits ms i f rule: migrateFrom.induct)
  case (1 commits ms i f)
  have more: "\<not> length ms \<le> i" using 1(2) by (auto simp: migrateFrom.simps [of commits ms i f])
  show ?case
  proof (cases "if commits i then (ms ! i) f else None")
    case None
    then show ?thesis using 1(2,3) more by (simp add: migrateFrom.simps [of commits ms i f])
  next
    case (Some x)
    then have step: "migrateFrom commits ms (i + 1) (x\<lparr>sf_version := i + 1\<rparr>) = Inl (j, f')"
      using 1(2) more by (simp add: migrateFrom.simps [of commits ms i f])
    have "migrateFrom (\<lambda>_. True) ms i f = migrateFrom (\<lambda>_. True) ms (i + 1) (x\<lparr>sf_version := i + 1\<rparr>)"
      using Some more by (simp add: migrateFrom.simps [of _ ms i f] split: if_splits)
    with 1(1) [OF more Some step] show ?thesis by simp
  qed
qed

lemma migrateFrom_done:
  assumes "migrateFrom commits ms i f = Inr f'" "sf_version f = i" "i \<le> length ms"
  shows "sf_version f' = length ms"
  using assms
proof (induction commits ms i f rule: migrateFrom.induct)
  case (1 commits ms i f)
  show ?case
  proof (cases "length ms \<le> i")
    case True
    then show ?thesis using 1(2,3,4) by (simp add: migrateFrom.simps [of commits ms i f])
  next
    case False
    then obtain x where x: "(if commits i then (ms ! i) f else None) = Some x"
      "migrateFrom commits ms (i + 1) (x\<lparr>sf_version := i + 1\<rparr>) = Inr f'"
      using 1(2) by (auto simp: migrateFrom.simps [of commits ms i f] split: option.splits)
    show ?thesis using 1(1) [OF False x] False by simp
  qed
qed

text \<open>C28: A migration that fails half way is resumed, not repeated: the file is left at the version it
  reached, and migrating it later gives what migrating the original file in one go would have given.\<close>

theorem migrate_resumes:
  assumes "migrate commits now f = Inl (j, f')"
  shows "sf_version f \<le> j \<and> j < 4 \<and> sf_version f' = j
    \<and> migrate (\<lambda>_. True) now f' = migrate (\<lambda>_. True) now f"
  using migrateFrom_failed [of commits "migrations now" "sf_version f" f j f'] assms
  by (simp add: migrate_def migrations_def)

theorem migrate_resumes_witness:
  "\<exists>f'. migrate (\<lambda>i. i < 2) 9 emptyFile = Inl (2, f') \<and> migrate (\<lambda>_. True) 9 f' = migrate (\<lambda>_. True) 9 emptyFile"
proof -
  obtain f' where f': "migrate (\<lambda>i. i < 2) 9 emptyFile = Inl (2, f')"
    by (simp add: migrate_def migrations_def emptyFile_def migration_defs migrateFrom.simps numeral_eq_Suc)
  with migrate_resumes [OF f'] show ?thesis by blast
qed

text \<open>A file at the last version is left alone.\<close>

lemma migrate_fileOf [simp]: "migrate commits now (fileOf d) = Inr (fileOf d)"
  by (simp add: migrate_def fileOf_def migrations_def migrateFrom.simps)

end
