(* ===== verification/Lifecycle.thy ===== *)
theory Lifecycle
  imports Daemon_Run Schema
begin

text \<open>
  daemon/daemon.go: starting, stopping and accepting. What the operating system answers is a record
  of outcomes; what it keeps between two processes (the PID file, the lock file, the socket and the
  database file) is the record \<open>host\<close>. A step that fails returns at once, as in the code, and
  leaves what the steps before it did. Errors are their texts. The two locking primitives are those
  of daemon/osutil_unix.go.
\<close>

datatype flockResult = FlockOK | WouldBlock | FlockError string
datatype killResult = KillOK | NoProcess | KillError string
datatype lockError = ErrLocked | LockFailed string

definition Lock :: "flockResult \<Rightarrow> lockError option" where
  "Lock r = (case r of FlockOK \<Rightarrow> None | WouldBlock \<Rightarrow> Some ErrLocked | FlockError e \<Rightarrow> Some (LockFailed e))"

definition processExists :: "killResult \<Rightarrow> string + bool" where
  "processExists r = (case r of KillOK \<Rightarrow> Inr True | NoProcess \<Rightarrow> Inr False | KillError e \<Rightarrow> Inl e)"

fun lockErrorText :: "lockError \<Rightarrow> string" where
  "lockErrorText ErrLocked = ''lock already held''"
| "lockErrorText (LockFailed e) = e"

record host =
  ho_pidFile :: "string option"
  ho_lockFile :: bool
  ho_socket :: bool
  ho_db :: sqlFile

record boot =
  bo_mkDataDir :: "string option"  \<comment> \<open>the error, if any; likewise below\<close>
  bo_mkSockDir :: "string option"
  bo_openLock :: "string option"
  bo_flock1 :: flockResult
  bo_flock2 :: flockResult
  bo_kill :: "int \<Rightarrow> killResult"
  bo_removeLockOk :: bool
  bo_removePidOk :: bool
  bo_pid :: int
  bo_writePid :: "string option"
  bo_openDB :: "string option"
  bo_wal :: "string option"
  bo_sync :: "string option"
  bo_commits :: "nat \<Rightarrow> bool"
  bo_now :: int
  bo_openText :: "openError \<Rightarrow> string"
  bo_load :: "string option"
  bo_loadRaws :: "string option"
  bo_noTable :: string  \<comment> \<open>the error of a query that names a missing table or column\<close>
  bo_listen :: "string option"
  bo_chmod :: "string option"

text \<open>Where the daemon has its files, as \<open>Run\<close> derives it.\<close>

record daemonPaths =
  dp_sockPath :: string
  dp_lockPath :: string
  dp_pidPath :: string

definition runPaths :: "options \<Rightarrow> daemonPaths" where
  "runPaths opt =
     (let dataDir = Dir (op_DBPath opt)
      in \<lparr>dp_sockPath = op_Socket opt, dp_lockPath = joinPath [dataDir, ''hunch.lock''],
          dp_pidPath = joinPath [dataDir, ''hunch.pid'']\<rparr>)"

subsection \<open>Taking the lock\<close>

definition recoverStaleLock :: "boot \<Rightarrow> host \<Rightarrow> string option \<times> host" where
  "recoverStaleLock b h =
     (case ho_pidFile h of
        None \<Rightarrow> (Some (''stale lock but no pid file: '' @ lockErrorText ErrLocked), h)
      | Some pidData \<Rightarrow>
          (case Atoi (TrimSpace pidData) of
             None \<Rightarrow> (Some (''stale lock but invalid pid: '' @ lockErrorText ErrLocked), h)
           | Some pid \<Rightarrow>
               (case processExists (bo_kill b pid) of
                  Inl e \<Rightarrow> (Some (''check pid '' @ ItoaInt pid @ '': '' @ e), h)
                | Inr True \<Rightarrow> (Some (''another instance is running (pid '' @ ItoaInt pid @ '')''), h)
                | Inr False \<Rightarrow>
                    (None, h\<lparr>ho_lockFile := (if bo_removeLockOk b then False else ho_lockFile h),
                             ho_pidFile := (if bo_removePidOk b then None else ho_pidFile h)\<rparr>))))"

definition acquireLock :: "boot \<Rightarrow> host \<Rightarrow> string option \<times> host" where
  \<comment> \<open>the part of \<open>start\<close> from \<open>OpenLock\<close> to the second \<open>Lock\<close>\<close>
  "acquireLock b h0 =
     (case bo_openLock b of
        Some e \<Rightarrow> (Some (''open lock: '' @ e), h0)
      | None \<Rightarrow>
          (let h = h0\<lparr>ho_lockFile := True\<rparr> in
           case Lock (bo_flock1 b) of
             None \<Rightarrow> (None, h)
           | Some (LockFailed e) \<Rightarrow> (Some (''acquire lock: '' @ e), h)
           | Some ErrLocked \<Rightarrow>
               (case recoverStaleLock b h of
                  (Some e, h') \<Rightarrow> (Some e, h')
                | (None, h') \<Rightarrow>
                    (case Lock (bo_flock2 b) of
                       Some err \<Rightarrow> (Some (''acquire lock after recovery: '' @ lockErrorText err), h')
                     | None \<Rightarrow> (None, h')))))"

subsection \<open>Starting\<close>

definition loadState :: "boot \<Rightarrow> sqlFile \<Rightarrow> daemon \<Rightarrow> string + (nat \<times> daemon)" where
  \<comment> \<open>graph and raw commands from the database; with them the number of transitions loaded\<close>
  "loadState b f d =
     (case (case bo_load b of Some e \<Rightarrow> Inl e | None \<Rightarrow>
              (case tablesOf f of None \<Rightarrow> Inl (bo_noTable b) | Some tables \<Rightarrow> Inr tables)) of
        Inl e \<Rightarrow> Inl (''load graph: '' @ e)
      | Inr tables \<Rightarrow>
          (let transitions = load tables in
           case Merge transitions (graphOf d) of
             Inl err \<Rightarrow> Inl (''merge loaded transitions: '' @ mergeErrorText err)
           | Inr g \<Rightarrow>
               (case bo_loadRaws b of
                  Some e \<Rightarrow> Inl (''load raw examples: '' @ e)
                | None \<Rightarrow> Inr (length transitions,
                    (setGraph g d)\<lparr>dm_db := tables, dm_raws := loadRaws (loadRawExamples tables) (dm_raws d)\<rparr>))))"

definition seedFirstRun :: "world \<Rightarrow> nat \<Rightarrow> daemon \<Rightarrow> daemon" where
  \<comment> \<open>a seed that fails to import is only logged\<close>
  "seedFirstRun w n d =
     (if op_SeedPath (dm_opts d) \<noteq> [] \<and> n = 0
      then (case importSeed w (op_SeedPath (dm_opts d)) d of Inl _ \<Rightarrow> d | Inr d' \<Rightarrow> d')
      else d)"

definition startListener :: "boot \<Rightarrow> host \<Rightarrow> string option \<times> host" where
  "startListener b h =
     (case bo_listen b of
        Some e \<Rightarrow> (Some (''listen: '' @ e), h\<lparr>ho_socket := False\<rparr>)
      | None \<Rightarrow>
          (case bo_chmod b of
             Some e \<Rightarrow> (Some (''set socket permissions: '' @ e), h\<lparr>ho_socket := False\<rparr>)
           | None \<Rightarrow> (None, h\<lparr>ho_socket := True\<rparr>)))"

definition start :: "boot \<Rightarrow> world \<Rightarrow> daemon \<Rightarrow> host \<Rightarrow> string option \<times> daemon \<times> host" where
  "start b w d h =
     (case bo_mkDataDir b of Some e \<Rightarrow> (Some (''create data dir: '' @ e), d, h) | None \<Rightarrow>
     (case bo_mkSockDir b of Some e \<Rightarrow> (Some (''create socket dir: '' @ e), d, h) | None \<Rightarrow>
     (case acquireLock b h of (Some e, h1) \<Rightarrow> (Some e, d, h1) | (None, h1) \<Rightarrow>
     (case bo_writePid b of Some e \<Rightarrow> (Some (''write pid: '' @ e), d, h1) | None \<Rightarrow>
     (let h2 = h1\<lparr>ho_pidFile := Some (ItoaInt (bo_pid b))\<rparr> in
     (case openStore (bo_openDB b) (bo_wal b) (bo_sync b) (bo_commits b) (bo_now b) (ho_db h2) of
        (Some e, f) \<Rightarrow> (Some (''open store: '' @ bo_openText b e), d, h2\<lparr>ho_db := f\<rparr>)
      | (None, f) \<Rightarrow>
     (let h3 = h2\<lparr>ho_db := f\<rparr> in
     (case loadState b f d of Inl e \<Rightarrow> (Some e, d, h3) | Inr (n, d1) \<Rightarrow>
     (let d2 = decay w (storePredictor (seedFirstRun w n d1));
          (err, h4) = startListener b (h3\<lparr>ho_db := fileOf (dm_db d2)\<rparr>)
      in (err, d2, h4))))))))))"

definition stop :: "world \<Rightarrow> bool \<Rightarrow> daemon \<Rightarrow> host \<Rightarrow> daemon \<times> host" where
  \<comment> \<open>the flag: the PID file can be removed\<close>
  "stop w removePidOk d h =
     (let d' = flush w d
      in (d', h\<lparr>ho_db := fileOf (dm_db d'), ho_socket := False,
               ho_pidFile := (if removePidOk then None else ho_pidFile h)\<rparr>))"

subsection \<open>One instance at a time\<close>

text \<open>C34: A second daemon does no harm: if the lock is held and the PID file names a process that is
  alive, starting fails with that message and changes neither the PID file, nor the socket, nor the
  database, nor anything in memory.\<close>

theorem second_instance_harmless:
  assumes "bo_mkDataDir b = None" "bo_mkSockDir b = None" "bo_openLock b = None" "bo_flock1 b = WouldBlock"
    "ho_pidFile h = Some txt" "Atoi (TrimSpace txt) = Some pid" "bo_kill b pid = KillOK"
  shows "start b w d h
    = (Some (''another instance is running (pid '' @ ItoaInt pid @ '')''), d, h\<lparr>ho_lockFile := True\<rparr>)"
  using assms by (simp add: start_def acquireLock_def recoverStaleLock_def Lock_def processExists_def)

definition okBoot :: "int \<Rightarrow> boot" where
  \<comment> \<open>every call succeeds\<close>
  "okBoot pid = \<lparr>bo_mkDataDir = None, bo_mkSockDir = None, bo_openLock = None, bo_flock1 = FlockOK,
     bo_flock2 = FlockOK, bo_kill = (\<lambda>_. NoProcess), bo_removeLockOk = True, bo_removePidOk = True,
     bo_pid = pid, bo_writePid = None, bo_openDB = None, bo_wal = None, bo_sync = None,
     bo_commits = (\<lambda>_. True), bo_now = 0, bo_openText = (\<lambda>_. []), bo_load = None, bo_loadRaws = None,
     bo_noTable = ''no such table'', bo_listen = None, bo_chmod = None\<rparr>"

definition newHost :: host where
  "newHost = \<lparr>ho_pidFile = None, ho_lockFile = False, ho_socket = False, ho_db = emptyFile\<rparr>"

theorem second_instance_harmless_witness:
  "start ((okBoot 8)\<lparr>bo_flock1 := WouldBlock, bo_kill := (\<lambda>p. if p = 7 then KillOK else NoProcess)\<rparr>) demoWorld demoDaemon
     (newHost\<lparr>ho_pidFile := Some ''7''\<rparr>)
   = (Some ''another instance is running (pid 7)'', demoDaemon, newHost\<lparr>ho_pidFile := Some ''7'', ho_lockFile := True\<rparr>)"
proof -
  have "Atoi (TrimSpace ''7'') = Some 7" "ItoaInt 7 = ''7''" by code_simp+
  then show ?thesis
    using second_instance_harmless [of "(okBoot 8)\<lparr>bo_flock1 := WouldBlock, bo_kill := (\<lambda>p. if p = 7 then KillOK else NoProcess)\<rparr>"
      "newHost\<lparr>ho_pidFile := Some ''7''\<rparr>" "''7''" 7 demoWorld demoDaemon]
    by (simp add: okBoot_def newHost_def)
qed

text \<open>A failing start never touches the memory of the daemon it could not load, and a lock that is
  free, or left behind by a process that is gone, does not stop it.\<close>

lemma acquireLock_free: "bo_openLock b = None \<Longrightarrow> bo_flock1 b = FlockOK \<Longrightarrow>
    acquireLock b h = (None, h\<lparr>ho_lockFile := True\<rparr>)"
  by (simp add: acquireLock_def Lock_def)

lemma acquireLock_stale:
  assumes "bo_openLock b = None" "bo_flock1 b = WouldBlock" "bo_flock2 b = FlockOK"
    "ho_pidFile h = Some txt" "Atoi (TrimSpace txt) = Some pid" "bo_kill b pid = NoProcess"
  shows "fst (acquireLock b h) = None \<and> ho_db (snd (acquireLock b h)) = ho_db h"
  using assms by (simp add: acquireLock_def recoverStaleLock_def Lock_def processExists_def Let_def)

subsection \<open>Stopping and starting again\<close>

definition goodBoot :: "boot \<Rightarrow> bool" where
  \<comment> \<open>nothing after the lock fails\<close>
  "goodBoot b \<longleftrightarrow> bo_mkDataDir b = None \<and> bo_mkSockDir b = None \<and> bo_writePid b = None \<and> bo_openDB b = None
     \<and> bo_wal b = None \<and> bo_sync b = None \<and> bo_load b = None \<and> bo_loadRaws b = None \<and> bo_listen b = None
     \<and> bo_chmod b = None"

lemma loadState_bootState:
  assumes "bo_load b = None" "bo_loadRaws b = None" "tablesOf f = Some d" "bootState fresh d = Inr d2"
  shows "loadState b f fresh = Inr (length (load d), d2)"
  using assms by (auto simp: loadState_def bootState_def Let_def split: sum.splits)

lemma start_good:
  assumes "goodBoot b" "acquireLock b h = (None, h1)" "ho_db h1 = fileOf db" "bootState fresh db = Inr d2"
    "op_SeedPath (dm_opts d2) = []"
  shows "start b w fresh h = (None, decay w (storePredictor d2),
     h1\<lparr>ho_pidFile := Some (ItoaInt (bo_pid b)), ho_db := fileOf (dm_db (decay w (storePredictor d2))), ho_socket := True\<rparr>)"
  using assms loadState_bootState [of b "fileOf db" db fresh d2]
  by (simp add: goodBoot_def start_def openStore_def startListener_def seedFirstRun_def Let_def)

lemma opts_bootState: "bootState fresh db = Inr d2 \<Longrightarrow> dm_opts d2 = dm_opts fresh"
  by (auto simp: bootState_def split: sum.splits)

text \<open>C4: Stopping and starting again loses nothing but what is too old to keep: from any reachable
  state, if the last flush commits and the lock can be had, a new daemon comes up whose graph is the
  old one (times cut to whole seconds) after a sweep at its start, and whose predictor reads that
  graph.\<close>

theorem stop_start_roundtrip:
  assumes "reach plainRequest d" "wo_saveOk w" "wo_saveRawsOk w" "(d1, h1) = stop w removePidOk d h"
    and "goodBoot b" "acquireLock b h1 = (None, h2)" "ho_db h2 = ho_db h1" "op_SeedPath opt = []"
  shows "\<exists>d2 h3 g. start b w' (newDaemon compile opt) h1 = (None, d2, h3)
    \<and> absGraph g = (\<lambda>k. map_option secEntry (absGraph (graphOf d) k))
    \<and> graphOf d2 = snd (Decay (wo_now w') (HalfLife opt) (MaxIdle opt) g)
    \<and> dm_predG d2 = dm_g d2 \<and> ho_socket h3 \<and> ho_pidFile h3 = Some (ItoaInt (bo_pid b))"
proof -
  have d1: "d1 = flush w d" "ho_db h1 = fileOf (dm_db d1)" using assms(4) by (simp_all add: stop_def Let_def)
  obtain d2 where d2: "bootState (newDaemon compile opt) (dm_db d1) = Inr d2"
    and g: "absGraph (graphOf d2) = (\<lambda>k. map_option secEntry (absGraph (graphOf d) k))"
    using restart_keeps_knowledge [OF assms(1-3) d1(1), of compile opt] by blast
  have opts: "dm_opts d2 = opt" using opts_bootState [OF d2] by (simp add: newDaemon_def)
  have "start b w' (newDaemon compile opt) h1 = (None, decay w' (storePredictor d2),
     h2\<lparr>ho_pidFile := Some (ItoaInt (bo_pid b)), ho_db := fileOf (dm_db (decay w' (storePredictor d2))), ho_socket := True\<rparr>)"
    using start_good [OF assms(5,6) _ d2] assms(7,8) d1(2) opts by simp
  moreover have "graphOf (decay w' (storePredictor d2)) = snd (Decay (wo_now w') (HalfLife opt) (MaxIdle opt) (graphOf d2))"
    using opts by (simp add: decay_def Let_def split: prod.split)
  moreover have "dm_predG (decay w' (storePredictor d2)) = dm_g (decay w' (storePredictor d2))"
    by (simp add: decay_def Let_def split: prod.split)
  ultimately show ?thesis using g by fastforce
qed

theorem stop_start_roundtrip_witness:
  "\<exists>d2 h3. start (okBoot 7) demoWorld (newDaemon (\<lambda>_. None) defaults)
      (snd (stop demoWorld True (snd (dispatch demoWorld demoRequest (storePredictor demoDaemon))) newHost)) = (None, d2, h3)
    \<and> ho_pidFile h3 = Some ''7''"
proof -
  let ?d = "snd (dispatch demoWorld demoRequest (storePredictor demoDaemon))"
  have "reach plainRequest ?d" by (intro reach_request reach_demo worldOk_demo plain_demoRequest roomy_demo)
  moreover have "goodBoot (okBoot 7)" by (simp add: goodBoot_def okBoot_def)
  moreover have "acquireLock (okBoot 7) h = (None, h\<lparr>ho_lockFile := True\<rparr>)" for h
    by (rule acquireLock_free) (simp_all add: okBoot_def)
  moreover have "ItoaInt (bo_pid (okBoot 7)) = ''7''" unfolding okBoot_def by code_simp
  ultimately show ?thesis
    using stop_start_roundtrip [of ?d demoWorld "fst (stop demoWorld True ?d newHost)" "snd (stop demoWorld True ?d newHost)"
        True newHost "okBoot 7" _ defaults demoWorld "\<lambda>_. None"]
    by (fastforce simp: demoWorld_def defaults_def)
qed

subsection \<open>A whole run\<close>

definition runDaemon :: "(string \<Rightarrow> regex option) \<Rightarrow> boot \<Rightarrow> world \<Rightarrow> options \<Rightarrow> (daemon \<Rightarrow> daemon) \<Rightarrow> world \<Rightarrow> bool
    \<Rightarrow> host \<Rightarrow> string option \<times> host" where
  \<comment> \<open>\<open>Run\<close>; \<open>served\<close> is what the goroutines make of the daemon until the context is cancelled\<close>
  "runDaemon compile b w opt served w' removePidOk h =
     (case start b w (newDaemon compile opt) h of
        (Some e, _, h') \<Rightarrow> (Some e, h')
      | (None, d, h') \<Rightarrow> (None, snd (stop w' removePidOk (served d) h')))"

lemma run_cleans_up:
  assumes "runDaemon compile b w opt served w' True h = (None, h')"
  shows "\<not> ho_socket h' \<and> ho_pidFile h' = None"
  using assms by (auto simp: runDaemon_def stop_def Let_def split: option.splits prod.splits)

text \<open>A start that fails once the PID file is written leaves it behind, as \<open>stop\<close> is not yet deferred then.\<close>

lemma startListener_pid: "ho_pidFile (snd (startListener b h)) = ho_pidFile h"
  by (simp add: startListener_def split: option.split)

lemma failed_start_leaves_pid:
  assumes "runDaemon compile b w opt served w' removePidOk h = (Some e, h')"
    and "bo_mkDataDir b = None" "bo_mkSockDir b = None" "acquireLock b h = (None, h1)" "bo_writePid b = None"
  shows "ho_pidFile h' = Some (ItoaInt (bo_pid b))"
proof -
  obtain d' where "start b w (newDaemon compile opt) h = (Some e, d', h')"
    using assms(1) by (auto simp: runDaemon_def split: option.splits prod.splits)
  moreover have "startListener b x = (err, y) \<Longrightarrow> ho_pidFile y = ho_pidFile x" for x y err
    using startListener_pid [of b x] by simp
  ultimately show ?thesis using assms(2-5)
    by (auto simp: start_def Let_def split: option.splits prod.splits sum.splits)
qed

text \<open>\<open>stop\<close> does not wait for the connections that are being handled. A record that is handled after its flush
  is answered with \<open>ok\<close>, but it is in none of the tables the daemon leaves.\<close>

lemma late_record_lost:
  assumes "(d1, h1) = stop w removePidOk d h" "requestTime w' (q_At req) = Inr tm" "\<not> IsSensitive (dm_redactor d) (q_Next req)"
  shows "fst (handleRecord w' req d1) = OKResponse" "dm_db (snd (handleRecord w' req d1)) = dm_db d1" "ho_db h1 = fileOf (dm_db d1)"
proof -
  have d1: "d1 = flush w d" "ho_db h1 = fileOf (dm_db d1)" using assms(1) by (simp_all add: stop_def Let_def)
  have "\<not> IsSensitive (dm_redactor d1) (q_Next req)" using assms(3) d1(1) by (simp add: flush_simps)
  from handleRecord_eq [OF assms(2) this]
  show "fst (handleRecord w' req d1) = OKResponse" "dm_db (snd (handleRecord w' req d1)) = dm_db d1"
    by (simp_all add: signalFlush_def Let_def setGraph_def)
  show "ho_db h1 = fileOf (dm_db d1)" by (rule d1(2))
qed

subsection \<open>Accepting connections\<close>

datatype acceptResult = Accepted | AcceptFailed | AcceptCancelled  \<comment> \<open>the last: the context is done\<close>

definition minBackoff :: duration where "minBackoff = 10000000"
definition maxBackoff :: duration where "maxBackoff = 5000000000"

text \<open>The loop over what \<open>Accept\<close> returns: how long it sleeps after each error, in order.\<close>

fun acceptLoop :: "duration \<Rightarrow> acceptResult list \<Rightarrow> duration list" where
  "acceptLoop backoff [] = []"
| "acceptLoop backoff (r # rs) =
     (case r of
        AcceptCancelled \<Rightarrow> []
      | AcceptFailed \<Rightarrow>
          backoff # acceptLoop (let b = backoff * 2 in if maxBackoff < b then maxBackoff else b) rs
      | Accepted \<Rightarrow> acceptLoop minBackoff rs)"

lemma acceptLoop_bounds:
  "minBackoff \<le> backoff \<Longrightarrow> backoff \<le> maxBackoff \<Longrightarrow> s \<in> set (acceptLoop backoff rs) \<Longrightarrow>
     minBackoff \<le> s \<and> s \<le> maxBackoff"
proof (induction rs arbitrary: backoff)
  case (Cons r rs)
  have "minBackoff \<le> maxBackoff" by (simp add: minBackoff_def maxBackoff_def)
  moreover have "0 \<le> minBackoff" by (simp add: minBackoff_def)
  ultimately show ?case
    using Cons.IH [of minBackoff] Cons.IH [of maxBackoff] Cons.IH [of "backoff * 2"] Cons.prems
    by (auto simp: Let_def split: acceptResult.splits if_splits)
qed simp

lemma acceptLoop_errors:
  "minBackoff \<le> backoff \<Longrightarrow> backoff \<le> maxBackoff \<Longrightarrow> i < n \<Longrightarrow>
     acceptLoop backoff (replicate n AcceptFailed) ! i = min (backoff * 2 ^ i) maxBackoff"
proof (induction n arbitrary: backoff i)
  case (Suc n)
  let ?b = "if maxBackoff < backoff * 2 then maxBackoff else backoff * 2"
  have pos: "0 < backoff" using Suc.prems(1) by (simp add: minBackoff_def)
  have b: "minBackoff \<le> ?b" "?b \<le> maxBackoff" using Suc.prems pos by auto
  show ?case
  proof (cases i)
    case 0
    then show ?thesis using Suc.prems(2) by simp
  next
    case (Suc j)
    have "min (?b * 2 ^ j) maxBackoff = min (backoff * 2 ^ Suc j) maxBackoff"
    proof (cases "maxBackoff < backoff * 2")
      case True
      have "maxBackoff * 1 \<le> maxBackoff * 2 ^ j" by (rule mult_left_mono) (simp_all add: maxBackoff_def)
      moreover have "backoff * 2 * 1 \<le> backoff * 2 * 2 ^ j" by (rule mult_left_mono) (use pos in simp_all)
      ultimately show ?thesis using True by (simp add: min_def mult.assoc)
    qed (simp add: mult.assoc)
    then show ?thesis using Suc.IH [OF b, of j] Suc.prems(3) Suc by (simp add: Let_def)
  qed
qed simp

text \<open>A failing listener is neither polled hard nor given up: whatever the sequence of results, every
  sleep is between 10 milliseconds and 5 seconds, and the i-th of a row of errors doubles the first
  i times up to that limit.\<close>

theorem acceptLoop_backoff:
  "(\<forall>s. s \<in> set (acceptLoop minBackoff rs) \<longrightarrow> 10000000 \<le> s \<and> s \<le> 5000000000)
   \<and> (i < n \<longrightarrow> acceptLoop minBackoff (replicate n AcceptFailed) ! i = min (10000000 * 2 ^ i) 5000000000)"
proof -
  have "minBackoff \<le> maxBackoff" by (simp add: minBackoff_def maxBackoff_def)
  then show ?thesis
    using acceptLoop_bounds [of minBackoff _ rs] acceptLoop_errors [of minBackoff i n]
    by (auto simp: minBackoff_def maxBackoff_def)
qed

theorem acceptLoop_backoff_witness:
  "acceptLoop minBackoff (replicate 12 AcceptFailed) ! 9 = 5000000000"
  using acceptLoop_backoff [of "[]" 9 12] by simp

end
