(* ===== verification/Lock_Safety.thy ===== *)
theory Lock_Safety
  imports Concurrency Lifecycle
begin

text \<open>
  What \<open>flushMu\<close> protects. In every interleaving of requests, flushes and sweeps (theory Concurrency), and
  whatever fails, memory and tables stay well formed, so a process that dies at any moment leaves a
  database the next one can load. Where the deletes succeed, the database holds nothing that memory does
  not whenever nobody holds the lock: no flush writes back what a reset or a sweep has removed.
\<close>

subsection \<open>The invariant of memory and tables, and what a holder of the lock owes\<close>

definition attached :: "db \<Rightarrow> bool" where
  \<comment> \<open>a row of a directory belongs to a row of a transition\<close>
  "attached b \<longleftrightarrow> fst ` fst ` set (db_cwds b) \<subseteq> fst ` set (db_transitions b)"

definition tablesOk :: "db \<Rightarrow> bool" where
  "tablesOk b \<longleftrightarrow> dbInv b \<and> rawRowsOk b"

definition memoryOk :: "daemon \<Rightarrow> bool" where
  "memoryOk d \<longleftrightarrow> (\<forall>a. graphInv (dm_heap d a)) \<and> rawInv (dm_raws d) \<and> tablesOk (dm_db d)
     \<and> dm_g d < dm_fresh d \<and> dm_predG d < dm_fresh d"

lemma attached_save: "attached b \<Longrightarrow> attached (saveRows ts b)"
proof -
  have "attached (upsertTransition t b)" if "attached b" for t b
  proof -
    have "fst ` fst ` set (db_cwds (upsertTransition t b)) \<subseteq> insert (pairOf t) (fst ` fst ` set (db_cwds b))"
      using set_fold_cwds [of "pairOf t" "t_CWDs t" "db_cwds b"] by (fastforce simp: upsertTransition_def)
    then show ?thesis using that by (auto simp: attached_def upsertTransition_def keys_put)
  qed
  then have "attached b \<Longrightarrow> attached (fold upsertTransition ts b)" by (induction ts arbitrary: b) simp_all
  then show "attached b \<Longrightarrow> attached (saveRows ts b)" by (simp add: saveRows_def)
qed

lemma attached_prune: "attached b \<Longrightarrow> attached (pruneRows ts orphaned b)"
  by (force simp: attached_def pruneRows_def)

lemma attached_raws [simp]: "attached (saveRawRows rs b) = attached b"
  by (simp add: attached_def)

lemma tablesOk_save: "tablesOk b \<Longrightarrow> \<forall>t\<in>set ts. savable t \<Longrightarrow> tablesOk (saveRows ts b)"
  using dbInv_saveRows raws_cong(1) [of "saveRows ts b" b] by (simp add: tablesOk_def)

lemma tablesOk_saveRaws: "tablesOk b \<Longrightarrow> rawInv s \<Longrightarrow> tablesOk (saveRawRows (snapshot s) b)"
  using rawRowsOk_save [of b s] dbInv_raws [of b "snapshot s"]
  by (simp add: tablesOk_def rawRowsOk_def)

lemma tablesOk_prune: "tablesOk b \<Longrightarrow> tablesOk (pruneRows ts orphaned b)"
proof -
  assume b: "tablesOk b"
  then have "rawRowsOk (pruneRows ts orphaned b)"
    by (auto simp: tablesOk_def rawRowsOk_def pruneRows_def intro: wfMap_filter)
  then show ?thesis using b dbInv_prune by (simp add: tablesOk_def)
qed

lemma tablesOk_delete:
  "tablesOk b \<Longrightarrow> tablesOk (b\<lparr>db_transitions := []\<rparr>)" "tablesOk b \<Longrightarrow> tablesOk (b\<lparr>db_cwds := []\<rparr>)"
  "tablesOk b \<Longrightarrow> tablesOk (b\<lparr>db_raws := []\<rparr>)"
  by (simp_all add: tablesOk_def dbInv_def rawRowsOk_def)

definition covered :: "daemon \<Rightarrow> bool" where
  \<comment> \<open>the database holds no more than memory\<close>
  "covered d \<longleftrightarrow> attached (dm_db d) \<and> dbWithin (dm_db d) (graphOf d) \<and> rawsWithin (dm_db d) (dm_raws d)"

definition afterPrune :: "locals \<Rightarrow> daemon \<Rightarrow> db" where
  \<comment> \<open>the tables once the rows the sweep has found are gone\<close>
  "afterPrune l d = pruneRows (dr_Pruned (lo_res l)) (dr_Orphaned (lo_res l)) (dm_db d)"

definition stageOk :: "stage \<Rightarrow> locals \<Rightarrow> daemon \<Rightarrow> bool" where
  "stageOk st l d =
     (case st of
        Free \<Rightarrow> covered d
      | Held \<Rightarrow> covered d
      | Loaded \<Rightarrow> covered d \<and> lo_g l = Some (dm_g d)
      | Snapped \<Rightarrow> covered d \<and> (\<exists>g. graphInv g \<and> graphLe g (graphOf d) \<and> lo_ts l = All g)
      | RawsSnapped \<Rightarrow> covered d \<and> (lo_ok l \<longrightarrow> (\<exists>s. rawInv s \<and> rawsLe s (dm_raws d) \<and> lo_raws l = snapshot s))
      | Swept \<Rightarrow> attached (dm_db d) \<and> dbWithin (afterPrune l d) (graphOf d) \<and> rawsWithin (dm_db d) (dm_raws d)
      | Dropped \<Rightarrow> attached (dm_db d) \<and> dbWithin (afterPrune l d) (graphOf d) \<and> rawsWithin (afterPrune l d) (dm_raws d)
      | Renewed \<Rightarrow> attached (dm_db d)
      | NoRows \<Rightarrow> db_transitions (dm_db d) = [] \<and> lo_ok l
      | NoDirs \<Rightarrow> db_transitions (dm_db d) = [] \<and> db_cwds (dm_db d) = [] \<and> lo_ok l
      | Emptied \<Rightarrow> db_transitions (dm_db d) = [] \<and> db_cwds (dm_db d) = [] \<and> db_raws (dm_db d) = [])"

lemma empty_tables: "db_transitions b = [] \<Longrightarrow> db_cwds b = [] \<Longrightarrow> db_raws b = [] \<Longrightarrow>
    tablesOk b \<and> attached b \<and> dbWithin b g \<and> rawsWithin b s"
  by (simp add: tablesOk_def attached_def dbInv_def rawRowsOk_def dbWithin_def rawsWithin_def)

subsection \<open>Steps taken without the lock only add\<close>

definition grows :: "daemon \<Rightarrow> daemon \<Rightarrow> bool" where
  "grows d d' \<longleftrightarrow> dm_db d' = dm_db d \<and> dm_g d' = dm_g d \<and> dm_fresh d' = dm_fresh d \<and> graphLe (graphOf d) (graphOf d')
     \<and> rawsLe (dm_raws d) (dm_raws d')"

lemma grows_covered: "grows d d' \<Longrightarrow> covered d \<Longrightarrow> covered d'"
  using dbWithin_mono rawsWithin_mono unfolding grows_def covered_def by metis

lemma grows_stage:
  assumes "grows d d'" "stageOk st l d"
  shows "stageOk st l d'"
proof (cases st)
  case Snapped
  then show ?thesis using assms grows_covered graphLe_trans unfolding grows_def stageOk_def by (simp, blast)
next
  case RawsSnapped
  then show ?thesis using assms grows_covered rawsLe_trans unfolding grows_def stageOk_def by (simp, blast)
next
  case Swept
  then show ?thesis using assms dbWithin_mono rawsWithin_mono unfolding grows_def stageOk_def afterPrune_def by (simp, metis)
next
  case Dropped
  then show ?thesis using assms dbWithin_mono rawsWithin_mono unfolding grows_def stageOk_def afterPrune_def by (simp, metis)
qed (use assms grows_covered in \<open>auto simp: stageOk_def grows_def\<close>)

definition soundMicro :: "micro \<Rightarrow> bool" where
  \<comment> \<open>what comes from outside is made of plain strings and maps\<close>
  "soundMicro a = (case a of Act (FileRaw st t raw tm) \<Rightarrow> \<forall>x\<in>set st. NUL \<notin> set x
     | MergeRaws exs tm \<Rightarrow> \<forall>ex\<in>set exs. plainExample ex | MergeSeed ts \<Rightarrow> \<forall>t\<in>set ts. wfTransition t | _ \<Rightarrow> True)"

definition calmHeap :: "daemon \<Rightarrow> bool" where
  \<comment> \<open>no counter is at the largest 64-bit integer\<close>
  "calmHeap d \<longleftrightarrow> (\<forall>a. roomy (dm_heap d a))"

definition boundLoc :: "locals \<Rightarrow> daemon \<Rightarrow> bool" where
  "boundLoc l d \<longleftrightarrow> (\<forall>g. lo_g l = Some g \<longrightarrow> g < dm_fresh d)"

lemma heap_update_ok:
  assumes "memoryOk d" "graphInv g'" "graphLe (dm_heap d a) g'"
  shows "memoryOk (d\<lparr>dm_heap := (dm_heap d)(a := g')\<rparr>) \<and> grows d (d\<lparr>dm_heap := (dm_heap d)(a := g')\<rparr>)"
  using assms by (auto simp: memoryOk_def grows_def graphOf_def)

lemma rawsLe_recordRaw: "rawsLe s (recordRaw st t r tm s)"
  using rawsLe_recordRaws [of s t r tm "[st]"] by simp

lemma exec_open:
  assumes "openAct a" "soundMicro (Act a)" "calmHeap d" "memoryOk d" "boundLoc l d" "exec w a (regsOf l, d) = (r, d')"
  shows "memoryOk d' \<and> grows d d' \<and> boundLoc (l\<lparr>lo_g := rg_g r, lo_ok := ok\<rparr>) d'"
proof (cases a)
  case LoadGraph
  then show ?thesis using assms(4,6) by (auto simp: boundLoc_def memoryOk_def grows_def)
next
  case (Observe obs)
  show ?thesis
  proof (cases "lo_g l")
    case (Some g)
    have "graphInv (RecordObs obs (dm_heap d g))"
      using assms(3,4) by (intro graphInv_RecordObs) (simp_all add: calmHeap_def memoryOk_def)
    from heap_update_ok [OF assms(4) this graphLe_RecordObs] show ?thesis
      using assms(5,6) Observe Some by (auto simp: boundLoc_def split: option.splits)
  qed (use assms(4-6) Observe in \<open>auto simp: boundLoc_def grows_def\<close>)
next
  case (FileRaw st t raw tm)
  then have "rawInv (recordRaw st t raw tm (dm_raws d))"
    using assms(2,4) by (intro rawInv_record) (simp_all add: soundMicro_def memoryOk_def)
  then show ?thesis using assms(4-6) FileRaw rawsLe_recordRaw by (auto simp: boundLoc_def memoryOk_def grows_def)
next
  case CountRecord
  then show ?thesis using assms(4-6)
    by (auto simp: boundLoc_def memoryOk_def grows_def signalFlush_def Let_def graphOf_def)
next
  case StorePredictor
  then show ?thesis using assms(4-6) by (auto simp: boundLoc_def memoryOk_def grows_def graphOf_def split: option.splits)
qed (use assms(1) in \<open>simp_all add: openAct_def\<close>)

lemma perform_open:
  assumes "stageAfter Free a = Some Free" "soundMicro a" "calmHeap d" "memoryOk d" "boundLoc l d"
    "perform w a (l, d) = (l', d')"
  shows "memoryOk d' \<and> grows d d' \<and> boundLoc l' d'"
proof (cases a)
  case (Act b)
  obtain r d1 where e: "exec w b (regsOf l, d) = (r, d1)" by fastforce
  have "openAct b" using assms(1) Act by (auto simp: stageAfter_def split: if_splits)
  then show ?thesis using exec_open [OF _ _ assms(3-5) e, of "rg_ok r"] assms(2,6) e Act by auto
next
  case (MergeSeed ts)
  show ?thesis
  proof (cases "lo_g l")
    case (Some g)
    show ?thesis
    proof (cases "Merge ts (dm_heap d g)")
      case (Inr g')
      have "graphInv g'"
        by (rule graphInv_Merge [OF _ _ Inr]) (use assms(2,4) MergeSeed in \<open>simp_all add: soundMicro_def memoryOk_def\<close>)
      from heap_update_ok [OF assms(4) this graphLe_Merge [OF Inr]] show ?thesis
        using assms(5,6) MergeSeed Some Inr by (auto simp: boundLoc_def)
    qed (use assms(4-6) MergeSeed Some in \<open>auto simp: grows_def\<close>)
  qed (use assms(4-6) MergeSeed in \<open>auto simp: grows_def\<close>)
next
  case (MergeRaws exs tm)
  then have "rawInv (mergeExamples exs tm (dm_raws d))"
    using assms(2,4) by (intro rawInv_mergeExamples) (simp_all add: soundMicro_def memoryOk_def)
  then show ?thesis using assms(4-6) MergeRaws rawsLe_mergeExamples
    by (auto simp: boundLoc_def memoryOk_def grows_def)
qed (use assms(1) in \<open>simp_all add: stageAfter_def\<close>)

subsection \<open>Every step keeps memory and tables well formed\<close>

definition carries :: "locals \<Rightarrow> bool" where
  \<comment> \<open>what a task is about to save comes from a graph and a store that were well formed\<close>
  "carries l \<longleftrightarrow> (\<forall>t\<in>set (lo_ts l). savable t) \<and> (\<exists>s. rawInv s \<and> lo_raws l = snapshot s)"

lemma carries_simps [simp]:
  "carries locals0" "carries (l\<lparr>lo_g := g\<rparr>) = carries l" "carries (l\<lparr>lo_ok := ok\<rparr>) = carries l" "carries (l\<lparr>lo_res := res\<rparr>) = carries l"
proof -
  have "snapshot (newRawStore 0) = []" by (simp add: snapshot_def newRawStore_def)
  then have "\<exists>s. rawInv s \<and> [] = snapshot s" using rawInv_new by metis
  then show "carries locals0" by (simp add: carries_def locals0_def)
qed (simp_all add: carries_def)

lemma exec_sound:
  assumes "soundMicro (Act a)" "calmHeap d" "memoryOk d" "boundLoc l d" "exec w a (regsOf l, d) = (r, d')"
  shows "memoryOk d' \<and> boundLoc (l\<lparr>lo_g := rg_g r, lo_ok := rg_ok r\<rparr>) d'"
proof (cases "openAct a")
  case False
  obtain ok1 ok2 ok3 where w: "wo_clearOk w = (ok1, ok2, ok3)" by (metis prod_cases3)
  show ?thesis using False assms(3-5) tablesOk_delete
    by (cases a) (auto simp: openAct_def w memoryOk_def boundLoc_def)
qed (use exec_open [OF _ assms] in blast)

lemma perform_sound:
  assumes "soundMicro a" "calmHeap d" "memoryOk d" "boundLoc l d" "carries l" "perform w a (l, d) = (l', d')"
  shows "memoryOk d' \<and> boundLoc l' d' \<and> carries l'"
proof (cases a)
  case (Act b)
  obtain r d1 where "exec w b (regsOf l, d) = (r, d1)" by fastforce
  then show ?thesis using exec_sound [OF _ assms(2-4)] assms(1,5,6) Act by auto
next
  case SnapGraph
  have "graphInv (dm_heap d g)" for g using assms(3) by (simp add: memoryOk_def)
  then have "\<forall>t\<in>set (All (dm_heap d g)). savable t" for g using All_savable by blast
  then show ?thesis using assms(3-6) SnapGraph
    by (auto simp: carries_def boundLoc_def split: option.splits)
next
  case SaveGraph
  then show ?thesis using assms(3-6) tablesOk_save
    by (auto simp: save_def carries_def memoryOk_def boundLoc_def split: if_splits)
next
  case SnapRaws
  then show ?thesis using assms(3-6) by (auto simp: carries_def memoryOk_def boundLoc_def split: if_splits)
next
  case SaveRaws
  then show ?thesis using assms(3-6) tablesOk_saveRaws
    by (auto simp: saveRawExamples_def carries_def memoryOk_def boundLoc_def split: if_splits)
next
  case SwapDirty
  then show ?thesis using assms(3-6) by (auto simp: memoryOk_def boundLoc_def)
next
  case (MergeSeed ts)
  then have "stageAfter Free a = Some Free" by (simp add: stageAfter_def)
  then have "memoryOk d' \<and> boundLoc l' d'" using perform_open [OF _ assms(1-4,6)] by blast
  then show ?thesis using assms(5,6) MergeSeed by simp
next
  case (MergeRaws exs tm)
  then have "stageAfter Free a = Some Free" by (simp add: stageAfter_def)
  then have "memoryOk d' \<and> boundLoc l' d'" using perform_open [OF _ assms(1-4,6)] by blast
  then show ?thesis using assms(5,6) MergeRaws by simp
next
  case Sweep
  show ?thesis
  proof (cases "lo_g l")
    case (Some g)
    obtain res g' where dec: "Decay (wo_now w) (HalfLife (dm_opts d)) (MaxIdle (dm_opts d)) (dm_heap d g) = (res, g')" by fastforce
    have "graphInv (dm_heap d g)" using assms(3) by (simp add: memoryOk_def)
    then have "graphInv g'" using graphInv_Decay dec by (metis snd_conv)
    then show ?thesis using assms(3-6) Sweep Some dec by (auto simp: memoryOk_def boundLoc_def)
  qed (use assms Sweep in simp)
next
  case DropOrphans
  then show ?thesis using assms(3-6) rawInv_dropOrphaned by (auto simp: memoryOk_def boundLoc_def)
next
  case PrunePairs
  then show ?thesis using assms(3-6) tablesOk_prune by (auto simp: prune_def memoryOk_def boundLoc_def)
qed (use assms in simp_all)

subsection \<open>Steps taken with the lock\<close>

lemma sweep_step:
  assumes "memoryOk d" "covered d" "lo_g l = Some (dm_g d)" "perform w Sweep (l, d) = (l', d')"
  shows "stageOk Swept l' d'"
proof -
  obtain res g' where dec: "Decay (wo_now w) (HalfLife (dm_opts d)) (MaxIdle (dm_opts d)) (graphOf d) = (res, g')" by fastforce
  then have d': "l' = l\<lparr>lo_res := res\<rparr>" "d' = d\<lparr>dm_heap := (dm_heap d)(dm_g d := g')\<rparr>"
    using assms(3,4) by (auto simp: graphOf_def)
  have inv: "graphInv (graphOf d)" "dbInv (dm_db d)" using assms(1) by (simp_all add: memoryOk_def tablesOk_def graphOf_def)
  have "dbWithin (pruneRows (dr_Pruned res) (dr_Orphaned res) (dm_db d)) g'"
    using dbWithin_prune [OF inv _ dec] assms(2) by (simp add: covered_def)
  then show ?thesis using assms(2) unfolding d'
    by (simp add: stageOk_def afterPrune_def covered_def graphOf_def)
qed

lemma pruned_raws:
  assumes "rawsWithin b s" "rawRowsOk b"
  shows "rawsWithin (pruneRows ts orphaned b) (dropOrphaned orphaned s)"
  unfolding rawsWithin_def
proof
  fix row assume row: "row \<in> set (db_raws (pruneRows ts orphaned b))"
  moreover obtain st t raw r where "row = (((st, t), raw), r)" by (metis surj_pair)
  ultimately have r: "row = (((st, t), raw), r)" "row \<in> set (db_raws b)" "t \<notin> set orphaned"
    by (auto simp: pruneRows_def)
  then have v: "validState st" and l: "tlLookup (rs_m s) (rawOuterKey st t) raw \<noteq> None"
    using assms by (auto simp: rawRowsOk_def rawsWithin_def)
  have "\<not> orphanKey orphaned (rawOuterKey st t)"
    using splitOuterKey_key [OF v] r(3) by (simp add: orphanKey_def)
  then show "(\<lambda>(((st, t), raw), _). tlLookup (rs_m (dropOrphaned orphaned s)) (rawOuterKey st t) raw \<noteq> None) row"
    using l by (simp add: r(1) lookup_dropOrphaned)
qed

lemma drop_step:
  assumes "memoryOk d" "stageOk Swept l d" "perform w DropOrphans (l, d) = (l', d')"
  shows "stageOk Dropped l' d'"
proof (cases "nothingSwept l")
  case True
  then show ?thesis using assms by (auto simp: stageOk_def afterPrune_def nothingSwept_def)
next
  case False
  have "rawsWithin (afterPrune l d) (dropOrphaned (dr_Orphaned (lo_res l)) (dm_raws d))"
    unfolding afterPrune_def by (rule pruned_raws) (use assms(1,2) in \<open>simp_all add: stageOk_def memoryOk_def tablesOk_def\<close>)
  then show ?thesis using assms False by (auto simp: stageOk_def afterPrune_def)
qed

lemma prune_step:
  assumes "stageOk Dropped l d" "wo_pruneOk w" "perform w PrunePairs (l, d) = (l', d')"
  shows "stageOk Held l' d'"
proof (cases "nothingSwept l")
  case True
  then show ?thesis using assms by (auto simp: stageOk_def afterPrune_def nothingSwept_def covered_def)
next
  case False
  then show ?thesis using assms attached_prune
    by (auto simp: stageOk_def afterPrune_def prune_def covered_def)
qed

lemma save_step:
  assumes "stageOk Snapped l d" "perform w SaveGraph (l, d) = (l', d')"
  shows "stageOk Held l' d'"
proof -
  obtain g where g: "graphInv g" "graphLe g (graphOf d)" "lo_ts l = All g" and c: "covered d"
    using assms(1) by (auto simp: stageOk_def)
  have "attached (saveRows (lo_ts l) (dm_db d))" "dbWithin (saveRows (lo_ts l) (dm_db d)) (graphOf d)"
    using attached_save dbWithin_saveOlder [OF _ g(1,2)] c unfolding g(3) covered_def by blast+
  moreover have "rawsWithin (saveRows (lo_ts l) (dm_db d)) s = rawsWithin (dm_db d) s" for s
    using raws_cong [of "saveRows (lo_ts l) (dm_db d)" "dm_db d"] by simp_all
  moreover have "d' = d \<or> d' = d\<lparr>dm_db := saveRows (lo_ts l) (dm_db d)\<rparr>"
    using assms(2) by (auto simp: save_def split: if_splits)
  ultimately show ?thesis using c by (auto simp: covered_def stageOk_def)
qed

lemma saveRaws_step:
  assumes "stageOk RawsSnapped l d" "perform w SaveRaws (l, d) = (l', d')"
  shows "stageOk Held l' d'"
proof -
  have c: "covered d" using assms(1) by (simp add: stageOk_def)
  consider "d' = d" | "lo_ok l" "d' = d\<lparr>dm_db := saveRawRows (lo_raws l) (dm_db d)\<rparr>"
    using assms(2) by (auto simp: saveRawExamples_def split: if_splits)
  then show ?thesis
  proof cases
    case 2
    then obtain s where s: "rawInv s" "rawsLe s (dm_raws d)" "lo_raws l = snapshot s"
      using assms(1) by (auto simp: stageOk_def)
    have "rawsWithin (saveRawRows (lo_raws l) (dm_db d)) (dm_raws d)"
      using rawsWithin_saveOlder [OF _ s(1,2)] c unfolding s(3) covered_def by blast
    then show ?thesis using c dbWithin_raws unfolding 2 by (auto simp: covered_def stageOk_def)
  qed (use c in \<open>simp add: stageOk_def\<close>)
qed

lemma delete_steps:
  assumes "wo_clearOk w = (True, True, True)" "perform w a (l, d) = (l', d')"
  shows "a = Act DeleteTransitions \<Longrightarrow> stageOk NoRows l' d'"
    and "a = Act DeleteCWDs \<Longrightarrow> stageOk NoRows l d \<Longrightarrow> stageOk NoDirs l' d'"
    and "a = Act DeleteRaws \<Longrightarrow> stageOk NoDirs l d \<Longrightarrow> stageOk Emptied l' d'"
  using assms by (auto simp: stageOk_def)

lemma free_step:
  assumes "memoryOk d" "perform w a (l, d) = (l', d')"
  shows "a = LockMu \<Longrightarrow> stageOk Free l d \<Longrightarrow> stageOk Held l' d'"
    and "a = UnlockMu \<Longrightarrow> stageOk Held l d \<Longrightarrow> stageOk Free l' d'"
    and "a = UnlockMu \<Longrightarrow> stageOk Emptied l d \<Longrightarrow> stageOk Free l' d'"
    and "a = Act LoadGraph \<Longrightarrow> stageOk Held l d \<Longrightarrow> stageOk Loaded l' d'"
    and "a = Act StoreGraph \<Longrightarrow> stageOk Held l d \<Longrightarrow> stageOk Renewed l' d'"
    and "a = Act StorePredictor \<Longrightarrow> stageOk Renewed l d \<Longrightarrow> stageOk Renewed l' d'"
    and "a = SnapGraph \<Longrightarrow> stageOk Loaded l d \<Longrightarrow> stageOk Snapped l' d'"
    and "a = SnapRaws \<Longrightarrow> stageOk Held l d \<Longrightarrow> stageOk RawsSnapped l' d'"
    and "a = SwapDirty \<Longrightarrow> stageOk Held l d \<Longrightarrow> stageOk Held l' d'"
    and "a = Act ResetRaws \<or> a = Act ZeroDirty \<Longrightarrow> stageOk Emptied l d \<Longrightarrow> stageOk Emptied l' d'"
proof -
  have g: "graphInv (graphOf d)" "rawInv (dm_raws d)" using assms(1) by (simp_all add: memoryOk_def graphOf_def)
  show "a = LockMu \<Longrightarrow> stageOk Free l d \<Longrightarrow> stageOk Held l' d'"
    "a = UnlockMu \<Longrightarrow> stageOk Held l d \<Longrightarrow> stageOk Free l' d'"
    "a = Act LoadGraph \<Longrightarrow> stageOk Held l d \<Longrightarrow> stageOk Loaded l' d'"
    using assms(2) by (auto simp: stageOk_def)
  show "a = UnlockMu \<Longrightarrow> stageOk Emptied l d \<Longrightarrow> stageOk Free l' d'"
    using assms(2) empty_tables [of "dm_db d"] by (simp add: stageOk_def covered_def)
  show "a = Act StoreGraph \<Longrightarrow> stageOk Held l d \<Longrightarrow> stageOk Renewed l' d'"
    "a = Act StorePredictor \<Longrightarrow> stageOk Renewed l d \<Longrightarrow> stageOk Renewed l' d'"
    using assms(2) by (auto simp: stageOk_def covered_def split: option.splits)
  show "a = SnapGraph \<Longrightarrow> stageOk Loaded l d \<Longrightarrow> stageOk Snapped l' d'"
    using assms g by (auto simp: stageOk_def graphOf_def intro!: exI [of _ "graphOf d"])
  show "a = SnapRaws \<Longrightarrow> stageOk Held l d \<Longrightarrow> stageOk RawsSnapped l' d'"
    using assms g by (auto simp: stageOk_def intro!: exI [of _ "dm_raws d"] split: if_splits)
  show "a = SwapDirty \<Longrightarrow> stageOk Held l d \<Longrightarrow> stageOk Held l' d'"
    using assms by (auto simp: stageOk_def covered_def)
  show "a = Act ResetRaws \<or> a = Act ZeroDirty \<Longrightarrow> stageOk Emptied l d \<Longrightarrow> stageOk Emptied l' d'"
    using assms by (auto simp: stageOk_def)
qed

lemma own_step:
  assumes "stageAfter st a = Some st'" "st \<noteq> Free \<or> a = LockMu" "stageOk st l d" "memoryOk d" "worldOk w"
    "perform w a (l, d) = (l', d')"
  shows "stageOk st' l' d'"
proof -
  note free = free_step [OF assms(4,6)]
  have w: "wo_clearOk w = (True, True, True)" "wo_pruneOk w" using assms(5) by (simp_all add: worldOk_def)
  note dels = delete_steps [OF w(1) assms(6)]
  note after = assms(1) [unfolded stageAfter_def]
  show ?thesis
  proof (cases st)
    case Free
    then show ?thesis using assms(1-3) free(1) by (auto simp: stageAfter_def)
  next
    case Held
    then consider "a = UnlockMu" "st' = Free" | "a = Act LoadGraph" "st' = Loaded" | "a = Act StoreGraph" "st' = Renewed"
      | "a = SnapRaws" "st' = RawsSnapped" | "a = SwapDirty" "st' = Held"
      using after by (auto split: micro.splits act.splits)
    then show ?thesis by cases (use Held assms(3) free in simp_all)
  next
    case Loaded
    then consider "a = SnapGraph" "st' = Snapped" | "a = Sweep" "st' = Swept"
      using after by (auto split: micro.splits)
    then show ?thesis
    proof cases
      case 2
      have "covered d" "lo_g l = Some (dm_g d)" using Loaded assms(3) by (simp_all add: stageOk_def)
      then show ?thesis using sweep_step [OF assms(4)] assms(6) 2 by blast
    qed (use Loaded assms(3) free(7) in simp)
  next
    case Snapped
    then have "a = SaveGraph" "st' = Held" using after by (auto split: micro.splits)
    then show ?thesis using save_step assms(3,6) Snapped by blast
  next
    case RawsSnapped
    then have "a = SaveRaws" "st' = Held" using after by (auto split: micro.splits)
    then show ?thesis using saveRaws_step assms(3,6) RawsSnapped by blast
  next
    case Swept
    then have "a = DropOrphans" "st' = Dropped" using after by (auto split: micro.splits)
    then show ?thesis using drop_step [OF assms(4)] assms(3,6) Swept by blast
  next
    case Dropped
    then have "a = PrunePairs" "st' = Held" using after by (auto split: micro.splits)
    then show ?thesis using prune_step [OF _ w(2)] assms(3,6) Dropped by blast
  next
    case Renewed
    then consider "a = Act StorePredictor" "st' = Renewed" | "a = Act DeleteTransitions" "st' = NoRows"
      using after by (auto split: micro.splits act.splits)
    then show ?thesis using free(6) dels(1) assms(3) Renewed by cases blast+
  next
    case NoRows
    then have "a = Act DeleteCWDs" "st' = NoDirs" using after by (auto split: micro.splits act.splits)
    then show ?thesis using dels(2) assms(3) NoRows by blast
  next
    case NoDirs
    then have "a = Act DeleteRaws" "st' = Emptied" using after by (auto split: micro.splits act.splits)
    then show ?thesis using dels(3) assms(3) NoDirs by blast
  next
    case Emptied
    then consider "a = UnlockMu" "st' = Free" | "a = Act ResetRaws \<or> a = Act ZeroDirty" "st' = Emptied"
      using after by (auto split: micro.splits act.splits)
    then show ?thesis using Emptied assms(3) free(3,10) by cases blast+
  qed
qed

lemma perform_keeps:
  assumes "perform w a (l, d) = (l', d')"
  shows "dm_fresh d \<le> dm_fresh d'" "dm_opts d' = dm_opts d" "dm_parents d' = dm_parents d" "dm_redactor d' = dm_redactor d"
proof -
  have e: "exec w b (r, d) = (r', d1) \<Longrightarrow> dm_fresh d \<le> dm_fresh d1 \<and> dm_opts d1 = dm_opts d
      \<and> dm_parents d1 = dm_parents d \<and> dm_redactor d1 = dm_redactor d" for b r r' d1
    by (cases b) (auto simp: signalFlush_def Let_def split: option.splits prod.splits)
  have "dm_fresh d \<le> dm_fresh d' \<and> dm_opts d' = dm_opts d \<and> dm_parents d' = dm_parents d \<and> dm_redactor d' = dm_redactor d"
  proof (cases a)
    case (Act b)
    then show ?thesis using assms e by (auto split: prod.splits)
  qed (use assms in \<open>auto simp: Let_def split: option.splits sum.splits if_splits prod.splits\<close>)
  then show "dm_fresh d \<le> dm_fresh d'" "dm_opts d' = dm_opts d" "dm_parents d' = dm_parents d" "dm_redactor d' = dm_redactor d"
    by simp_all
qed

subsection \<open>The invariants of the system\<close>

definition seedsAreMaps :: "world \<Rightarrow> bool" where
  \<comment> \<open>a decoded histogram is a map; every save and every delete may fail\<close>
  "seedsAreMaps w \<longleftrightarrow> (\<forall>data sd. wo_decodeSeed w data = Inr sd \<longrightarrow> (\<forall>t\<in>set (sd_Transitions sd). wfTransition t))"

lemma worldOk_seeds: "worldOk w \<Longrightarrow> seedsAreMaps w"
  by (simp add: worldOk_def seedsAreMaps_def)

lemma crun_mono:
  "crun env ok calm s0 s \<Longrightarrow> (\<And>w. env w \<Longrightarrow> env' w) \<Longrightarrow> (\<And>req. ok req \<Longrightarrow> ok' req) \<Longrightarrow> (\<And>d. calm d \<Longrightarrow> calm' d)
     \<Longrightarrow> crun env' ok' calm' s0 s"
  by (induction rule: crun.induct) (blast intro: crun.intros)+

lemma sound_programs:
  assumes "plainRequest req" "seedsAreMaps w"
  shows "list_all soundMicro (requestProgram w d req)"
proof -
  have "list_all soundMicro (map Act (recordProgram w d req))"
    using recordStates_plain [OF assms(1)]
    by (auto simp: recordProgram_def Let_def soundMicro_def list_all_iff split: sum.splits)
  moreover have "list_all soundMicro (map Act resetProgram)" "list_all soundMicro (map Act importTail)"
    "list_all soundMicro flushProgram"
    by (simp_all add: resetProgram_def importTail_def flushProgram_def soundMicro_def)
  moreover have "\<forall>t\<in>set ts. wfTransition t" if "importTransitions w req = Some ts" for ts
    using that assms(2) by (auto simp: importTransitions_def seedTransitions_def seedsAreMaps_def split: if_splits sum.splits)
  then have "importTransitions w req = Some ts \<Longrightarrow> soundMicro (MergeSeed ts)" for ts by (simp add: soundMicro_def)
  moreover have "soundMicro (MergeRaws (q_RawExamples req) tm)" for tm
    using assms(1) by (simp add: soundMicro_def plainRequest_def)
  ultimately show ?thesis
    by (auto simp: requestProgram_def importProgram_def soundMicro_def split: option.split)
qed

lemma sound_loops: "list_all soundMicro flushProgram" "list_all soundMicro decayProgram"
  by (simp_all add: flushProgram_def decayProgram_def soundMicro_def)

definition soundTask :: "daemon \<Rightarrow> task \<Rightarrow> bool" where
  "soundTask d t \<longleftrightarrow> list_all soundMicro (ta_todo t) \<and> boundLoc (ta_loc t) d \<and> carries (ta_loc t)"

definition soundSys :: "sys \<Rightarrow> bool" where
  "soundSys s \<longleftrightarrow> memoryOk (sy_daemon s) \<and> (\<forall>t\<in>set (sy_tasks s). soundTask (sy_daemon s) t)"

lemma soundSys_spawn: "soundSys s \<Longrightarrow> list_all soundMicro p \<Longrightarrow> soundSys (spawn p s)"
  by (auto simp: soundSys_def spawn_def soundTask_def boundLoc_def locals0_def intro: carries_simps(1) [unfolded locals0_def])

lemma soundSys_step:
  assumes "soundSys s" "enabled s i" "calmHeap (sy_daemon s)"
  shows "soundSys (advance w i s)"
proof -
  let ?t = "sy_tasks s ! i" and ?d = "sy_daemon s"
  have t: "?t \<in> set (sy_tasks s)" "ta_todo ?t \<noteq> []" using assms(2) by (simp_all add: enabled_def)
  then have ok: "memoryOk ?d" "soundTask ?d ?t" using assms(1) by (simp_all add: soundSys_def)
  obtain l d where p: "perform w (hd (ta_todo ?t)) (ta_loc ?t, ?d) = (l, d)" by fastforce
  have "soundMicro (hd (ta_todo ?t))" "list_all soundMicro (tl (ta_todo ?t))"
    using ok(2) t(2) by (cases "ta_todo ?t"; simp add: soundTask_def)+
  then have new: "memoryOk d" "soundTask d \<lparr>ta_loc = l, ta_todo = tl (ta_todo ?t)\<rparr>"
    using perform_sound [OF _ assms(3) ok(1) _ _ p] ok(2) by (simp_all add: soundTask_def)
  have "soundTask d u" if "u \<in> set (sy_tasks s)" for u
    using that assms(1) perform_keeps(1) [OF p] by (auto simp: soundSys_def soundTask_def boundLoc_def intro: less_le_trans)
  then show ?thesis
    using new unfolding soundSys_def advance_sel(1,2) [OF p] by (auto dest!: subsetD [OF set_update_subset_insert])
qed

lemma crun_soundSys:
  assumes "crun seedsAreMaps plainRequest calmHeap (alone d0) s" "memoryOk d0"
  shows "soundSys s"
  using assms(1)
proof (induction rule: crun.induct)
  case crun_start
  show ?case using assms(2) by (simp add: soundSys_def alone_def)
next
  case (crun_token s)
  then have "soundSys (s\<lparr>sy_daemon := (sy_daemon s)\<lparr>dm_flushCh := False\<rparr>\<rparr>)"
    by (auto simp: soundSys_def soundTask_def memoryOk_def boundLoc_def)
  then show ?case using soundSys_spawn sound_loops(1) by blast
qed (use soundSys_spawn sound_programs sound_loops soundSys_step in blast)+

definition systemOk :: "(nat \<Rightarrow> stage) \<Rightarrow> sys \<Rightarrow> bool" where
  "systemOk st s \<longleftrightarrow> locked st s \<and> soundSys s \<and> (sy_lock s = None \<longrightarrow> covered (sy_daemon s))
     \<and> (\<forall>i<length (sy_tasks s). st i \<noteq> Free \<longrightarrow> stageOk (st i) (ta_loc (sy_tasks s ! i)) (sy_daemon s))"

lemma systemOk_task:
  assumes "systemOk st s" "i < length (sy_tasks s)"
  shows "soundTask (sy_daemon s) (sy_tasks s ! i)" "st i \<noteq> Free \<Longrightarrow> stageOk (st i) (ta_loc (sy_tasks s ! i)) (sy_daemon s)"
    "st i \<noteq> Free \<longleftrightarrow> sy_lock s = Some i"
  using assms by (auto simp: systemOk_def soundSys_def locked_def)

lemma systemOk_spawn:
  assumes "systemOk st s" "follows Free p" "list_all soundMicro p"
  shows "systemOk (st(length (sy_tasks s) := Free)) (spawn p s)"
  using assms locked_spawn [OF _ assms(2), of st s] soundSys_spawn [OF _ assms(3), of s]
  by (auto simp: systemOk_def spawn_def nth_append less_Suc_eq)

lemma systemOk_move:
  assumes "systemOk st s" "enabled s i" "worldOk w" "calmHeap (sy_daemon s)"
    and a: "hd (ta_todo (sy_tasks s ! i)) = a" "stageAfter (st i) a = Some st'" and lk': "locked (st(i := st')) (advance w i s)"
    and p: "perform w a (ta_loc (sy_tasks s ! i), sy_daemon s) = (l, d)"
  shows "(st' \<noteq> Free \<longrightarrow> stageOk st' l d)
      \<and> (\<forall>j<length (sy_tasks s). j \<noteq> i \<and> st j \<noteq> Free \<longrightarrow> stageOk (st j) (ta_loc (sy_tasks s ! j)) d)
      \<and> (sy_lock (advance w i s) = None \<longrightarrow> covered d)"
proof -
  let ?t = "sy_tasks s ! i" and ?d = "sy_daemon s"
  have i: "i < length (sy_tasks s)" "ta_todo ?t \<noteq> []" using assms(2) by (simp_all add: enabled_def)
  have mem: "memoryOk ?d" using assms(1) by (simp add: systemOk_def soundSys_def)
  note task = systemOk_task [OF assms(1)]
  have sound: "soundMicro a" "boundLoc (ta_loc ?t) ?d"
    using task(1) [OF i(1)] i(2) a(1) by (cases "ta_todo ?t"; simp add: soundTask_def)+
  note sel = advance_sel [of w s i l d, unfolded a(1), OF p]
  show ?thesis
  proof (cases "st i = Free \<and> a \<noteq> LockMu")
    case True
    then have open': "stageAfter Free a = Some Free" "a \<noteq> UnlockMu"
      using a(2) stage_other [OF a(2)] stage_UnlockMu [of "st i" st'] by auto
    then have "grows ?d d" using perform_open [OF _ sound(1) assms(4) mem sound(2) p] by blast
    moreover have "st' = Free" using open' True a(2) by simp
    moreover have "sy_lock (advance w i s) = sy_lock s" using True open'(2) by (simp add: sel)
    ultimately show ?thesis using grows_stage grows_covered task(2) assms(1) by (auto simp: systemOk_def)
  next
    case False
    have ok: "stageOk (st i) (ta_loc ?t) ?d"
    proof (cases "st i = Free")
      case True
      then have "sy_lock s = None" using False assms(2) a(1) by (simp add: enabled_def)
      then show ?thesis using assms(1) True by (simp add: systemOk_def stageOk_def)
    qed (rule task(2) [OF i(1)])
    then have own: "stageOk st' l d" using own_step [OF a(2) _ ok mem assms(3) p] False by blast
    have "st j = Free" if "j < length (sy_tasks s)" "j \<noteq> i" for j
      using task(3) [OF that(1)] task(3) [OF i(1)] False assms(2) a(1) that(2) by (auto simp: enabled_def)
    moreover have "st' \<noteq> Free \<longleftrightarrow> sy_lock (advance w i s) = Some i"
      using lk' i unfolding locked_def sel(2) by (metis fun_upd_same length_list_update)
    then have "sy_lock (advance w i s) = None \<Longrightarrow> st' = Free" by simp
    ultimately show ?thesis using own by (auto simp: stageOk_def)
  qed
qed

lemma systemOk_step:
  assumes "systemOk st s" "enabled s i" "worldOk w" "calmHeap (sy_daemon s)"
  shows "\<exists>st'. systemOk st' (advance w i s)"
proof -
  let ?t = "sy_tasks s ! i" and ?d = "sy_daemon s"
  have lk: "locked st s" and i: "i < length (sy_tasks s)" and sys: "soundSys s"
    using assms(1,2) by (simp_all add: systemOk_def enabled_def)
  obtain a st' where a: "hd (ta_todo ?t) = a" "stageAfter (st i) a = Some st'" and lk': "locked (st(i := st')) (advance w i s)"
    using locked_step [OF lk assms(2)] .
  obtain l d where p: "perform w a (ta_loc ?t, ?d) = (l, d)" by fastforce
  note sel = advance_sel [of w s i l d, unfolded a(1), OF p]
  note step = systemOk_move [OF assms a lk' p]
  have "systemOk (st(i := st')) (advance w i s)"
    unfolding systemOk_def
  proof (intro conjI impI allI)
    show "soundSys (advance w i s)" by (rule soundSys_step [OF sys assms(2,4)])
    fix j assume "j < length (sy_tasks (advance w i s))" "(st(i := st')) j \<noteq> Free"
    then show "stageOk ((st(i := st')) j) (ta_loc (sy_tasks (advance w i s) ! j)) (sy_daemon (advance w i s))"
      using step i by (cases "j = i") (simp_all add: sel)
  qed (use lk' step in \<open>simp_all add: sel\<close>)
  then show ?thesis by blast
qed

lemma crun_systemOk:
  assumes "crun worldOk plainRequest calmHeap (alone d0) s" "memoryOk d0" "covered d0"
  shows "\<exists>st. systemOk st s"
  using assms(1)
proof (induction rule: crun.induct)
  case crun_start
  show ?case using assms(2,3) by (simp add: systemOk_def soundSys_def locked_def alone_def)
next
  case (crun_request s req w)
  then show ?case using systemOk_spawn follows_programs(3) sound_programs worldOk_seeds by blast
next
  case (crun_token s)
  then obtain st where st: "systemOk st s" by blast
  let ?d = "(sy_daemon s)\<lparr>dm_flushCh := False\<rparr>"
  have same: "stageOk x l ?d = stageOk x l (sy_daemon s)" for x l
    by (simp add: stageOk_def covered_def afterPrune_def split: stage.split)
  have "systemOk st (s\<lparr>sy_daemon := ?d\<rparr>)"
    using st by (simp add: systemOk_def same locked_def soundSys_def soundTask_def memoryOk_def covered_def boundLoc_def)
  from systemOk_spawn [OF this follows_programs(1) sound_loops(1)] show ?case by auto
next
  case (crun_tick s)
  then show ?case using systemOk_spawn follows_programs(1) sound_loops(1) by blast
next
  case (crun_sweep s)
  then show ?case using systemOk_spawn follows_programs(2) sound_loops(2) by blast
next
  case (crun_step s i w)
  then show ?case using systemOk_step by blast
qed

lemma systemOk_attached:
  assumes "systemOk st s"
  shows "attached (dm_db (sy_daemon s)) \<or> db_transitions (dm_db (sy_daemon s)) = []"
proof (cases "sy_lock s")
  case None
  then show ?thesis using assms by (simp add: systemOk_def covered_def)
next
  case (Some i)
  then have i: "i < length (sy_tasks s)" using assms by (simp add: systemOk_def locked_def)
  then have "st i \<noteq> Free" using systemOk_task(3) [OF assms i] Some by blast
  from systemOk_task(2) [OF assms i this] this show ?thesis
    by (cases "st i") (auto simp: stageOk_def covered_def)
qed

text \<open>C1: The invariant of the concurrent daemon. Let any number of requests, flushes and sweeps interleave in
  any way, each save failing or not (deletes succeed; \<open>clear_partial\<close> is about one that fails). Then every
  graph object and the tables are well formed at every moment, the rows of directories belong to rows
  of transitions except between the deletes of a reset, at most one goroutine is in a critical section, and
  whenever \<open>flushMu\<close> is free the database holds nothing that is not in memory.\<close>

theorem flushMu_protects:
  assumes "crun worldOk plainRequest calmHeap (alone d0) s" "memoryOk d0" "covered d0"
  shows "(\<forall>a. graphInv (dm_heap (sy_daemon s) a)) \<and> rawInv (dm_raws (sy_daemon s))
    \<and> dbInv (dm_db (sy_daemon s)) \<and> rawRowsOk (dm_db (sy_daemon s))
    \<and> (attached (dm_db (sy_daemon s)) \<or> db_transitions (dm_db (sy_daemon s)) = [] \<and> sy_lock s \<noteq> None)
    \<and> (\<exists>st. \<forall>i<length (sy_tasks s). follows (st i) (ta_todo (sy_tasks s ! i)) \<and> (st i \<noteq> Free \<longleftrightarrow> sy_lock s = Some i))
    \<and> (sy_lock s = None \<longrightarrow> dbWithin (dm_db (sy_daemon s)) (graphOf (sy_daemon s))
         \<and> rawsWithin (dm_db (sy_daemon s)) (dm_raws (sy_daemon s)))"
proof -
  obtain st where st: "systemOk st s" using crun_systemOk [OF assms] by blast
  then have "attached (dm_db (sy_daemon s)) \<or> db_transitions (dm_db (sy_daemon s)) = [] \<and> sy_lock s \<noteq> None"
    using systemOk_attached [OF st] by (cases "sy_lock s") (simp_all add: systemOk_def covered_def)
  then show ?thesis using st by (auto simp: systemOk_def soundSys_def memoryOk_def tablesOk_def covered_def locked_def)
qed

subsection \<open>A crash at any moment\<close>

lemma rawInv_loadRaws: "rawInv s \<Longrightarrow> \<forall>rec\<in>set recs. \<forall>x\<in>set (rr_State rec). NUL \<notin> set x \<Longrightarrow> rawInv (loadRaws recs s)"
proof (induction recs arbitrary: s)
  case (Cons rec recs)
  then show ?case using rawInv_modify [of s "rr_State rec"] by (simp add: loadRaws_def)
qed (simp add: loadRaws_def)

lemma key_value: "k \<in> fst ` set m \<Longrightarrow> \<exists>v. map_of m k = Some v"
  by (meson map_of_eq_None_iff not_None_eq)

lemma loaded_within:
  assumes "dbInv b" "attached b" "absGraph g = absDB b"
  shows "dbWithin b g"
proof -
  have row: "\<exists>e r. lookupEntry g (stateKey st) nxt = Some e \<and> absEntry e = dbEntry b (st, nxt) r"
    if key: "(st, nxt) \<in> fst ` set (db_transitions b)" for st nxt
  proof -
    have "plainState st" using assms(1) key by (auto simp: dbInv_def rowOk_def)
    then have split: "Split (stateKey st) NUL = st" by (simp add: plainState_def Split_stateKey)
    obtain r where "map_of (db_transitions b) (st, nxt) = Some r"
      using key_value [OF key] by blast
    then have "absGraph g (stateKey st, nxt) = Some (dbEntry b (st, nxt) r)" by (simp add: assms(3) absDB_def split)
    then show ?thesis by (auto simp: absGraph_def)
  qed
  have cwd: "\<exists>e. lookupEntry g (stateKey st) nxt = Some e \<and> cwd \<in> fst ` set (e_cwds e)"
    if row': "(((st, nxt), cwd), c) \<in> set (db_cwds b)" for st nxt cwd c
  proof -
    have "(st, nxt) \<in> fst ` set (db_transitions b)"
      using imageI [OF imageI [OF row'], of fst fst] assms(2) by (auto simp: attached_def)
    then obtain e r where e: "lookupEntry g (stateKey st) nxt = Some e" "absEntry e = dbEntry b (st, nxt) r"
      using row by blast
    have "map_of (db_cwds b) ((st, nxt), cwd) \<noteq> None" using weak_map_of_SomeI [OF row'] by simp
    then have "map_of (e_cwds e) cwd \<noteq> None"
      using arg_cong [OF e(2), of a_cwds] by (simp add: absEntry_def dbEntry_def fun_eq_iff)
    then show ?thesis using e(1) by (auto simp: map_of_eq_None_iff)
  qed
  have "lookupEntry g (stateKey st) nxt \<noteq> None" if "((st, nxt), x) \<in> set (db_transitions b)" for st nxt x
  proof -
    have "(st, nxt) \<in> fst ` set (db_transitions b)" using that by force
    from row [OF this] show ?thesis by auto
  qed
  then show ?thesis unfolding dbWithin_def using cwd by auto
qed

lemma boot_ok:
  assumes "tablesOk b"
  shows "\<exists>d2. bootState (newDaemon compile opt) b = Inr d2 \<and> dm_db d2 = b \<and> absGraph (graphOf d2) = absDB b
    \<and> dm_raws d2 = loadRaws (loadRawExamples b) (newRawStore (HalfLife opt))
    \<and> memoryOk d2 \<and> (attached b \<longrightarrow> covered d2)"
proof -
  have ok: "dbInv b" "rawRowsOk b" using assms by (simp_all add: tablesOk_def)
  obtain g where g: "Merge (load b) (New 2) = Inr g" "absGraph g = absDB b" "graphInv g"
    using load_refines [OF ok(1), of 2] by blast
  let ?raws = "loadRaws (loadRawExamples b) (newRawStore (HalfLife opt))"
  have "\<forall>rec\<in>set (loadRawExamples b). \<forall>x\<in>set (rr_State rec). NUL \<notin> set x"
    using ok(2) by (force simp: loadRawExamples_def rawRowsOk_def validState_def)
  then have raws: "rawInv ?raws" by (intro rawInv_loadRaws rawInv_new)
  have "rawsWithin b ?raws"
    unfolding rawsWithin_def
  proof
    fix row assume row: "row \<in> set (db_raws b)"
    obtain st t raw r where r: "row = (((st, t), raw), r)" by (metis surj_pair)
    have "validState st" using ok(2) row r by (force simp: rawRowsOk_def)
    moreover have "map_of (db_raws b) ((st, t), raw) \<noteq> None" using weak_map_of_SomeI [of "((st, t), raw)" r] row r by auto
    ultimately show "(\<lambda>(((st, t), raw), _). tlLookup (rs_m ?raws) (rawOuterKey st t) raw \<noteq> None) row"
      using lookup_loadRaws [OF ok(2), of st "HalfLife opt" t raw] by (simp add: r)
  qed
  then show ?thesis using g loaded_within [OF ok(1) _ g(2)] raws assms
    by (auto simp: bootState_def newDaemon_def graphOf_def setGraph_def memoryOk_def covered_def)
qed

text \<open>C10: A daemon that is killed between any two operations of any interleaving (also between the three deletes
  of a reset, and whatever saves and deletes have failed before) leaves a database that the next one
  loads: it starts with exactly the transitions and the raw commands the tables hold, well formed again.
  If no row of a directory has lost its transition (it has, where a reset was cut short after its first
  delete), the database then holds nothing that memory does not, and all that is shown here about
  running daemons holds of it.\<close>

theorem crash_safe:
  assumes "crun seedsAreMaps plainRequest calmHeap (alone d0) s" "memoryOk d0" "b = dm_db (sy_daemon s)"
  shows "\<exists>d2. bootState (newDaemon compile opt) b = Inr d2 \<and> dm_db d2 = b
    \<and> absGraph (graphOf d2) = absDB b
    \<and> (\<forall>st t raw. validState st \<longrightarrow> tlLookup (rs_m (dm_raws d2)) (rawOuterKey st t) raw
         = map_option (\<lambda>r. \<lparr>re_count = w_count r, re_lastSeen = time_Unix (w_lastSeen r)\<rparr>) (map_of (db_raws b) ((st, t), raw)))
    \<and> memoryOk d2 \<and> (attached b \<longrightarrow> covered d2)"
proof -
  have "tablesOk b" using crun_soundSys [OF assms(1,2)] by (simp add: soundSys_def memoryOk_def assms(3))
  then show ?thesis using boot_ok [of b compile opt] lookup_loadRaws [of b] by (auto simp: tablesOk_def)
qed

text \<open>What is left of a reset that is killed after its first delete: the counts of the directories. When a
  transition is recorded and saved again, the ones it had in other directories come back.\<close>

lemma killed_reset_leaves_directories:
  assumes "map_of (db_cwds b) (pairOf t, cwd) = Some c" "wfTransition t" "map_of (t_CWDs t) cwd = None" "plainState (t_State t)"
    "dbInv b"
  shows "load (snd (clear True False ok3 b)) = []"
    and "\<exists>a. absDB (saveRows [t] (snd (clear True False ok3 b))) (stateKey (t_State t), t_Next t) = Some a \<and> a_cwds a cwd = Some c"
proof -
  have b: "snd (clear True False ok3 b) = b\<lparr>db_transitions := []\<rparr>" by (simp add: clear_def Let_def)
  show "load (snd (clear True False ok3 b)) = []"
    using load_rows [of "b\<lparr>db_transitions := []\<rparr>"] assms(5) by (simp add: b dbInv_def)
  have split: "Split (stateKey (t_State t)) NUL = t_State t" using assms(4) by (simp add: plainState_def Split_stateKey)
  have "pairOf t = (t_State t, t_Next t)" by (simp add: pairOf_def)
  then show "\<exists>a. absDB (saveRows [t] (snd (clear True False ok3 b))) (stateKey (t_State t), t_Next t) = Some a \<and> a_cwds a cwd = Some c"
    using lookup_saveRows [of "[t]" "b\<lparr>db_transitions := []\<rparr>" "pairOf t" cwd] assms
    by (simp add: b absDB_def split dbEntry_def findPair_def)
qed

subsection \<open>No secret is kept, however requests interleave\<close>

definition harmless :: "matcher \<Rightarrow> micro \<Rightarrow> bool" where
  "harmless m a = (case a of Act (FileRaw st t raw tm) \<Rightarrow> \<not> IsSensitive m raw | MergeRaws exs tm \<Rightarrow> False | _ \<Rightarrow> True)"

definition harmlessLoc :: "matcher \<Rightarrow> locals \<Rightarrow> bool" where
  "harmlessLoc m l \<longleftrightarrow> (\<forall>rec\<in>set (lo_raws l). \<not> IsSensitive m (rr_Raw rec))"

definition secretFree :: "matcher \<Rightarrow> sys \<Rightarrow> bool" where
  "secretFree m s \<longleftrightarrow> dm_redactor (sy_daemon s) = m \<and> noSecrets (sy_daemon s)
     \<and> (\<forall>t\<in>set (sy_tasks s). list_all (harmless m) (ta_todo t) \<and> harmlessLoc m (ta_loc t))"

lemma harmless_programs:
  "list_all (harmless m) flushProgram" "list_all (harmless m) decayProgram"
  "q_Op req \<noteq> ''record_raws'' \<Longrightarrow> dm_redactor d = m \<Longrightarrow> list_all (harmless m) (requestProgram w d req)"
proof -
  show flush: "list_all (harmless m) flushProgram" "list_all (harmless m) decayProgram"
    by (simp_all add: flushProgram_def decayProgram_def harmless_def)
  assume req: "q_Op req \<noteq> ''record_raws''" "dm_redactor d = m"
  have "list_all (harmless m) (map Act (recordProgram w d req))"
    by (auto simp: recordProgram_def Let_def harmless_def list_all_iff req(2) split: sum.splits)
  moreover have "list_all (harmless m) (map Act resetProgram)" "list_all (harmless m) (map Act importTail)"
    by (simp_all add: resetProgram_def importTail_def harmless_def)
  ultimately show "list_all (harmless m) (requestProgram w d req)"
    using flush(1) req(1) by (auto simp: requestProgram_def importProgram_def harmless_def split: option.split)
qed

lemma noSecrets_db:
  assumes "noSecrets d" "\<And>key. key \<in> fst ` set (db_raws b) \<Longrightarrow> key \<in> fst ` set (db_raws (dm_db d)) \<or> \<not> IsSensitive (dm_redactor d) (snd key)"
  shows "noSecrets (d\<lparr>dm_db := b\<rparr>)"
proof -
  have "\<not> IsSensitive (dm_redactor d) (snd (fst row))" if "row \<in> set (db_raws b)" for row
  proof -
    have "fst row \<in> fst ` set (db_raws b)" using that by simp
    then consider "fst row \<in> fst ` set (db_raws (dm_db d))" | "\<not> IsSensitive (dm_redactor d) (snd (fst row))"
      using assms(2) by blast
    then show ?thesis using assms(1) by cases (fastforce simp: noSecrets_def)+
  qed
  then show ?thesis using assms(1) by (auto simp: noSecrets_def)
qed

lemma noSecrets_raws:
  assumes "noSecrets d" "\<And>k raw. tlLookup (rs_m s) k raw \<noteq> None \<Longrightarrow>
    tlLookup (rs_m (dm_raws d)) k raw \<noteq> None \<or> \<not> IsSensitive (dm_redactor d) raw"
  shows "noSecrets (d\<lparr>dm_raws := s\<rparr>)"
  using assms by (auto simp: noSecrets_def) metis+

lemma exec_noSecrets:
  assumes "noSecrets d" "harmless (dm_redactor d) (Act a)" "exec w a (r, d) = (r', d')"
  shows "noSecrets d'"
proof (cases a)
  case (FileRaw st t raw tm)
  have "noSecrets (d\<lparr>dm_raws := recordRaw st t raw tm (dm_raws d)\<rparr>)"
    by (rule noSecrets_raws [OF assms(1)])
      (use assms(2) FileRaw in \<open>auto simp: harmless_def lookup_recordRaw split: if_splits\<close>)
  then show ?thesis using assms(3) FileRaw by simp
next
  case DeleteTransitions
  have "noSecrets (d\<lparr>dm_db := (dm_db d)\<lparr>db_transitions := []\<rparr>\<rparr>)" by (rule noSecrets_db [OF assms(1)]) simp
  then show ?thesis using assms(1,3) DeleteTransitions by (auto split: prod.splits if_splits)
next
  case DeleteCWDs
  have "noSecrets (d\<lparr>dm_db := (dm_db d)\<lparr>db_cwds := []\<rparr>\<rparr>)" by (rule noSecrets_db [OF assms(1)]) simp
  then show ?thesis using assms(1,3) DeleteCWDs by (auto split: prod.splits if_splits)
next
  case DeleteRaws
  have "noSecrets (d\<lparr>dm_db := (dm_db d)\<lparr>db_raws := []\<rparr>\<rparr>)" by (rule noSecrets_db [OF assms(1)]) simp
  then show ?thesis using assms(1,3) DeleteRaws by (auto split: prod.splits if_splits)
next
  case ResetRaws
  have "noSecrets (d\<lparr>dm_raws := resetRaws (dm_raws d)\<rparr>)"
    by (rule noSecrets_raws [OF assms(1)]) (simp add: resetRaws_def)
  then show ?thesis using assms(3) ResetRaws by simp
qed (use assms noSecrets_cong [of d' d] in \<open>auto simp: signalFlush_def Let_def split: option.splits prod.splits if_splits\<close>)

lemma perform_noSecrets:
  assumes "noSecrets d" "harmless (dm_redactor d) a" "harmlessLoc (dm_redactor d) l" "rawInv (dm_raws d)"
    "perform w a (l, d) = (l', d')"
  shows "noSecrets d' \<and> harmlessLoc (dm_redactor d) l'"
proof (cases a)
  case (Act b)
  obtain r d1 where e: "exec w b (regsOf l, d) = (r, d1)" by fastforce
  then show ?thesis using exec_noSecrets [OF assms(1) _ e] assms(2,3,5) Act by (auto simp: harmlessLoc_def)
next
  case SnapRaws
  have "\<not> IsSensitive (dm_redactor d) (rr_Raw rec)" if "rec \<in> set (snapshot (dm_raws d))" for rec
    using that assms(1) snapshot_record [OF assms(4), of rec] unfolding noSecrets_def by fastforce
  then show ?thesis using assms(1,3,5) SnapRaws by (auto simp: harmlessLoc_def split: if_splits)
next
  case SaveGraph
  have "noSecrets (d\<lparr>dm_db := saveRows ts (dm_db d)\<rparr>)" for ts by (rule noSecrets_db [OF assms(1)]) simp
  then show ?thesis using assms(1,3,5) SaveGraph by (auto simp: harmlessLoc_def save_def split: if_splits)
next
  case SaveRaws
  have "noSecrets (d\<lparr>dm_db := saveRawRows (lo_raws l) (dm_db d)\<rparr>)"
    by (rule noSecrets_db [OF assms(1)]) (use assms(3) in \<open>auto simp: keys_saveRawRows rawPairOf_def harmlessLoc_def\<close>)
  then show ?thesis using assms(1,3,5) SaveRaws by (auto simp: saveRawExamples_def split: if_splits)
next
  case DropOrphans
  have "noSecrets (d\<lparr>dm_raws := dropOrphaned os (dm_raws d)\<rparr>)" for os
    by (rule noSecrets_raws [OF assms(1)]) (simp add: lookup_dropOrphaned split: if_splits)
  then show ?thesis using assms(1,3,5) DropOrphans by (auto split: if_splits)
next
  case PrunePairs
  have "noSecrets (d\<lparr>dm_db := snd (prune c ts os (dm_db d))\<rparr>)" for c ts os
    by (rule noSecrets_db [OF assms(1)]) (auto simp: prune_def pruneRows_def split: if_splits)
  then show ?thesis using assms(1,3,5) PrunePairs by (auto split: if_splits)
next
  case MergeRaws
  then show ?thesis using assms(2) by (simp add: harmless_def)
qed (use assms noSecrets_cong [of d' d] in \<open>auto simp: harmlessLoc_def Let_def split: option.splits sum.splits prod.splits if_splits\<close>)

lemma secretFree_spawn: "secretFree m s \<Longrightarrow> list_all (harmless m) p \<Longrightarrow> secretFree m (spawn p s)"
  by (auto simp: secretFree_def spawn_def harmlessLoc_def locals0_def)

lemma crun_secretFree:
  assumes "crun seedsAreMaps typedRequest calmHeap (alone d0) s" "memoryOk d0" "noSecrets d0"
  shows "secretFree (dm_redactor d0) s"
  using assms(1)
proof (induction rule: crun.induct)
  case crun_start
  show ?case using assms(3) by (simp add: secretFree_def alone_def)
next
  case (crun_request s req w)
  then have "q_Op req \<noteq> ''record_raws''" "dm_redactor (sy_daemon s) = dm_redactor d0"
    by (simp_all add: typedRequest_def secretFree_def)
  from secretFree_spawn [OF crun_request.IH harmless_programs(3) [OF this]] show ?case .
next
  case (crun_token s)
  have "noSecrets ((sy_daemon s)\<lparr>dm_flushCh := False\<rparr>) = noSecrets (sy_daemon s)" by (rule noSecrets_cong) simp_all
  then have "secretFree (dm_redactor d0) (s\<lparr>sy_daemon := (sy_daemon s)\<lparr>dm_flushCh := False\<rparr>\<rparr>)"
    using crun_token by (simp add: secretFree_def)
  then show ?case by (rule secretFree_spawn [OF _ harmless_programs(1)])
next
  case (crun_step s i w)
  let ?t = "sy_tasks s ! i" and ?d = "sy_daemon s"
  have i: "i < length (sy_tasks s)" "ta_todo ?t \<noteq> []" using crun_step.hyps by (simp_all add: enabled_def)
  then have t: "list_all (harmless (dm_redactor d0)) (ta_todo ?t)" "harmlessLoc (dm_redactor d0) (ta_loc ?t)"
    and d: "dm_redactor ?d = dm_redactor d0" "noSecrets ?d" using crun_step.IH by (auto simp: secretFree_def)
  have "crun seedsAreMaps plainRequest calmHeap (alone d0) s"
    by (rule crun_mono [OF crun_step.hyps(1)]) (simp_all add: typedRequest_def)
  then have "rawInv (dm_raws ?d)" using crun_soundSys assms(2) by (metis soundSys_def memoryOk_def)
  moreover obtain l d' where p: "perform w (hd (ta_todo ?t)) (ta_loc ?t, ?d) = (l, d')" by fastforce
  ultimately have "noSecrets d' \<and> harmlessLoc (dm_redactor d0) l"
    using perform_noSecrets [OF d(2) _ _ _ p] t i(2) d(1) by (cases "ta_todo ?t") simp_all
  then show ?case
    using crun_step.IH t(1) i perform_keeps(4) [OF p] unfolding secretFree_def advance_sel(1,2) [OF p]
    by (cases "ta_todo ?t") (auto dest!: subsetD [OF set_update_subset_insert])
qed (use secretFree_spawn harmless_programs(1,2) in blast)+

text \<open>C3: However requests, flushes and sweeps interleave and whatever fails, as long as no history file is uploaded no command the
  redactor calls sensitive is ever in the raw store or in the database, between any two operations; so
  neither does a crash leave one behind.\<close>

theorem no_secret_interleaved:
  assumes "crun seedsAreMaps typedRequest calmHeap (alone d0) s" "memoryOk d0" "noSecrets d0" "IsSensitive (dm_redactor d0) raw"
  shows "tlLookup (rs_m (dm_raws (sy_daemon s))) k raw = None
    \<and> map_of (db_raws (dm_db (sy_daemon s))) ((st, t), raw) = None"
  using crun_secretFree [OF assms(1-3)] assms(4)
  by (force simp: secretFree_def noSecrets_def map_of_eq_None_iff)

subsection \<open>Witnesses\<close>

lemma boot_new: "bootState (newDaemon compile opt) emptyDB = Inr ((newDaemon compile opt)\<lparr>dm_db := emptyDB\<rparr>)"
  by (simp add: bootState_def newDaemon_def load_def loadRawExamples_def emptyDB_def Merge_validates validateTransitions_def
      graphOf_def setGraph_def loadRaws_def fun_upd_idem_iff)

lemma demo_start: "memoryOk (storePredictor demoDaemon)" "covered (storePredictor demoDaemon)" "noSecrets (storePredictor demoDaemon)"
    "calmHeap (storePredictor demoDaemon)"
proof -
  have heap: "dm_heap (storePredictor demoDaemon) = (\<lambda>_. New 2)"
    by (simp add: storePredictor_def demoDaemon_def newDaemon_def)
  have tables: "tablesOk emptyDB \<and> attached emptyDB \<and> dbWithin emptyDB g \<and> rawsWithin emptyDB r" for g r
    by (rule empty_tables) (simp_all add: emptyDB_def)
  show "memoryOk (storePredictor demoDaemon)" "covered (storePredictor demoDaemon)"
    using tables by (simp_all add: memoryOk_def covered_def heap)
  show "noSecrets (storePredictor demoDaemon)" by (simp add: noSecrets_def newRawStore_def emptyDB_def)
  show "calmHeap (storePredictor demoDaemon)" by (simp add: calmHeap_def heap roomy_def New_def)
qed

lemma seeds_demo: "seedsAreMaps demoWorld"
  by (rule worldOk_seeds) simp

theorem flushMu_protects_witness: "sy_lock demoSys = Some 1 \<and> dbInv (dm_db (sy_daemon demoSys))"
  using flushMu_protects [OF crun_demo [of worldOk plainRequest calmHeap] demo_start(1,2)] demo_start(4) demoSys_lock(1) by simp

theorem crash_safe_witness:
  "\<exists>d2. bootState (newDaemon (\<lambda>_. None) defaults) (dm_db (sy_daemon demoSys)) = Inr d2 \<and> memoryOk d2"
  using crash_safe [OF crun_demo [of seedsAreMaps plainRequest calmHeap] demo_start(1) refl, of "\<lambda>_. None" defaults] demo_start(4) seeds_demo
  by auto

theorem no_secret_interleaved_witness:
  "tlLookup (rs_m (dm_raws (sy_daemon demoSys))) (rawOuterKey [] ''export'') ''export API_TOKEN=abc'' = None"
proof -
  have "\<forall>c\<in>set (''API_'' @ []). isWordByte c" "map lowerByte ''TOKEN'' \<in> set secretNames"
    "wordStart ''export ''" "\<not> isSpace CHR ''a''" by code_simp+
  then have sens: "IsSensitive (dm_redactor (storePredictor demoDaemon)) ''export API_TOKEN=abc''"
    using secret_assignment_sensitive
      [of "''export ''" "''API_''" "[]" "''TOKEN''" "[]" "[]" "CHR ''a''" "\<lambda>p. None" "[]" "''bc''"]
    by (simp add: spaces_def)
  have "typedRequest demoRequest" by (simp add: typedRequest_def)
  from no_secret_interleaved [OF crun_demo [of seedsAreMaps typedRequest calmHeap, OF seeds_demo this demo_start(4)] demo_start(1,3) sens]
  show ?thesis by blast
qed

subsection \<open>A sweep and a record that overlap\<close>

lemma recordAll_known:
  assumes "st \<in> set states" "\<And>st. o_State (obs st) = st \<and> o_Next (obs st) = nxt" "nxt \<noteq> []"
  shows "lookupEntry (recordAll states obs g) (stateKey st) nxt \<noteq> None"
  using assms(1)
proof (induction states arbitrary: g)
  case (Cons x states)
  show ?case
  proof (cases "st = x")
    case True
    then obtain e where "lookupEntry (RecordObs (obs x) g) (stateKey st) nxt = Some e"
      using assms(2,3) by (simp add: lookup_RecordObs)
    with graphLe_recordAll [of "RecordObs (obs x) g" states obs]
    have "lookupEntry (recordAll states obs (RecordObs (obs x) g)) (stateKey st) nxt \<noteq> None"
      unfolding graphLe_def by blast
    then show ?thesis by (simp add: recordAll_def)
  next
    case False
    then show ?thesis using Cons by (simp add: recordAll_def)
  qed
qed simp

text \<open>The sweep decides under the lock of the graph what is orphaned and drops the raw commands later,
  under another lock. A record of the same template in between is observed in the graph, but its raw
  command is dropped with the old ones: the template stays, with no command to show for it.\<close>

lemma sweep_drops_new_raw:
  assumes s: "crun env ok (\<lambda>_. True) s0 s" "idle s" "sy_lock s = None" "sy_daemon s = d"
    and dec: "Decay (wo_now w) (HalfLife (dm_opts d)) (MaxIdle (dm_opts d)) (graphOf d) = (res, g')"
    and req: "ok req" "q_Op req = ''record''" "requestTime w (q_At req) = Inr tm" "\<not> IsSensitive (dm_redactor d) (q_Next req)"
      "plainRequest req"
    and nxt: "nxt = Normalize (q_Next req) (dm_parents d)" "nxt \<noteq> []" "nxt \<in> set (dr_Orphaned res)"
    and st: "st \<in> set (recordStates (dm_parents d) req)" and w: "env w"
  shows "\<exists>s'. crun env ok (\<lambda>_. True) s0 s' \<and> idle s' \<and> lookupEntry (graphOf (sy_daemon s')) (stateKey st) nxt \<noteq> None
    \<and> tlLookup (rs_m (dm_raws (sy_daemon s'))) (rawOuterKey st nxt) (q_Next req) = None"
proof -
  let ?n = "length (sy_tasks s)"
  let ?l = "locals0\<lparr>lo_g := Some (dm_g d), lo_res := res\<rparr>" and ?d2 = "setGraph g' d"
  let ?rest = "[DropOrphans, PrunePairs, UnlockMu]"
  have "crun env ok (\<lambda>_. True) s0 \<lparr>sy_daemon = ?d2, sy_lock = Some ?n, sy_tasks = sy_tasks s @ [\<lparr>ta_loc = ?l, ta_todo = ?rest\<rparr>]\<rparr>"
    using crun_part [OF crun_sweep [OF s(1)], of ?n "[LockMu, Act LoadGraph, Sweep]" ?rest Free Swept w] s(3,4) w dec
    by (simp add: spawn_def decayProgram_def stage_simps locals0_def graphOf_def setGraph_def)
  from crun_request [OF this req(1) w]
  have two: "crun env ok (\<lambda>_. True) s0 \<lparr>sy_daemon = ?d2, sy_lock = Some ?n, sy_tasks = sy_tasks s @ [\<lparr>ta_loc = ?l, ta_todo = ?rest\<rparr>,
      \<lparr>ta_loc = locals0, ta_todo = map Act (recordProgram w ?d2 req)\<rparr>]\<rparr>"
    using req(2) by (simp add: spawn_def requestProgram_def)
  define l where "l = fst (fold (perform w) (map Act (recordProgram w ?d2 req)) (locals0, ?d2))"
  define d4 where "d4 = snd (handleRecord w req ?d2)"
  have "snd (fold (perform w) (map Act (recordProgram w ?d2 req)) (locals0, ?d2)) = d4"
    using record_sequential [of w ?d2 req] by (simp add: fold_Act locals0_def d4_def)
  then have "crun env ok (\<lambda>_. True) s0 \<lparr>sy_daemon = d4, sy_lock = Some ?n, sy_tasks = sy_tasks s @ [\<lparr>ta_loc = ?l, ta_todo = ?rest\<rparr>,
      \<lparr>ta_loc = l, ta_todo = []\<rparr>]\<rparr>"
    using crun_open [OF two, of "Suc ?n" "map Act (recordProgram w ?d2 req)" "[]" w] w
    by (simp add: nth_append list_update_append l_def image_iff)
  from crun_part [OF this, of ?n ?rest "[]" Swept Free w] w
  have last: "crun env ok (\<lambda>_. True) s0 \<lparr>sy_daemon = snd (fold (perform w) ?rest (?l, d4)), sy_lock = None,
      sy_tasks = sy_tasks s @ [\<lparr>ta_loc = fst (fold (perform w) ?rest (?l, d4)), ta_todo = []\<rparr>, \<lparr>ta_loc = l, ta_todo = []\<rparr>]\<rparr>"
    by (simp add: nth_append list_update_append stage_simps)
  have "dr_Orphaned res \<noteq> []" using nxt(3) by auto
  then have final: "dm_raws (snd (fold (perform w) ?rest (?l, d4))) = dropOrphaned (dr_Orphaned res) (dm_raws d4)"
    "graphOf (snd (fold (perform w) ?rest (?l, d4))) = graphOf d4" by (simp_all add: nothingSwept_def)
  have d4: "graphOf d4 = recordAll (recordStates (dm_parents d) req) (recordObsOf (dm_parents d) req tm) g'"
    using req(3,4) by (simp add: d4_def handleRecord_eq)
  have "lookupEntry (graphOf d4) (stateKey st) nxt \<noteq> None"
    unfolding d4 by (rule recordAll_known [OF st _ nxt(2)]) (simp add: recordObsOf_def nxt(1))
  moreover have "orphanKey (dr_Orphaned res) (rawOuterKey st nxt)"
  proof -
    have "validState (nonEmptyStrs st)" by (rule validState_nonEmpty) (rule recordStates_plain [OF req(5) st])
    then show ?thesis using splitOuterKey_key nxt(3) unfolding rawOuterKey_nonEmpty [of st] by (simp add: orphanKey_def)
  qed
  ultimately have known: "lookupEntry (graphOf (snd (fold (perform w) ?rest (?l, d4)))) (stateKey st) nxt \<noteq> None"
    and gone: "tlLookup (rs_m (dm_raws (snd (fold (perform w) ?rest (?l, d4))))) (rawOuterKey st nxt) (q_Next req) = None"
    unfolding final by (simp_all add: lookup_dropOrphaned)
  show ?thesis
    by (intro exI conjI, rule last) (use known gone s(2) in \<open>auto simp only: sys.select_convs idle_def set_append list.set\<close>, simp_all)
qed

end
