(* ===== verification/Durability.thy ===== *)
theory Durability
  imports Lock_Safety
begin

text \<open>
  What a flush guarantees. While one task goes through the flush of daemon/daemon.go, with its transactions
  committing, every transition the graph held when it began is in the database once it is done, with at least
  its count, whatever runs in between; so a crash after that loses none of them.
\<close>

definition countsLe :: "graph \<Rightarrow> graph \<Rightarrow> bool" where
  "countsLe g g' \<longleftrightarrow> (\<forall>sk n e. lookupEntry g sk n = Some e \<longrightarrow> (\<exists>e'. lookupEntry g' sk n = Some e' \<and> e_count e \<le> e_count e'))"

definition graphSaved :: "graph \<Rightarrow> db \<Rightarrow> bool" where
  \<comment> \<open>a row for every transition, with at least its count\<close>
  "graphSaved g b \<longleftrightarrow> (\<forall>sk n e. lookupEntry g sk n = Some e \<longrightarrow>
     (\<exists>r. map_of (db_transitions b) (Split sk NUL, n) = Some r \<and> e_count e \<le> d_count r))"

lemma countsLe_refl [simp]: "countsLe g g"
  by (auto simp: countsLe_def)

lemma countsLe_trans: "countsLe g g' \<Longrightarrow> countsLe g' g'' \<Longrightarrow> countsLe g g''"
  unfolding countsLe_def by (meson order_trans)

lemma countsLe_RecordObs: "graphInv g \<Longrightarrow> roomy g \<Longrightarrow> countsLe g (RecordObs obs g)"
  unfolding countsLe_def lookup_RecordObs
proof (intro allI impI)
  fix sk n e assume g: "graphInv g" "roomy g" and e: "lookupEntry g sk n = Some e"
  have "0 < e_count e \<and> e_count e < maxInt64"
    using g e unfolding graphInv_def entryInv_def roomy_def roomyEntry_def by blast
  then show "\<exists>e'. (if o_Next obs \<noteq> [] \<and> sk = stateKey (o_State obs) \<and> n = o_Next obs
      then Some (recordEntry obs (case lookupEntry g sk n of None \<Rightarrow> entry0 | Some e \<Rightarrow> e)) else lookupEntry g sk n) = Some e'
      \<and> e_count e \<le> e_count e'"
    using e by (auto simp: recordEntry_def bump_id)
qed

lemma countsLe_Merge:
  assumes "Merge ts g = Inr g'"
  shows "countsLe g g'"
proof -
  have one: "countsLe g (mergeOne t g)" for t g
    by (auto simp: countsLe_def lookup_mergeOne mergeEntry_def)
  have "countsLe g (fold mergeOne ts g)"
    by (induction ts arbitrary: g) (auto intro: countsLe_trans [OF one])
  then show ?thesis using assms by (simp add: Merge_Inr)
qed

lemma saved_All:
  assumes "graphInv g"
  shows "graphSaved g (saveRows (All g) b)"
  unfolding graphSaved_def
proof (intro allI impI)
  fix sk n e assume e: "lookupEntry g sk n = Some e"
  have ts: "distinct (map pairOf (All g))" "\<forall>t\<in>set (All g). wfTransition t"
    using pairs_All(1) [OF assms] valid_All [OF assms] by auto
  show "\<exists>r. map_of (db_transitions (saveRows (All g) b)) (Split sk NUL, n) = Some r \<and> e_count e \<le> d_count r"
    using lookup_saveRows [OF ts, of b "(Split sk NUL, n)", unfolded pairs_All(2) [OF assms]] e
    by (simp add: rowOf_def itemTransition_def entryToTransition_def)
qed

lemma saved_mono: "countsLe g g' \<Longrightarrow> graphSaved g' b \<Longrightarrow> graphSaved g b"
  unfolding countsLe_def graphSaved_def by (meson order_trans)

subsection \<open>What a flush has done so far\<close>

fun flushed :: "graph \<Rightarrow> micro list \<Rightarrow> locals \<Rightarrow> daemon \<Rightarrow> bool" where
  \<comment> \<open>by what the task has still to do; \<open>g0\<close> is the graph when it began\<close>
  "flushed g0 (Act a # p) l d \<longleftrightarrow> countsLe g0 (graphOf d)"
| "flushed g0 (SnapGraph # p) l d \<longleftrightarrow> countsLe g0 (graphOf d) \<and> lo_g l = Some (dm_g d)"
| "flushed g0 (SaveGraph # p) l d \<longleftrightarrow> (\<exists>g. graphInv g \<and> countsLe g0 g \<and> lo_ts l = All g)"
| "flushed g0 p l d \<longleftrightarrow> (lo_ok l \<longrightarrow> graphSaved g0 (dm_db d))"

lemma flushed_others:
  assumes "grows d d'" "countsLe (graphOf d) (graphOf d')" "flushed g0 p l d"
  shows "flushed g0 p l d'"
  using assms countsLe_trans unfolding grows_def
  by (cases "(g0, p, l, d)" rule: flushed.cases) auto

lemma open_counts:
  assumes "stageAfter Free a = Some Free" "calmHeap d" "memoryOk d" "perform w a (l, d) = (l', d')"
  shows "countsLe (graphOf d) (graphOf d')"
proof -
  have heap: "countsLe (graphOf d) (graphOf (d\<lparr>dm_heap := (dm_heap d)(a := g')\<rparr>))" if "countsLe (dm_heap d a) g'" for a g'
    using that by (simp add: graphOf_def)
  show ?thesis
  proof (cases a)
    case (Act b)
    then have "openAct b" using assms(1) by (auto simp: stageAfter_def split: if_splits)
    moreover have "countsLe (dm_heap d g) (RecordObs obs (dm_heap d g))" for g obs
      using assms(2,3) by (intro countsLe_RecordObs) (simp_all add: calmHeap_def memoryOk_def)
    ultimately show ?thesis using assms(4) Act heap
      by (cases b) (auto simp: openAct_def graphOf_def signalFlush_def Let_def split: option.splits)
  next
    case (MergeSeed ts)
    then show ?thesis using assms(4) heap countsLe_Merge by (auto split: option.splits sum.splits)
  qed (use assms(1,4) in \<open>auto simp: stageAfter_def graphOf_def\<close>)
qed

definition critical :: "micro list" where
  \<comment> \<open>the rest of a flush that has just taken the lock\<close>
  "critical = [Act LoadGraph, SnapGraph, SaveGraph, SnapRaws, SaveRaws, SwapDirty, UnlockMu]"

lemma critical_flush: "flushProgram = LockMu # critical"
  by (simp add: flushProgram_def critical_def)

lemma length_critical: "length critical = 7"
  by (simp add: critical_def)

lemma seven: "k < 7 \<Longrightarrow> k = 0 \<or> k = 1 \<or> k = 2 \<or> k = 3 \<or> k = 4 \<or> k = 5 \<or> k = (6 :: nat)"
  by linarith

lemma critical_nth: "k < 7 \<Longrightarrow> drop k (critical @ q) = critical ! k # drop (Suc k) (critical @ q)"
  using seven [of k] by (auto simp: critical_def)

lemma critical_held: "k < 7 \<Longrightarrow> \<not> follows Free (drop k (critical @ q))"
  using seven [of k] by (auto simp: critical_def stage_simps)

lemma saved_rows_only: "graphSaved g b \<Longrightarrow> graphSaved g (saveRawRows rs b)"
  by (simp add: graphSaved_def)

lemma flushed_step:
  assumes "k < 7" "flushed g0 (drop k (critical @ q)) l d" "memoryOk d" "perform w (critical ! k) (l, d) = (l', d')" "Suc k < 7"
  shows "flushed g0 (drop (Suc k) (critical @ q)) l' d'"
proof -
  have g: "graphInv (graphOf d)" using assms(3) by (simp add: memoryOk_def graphOf_def)
  consider "k = 0" | "k = 1" | "k = 2" | "k = 3" | "k = 4" | "k = 5" using assms(5) by linarith
  then show ?thesis
  proof cases
    case 3
    then obtain gs where gs: "graphInv gs" "countsLe g0 gs" "lo_ts l = All gs" using assms(2) by (auto simp: critical_def)
    have empty: "graphSaved gs (dm_db d)" if "All gs = []"
      using saved_All [OF gs(1), of "dm_db d"] that by (simp add: saveRows_def)
    show ?thesis
      using 3 assms(4) gs saved_All [OF gs(1), of "dm_db d"] saved_mono [OF gs(2)] empty
      by (auto simp: critical_def save_def split: if_splits)
  qed (use assms(2,4) g saved_rows_only in \<open>auto simp: critical_def graphOf_def saveRawExamples_def split: if_splits\<close>)
qed

subsection \<open>The flush in any interleaving\<close>

lemma crun_trans: "crun env ok calm s1 s2 \<Longrightarrow> crun env ok calm s0 s1 \<Longrightarrow> crun env ok calm s0 s2"
  by (induction rule: crun.induct) (blast intro: crun.intros)+

definition flushing :: "graph \<Rightarrow> nat \<Rightarrow> micro list \<Rightarrow> sys \<Rightarrow> bool" where
  "flushing g0 i q s \<longleftrightarrow> i < length (sy_tasks s) \<and> (\<exists>k. ta_todo (sy_tasks s ! i) = drop k (critical @ q)
     \<and> (k < 7 \<longrightarrow> flushed g0 (drop k (critical @ q)) (ta_loc (sy_tasks s ! i)) (sy_daemon s)))"

lemma flushing_spawn: "flushing g0 i q s \<Longrightarrow> flushing g0 i q (spawn p s)"
  by (auto simp: flushing_def spawn_def nth_append)

lemma flushing_step:
  assumes "flushing g0 i q s" "locked st s" "soundSys s" "enabled s j" "calmHeap (sy_daemon s)"
  shows "flushing g0 i q (advance w j s)"
proof -
  let ?d = "sy_daemon s"
  obtain k where i: "i < length (sy_tasks s)" and todo: "ta_todo (sy_tasks s ! i) = drop k (critical @ q)"
    and fl: "k < 7 \<Longrightarrow> flushed g0 (drop k (critical @ q)) (ta_loc (sy_tasks s ! i)) ?d" using assms(1) by (auto simp: flushing_def)
  have mem: "memoryOk ?d" using assms(3) by (simp add: soundSys_def)
  obtain a st' where a: "hd (ta_todo (sy_tasks s ! j)) = a" "stageAfter (st j) a = Some st'"
    using locked_step [OF assms(2,4)] by metis
  have j: "j < length (sy_tasks s)" "ta_todo (sy_tasks s ! j) \<noteq> []" using assms(4) by (simp_all add: enabled_def)
  obtain l d where p: "perform w a (ta_loc (sy_tasks s ! j), ?d) = (l, d)" by fastforce
  note sel = advance_sel [of w s j l d, unfolded a(1), OF p]
  show ?thesis
  proof (cases "j = i")
    case True
    have next_k: "ta_todo (sy_tasks (advance w j s) ! i) = drop (Suc k) (critical @ q)"
      using i True todo unfolding sel by (simp del: drop_append add: drop_Suc tl_drop)
    have "flushed g0 (drop (Suc k) (critical @ q)) l d" if "Suc k < 7"
    proof -
      have k: "k < 7" using that by simp
      have "a = critical ! k" using a(1) True todo critical_nth [OF k, of q] by simp
      then show ?thesis using flushed_step [OF k fl [OF k] mem _ that] p True by blast
    qed
    moreover have "sy_daemon (advance w j s) = d" "i < length (sy_tasks (advance w j s))" "ta_loc (sy_tasks (advance w j s) ! i) = l"
      unfolding sel using i True by simp_all
    ultimately show ?thesis using next_k unfolding flushing_def by blast
  next
    case False
    have "flushed g0 (drop k (critical @ q)) (ta_loc (sy_tasks s ! i)) d" if k: "k < 7"
    proof -
      have "follows (st i) (drop k (critical @ q))" using assms(2) i todo unfolding locked_def by metis
      then have "st i \<noteq> Free" using critical_held [OF k] by metis
      then have lock: "sy_lock s = Some i" using assms(2) i by (simp add: locked_def)
      then have "st j = Free" "a \<noteq> LockMu" using assms(2) j(1) False assms(4) a(1) by (auto simp: locked_def enabled_def)
      then have open': "stageAfter Free a = Some Free"
        using a(2) stage_other [OF a(2)] stage_UnlockMu [of "st j" st'] by (cases "a = UnlockMu") auto
      have "soundTask ?d (sy_tasks s ! j)" using assms(3) j(1) by (simp add: soundSys_def)
      then have "soundMicro a" "boundLoc (ta_loc (sy_tasks s ! j)) ?d"
        using j a(1) by (auto simp: soundTask_def list_all_iff)
      then have "grows ?d d" using perform_open [OF open' _ assms(5) mem _ p] by blast
      then show ?thesis using flushed_others open_counts [OF open' assms(5) mem p] fl [OF k] by blast
    qed
    moreover have "sy_daemon (advance w j s) = d" "i < length (sy_tasks (advance w j s))"
        "sy_tasks (advance w j s) ! i = sy_tasks s ! i" using i False by (simp_all add: sel)
    ultimately show ?thesis using todo unfolding flushing_def by metis
  qed
qed

lemma flushing_run:
  assumes "crun seedsAreMaps plainRequest calmHeap s s'" "crun seedsAreMaps plainRequest calmHeap (alone d0) s" "memoryOk d0" "flushing g0 i q s"
  shows "flushing g0 i q s'"
  using assms(1)
proof (induction rule: crun.induct)
  case (crun_token s1)
  have "flushed g0 p l (d\<lparr>dm_flushCh := False\<rparr>) = flushed g0 p l d" for p l d
    by (cases "(g0, p, l, d)" rule: flushed.cases) simp_all
  then have "flushing g0 i q (s1\<lparr>sy_daemon := (sy_daemon s1)\<lparr>dm_flushCh := False\<rparr>\<rparr>)"
    using crun_token.IH by (simp add: flushing_def)
  then show ?case by (rule flushing_spawn)
next
  case (crun_step s1 j w)
  have run: "crun seedsAreMaps plainRequest calmHeap (alone d0) s1" by (rule crun_trans [OF crun_step.hyps(1) assms(2)])
  obtain st where "locked st s1" using crun_locked [OF run] by blast
  then show ?case using flushing_step crun_soundSys [OF run assms(3)] crun_step by blast
qed (use assms(4) flushing_spawn in blast)+

text \<open>C2: A flush is durable: a task takes \<open>flushMu\<close> to flush (in the flush loop, or within an import), anything else
  runs in between, and it comes to its end with its save committed. Then every transition the graph held when it took the
  lock is in the database with at least that count; a daemon that is started on what a crash leaves at that
  moment knows every one of them.\<close>

theorem flush_durable:
  assumes run: "crun seedsAreMaps plainRequest calmHeap (alone d0) s" "memoryOk d0"
    and begun: "i < length (sy_tasks s)" "ta_todo (sy_tasks s ! i) = critical @ q" "UnlockMu \<notin> set q"
    and later: "crun seedsAreMaps plainRequest calmHeap s s'" "ta_todo (sy_tasks s' ! i) = UnlockMu # q" "lo_ok (ta_loc (sy_tasks s' ! i))"
  shows "graphSaved (graphOf (sy_daemon s)) (dm_db (sy_daemon s'))
    \<and> (\<exists>d2. bootState (newDaemon compile opt) (dm_db (sy_daemon s')) = Inr d2
         \<and> countsLe (graphOf (sy_daemon s)) (graphOf d2))"
proof -
  let ?g0 = "graphOf (sy_daemon s)"
  have "flushing ?g0 i q s"
    using begun(1,2) unfolding flushing_def by (intro conjI exI [of _ 0]) (simp_all add: critical_def)
  then obtain k where k: "UnlockMu # q = drop k (critical @ q)"
      "k < 7 \<Longrightarrow> flushed ?g0 (UnlockMu # q) (ta_loc (sy_tasks s' ! i)) (sy_daemon s')"
    using flushing_run [OF later(1) run] later(2) unfolding flushing_def by metis
  have "k < 7"
  proof (rule ccontr)
    assume "\<not> k < 7"
    then have "UnlockMu # q = drop (k - 7) q" using k(1) length_critical by simp
    then have "UnlockMu \<in> set q" by (metis in_set_dropD list.set_intros(1))
    then show False using begun(3) by blast
  qed
  then have saved: "graphSaved ?g0 (dm_db (sy_daemon s'))" using k(2) later(3) by simp
  have tables: "tablesOk (dm_db (sy_daemon s'))"
    using crun_soundSys [OF crun_trans [OF later(1) run(1)] run(2)] by (simp add: soundSys_def memoryOk_def)
  obtain d2 where d2: "bootState (newDaemon compile opt) (dm_db (sy_daemon s')) = Inr d2"
    "absGraph (graphOf d2) = absDB (dm_db (sy_daemon s'))" using boot_ok [OF tables] by blast
  have "countsLe ?g0 (graphOf d2)"
    unfolding countsLe_def
  proof (intro allI impI)
    fix sk n e assume "lookupEntry ?g0 sk n = Some e"
    then obtain r where r: "map_of (db_transitions (dm_db (sy_daemon s'))) (Split sk NUL, n) = Some r" "e_count e \<le> d_count r"
      using saved unfolding graphSaved_def by blast
    then have "absGraph (graphOf d2) (sk, n) = Some (dbEntry (dm_db (sy_daemon s')) (Split sk NUL, n) r)"
      by (simp add: d2(2) absDB_def)
    then obtain e2 where "lookupEntry (graphOf d2) sk n = Some e2" "absEntry e2 = dbEntry (dm_db (sy_daemon s')) (Split sk NUL, n) r"
      by (auto simp: absGraph_def)
    then show "\<exists>e'. lookupEntry (graphOf d2) sk n = Some e' \<and> e_count e \<le> e_count e'"
      using r(2) by (auto simp: absEntry_def dbEntry_def)
  qed
  then show ?thesis using saved d2(1) by blast
qed

subsection \<open>A flush that runs alone\<close>

definition demoSeen :: graph where
  "demoSeen = Record [''git add .''] ''git commit'' 5 (New 2)"

definition demoDirty :: daemon where
  \<comment> \<open>one transition has been recorded since the last flush\<close>
  "demoDirty = (storePredictor demoDaemon)\<lparr>dm_dirty := 1, dm_heap := (\<lambda>_. demoSeen)\<rparr>"

definition demoFlush :: "nat \<Rightarrow> sys" where
  \<comment> \<open>so many operations after the tick\<close>
  "demoFlush n = ((advance demoWorld 0) ^^ n) (spawn flushProgram (alone demoDirty))"

lemma demo_entry:
  "lookupEntry demoSeen sk n \<noteq> None \<longleftrightarrow> sk = ''git add .'' \<and> n = ''git commit''"
  "lookupEntry demoSeen sk n = Some e \<Longrightarrow> e_count e = 1 \<and> roomyEntry e"
  by (auto simp: demoSeen_def Record_def lookup_RecordObs New_def recordEntry_def entry0_def stateKey_def bump_def
      roomyEntry_def split: if_splits)

lemma demo_dirty: "memoryOk demoDirty" "calmHeap demoDirty" "graphOf demoDirty = demoSeen"
proof -
  have heap: "dm_heap demoDirty = (\<lambda>_. demoSeen)" "dm_db demoDirty = emptyDB"
    by (simp_all add: demoDirty_def)
  have inv: "graphInv demoSeen"
    unfolding demoSeen_def Record_def by (rule graphInv_RecordObs) (simp, simp add: roomy_def New_def)
  show "memoryOk demoDirty" using demo_start(1) inv by (simp add: memoryOk_def demoDirty_def)
  show "calmHeap demoDirty" using demo_entry(2) by (simp add: calmHeap_def heap roomy_def)
  show "graphOf demoDirty = demoSeen" by (simp add: graphOf_def heap)
qed

lemma demo_perform:
  assumes "a \<in> set flushProgram" "perform demoWorld a (l, d) = (l', d')"
  shows "dm_heap d' = dm_heap d \<and> (lo_ok l \<longrightarrow> lo_ok l')"
  using assms by (auto simp: flushProgram_def demoWorld_def save_def Let_def split: if_splits option.splits)

lemma demo_flush_steps:
  "n \<le> 7 \<Longrightarrow> ta_todo (sy_tasks (demoFlush n) ! 0) = drop n flushProgram \<and> length (sy_tasks (demoFlush n)) = 1
     \<and> dm_heap (sy_daemon (demoFlush n)) = dm_heap demoDirty \<and> lo_ok (ta_loc (sy_tasks (demoFlush n) ! 0))"
proof (induction n)
  case 0
  show ?case by (simp add: demoFlush_def spawn_def alone_def locals0_def)
next
  case (Suc n)
  let ?s = "demoFlush n" and ?a = "hd (drop n flushProgram)"
  have len: "n < length flushProgram" using Suc.prems by (simp add: flushProgram_def)
  have "?a \<in> set flushProgram" using len by (simp add: hd_drop_conv_nth)
  moreover obtain l d where p: "perform demoWorld ?a (ta_loc (sy_tasks ?s ! 0), sy_daemon ?s) = (l, d)" by fastforce
  ultimately have "dm_heap d = dm_heap (sy_daemon ?s) \<and> (lo_ok (ta_loc (sy_tasks ?s ! 0)) \<longrightarrow> lo_ok l)"
    using demo_perform by blast
  then show ?case using Suc p unfolding demoFlush_def funpow.simps(2) o_apply
    by (simp add: advance_def Let_def) (simp add: tl_drop drop_Suc)
qed

lemma demo_flush_ready:
  assumes "n < 7"
  shows "enabled (demoFlush n) 0" "calmHeap (sy_daemon (demoFlush n))"
proof -
  note st = demo_flush_steps [of n]
  show "calmHeap (sy_daemon (demoFlush n))" using st demo_dirty(2) assms by (simp add: calmHeap_def)
  show "enabled (demoFlush n) 0"
  proof (cases n)
    case 0
    then show ?thesis by (simp add: enabled_def demoFlush_def spawn_def alone_def flushProgram_def)
  next
    case (Suc m)
    have "hd (drop n flushProgram) \<noteq> LockMu" "drop n flushProgram \<noteq> []"
      using Suc assms seven [of m] by (auto simp: flushProgram_def)
    then show ?thesis using st assms by (simp add: enabled_def)
  qed
qed

lemma demo_flush_run:
  assumes "crun seedsAreMaps ok calmHeap s0 (demoFlush m)" "m \<le> n" "n \<le> 7"
  shows "crun seedsAreMaps ok calmHeap s0 (demoFlush n)"
  using assms(2,3)
proof (induction n rule: dec_induct)
  case base
  show ?case by (rule assms(1))
next
  case (step n)
  then have "crun seedsAreMaps ok calmHeap s0 (demoFlush n)" "n < 7" by simp_all
  from crun_step [OF this(1) demo_flush_ready(1) [OF this(2)] seeds_demo demo_flush_ready(2) [OF this(2)]]
  show ?case by (simp add: demoFlush_def)
qed

lemma demo_flush_begun: "crun seedsAreMaps ok calmHeap (alone demoDirty) (demoFlush 1)"
proof (rule demo_flush_run [of _ _ 0])
  have "0 < dm_dirty (sy_daemon (alone demoDirty))" by (simp add: demoDirty_def alone_def)
  from crun_tick [OF crun_start this] show "crun seedsAreMaps ok calmHeap (alone demoDirty) (demoFlush 0)"
    by (simp add: demoFlush_def)
qed simp_all

theorem flush_durable_witness:
  "(\<exists>r. map_of (db_transitions (dm_db (sy_daemon (demoFlush 7)))) ([''git add .''], ''git commit'') = Some r \<and> 1 \<le> d_count r)
   \<and> (\<exists>d2. bootState (newDaemon (\<lambda>_. None) defaults) (dm_db (sy_daemon (demoFlush 7))) = Inr d2
        \<and> lookupEntry (graphOf d2) ''git add .'' ''git commit'' \<noteq> None)"
proof -
  have todo: "0 < length (sy_tasks (demoFlush 1))" "ta_todo (sy_tasks (demoFlush 1) ! 0) = critical @ []"
      "ta_todo (sy_tasks (demoFlush 7) ! 0) = UnlockMu # []" "lo_ok (ta_loc (sy_tasks (demoFlush 7) ! 0))"
    using demo_flush_steps [of 1] demo_flush_steps [of 7] by (simp_all add: flushProgram_def critical_def)
  have later: "crun seedsAreMaps plainRequest calmHeap (demoFlush 1) (demoFlush 7)" by (rule demo_flush_run [OF crun_start]) simp_all
  have g: "graphOf (sy_daemon (demoFlush 1)) = demoSeen"
    by (simp add: demoFlush_def advance_def spawn_def alone_def flushProgram_def demo_dirty(3))
  have rest: "UnlockMu \<notin> set []" by simp
  from flush_durable [OF demo_flush_begun demo_dirty(1) todo(1,2) rest later todo(3,4), of "\<lambda>_. None" defaults, unfolded g]
  obtain d2 where d2: "graphSaved demoSeen (dm_db (sy_daemon (demoFlush 7)))" "countsLe demoSeen (graphOf d2)"
      "bootState (newDaemon (\<lambda>_. None) defaults) (dm_db (sy_daemon (demoFlush 7))) = Inr d2"
    by (elim conjE exE)
  obtain e where e: "lookupEntry demoSeen ''git add .'' ''git commit'' = Some e"
    using demo_entry(1) [of "''git add .''" "''git commit''"] by (metis not_None_eq)
  note one = demo_entry(2) [OF e]
  have "Split ''git add .'' NUL = [''git add .'']" by code_simp
  then have "\<exists>r. map_of (db_transitions (dm_db (sy_daemon (demoFlush 7)))) ([''git add .''], ''git commit'') = Some r \<and> 1 \<le> d_count r"
    using d2(1) [unfolded graphSaved_def, rule_format, OF e] one by simp
  moreover have "lookupEntry (graphOf d2) ''git add .'' ''git commit'' \<noteq> None"
    using d2(2) [unfolded countsLe_def, rule_format, OF e] by force
  ultimately show ?thesis using d2(3) by blast
qed

end
