(* ===== verification/Wire.thy ===== *)
theory Wire
  imports Handlers
begin

text \<open>
  The daemon's end of a connection: reading the request and writing the answer of daemon/ipc.go and the
  \<open>respond\<close> functions of daemon/handlers.go around the handlers. Encoding a value as JSON and decoding one are
  encoding/json; both are arguments, and may fail. A connection that can no longer be written to keeps
  nothing of what is written.
\<close>

record conn =
  cn_in :: string
  cn_out :: string
  cn_writeErr :: "string option"

record codec =
  co_decode :: "string \<Rightarrow> string + request"  \<comment> \<open>the first value of the input, unknown fields refused\<close>
  co_marshal :: "response \<Rightarrow> string + string"

type_synonym logged = "conn \<times> string list"  \<comment> \<open>with the lines that are logged\<close>

definition writeConn :: "string \<Rightarrow> conn \<Rightarrow> string option \<times> conn" where
  "writeConn s c = (case cn_writeErr c of Some e \<Rightarrow> (Some e, c) | None \<Rightarrow> (None, c\<lparr>cn_out := cn_out c @ s\<rparr>))"

definition encodeTo :: "codec \<Rightarrow> response \<Rightarrow> conn \<Rightarrow> string option \<times> conn" where
  \<comment> \<open>\<open>json.NewEncoder(conn).Encode\<close>\<close>
  "encodeTo k r c = (case co_marshal k r of Inl e \<Rightarrow> (Some e, c) | Inr s \<Rightarrow> writeConn (s @ [LF]) c)"

definition parseRequest :: "codec \<Rightarrow> conn \<Rightarrow> string + request" where
  "parseRequest k c = (case co_decode k (cn_in c) of Inl e \<Rightarrow> Inl (''decode request: '' @ e) | Inr req \<Rightarrow> Inr req)"

definition okText :: string where "okText = ''{'' @ [CHR 0x22] @ ''ok'' @ [CHR 0x22] @ '':true}''"

definition writeOK :: "conn \<Rightarrow> string option \<times> conn" where
  "writeOK = writeConn (okText @ [LF])"

definition writeSuggestions :: "codec \<Rightarrow> suggestion list \<Rightarrow> conn \<Rightarrow> string option \<times> conn" where
  "writeSuggestions k suggestions = encodeTo k (SuggestionsResponse suggestions)"

definition writeTransitions :: "codec \<Rightarrow> transitionJSON list \<Rightarrow> conn \<Rightarrow> string option \<times> conn" where
  \<comment> \<open>the conversion of each transition is part of \<open>handleExport\<close>\<close>
  "writeTransitions k tj = encodeTo k (TransitionsResponse tj)"

definition writeError :: "codec \<Rightarrow> string \<Rightarrow> conn \<Rightarrow> string option \<times> conn" where
  "writeError k msg = encodeTo k (ErrorResponse msg)"

definition logFailure :: "string \<Rightarrow> string option \<times> conn \<Rightarrow> logged" where
  "logFailure what = (\<lambda>(err, c). (c, case err of None \<Rightarrow> [] | Some e \<Rightarrow> [what @ '' error='' @ e]))"

definition respondOK :: "conn \<Rightarrow> logged" where
  "respondOK c = logFailure ''write ok response'' (writeOK c)"

definition respondError :: "codec \<Rightarrow> string \<Rightarrow> conn \<Rightarrow> logged" where
  "respondError k msg c = logFailure ''write error response'' (writeError k msg c)"

definition respondSuggestions :: "codec \<Rightarrow> suggestion list \<Rightarrow> conn \<Rightarrow> logged" where
  "respondSuggestions k suggestions c = logFailure ''write suggestions response'' (writeSuggestions k suggestions c)"

definition respondTransitions :: "codec \<Rightarrow> transitionJSON list \<Rightarrow> conn \<Rightarrow> logged" where
  "respondTransitions k tj c = logFailure ''write transitions response'' (writeTransitions k tj c)"

definition respondJSON :: "codec \<Rightarrow> string \<Rightarrow> response \<Rightarrow> conn \<Rightarrow> logged" where
  "respondJSON k what v c =
     (case co_marshal k v of
        Inl e \<Rightarrow>
          (case respondError k (''marshal '' @ what) c of
             (c', lines) \<Rightarrow> (c', (''marshal response what='' @ what @ '' error='' @ e) # lines))
      | Inr data \<Rightarrow> logFailure (''write json response what='' @ what) (writeConn (data @ [LF]) c))"

fun respond :: "codec \<Rightarrow> response \<Rightarrow> conn \<Rightarrow> logged" where
  \<comment> \<open>the call each handler ends with\<close>
  "respond k OKResponse c = respondOK c"
| "respond k (ErrorResponse msg) c = respondError k msg c"
| "respond k (SuggestionsResponse ss) c = respondSuggestions k ss c"
| "respond k (TransitionsResponse tj) c = respondTransitions k tj c"
| "respond k (ExplainResponse r) c = respondJSON k ''explain'' (ExplainResponse r) c"
| "respond k (StatsResponse r) c = respondJSON k ''stats'' (StatsResponse r) c"
| "respond k (ConfigResponse r) c = respondJSON k ''config'' (ConfigResponse r) c"
| "respond k (NormalizeResponse r) c = respondJSON k ''normalize'' (NormalizeResponse r) c"

definition serveConn :: "codec \<Rightarrow> world \<Rightarrow> conn \<Rightarrow> daemon \<Rightarrow> logged \<times> daemon" where
  \<comment> \<open>\<open>handleConn\<close> with the connection\<close>
  "serveConn k w c d =
     (case parseRequest k c of
        Inl _ \<Rightarrow> (respondError k ''bad request'' c, d)
      | Inr req \<Rightarrow> (case dispatch w req d of (r, d') \<Rightarrow> (respond k r c, d')))"

subsection \<open>What reaches the client\<close>

lemma serveConn_handles:
  "serveConn k w c d =
     (case handleConn w (case parseRequest k c of Inl _ \<Rightarrow> None | Inr req \<Rightarrow> Some req) d of (r, d') \<Rightarrow> (respond k r c, d'))"
  by (simp add: serveConn_def handleConn_def split: sum.split prod.split)

definition answerText :: "codec \<Rightarrow> response \<Rightarrow> string" where
  \<comment> \<open>what an answer is written as when it can be encoded\<close>
  "answerText k r = (if r = OKResponse then okText else case co_marshal k r of Inr s \<Rightarrow> s | Inl _ \<Rightarrow> [])"

lemma respond_written:
  assumes "r \<noteq> OKResponse \<Longrightarrow> co_marshal k r = Inr s" "cn_writeErr c = None"
  shows "respond k r c = (c\<lparr>cn_out := cn_out c @ answerText k r @ [LF]\<rparr>, [])"
  using assms
  by (cases r) (simp_all add: respondOK_def respondError_def respondSuggestions_def respondTransitions_def respondJSON_def
      writeOK_def writeError_def writeSuggestions_def writeTransitions_def encodeTo_def writeConn_def logFailure_def answerText_def)

lemma respond_gone:
  assumes "cn_writeErr c = Some e"
  shows "fst (respond k r c) = c \<and> snd (respond k r c) \<noteq> []"
  using assms
  by (cases r) (simp_all add: respondOK_def respondError_def respondSuggestions_def respondTransitions_def respondJSON_def
      writeOK_def writeError_def writeSuggestions_def writeTransitions_def encodeTo_def writeConn_def logFailure_def
      split: sum.split)

text \<open>Every connection is answered with one line, the answer of the handler, and a client that has hung up
  makes no difference to the daemon: the request has its effect all the same, and the lost answer is
  logged. (What can be encoded is encoded without a newline.)\<close>

theorem connection_answered:
  assumes "handleConn w (case parseRequest k c of Inl _ \<Rightarrow> None | Inr req \<Rightarrow> Some req) d = (r, d')"
    and encodes: "r \<noteq> OKResponse \<Longrightarrow> co_marshal k r = Inr s \<and> LF \<notin> set s"
  shows "snd (serveConn k w c d) = d'
    \<and> (cn_writeErr c = None \<longrightarrow> (\<exists>line. LF \<notin> set line \<and> line = answerText k r
         \<and> fst (serveConn k w c d) = (c\<lparr>cn_out := cn_out c @ line @ [LF]\<rparr>, [])))
    \<and> (cn_writeErr c \<noteq> None \<longrightarrow> fst (fst (serveConn k w c d)) = c \<and> snd (fst (serveConn k w c d)) \<noteq> [])"
proof -
  have serve: "serveConn k w c d = (respond k r c, d')" unfolding serveConn_handles assms(1) by simp
  have "LF \<notin> set okText" by code_simp
  then have "LF \<notin> set (answerText k r)" using encodes by (auto simp: answerText_def)
  then show ?thesis
    using respond_written [of r k s c] respond_gone [of c _ k r] encodes unfolding serve by auto
qed

definition demoCodec :: codec where
  "demoCodec = \<lparr>co_decode = (\<lambda>s. if s = ''record'' then Inr demoRequest else Inl ''bad json''), co_marshal = (\<lambda>_. Inr ''{}'')\<rparr>"

theorem connection_answered_witness:
  "\<exists>d'. serveConn demoCodec demoWorld \<lparr>cn_in = ''record'', cn_out = [], cn_writeErr = None\<rparr> demoDaemon
     = ((\<lparr>cn_in = ''record'', cn_out = okText @ [LF], cn_writeErr = None\<rparr>, []), d') \<and> dm_dirty d' = 1"
proof -
  let ?c = "\<lparr>cn_in = ''record'', cn_out = [], cn_writeErr = None\<rparr>"
  obtain r d' where res: "handleRecord demoWorld demoRequest demoDaemon = (r, d')" by fastforce
  have "\<not> IsSensitive (dm_redactor demoDaemon) (q_Next demoRequest)" by (simp add: ls_not_sensitive)
  from handleRecord_eq [of demoWorld demoRequest 100 demoDaemon, OF _ this] res
  have r: "r = OKResponse" "dm_dirty d' = 1" by (auto simp: signalFlush_def Let_def wrap32_def)
  have handled: "handleConn demoWorld (case parseRequest demoCodec ?c of Inl _ \<Rightarrow> None | Inr req \<Rightarrow> Some req) demoDaemon = (r, d')"
    using res by (simp add: parseRequest_def demoCodec_def handleConn_def dispatch_def)
  show ?thesis using connection_answered [OF handled, of "[]"] r
    by (intro exI [of _ d']) (simp add: answerText_def prod_eq_iff)
qed

text \<open>An answer that cannot be encoded is replaced by an error where it is marshalled first, but suggestions and
  transitions are encoded straight into the connection: then the client gets no line at all.\<close>

lemma unencodable_answers:
  assumes "co_marshal k r = Inl e" "cn_writeErr c = None" "\<And>msg. co_marshal k (ErrorResponse msg) = Inr (enc msg)"
  shows "r = StatsResponse x \<Longrightarrow> cn_out (fst (respond k r c)) = cn_out c @ enc ''marshal stats'' @ [LF]"
    and "r = SuggestionsResponse ss \<Longrightarrow> cn_out (fst (respond k r c)) = cn_out c"
  using assms
  by (simp_all add: respondJSON_def respondError_def respondSuggestions_def writeError_def writeSuggestions_def encodeTo_def
      writeConn_def logFailure_def)

end
