(* ===== verification/History.thy ===== *)
theory History
  imports Handlers Plain_Text
begin

text \<open>
  cli/import_history.go and the part of cli/why.go that reads the history: parsing the zsh history
  file, normalizing it on several threads, and building from it the transitions and the raw commands
  that are sent to the daemon. The file is the text it holds; \<open>bufio.Scanner\<close> is modelled by what it
  returns for a text. The order in which the threads finish their jobs is an
  argument; a thread count below one, for which the source starts no thread, is the empty order.
\<close>

subsection \<open>Reading the file\<close>

definition maxHistoryLine :: nat where "maxHistoryLine = 1048576"

definition dropCR :: "string \<Rightarrow> string" where
  "dropCR line = (if line \<noteq> [] \<and> last line = CR then butlast line else line)"

definition scanPieces :: "string \<Rightarrow> string list" where
  \<comment> \<open>what lies between the newlines; no line follows a final one\<close>
  "scanPieces data = (let ls = Split data LF in if last ls = [] then butlast ls else ls)"

definition scanLines :: "nat \<Rightarrow> string \<Rightarrow> string list \<times> bool" where
  \<comment> \<open>the lines up to one that does not fit the buffer, and whether there is such a line\<close>
  "scanLines limit data =
     (let ps = scanPieces data; fit = takeWhile (\<lambda>p. length p < limit) ps
      in (map dropCR fit, length fit < length ps))"

definition stripZshMeta :: "string \<Rightarrow> string" where
  "stripZshMeta line =
     (if length line < 1 \<or> hd line \<noteq> CHR '':'' then []
      else case Cut (tl line) '':'' of
             None \<Rightarrow> []
           | Some (_, rest) \<Rightarrow>
               (case Cut rest '';'' of Some (_, cmd) \<Rightarrow> cmd | None \<Rightarrow> []))"

definition parseZshHistory :: "string + string \<Rightarrow> string + string list" where
  \<comment> \<open>\<open>Inl\<close>: the error of opening the file; \<open>Inr\<close>: its text\<close>
  "parseZshHistory file =
     (case file of
        Inl e \<Rightarrow> Inl e
      | Inr data \<Rightarrow>
          (let (lines, tooLong) = scanLines maxHistoryLine data
           in if tooLong then Inl ''bufio.Scanner: token too long''
              else Inr (filter (\<lambda>cmd. cmd \<noteq> []) (map stripZshMeta lines))))"

definition countLines :: "string + string \<Rightarrow> nat" where
  "countLines file =
     (case file of Inl _ \<Rightarrow> 0 | Inr data \<Rightarrow> length (fst (scanLines maxHistoryLine data)))"

definition resolveHome :: "string option \<Rightarrow> string \<Rightarrow> string" where
  "resolveHome home path =
     (if prefix ''~/'' path then
        (case home of Some h \<Rightarrow> joinPath [h, drop 2 path] | None \<Rightarrow> path)
      else path)"

definition resolveHistoryPath :: "(string \<Rightarrow> string + string) \<Rightarrow> string option \<Rightarrow> string \<Rightarrow> string + string \<times> nat" where
  \<comment> \<open>\<open>files\<close>: what opening and reading a path gives; a file that is there can be opened\<close>
  "resolveHistoryPath files home override =
     (if override \<noteq> [] then
        (case files override of
           Inl _ \<Rightarrow> Inl (''history file not found: '' @ override)
         | Inr _ \<Rightarrow> Inr (override, countLines (files override)))
      else let path = resolveHome home ''~/.zsh_history'' in Inr (path, countLines (files path)))"

definition recentZshCommands :: "(string \<Rightarrow> string + string) \<Rightarrow> string option \<Rightarrow> nat \<Rightarrow> string list" where
  \<comment> \<open>of cli/why.go\<close>
  "recentZshCommands files home n =
     (case resolveHistoryPath files home [] of
        Inl _ \<Rightarrow> []
      | Inr (path, _) \<Rightarrow>
          (case parseZshHistory (files path) of
             Inl _ \<Rightarrow> []
           | Inr cmds \<Rightarrow> if n < length cmds then drop (length cmds - n) cmds else cmds))"

subsection \<open>Normalizing\<close>

definition normalizeConcurrent :: "nat list \<Rightarrow> string list \<Rightarrow> string list" where
  \<comment> \<open>\<open>schedule\<close>: the jobs in the order the threads finish them; every job writes its own slot\<close>
  "normalizeConcurrent schedule rawCmds =
     fold (\<lambda>i normalized. normalized[i := Normalize (rawCmds ! i) (Some DefaultParents)])
       schedule (replicate (length rawCmds) [])"

subsection \<open>Transitions\<close>

fun buildFrom :: "gotime \<Rightarrow> string \<Rightarrow> string \<Rightarrow> string list \<Rightarrow> graph \<Rightarrow> graph" where
  "buildFrom now prev1 prev2 [] g = g"
| "buildFrom now prev1 prev2 (cmd # cmds) g =
     buildFrom now prev2 cmd cmds
       (if cmd \<noteq> [] then fold (\<lambda>st. Record st cmd now) (BackoffStates [prev1, prev2] False) g else g)"

definition buildTransitions :: "gotime \<Rightarrow> string list \<Rightarrow> transition list" where
  "buildTransitions now normalized = All (buildFrom now [] [] normalized (New 2))"

subsection \<open>Raw commands\<close>

type_synonym rawCounts = "((string \<times> string \<times> string) \<times> int) list \<times> (string \<times> string list) list"

definition countRaw :: "string \<Rightarrow> string \<Rightarrow> string list \<Rightarrow> rawCounts \<Rightarrow> rawCounts" where
  \<comment> \<open>the body of the inner loop; \<open>stateCounts\<close> and \<open>states\<close>\<close>
  "countRaw tmpl raw st = (\<lambda>(stateCounts, states).
     let trimmed = nonEmptyStrs st; joined = Join trimmed [NUL]
     in (mapPut (joined, tmpl, raw) (bump (mapGet 0 stateCounts (joined, tmpl, raw))) stateCounts,
         mapPut joined trimmed states))"

fun rawsFrom :: "string \<Rightarrow> string \<Rightarrow> (string \<times> string) list \<Rightarrow> rawCounts \<Rightarrow> rawCounts" where
  \<comment> \<open>over the pairs \<open>(normalized[i], rawCmds[i])\<close>\<close>
  "rawsFrom prev1 prev2 [] acc = acc"
| "rawsFrom prev1 prev2 ((tmpl, raw) # ps) acc =
     rawsFrom prev2 tmpl ps
       (if tmpl \<noteq> [] \<and> raw \<noteq> [] then fold (countRaw tmpl raw) (BackoffStates [prev1, prev2] False) acc else acc)"

definition buildRawMappings :: "string list \<Rightarrow> string list \<Rightarrow> rawExample list" where
  "buildRawMappings rawCmds normalized =
     (let (stateCounts, states) = rawsFrom [] [] (zip normalized rawCmds) ([], [])
      in map (\<lambda>((joined, tmpl, raw), c).
           \<lparr>x_State = mapGet [] states joined, x_Template = tmpl, x_Raw = raw, x_Count = c, x_LastSeen = 0\<rparr>) stateCounts)"

subsection \<open>Sending\<close>

definition sendSeed :: "(seed \<Rightarrow> string) \<Rightarrow> gotime \<Rightarrow> transition list \<Rightarrow> request" where
  "sendSeed encode now transitions =
     request0\<lparr>q_Op := ''import'',
       q_SeedData := encode \<lparr>sd_Version = 1, sd_Source = ''hunch import-history'', sd_GeneratedAt = now,
         sd_Transitions = transitions\<rparr>\<rparr>"

definition sendRawExamples :: "rawExample list \<Rightarrow> request" where
  "sendRawExamples examples = request0\<lparr>q_Op := ''record_raws'', q_RawExamples := examples\<rparr>"

definition runImport ::
  "(seed \<Rightarrow> string) \<Rightarrow> (request \<Rightarrow> 'd \<Rightarrow> string option \<times> 'd) \<Rightarrow> gotime \<Rightarrow> nat list \<Rightarrow> string + string \<Rightarrow> 'd \<Rightarrow>
   string option \<times> 'd" where
  \<comment> \<open>\<open>send\<close> passes a request to the daemon and gives the error, if any\<close>
  "runImport encode send now schedule file d =
     (case parseZshHistory file of
        Inl e \<Rightarrow> (Some (''parse history: '' @ e), d)
      | Inr rawCmds \<Rightarrow>
          if length rawCmds = 0 then (None, d)
          else let normalized = normalizeConcurrent schedule rawCmds in
            (case send (sendSeed encode now (buildTransitions now normalized)) d of
               (Some e, d1) \<Rightarrow> (Some (''import to daemon: '' @ e), d1)
             | (None, d1) \<Rightarrow>
                 (case send (sendRawExamples (buildRawMappings rawCmds normalized)) d1 of
                    (Some e, d2) \<Rightarrow> (Some (''send raw examples to daemon: '' @ e), d2)
                  | (None, d2) \<Rightarrow> (None, d2))))"

subsection \<open>What is parsed\<close>

text \<open>A line as zsh writes it with \<open>EXTENDED_HISTORY\<close>: start time, duration, command.\<close>

definition historyLine :: "string \<times> string \<times> string \<Rightarrow> string" where
  "historyLine = (\<lambda>(started, duration, cmd). '':'' @ started @ '':'' @ duration @ '';'' @ cmd @ [LF])"

definition lineOk :: "string \<times> string \<times> string \<Rightarrow> bool" where
  "lineOk = (\<lambda>(started, duration, cmd).
     CHR '':'' \<notin> set started \<and> CHR '';'' \<notin> set duration \<and> LF \<notin> set started \<union> set duration \<union> set cmd
     \<and> cmd \<noteq> [] \<and> last cmd \<noteq> CR \<and> length started + length duration + length cmd + 3 < maxHistoryLine)"

lemma Cut_at: "c \<notin> set a \<Longrightarrow> Cut (a @ c # b) [c] = Some (a, b)"
  by (induction a) (auto simp: prefix_def)

lemma strip_line: "lineOk l \<Longrightarrow> stripZshMeta (butlast (historyLine l)) = snd (snd l)"
  by (auto simp: lineOk_def historyLine_def stripZshMeta_def Cut_at butlast_append)

lemma Split_lines:
  "\<forall>l\<in>set ls. LF \<notin> set l \<Longrightarrow> Split (concat (map (\<lambda>l. l @ [LF]) ls)) LF = ls @ [[]]"
  using Split_lines_append [of ls "[]"] by simp

lemma parse_history_lines:
  assumes "\<forall>l\<in>set ls. lineOk l"
  shows "parseZshHistory (Inr (concat (map historyLine ls))) = Inr (map (snd \<circ> snd) ls)"
proof -
  define ps where "ps = map (\<lambda>l. butlast (historyLine l)) ls"
  have line: "historyLine l = butlast (historyLine l) @ [LF]" for l
    by (auto simp: historyLine_def butlast_append split: prod.splits)
  have p: "LF \<notin> set p \<and> length p < maxHistoryLine \<and> last p \<noteq> CR" if mem: "p \<in> set ps" for p
  proof -
    obtain l where l: "l \<in> set ls" "p = butlast (historyLine l)" using mem by (auto simp: ps_def)
    with assms have "lineOk l" by blast
    then show ?thesis
      using l(2) by (auto simp: lineOk_def historyLine_def butlast_append split: prod.splits)
  qed
  have "concat (map historyLine ls) = concat (map (\<lambda>p. p @ [LF]) ps)"
    unfolding ps_def by (simp add: comp_def line [symmetric])
  moreover have "\<forall>p\<in>set ps. LF \<notin> set p" using p by blast
  ultimately have pieces: "scanPieces (concat (map historyLine ls)) = ps"
    by (simp add: scanPieces_def Split_lines)
  have fit: "takeWhile (\<lambda>p. length p < maxHistoryLine) ps = ps" using p by (simp add: takeWhile_eq_all_conv)
  have "map dropCR ps = ps" using p by (simp add: map_idI dropCR_def)
  then have "scanLines maxHistoryLine (concat (map historyLine ls)) = (ps, False)"
    unfolding scanLines_def Let_def pieces fit by simp
  moreover have "map stripZshMeta ps = map (snd \<circ> snd) ls"
    using assms strip_line by (simp add: ps_def)
  moreover have "filter (\<lambda>cmd. cmd \<noteq> []) (map (snd \<circ> snd) ls) = map (snd \<circ> snd) ls"
    using assms by (auto simp: lineOk_def filter_id_conv)
  ultimately show ?thesis by (simp add: parseZshHistory_def)
qed

text \<open>Parsing gives back the commands of a history, in order, whatever their times: the metadata never
  leaks into a command, and characters such as \<open>:\<close> and \<open>;\<close> in a command are kept.\<close>

theorem parse_history:
  assumes "\<forall>l\<in>set ls. lineOk l"
  shows "parseZshHistory (Inr (concat (map historyLine ls))) = Inr (map (snd \<circ> snd) ls)"
  by (rule parse_history_lines [OF assms])

theorem parse_history_witness:
  "parseZshHistory (Inr (concat (map historyLine [('' 17'', ''0'', ''git log; ls''), ('' 18'', ''2'', ''a:b'')])))
   = Inr [''git log; ls'', ''a:b'']"
  using parse_history [of "[('' 17'', ''0'', ''git log; ls''), ('' 18'', ''2'', ''a:b'')]"]
  by (simp add: lineOk_def maxHistoryLine_def)

text \<open>The threads cannot disturb each other: whatever order the jobs finish in, every slot ends up with
  the template of its own command, as if they had been normalized one after the other.\<close>

lemma normalizeConcurrent_slots:
  "set schedule \<subseteq> {..<length rawCmds} \<Longrightarrow>
     length (normalizeConcurrent schedule rawCmds) = length rawCmds
     \<and> (\<forall>i<length rawCmds. normalizeConcurrent schedule rawCmds ! i =
          (if i \<in> set schedule then Normalize (rawCmds ! i) (Some DefaultParents) else []))"
proof (induction schedule rule: rev_induct)
  case (snoc j js)
  then show ?case by (auto simp: normalizeConcurrent_def nth_list_update)
qed (simp add: normalizeConcurrent_def)

lemma normalizeConcurrent_map:
  assumes "set schedule = {..<length rawCmds}"
  shows "normalizeConcurrent schedule rawCmds = map (\<lambda>raw. Normalize raw (Some DefaultParents)) rawCmds"
  using normalizeConcurrent_slots [of schedule rawCmds] assms by (intro nth_equalityI) simp_all

theorem normalize_any_schedule:
  assumes "set schedule = {..<length rawCmds}"
  shows "normalizeConcurrent schedule rawCmds = map (\<lambda>raw. Normalize raw (Some DefaultParents)) rawCmds"
  by (rule normalizeConcurrent_map [OF assms])

theorem normalize_any_schedule_witness:
  "normalizeConcurrent [1, 0] [''ls -l'', ''make'']
   = [Normalize ''ls -l'' (Some DefaultParents), Normalize ''make'' (Some DefaultParents)]"
  by (subst normalize_any_schedule) auto

text \<open>With no thread at all, which \<open>--threads 0\<close> asks for, nothing is normalized and the import ends
  in an error of the daemon, an empty seed.\<close>

lemma no_threads: "normalizeConcurrent [] rawCmds = replicate (length rawCmds) []"
  by (simp add: normalizeConcurrent_def)

end
