(* ===== verification/Client.thy ===== *)
theory Client
  imports History Runnable
begin

text \<open>
  cli/client.go: the commands that talk to the daemon. Flags are parsed by package flag and are the
  arguments of the definitions. A request reaches \<open>handleConn\<close> of theory Handlers as the record it
  is: encoding and decoding JSON gives back requests and responses (of UTF-8 strings). \<open>dialErr\<close> is
  the error of connecting to the daemon, if any; connections do not break later.
\<close>

subsection \<open>Requests\<close>

definition splitState :: "string \<Rightarrow> string list" where
  "splitState s = (if s = [] then [] else Split s CHR '','')"

definition sendRequest :: "world \<Rightarrow> string \<Rightarrow> string option \<Rightarrow> request \<Rightarrow> daemon \<Rightarrow> (string + response) \<times> daemon" where
  "sendRequest w socket dialErr req d =
     (if socket = [] then (Inl ''could not determine socket path; set HUNCH_SOCKET'', d)
      else case dialErr of
             Some e \<Rightarrow> (Inl (''connect to daemon at '' @ socket @ '': '' @ e @ '' (is the daemon running?)''), d)
           | None \<Rightarrow>
               (let (r, d') = handleConn w (Some req) d
                in case r of
                     ErrorResponse e \<Rightarrow> (if e \<noteq> [] then Inl (''daemon error: '' @ e) else Inr r, d')
                   | _ \<Rightarrow> (Inr r, d')))"

definition recordRequest ::
  "string \<Rightarrow> string \<Rightarrow> string \<Rightarrow> string \<Rightarrow> string \<Rightarrow> string \<Rightarrow> string \<Rightarrow> string + request" where
  "recordRequest stateStr nxt tm cwd outcome priorOutcome suggested =
     (if nxt = [] then Inl ''--next is required''
      else Inr (request0\<lparr>q_Op := ''record'', q_State := splitState stateStr, q_Next := nxt, q_CWD := cwd,
             q_Outcome := outcome, q_PriorOutcome := priorOutcome, q_Suggested := suggested,
             q_At := (if tm \<noteq> [] then tm else [])\<rparr>))"

definition expectOK :: "string + response \<Rightarrow> string option" where
  \<comment> \<open>what \<open>record\<close> and \<open>reset\<close> make of the response: the error, if any\<close>
  "expectOK r =
     (case r of
        Inl e \<Rightarrow> Some e
      | Inr resp \<Rightarrow> if resp = OKResponse then None else Some ''daemon returned unexpected response'')"

definition predictRequest :: "string \<Rightarrow> string \<Rightarrow> int \<Rightarrow> string \<Rightarrow> string \<Rightarrow> string \<Rightarrow> request" where
  "predictRequest stateStr prefx limit tm cwd priorOutcome =
     request0\<lparr>q_Op := ''predict'', q_State := splitState stateStr, q_Limit := limit, q_CWD := cwd,
       q_PriorOutcome := priorOutcome, q_Prefix := prefx, q_At := tm\<rparr>"

datatype printed = Silent | Line string | SuggestionsJSON "suggestion list"

definition printPredict :: "bool \<Rightarrow> bool \<Rightarrow> suggestion list \<Rightarrow> printed" where
  \<comment> \<open>what \<open>cmdClientPredict\<close> prints for the suggestions it received\<close>
  "printPredict templateOnly rawOnly suggestions =
     (if length suggestions = 0 then (if templateOnly \<or> rawOnly then Silent else Line ''[]'')
      else if templateOnly then Line (g_Template (hd suggestions))
      else if rawOnly then
        (let cmd = DisplayCommand (g_Raw (hd suggestions)) (g_Template (hd suggestions))
         in if cmd \<noteq> [] then Line cmd else Silent)
      else SuggestionsJSON suggestions)"

definition explainRequest :: "string \<Rightarrow> string \<Rightarrow> string \<Rightarrow> string \<Rightarrow> int \<Rightarrow> request" where
  "explainRequest stateStr cwd priorOutcome tm limit =
     request0\<lparr>q_Op := ''explain'', q_State := splitState stateStr, q_Limit := limit, q_CWD := cwd,
       q_PriorOutcome := priorOutcome, q_At := tm\<rparr>"

definition normalizeRequest :: "string \<Rightarrow> string + request" where
  "normalizeRequest cmd =
     (if cmd = [] then Inl ''--cmd is required'' else Inr (request0\<lparr>q_Op := ''normalize'', q_Next := cmd\<rparr>))"

definition importRequest :: "string \<Rightarrow> string + request" where
  "importRequest path =
     (if path = [] then Inl ''--path is required'' else Inr (request0\<lparr>q_Op := ''import'', q_Next := path\<rparr>))"

subsection \<open>Resetting\<close>

fun removeFiles :: "(string \<Rightarrow> string option) \<Rightarrow> string list \<Rightarrow> string list \<Rightarrow> string option \<times> string list" where
  \<comment> \<open>the error, if any, and the files left; \<open>removeErr\<close> says what hinders removing a file that exists\<close>
  "removeFiles removeErr [] files = (None, files)"
| "removeFiles removeErr (p # ps) files =
     (if p \<notin> set files then removeFiles removeErr ps files
      else case removeErr p of
             Some e \<Rightarrow> (Some (''remove '' @ p @ '': '' @ e), files)
           | None \<Rightarrow> removeFiles removeErr ps (filter (\<lambda>f. f \<noteq> p) files))"

definition resetDatabaseFiles :: "(string \<Rightarrow> string option) \<Rightarrow> string \<Rightarrow> string list \<Rightarrow> string option \<times> string list" where
  "resetDatabaseFiles removeErr dbPath files =
     (if dbPath = [] then (Some ''could not determine database path; set HUNCH_DB_PATH'', files)
      else removeFiles removeErr [dbPath, dbPath @ ''-wal'', dbPath @ ''-shm''] files)"

definition cmdClientReset ::
  "world \<Rightarrow> string \<Rightarrow> string option \<Rightarrow> (string \<Rightarrow> string option) \<Rightarrow> string \<Rightarrow> daemon \<Rightarrow> string list \<Rightarrow>
   string option \<times> daemon \<times> string list" where
  \<comment> \<open>a daemon that runs resets itself; where none does, its database files go\<close>
  "cmdClientReset w socket dialErr removeErr dbPath d files =
     (if socket \<noteq> [] \<and> dialErr = None
      then (let (r, d') = sendRequest w socket dialErr (request0\<lparr>q_Op := ''reset''\<rparr>) d in (expectOK r, d', files))
      else (let (e, files') = resetDatabaseFiles removeErr dbPath files in (e, d, files')))"

subsection \<open>Exporting\<close>

fun exportTransitions ::
  "(string \<Rightarrow> string + gotime) \<Rightarrow> (string \<Rightarrow> string) \<Rightarrow> transitionJSON list \<Rightarrow> string + transition list" where
  \<comment> \<open>the loop of \<open>cmdClientExport\<close>; \<open>parseTime\<close> is \<open>time.Parse\<close> and \<open>quote\<close> the verb \<open>%q\<close>\<close>
  "exportTransitions parseTime quote [] = Inr []"
| "exportTransitions parseTime quote (t # ts) =
     (case parseTime (tj_LastSeen t) of
        Inl e \<Rightarrow> Inl (''parse last_seen for '' @ quote (tj_Next t) @ '': '' @ e)
      | Inr lastSeen \<Rightarrow>
          (case exportTransitions parseTime quote ts of
             Inl e \<Rightarrow> Inl e
           | Inr rest \<Rightarrow> Inr (\<lparr>t_State = tj_State t, t_Next = tj_Next t, t_Count = tj_Count t, t_LastSeen = lastSeen,
               t_CWDs = tj_CWDs t, t_NextSuccess = tj_NextSuccess t, t_NextFailure = tj_NextFailure t,
               t_PriorSuccess = tj_PriorSuccess t, t_PriorFailure = tj_PriorFailure t,
               t_Accepted = tj_Accepted t\<rparr> # rest)))"

definition exportSeed ::
  "(string \<Rightarrow> string + gotime) \<Rightarrow> (string \<Rightarrow> string) \<Rightarrow> gotime \<Rightarrow> transitionJSON list \<Rightarrow> string + seed" where
  "exportSeed parseTime quote now ts =
     (case exportTransitions parseTime quote ts of
        Inl e \<Rightarrow> Inl e
      | Inr transitions \<Rightarrow> Inr \<lparr>sd_Version = 1, sd_Source = ''hunch export'', sd_GeneratedAt = now,
          sd_Transitions = transitions\<rparr>)"

definition cmdClientExport :: "world \<Rightarrow> string \<Rightarrow> string option \<Rightarrow> daemon \<Rightarrow> string + seed" where
  \<comment> \<open>the seed that is printed\<close>
  "cmdClientExport w socket dialErr d =
     (case fst (sendRequest w socket dialErr (request0\<lparr>q_Op := ''export''\<rparr>) d) of
        Inl e \<Rightarrow> Inl e
      | Inr r \<Rightarrow> exportSeed (wo_parseTime w) (wo_quote w) (wo_now w)
          (case r of TransitionsResponse ts \<Rightarrow> ts | _ \<Rightarrow> []))"

subsection \<open>Serving the shell\<close>

record serveRequest =
  sq_Prefix :: string
  sq_State :: "string list"
  sq_CWD :: string
  sq_PriorOutcome :: string

record serveResponse =
  sv_Prefix :: string
  sv_Raws :: "string list"

definition serveSuggestions :: int where "serveSuggestions = 5"

definition serveQuery :: "world \<Rightarrow> daemon option \<Rightarrow> serveRequest \<Rightarrow> string list" where
  \<comment> \<open>\<open>None\<close>: no daemon answers\<close>
  "serveQuery w dm req =
     (case dm of
        None \<Rightarrow> []
      | Some d \<Rightarrow>
          (let pr = request0\<lparr>q_Op := ''predict'', q_State := sq_State req, q_Prefix := sq_Prefix req,
                 q_CWD := sq_CWD req, q_PriorOutcome := sq_PriorOutcome req, q_Limit := serveSuggestions\<rparr>
           in case fst (handleConn w (Some pr) d) of
                SuggestionsResponse ss \<Rightarrow>
                  filter (\<lambda>cmd. cmd \<noteq> []) (map (\<lambda>s. DisplayCommand (g_Raw s) (g_Template s)) ss)
              | _ \<Rightarrow> []))"

fun serveLines :: "(string \<Rightarrow> serveRequest option) \<Rightarrow> (world \<times> daemon option \<times> string) list \<Rightarrow> serveResponse list" where
  \<comment> \<open>each line with the world and the daemon as they are when it is served; \<open>decode\<close> parses the JSON\<close>
  "serveLines decode [] = []"
| "serveLines decode ((w, dm, line) # rest) =
     (case decode line of
        None \<Rightarrow> serveLines decode rest
      | Some req \<Rightarrow> \<lparr>sv_Prefix = sq_Prefix req, sv_Raws = serveQuery w dm req\<rparr> # serveLines decode rest)"

definition runServe ::
  "(string \<Rightarrow> serveRequest option) \<Rightarrow> (nat \<Rightarrow> world \<times> daemon option) \<Rightarrow> string \<Rightarrow> serveResponse list \<times> bool" where
  \<comment> \<open>the answers to what is read, and whether reading ended in an error\<close>
  "runServe decode env input =
     (let (lines, tooLong) = scanLines 1048576 input
      in (serveLines decode (map (\<lambda>i. (fst (env i), snd (env i), lines ! i)) [0..<length lines]), tooLong))"

subsection \<open>What the shell is offered\<close>

lemma requestTime_empty: "requestTime w [] = Inr (wo_now w)"
proof -
  have "TrimSpace [] = []" by code_simp
  then show ?thesis by (simp add: requestTime_def parseAt_def IsZero_def zeroTime_def)
qed

definition knownRaw :: "daemon \<Rightarrow> string \<Rightarrow> bool" where
  "knownRaw d raw \<longleftrightarrow> (\<exists>k. tlLookup (rs_m (dm_raws d)) k raw \<noteq> None)"

lemma serveQuery_offers:
  assumes "raw \<in> set (serveQuery w dm req)"
  shows "raw \<noteq> [] \<and> (\<exists>d. dm = Some d \<and> (knownRaw d raw \<or> \<not> anyPlaceholder (Fields raw)))"
proof -
  obtain d where d: "dm = Some d" using assms by (cases dm) (simp_all add: serveQuery_def)
  let ?pr = "request0\<lparr>q_Op := ''predict'', q_State := sq_State req, q_Prefix := sq_Prefix req,
      q_CWD := sq_CWD req, q_PriorOutcome := sq_PriorOutcome req, q_Limit := serveSuggestions\<rparr>"
  have "requestTime w (q_At ?pr) = Inr (wo_now w)" by (simp add: request0_def requestTime_empty)
  from handlePredict_known [OF this, of d] obtain ss where ss: "handlePredict w ?pr d = (SuggestionsResponse ss, d)"
    and raws: "\<forall>s\<in>set ss. g_Raw s \<noteq> [] \<longrightarrow> (\<exists>win\<in>set (windowsOf (templatesOf (previousOf (dm_parents d) ?pr))).
            tlLookup (rs_m (dm_raws d)) (rawOuterKey win (g_Template s)) (g_Raw s) \<noteq> None)" by blast
  have "fst (handleConn w (Some ?pr) d) = SuggestionsResponse ss"
    using ss by (simp add: handleConn_def dispatch_def)
  then obtain s where s: "s \<in> set ss" "raw = DisplayCommand (g_Raw s) (g_Template s)" "raw \<noteq> []"
    using assms by (auto simp: serveQuery_def d Let_def)
  have "knownRaw d raw \<or> \<not> anyPlaceholder (Fields raw)"
  proof (cases "g_Raw s = []")
    case True
    then show ?thesis using s(2,3) by (simp add: DisplayCommand_def split: if_splits)
  next
    case False
    then show ?thesis using s raws by (force simp: DisplayCommand_def knownRaw_def)
  qed
  then show ?thesis using s(3) d by simp
qed

lemma serveQuery_length: "length (serveQuery w dm req) \<le> 5"
proof (cases dm)
  case (Some d)
  let ?pr = "request0\<lparr>q_Op := ''predict'', q_State := sq_State req, q_Prefix := sq_Prefix req,
      q_CWD := sq_CWD req, q_PriorOutcome := sq_PriorOutcome req, q_Limit := serveSuggestions\<rparr>"
  have "requestTime w (q_At ?pr) = Inr (wo_now w)" by (simp add: request0_def requestTime_empty)
  from handlePredict_known [OF this, of d] obtain ss where ss: "handlePredict w ?pr d = (SuggestionsResponse ss, d)"
    and "int (length ss) \<le> 5" by (auto simp: serveSuggestions_def)
  moreover have "fst (handleConn w (Some ?pr) d) = SuggestionsResponse ss"
    using ss by (simp add: handleConn_def dispatch_def)
  then have "serveQuery w dm req = filter (\<lambda>cmd. cmd \<noteq> []) (map (\<lambda>s. DisplayCommand (g_Raw s) (g_Template s)) ss)"
    by (simp add: serveQuery_def Some Let_def)
  then have "length (serveQuery w dm req) \<le> length ss" by (metis length_filter_le length_map)
  ultimately show ?thesis by linarith
qed (simp add: serveQuery_def)

definition offered :: "(world \<times> daemon option \<times> string) list \<Rightarrow> string \<Rightarrow> bool" where
  "offered rows raw \<longleftrightarrow> raw \<noteq> [] \<and>
     ((\<exists>w d line. (w, Some d, line) \<in> set rows \<and> knownRaw d raw) \<or> \<not> anyPlaceholder (Fields raw))"

lemma offered_Cons: "offered rows raw \<Longrightarrow> offered (r # rows) raw"
  unfolding offered_def by (meson list.set_intros(2))

lemma serveQuery_offered: "raw \<in> set (serveQuery w dm req) \<Longrightarrow> offered ((w, dm, line) # rows) raw"
proof -
  assume "raw \<in> set (serveQuery w dm req)"
  from serveQuery_offers [OF this] obtain d where d: "raw \<noteq> []" "dm = Some d"
    "knownRaw d raw \<or> \<not> anyPlaceholder (Fields raw)" by blast
  have "(w, Some d, line) \<in> set ((w, dm, line) # rows)" by (simp add: d(2))
  with d(1,3) show ?thesis unfolding offered_def by blast
qed

lemma serveLines_offered:
  "resp \<in> set (serveLines decode rows) \<Longrightarrow> raw \<in> set (sv_Raws resp) \<Longrightarrow> offered rows raw"
proof (induction rows)
  case (Cons r rows)
  obtain w dm line where r: "r = (w, dm, line)" by (cases r) auto
  show ?case
  proof (cases "resp \<in> set (serveLines decode rows)")
    case True
    then show ?thesis using Cons.IH Cons.prems(2) offered_Cons by blast
  next
    case False
    then have "raw \<in> set (serveQuery w dm (the (decode line)))"
      using Cons.prems by (auto simp: r split: option.splits)
    then show ?thesis unfolding r by (rule serveQuery_offered)
  qed
qed simp

lemma serveLines_length: "resp \<in> set (serveLines decode rows) \<Longrightarrow> length (sv_Raws resp) \<le> 5"
  by (induction decode rows rule: serveLines.induct) (auto simp: serveQuery_length split: option.splits)

lemma serveLines_prefixes:
  "map sv_Prefix (serveLines decode rows) = map sq_Prefix (List.map_filter (\<lambda>(w, dm, line). decode line) rows)"
  by (induction decode rows rule: serveLines.induct) (auto simp: List.map_filter_def split: option.splits)

text \<open>C31: The loop that serves the shell answers every line it can parse, in order, with the prefix of
  that line, whether or not a daemon is running; a malformed line costs nothing but itself. What it
  offers is at most five commands, each not empty and either one that was observed before or a
  template without a placeholder, so never a shape that cannot be run.\<close>

theorem serve_answers:
  "map sv_Prefix (serveLines decode rows) = map sq_Prefix (List.map_filter (\<lambda>(w, dm, line). decode line) rows)
   \<and> (\<forall>resp. resp \<in> set (serveLines decode rows) \<longrightarrow> length (sv_Raws resp) \<le> 5
        \<and> (\<forall>raw. raw \<in> set (sv_Raws resp) \<longrightarrow> raw \<noteq> [] \<and>
             ((\<exists>w d line. (w, Some d, line) \<in> set rows \<and> knownRaw d raw) \<or> \<not> anyPlaceholder (Fields raw))))"
  using serveLines_prefixes serveLines_length serveLines_offered unfolding offered_def by blast

theorem serve_answers_witness:
  "\<exists>raws. serveLines (\<lambda>l. if l = ''x'' then None else Some \<lparr>sq_Prefix = l, sq_State = [], sq_CWD = [], sq_PriorOutcome = []\<rparr>)
     [(demoWorld, None, ''x''), (demoWorld, Some demoDaemon, ''gi'')] = [\<lparr>sv_Prefix = ''gi'', sv_Raws = raws\<rparr>]
     \<and> length raws \<le> 5"
  using serve_answers [of "\<lambda>l. if l = ''x'' then None else Some \<lparr>sq_Prefix = l, sq_State = [], sq_CWD = [], sq_PriorOutcome = []\<rparr>"
      "[(demoWorld, None, ''x''), (demoWorld, Some demoDaemon, ''gi'')]"]
  by simp

end
