(* ===== verification/Export.thy ===== *)
theory Export
  imports Client
begin

text \<open>
  From one daemon to another: \<open>hunch client export\<close> prints a seed that \<open>hunch client import\<close> takes. Times
  are printed in RFC 3339, in whole seconds, so the imported graph is the exported one with its times
  cut to seconds. The proof exports the cut graph instead, for which theory Graph_Merge applies.
\<close>

subsection \<open>Cutting the times of a graph\<close>

definition tlMapV :: "('v \<Rightarrow> 'v) \<Rightarrow> 'v tlmap \<Rightarrow> 'v tlmap" where
  "tlMapV h m = map (\<lambda>(k, inner). (k, map (\<lambda>(n, e). (n, h e)) inner)) m"

lemma tlLookup_mapV: "tlLookup (tlMapV h m) k n = map_option h (tlLookup m k n)"
  by (simp add: tlLookup_def tlMapV_def map_of_mapKV split: option.split)

lemma tlWf_mapV: "tlWf m \<Longrightarrow> tlWf (tlMapV h m)"
  unfolding tlWf_def tlMapV_def wfMap_mapKV by (auto simp del: map_map simp: wfMap_mapKV [of "\<lambda>_. h"])

lemma tlItems_mapV: "tlItems (tlMapV h m) = map (\<lambda>(k, n, e). (k, n, h e)) (tlItems m)"
  by (simp add: tlItems_def tlMapV_def map_concat comp_def case_prod_unfold)

definition secTransition :: "transition \<Rightarrow> transition" where
  "secTransition t = t\<lparr>t_LastSeen := secs (t_LastSeen t)\<rparr>"

definition cutEntry :: "entry \<Rightarrow> entry" where
  "cutEntry e = e\<lparr>e_lastSeen := secs (e_lastSeen e)\<rparr>"

definition cutGraph :: "graph \<Rightarrow> graph" where
  "cutGraph g = g\<lparr>g_m := tlMapV cutEntry (g_m g)\<rparr>"

lemma All_cut: "All (cutGraph g) = map secTransition (All g)"
proof -
  let ?f = "\<lambda>(k, n, e). (k, n, cutEntry e)"
  have key: "(\<lambda>i. itemKey (?f i)) = itemKey" by (auto simp: itemKey_def fun_eq_iff)
  have item: "itemTransition (?f i) = secTransition (itemTransition i)" for i
    by (cases i) (simp add: itemTransition_def entryToTransition_def secTransition_def cutEntry_def)
  show ?thesis by (simp add: All_eq cutGraph_def tlItems_mapV sort_key_map key item comp_def)
qed

lemma cut_nonneg: "0 \<le> t \<Longrightarrow> 0 \<le> secs t"
proof -
  assume "0 \<le> t"
  moreover have "(t + - 62135596800 * 1000000000) div 1000000000 = - 62135596800 + t div (1000000000 :: int)"
    by (rule div_mult_self1) simp
  ultimately show ?thesis by (simp add: secs_def time_Unix_def Unix_def unixEpoch_def)
qed

lemma entryInv_cut: "entryInv e \<Longrightarrow> entryInv (cutEntry e)"
  by (simp add: entryInv_def cutEntry_def cut_nonneg)

lemma graphInv_cut: "graphInv g \<Longrightarrow> graphInv (cutGraph g)"
  unfolding graphInv_def by (auto simp: cutGraph_def tlWf_mapV tlLookup_mapV entryInv_cut)

lemma absGraph_cut: "absGraph (cutGraph g) = (\<lambda>k. map_option secEntry (absGraph g k))"
  by (auto simp: absGraph_def cutGraph_def tlLookup_mapV absEntry_def secEntry_def cutEntry_def
      fun_eq_iff option.map_comp comp_def)

subsection \<open>Exporting\<close>

lemma exportTransitions_graph:
  "\<forall>t\<in>set ts. parseTime (formatTime (t_LastSeen t)) = Inr (secs (t_LastSeen t)) \<Longrightarrow>
     exportTransitions parseTime quote (map (TransitionFromGraph formatTime) ts) = Inr (map secTransition ts)"
  by (induction ts) (simp_all add: TransitionFromGraph_def secTransition_def)

lemma seedCheckFrom_ok: "\<forall>t\<in>set ts. \<not> IsZero (t_LastSeen t) \<Longrightarrow> seedCheckFrom i ts = None"
  by (induction ts arbitrary: i) simp_all

lemma secs_pos: "unixEpoch \<le> t \<Longrightarrow> \<not> IsZero (secs t)"
proof -
  assume "unixEpoch \<le> t"
  then have "0 \<le> (t - unixEpoch) div 1000000000" by (simp add: pos_imp_zdiv_nonneg_iff)
  then show ?thesis by (simp add: secs_def time_Unix_def Unix_def unixEpoch_def IsZero_def)
qed

lemma Merge_cut:
  assumes "graphInv g"
  shows "\<exists>g'. Merge (map secTransition (All g)) (New 2) = Inr g' \<and> absGraph g' = (\<lambda>k. map_option secEntry (absGraph g k))"
  using export_import_roundtrip [OF graphInv_cut [OF assms], of 2] by (simp add: All_cut absGraph_cut)

text \<open>C29: What one daemon exports, another can import: from a well-formed graph with at least one
  transition the export succeeds, and a new daemon that imports the printed file accepts it and holds
  every transition with all its counters, the times cut to whole seconds. Relied on: a time printed in
  RFC 3339 parses to its whole seconds, and the JSON of the seed decodes to the seed.\<close>

theorem export_import:
  assumes "graphInv (graphOf d)" "All (graphOf d) \<noteq> []" "socket \<noteq> []"
    and times: "\<forall>t\<in>set (All (graphOf d)). unixEpoch \<le> t_LastSeen t
       \<and> wo_parseTime w (wo_formatTime w (t_LastSeen t)) = Inr (secs (t_LastSeen t))"
    and seedFile: "wo_abs w' path = Inr path'" "wo_lstat w' path' = Regular" "wo_readFile w' path' = Inr json" "path \<noteq> []"
    and json: "\<forall>sd. cmdClientExport w socket None d = Inr sd \<longrightarrow> wo_decodeSeed w' json = Inr sd"
  shows "\<exists>sd d2. cmdClientExport w socket None d = Inr sd
    \<and> handleConn w' (Some (request0\<lparr>q_Op := ''import'', q_Next := path\<rparr>)) (newDaemon compile opt) = (OKResponse, d2)
    \<and> absGraph (graphOf d2) = (\<lambda>k. map_option secEntry (absGraph (graphOf d) k))"
proof -
  let ?ts = "map secTransition (All (graphOf d))"
  let ?sd = "\<lparr>sd_Version = 1, sd_Source = ''hunch export'', sd_GeneratedAt = wo_now w, sd_Transitions = ?ts\<rparr>"
  have "exportTransitions (wo_parseTime w) (wo_quote w)
      (map (TransitionFromGraph (wo_formatTime w)) (All (graphOf d))) = Inr ?ts"
    using times by (intro exportTransitions_graph) blast
  then have sd: "cmdClientExport w socket None d = Inr ?sd"
    using assms(3)
    by (simp add: cmdClientExport_def sendRequest_def handleConn_def dispatch_def handleExport_def exportSeed_def)
  have valid: "seedValidate ?sd = None"
    using assms(2) times by (auto simp: seedValidate_def secTransition_def secs_pos intro!: seedCheckFrom_ok)
  obtain g' where g': "Merge ?ts (New 2) = Inr g'" "absGraph g' = (\<lambda>k. map_option secEntry (absGraph (graphOf d) k))"
    using Merge_cut [OF assms(1)] by blast
  let ?d2 = "storePredictor (flush w' (setGraph g' (newDaemon compile opt)))"
  have new: "graphOf (newDaemon compile opt) = New 2" by (simp add: newDaemon_def graphOf_def)
  have "importSeed w' path' (newDaemon compile opt) = Inr (flush w' (setGraph g' (newDaemon compile opt)))"
    using json sd seedFile(3) valid g'(1) by (simp add: importSeed_def importSeedFromBytes_def new)
  then have conn: "handleConn w' (Some (request0\<lparr>q_Op := ''import'', q_Next := path\<rparr>)) (newDaemon compile opt) = (OKResponse, ?d2)"
    using seedFile(1,2,4)
    by (simp add: handleConn_def dispatch_def handleImport_def request0_def checkImportable_def)
  show ?thesis by (intro exI conjI, rule sd, rule conn) (simp add: g'(2))
qed

text \<open>A daemon that saw one command, for the witness.\<close>

definition exportDaemon :: daemon where
  "exportDaemon = setGraph (RecordObs (demoObs\<lparr>o_At := unixEpoch\<rparr>) (New 2)) demoDaemon"

definition exportWorld :: world where
  "exportWorld = demoWorld\<lparr>wo_formatTime := (\<lambda>_. ''1970-01-01T00:00:00Z''), wo_parseTime := (\<lambda>_. Inr unixEpoch)\<rparr>"

definition importWorld :: world where
  "importWorld = demoWorld\<lparr>wo_decodeSeed := (\<lambda>_. cmdClientExport exportWorld ''/run/hunch.sock'' None exportDaemon),
     wo_lstat := (\<lambda>_. Regular), wo_readFile := (\<lambda>_. Inr ''{}'')\<rparr>"

theorem export_import_witness:
  "\<exists>d2. handleConn importWorld (Some (request0\<lparr>q_Op := ''import'', q_Next := ''seed.json''\<rparr>))
      (newDaemon (\<lambda>_. None) defaults) = (OKResponse, d2)
     \<and> absGraph (graphOf d2) (''git add PATH'', ''git commit FLAG STR'') \<noteq> None"
proof -
  have g: "graphOf exportDaemon = RecordObs (demoObs\<lparr>o_At := unixEpoch\<rparr>) (New 2)" by (simp add: exportDaemon_def)
  have inv: "graphInv (graphOf exportDaemon)" unfolding g by (rule graphInv_RecordObs) simp_all
  have look: "lookupEntry (graphOf exportDaemon) sk n = Some e \<Longrightarrow> e_lastSeen e = unixEpoch" for sk n e
    by (auto simp: g lookup_RecordObs New_def recordEntry_def entry0_def After_def zeroTime_def unixEpoch_def demoObs_def
        split: if_splits)
  have item: "t \<in> set (All (graphOf exportDaemon)) \<Longrightarrow> t_LastSeen t = unixEpoch" for t
    using All_iff [OF graphInvD(1) [OF inv]] look
    by (auto simp: itemTransition_def entryToTransition_def)
  have e: "absGraph (graphOf exportDaemon) (''git add PATH'', ''git commit FLAG STR'') \<noteq> None"
    by (simp add: absGraph_def g lookup_RecordObs demoObs_def stateKey_def)
  then have "All (graphOf exportDaemon) \<noteq> []"
    using All_iff [OF graphInvD(1) [OF inv]] by (fastforce simp: absGraph_def)
  moreover have "\<forall>t\<in>set (All (graphOf exportDaemon)). unixEpoch \<le> t_LastSeen t
       \<and> wo_parseTime exportWorld (wo_formatTime exportWorld (t_LastSeen t)) = Inr (secs (t_LastSeen t))"
    using item by (simp add: exportWorld_def secs_def time_Unix_def Unix_def)
  ultimately show ?thesis
    using export_import [OF inv, of "''/run/hunch.sock''" exportWorld importWorld "''seed.json''" "''seed.json''" "''{}''"
        "\<lambda>_. None" defaults] e
    by (fastforce simp: importWorld_def demoWorld_def)
qed

end
