(* ===== verification/History_Import.thy ===== *)
theory History_Import
  imports Client Daemon_Run
begin

text \<open>
  What importing a history (theory History) gives: the transitions count exactly the places where a
  command followed a context, the raw commands are known under the same contexts, and sending both
  to the daemon of theory Handlers is accepted.
\<close>

subsection \<open>Places in the history\<close>

definition window :: "string list \<Rightarrow> nat \<Rightarrow> string list" where
  \<comment> \<open>the two commands before the i-th, empty where there are none\<close>
  "window cmds i = [if 2 \<le> i then cmds ! (i - 2) else [], if 1 \<le> i then cmds ! (i - 1) else []]"

definition contexts :: "string list \<Rightarrow> nat \<Rightarrow> string list list" where
  "contexts cmds i = BackoffStates (window cmds i) False"

text \<open>Both loops slide a window of two commands over the history; what they do at each place depends on
  the window and the command only.\<close>

fun slide :: "('a \<Rightarrow> string) \<Rightarrow> (string \<Rightarrow> string \<Rightarrow> 'a \<Rightarrow> 's \<Rightarrow> 's) \<Rightarrow> string \<Rightarrow> string \<Rightarrow> 'a list \<Rightarrow> 's \<Rightarrow> 's" where
  "slide tm step p1 p2 [] s = s"
| "slide tm step p1 p2 (x # xs) s = slide tm step p2 (tm x) xs (step p1 p2 x s)"

lemma slide_drop:
  assumes "i \<le> length xs"
  shows "slide tm step (hd (window (map tm xs) i)) (last (window (map tm xs) i)) (drop i xs) s
    = fold (\<lambda>i. step (hd (window (map tm xs) i)) (last (window (map tm xs) i)) (xs ! i)) [i..<length xs] s"
  using assms
proof (induction "length xs - i" arbitrary: i s)
  case (Suc k)
  then have lt: "i < length xs" by simp
  let ?w = "window (map tm xs)"
  have w: "hd (?w (Suc i)) = last (?w i)" "last (?w (Suc i)) = tm (xs ! i)"
    using lt by (simp_all add: window_def)
  have "slide tm step (hd (?w (Suc i))) (last (?w (Suc i))) (drop (Suc i) xs) (step (hd (?w i)) (last (?w i)) (xs ! i) s)
      = fold (\<lambda>i. step (hd (?w i)) (last (?w i)) (xs ! i)) [Suc i..<length xs] (step (hd (?w i)) (last (?w i)) (xs ! i) s)"
    using Suc.hyps lt by (intro Suc.hyps(1)) simp_all
  moreover have "drop i xs = xs ! i # drop (Suc i) xs" using lt by (simp add: Cons_nth_drop_Suc)
  moreover have "[i..<length xs] = i # [Suc i..<length xs]" using lt by (simp add: upt_conv_Cons)
  ultimately show ?case by (simp add: w)
qed simp

lemma slide_fold:
  "slide tm step [] [] xs s
    = fold (\<lambda>i. step (hd (window (map tm xs) i)) (last (window (map tm xs) i)) (xs ! i)) [0..<length xs] s"
  using slide_drop [of 0 xs tm step s] by (simp add: window_def)

lemma contexts_window:
  "BackoffStates [hd (window cmds i), last (window cmds i)] False = contexts cmds i"
  by (simp add: contexts_def window_def)

definition stepAt :: "gotime \<Rightarrow> string list \<Rightarrow> nat \<Rightarrow> graph \<Rightarrow> graph" where
  "stepAt now cmds i g =
     (if cmds ! i \<noteq> [] then fold (\<lambda>st. Record st (cmds ! i) now) (contexts cmds i) g else g)"

lemma buildFrom_fold: "buildFrom now [] [] cmds g = fold (stepAt now cmds) [0..<length cmds] g"
proof -
  let ?step = "\<lambda>p1 p2 cmd g. if cmd \<noteq> [] then fold (\<lambda>st. Record st cmd now) (BackoffStates [p1, p2] False) g else g"
  have "buildFrom now p1 p2 cs h = slide id ?step p1 p2 cs h" for p1 p2 cs h
    by (induction cs arbitrary: p1 p2 h) simp_all
  then have "buildFrom now [] [] cmds g
      = fold (\<lambda>i. ?step (hd (window cmds i)) (last (window cmds i)) (cmds ! i)) [0..<length cmds] g"
    using slide_fold [of id ?step cmds g, unfolded list.map_id] by (simp only:)
  also have "\<dots> = fold (stepAt now cmds) [0..<length cmds] g"
    by (rule fold_cong) (auto simp: stepAt_def contexts_window fun_eq_iff)
  finally show ?thesis .
qed

definition rawStepAt :: "string list \<Rightarrow> string list \<Rightarrow> nat \<Rightarrow> rawCounts \<Rightarrow> rawCounts" where
  "rawStepAt cmds raws i acc =
     (if cmds ! i \<noteq> [] \<and> raws ! i \<noteq> [] then fold (countRaw (cmds ! i) (raws ! i)) (contexts cmds i) acc else acc)"

lemma rawsFrom_fold:
  assumes "length cmds = length raws"
  shows "rawsFrom [] [] (zip cmds raws) acc = fold (rawStepAt cmds raws) [0..<length cmds] acc"
proof -
  let ?step = "\<lambda>p1 p2 (tmpl, raw) acc. if tmpl \<noteq> [] \<and> raw \<noteq> []
      then fold (countRaw tmpl raw) (BackoffStates [p1, p2] False) acc else acc"
  have eq: "rawsFrom p1 p2 ps a = slide fst ?step p1 p2 ps a" for p1 p2 ps a
  proof (induction ps arbitrary: p1 p2 a)
    case (Cons x ps)
    show ?case by (cases x) (simp add: Cons.IH)
  qed simp
  have keys: "map fst (zip cmds raws) = cmds" using assms by simp
  have "rawsFrom [] [] (zip cmds raws) acc
      = fold (\<lambda>i. ?step (hd (window cmds i)) (last (window cmds i)) (zip cmds raws ! i)) [0..<length (zip cmds raws)] acc"
    unfolding eq slide_fold keys by (rule refl)
  also have "\<dots> = fold (rawStepAt cmds raws) [0..<length cmds] acc"
    by (rule fold_cong) (use assms in \<open>auto simp: rawStepAt_def contexts_window fun_eq_iff\<close>)
  finally show ?thesis .
qed

subsection \<open>What is counted\<close>

definition places :: "string list \<Rightarrow> nat \<Rightarrow> string \<Rightarrow> string \<Rightarrow> nat set" where
  \<comment> \<open>where, before position k, the command followed the context\<close>
  "places cmds k sk nxt = {i. i < k \<and> nxt \<noteq> [] \<and> cmds ! i = nxt \<and> sk \<in> stateKey ` set (contexts cmds i)}"

lemma finite_places [simp]: "finite (places cmds k sk nxt)"
  by (simp add: places_def)

lemma places_Suc:
  "places cmds (Suc k) sk nxt =
     (if nxt \<noteq> [] \<and> cmds ! k = nxt \<and> sk \<in> stateKey ` set (contexts cmds k)
      then insert k (places cmds k sk nxt) else places cmds k sk nxt)"
  by (auto simp: places_def less_Suc_eq)

lemma card_places_le: "card (places cmds k sk nxt) \<le> k"
proof -
  have "places cmds k sk nxt \<subseteq> {..<k}" by (auto simp: places_def)
  then show ?thesis using card_mono [of "{..<k}"] by fastforce
qed

definition histEntry :: "gotime \<Rightarrow> nat \<Rightarrow> entry" where
  "histEntry now c = entry0\<lparr>e_count := int c, e_lastSeen := now\<rparr>"

definition histObs :: "string \<Rightarrow> gotime \<Rightarrow> string list \<Rightarrow> observation" where
  "histObs cmd now st = \<lparr>o_State = st, o_Next = cmd, o_At = now, o_CWD = [],
     o_NextOutcome = OutcomeUnknown, o_PriorOutcome = OutcomeUnknown, o_Accepted = False\<rparr>"

lemma histObs_simps [simp]: "o_State (histObs cmd now st) = st" "o_Next (histObs cmd now st) = cmd"
  by (simp_all add: histObs_def)

lemma recordEntry_hist:
  assumes "0 < now" "int c < maxInt64"
  shows "recordEntry (histObs cmd now st) (if c = 0 then entry0 else histEntry now c) = histEntry now (Suc c)"
  using assms by (simp add: recordEntry_def histObs_def histEntry_def entry0_def After_def zeroTime_def bump_id)

lemma stepAt_eq: "stepAt now cmds i g =
    (if cmds ! i \<noteq> [] then recordAll (contexts cmds i) (histObs (cmds ! i) now) g else g)"
  by (simp add: stepAt_def recordAll_def Record_def [abs_def] histObs_def)

definition counted :: "gotime \<Rightarrow> string list \<Rightarrow> nat \<Rightarrow> graph \<Rightarrow> bool" where
  "counted now cmds k g \<longleftrightarrow> tlWf (g_m g) \<and> (\<forall>sk nxt. lookupEntry g sk nxt =
     (if places cmds k sk nxt = {} then None else Some (histEntry now (card (places cmds k sk nxt)))))"

lemma wf_recordAll: "tlWf (g_m g) \<Longrightarrow> tlWf (g_m (recordAll states obs g))"
  unfolding recordAll_def by (induction states arbitrary: g) (simp_all add: RecordObs_def tlWf_modify)

lemma counted_step:
  assumes "counted now cmds k g" "0 < now" "int k < maxInt64"
  shows "counted now cmds (Suc k) (stepAt now cmds k g)"
proof -
  have old: "lookupEntry g sk nxt = (if places cmds k sk nxt = {} then None
      else Some (histEntry now (card (places cmds k sk nxt))))" for sk nxt
    using assms(1) by (simp add: counted_def)
  have "lookupEntry (stepAt now cmds k g) sk nxt = (if places cmds (Suc k) sk nxt = {} then None
      else Some (histEntry now (card (places cmds (Suc k) sk nxt))))" for sk nxt
  proof (cases "nxt \<noteq> [] \<and> cmds ! k = nxt \<and> sk \<in> stateKey ` set (contexts cmds k)")
    case True
    then obtain st where st: "st \<in> set (contexts cmds k)" "sk = stateKey st" by blast
    let ?c = "card (places cmds k sk nxt)"
    have c: "int ?c < maxInt64" using card_places_le [of cmds k sk nxt] assms(3) by linarith
    have "distinct (map stateKey (contexts cmds k))" unfolding contexts_def by (rule distinct_stateKeys)
    from lookup_recordAll [OF this st(1), of "histObs nxt now" g]
    have "lookupEntry (stepAt now cmds k g) sk nxt = Some (recordEntry (histObs nxt now st)
        (case lookupEntry g sk nxt of None \<Rightarrow> entry0 | Some e \<Rightarrow> e))"
      using True st by (auto simp: stepAt_eq)
    also have "(case lookupEntry g sk nxt of None \<Rightarrow> entry0 | Some e \<Rightarrow> e) = (if ?c = 0 then entry0 else histEntry now ?c)"
      by (simp add: old)
    finally have new: "lookupEntry (stepAt now cmds k g) sk nxt = Some (histEntry now (Suc ?c))"
      by (simp only: recordEntry_hist [OF assms(2) c])
    have "k \<notin> places cmds k sk nxt" by (simp add: places_def)
    then show ?thesis using True new by (simp add: places_Suc)
  next
    case False
    then have "lookupEntry (stepAt now cmds k g) sk nxt = lookupEntry g sk nxt"
      using lookup_recordAll_next [of "histObs (cmds ! k) now" nxt "contexts cmds k" g sk]
        lookup_recordAll_other [of "contexts cmds k" "histObs (cmds ! k) now" sk g nxt]
      by (auto simp: stepAt_eq)
    moreover have "places cmds (Suc k) sk nxt = places cmds k sk nxt" using False by (auto simp: places_Suc)
    ultimately show ?thesis by (simp add: old)
  qed
  moreover have "tlWf (g_m (stepAt now cmds k g))" using assms(1) by (simp add: counted_def stepAt_eq wf_recordAll)
  ultimately show ?thesis by (simp add: counted_def)
qed

lemma counted_build:
  assumes "0 < now" "int (length cmds) < maxInt64"
  shows "counted now cmds (length cmds) (buildFrom now [] [] cmds (New 2))"
proof -
  have "counted now cmds k (fold (stepAt now cmds) [0..<k] (New 2))" if "k \<le> length cmds" for k
    using that
  proof (induction k)
    case 0
    show ?case by (simp add: counted_def New_def places_def)
  next
    case (Suc k)
    then show ?case using counted_step [OF _ assms(1), of cmds k] assms(2) by simp
  qed
  then show ?thesis by (simp add: buildFrom_fold)
qed

lemma BackoffStates_plain:
  "plains state \<Longrightarrow> state \<noteq> [] \<Longrightarrow> st \<in> set (BackoffStates state c) \<Longrightarrow> plainState st"
proof -
  assume p: "plains state" "state \<noteq> []" and st: "st \<in> set (BackoffStates state c)"
  then have "st = state \<or> st \<in> set (tl (BackoffStates state c))"
    using BackoffStates_hd [of state c] by (cases "BackoffStates state c") auto
  then have "set st \<subseteq> set state \<and> st \<noteq> []"
    using BackoffStates_tl [of st state c] p(2) set_drop_subset by fastforce
  then show ?thesis using p(1) by (auto simp: plainState_def plains_def plain_def)
qed

lemma contexts_plain:
  assumes "plains cmds" "i < length cmds" "st \<in> set (contexts cmds i)"
  shows "plainState st"
proof -
  have "set (window cmds i) \<subseteq> insert [] (set cmds)" using assms(2) by (auto simp: window_def)
  then have "plains (window cmds i)" using assms(1) by (auto simp: plains_def plain_def)
  then show ?thesis using assms(3) BackoffStates_plain [of "window cmds i"] by (simp add: contexts_def window_def)
qed

lemma mem_buildTransitions:
  assumes "0 < now" "int (length cmds) < maxInt64"
  shows "t \<in> set (buildTransitions now cmds) \<longleftrightarrow>
     (\<exists>sk nxt. places cmds (length cmds) sk nxt \<noteq> {}
        \<and> t = itemTransition (sk, nxt, histEntry now (card (places cmds (length cmds) sk nxt))))"
proof -
  have c: "counted now cmds (length cmds) (buildFrom now [] [] cmds (New 2))" by (rule counted_build [OF assms])
  then have wf: "tlWf (g_m (buildFrom now [] [] cmds (New 2)))" by (simp add: counted_def)
  from c have look: "lookupEntry (buildFrom now [] [] cmds (New 2)) sk nxt = Some e \<longleftrightarrow>
      places cmds (length cmds) sk nxt \<noteq> {} \<and> e = histEntry now (card (places cmds (length cmds) sk nxt))" for sk nxt e
    by (auto simp: counted_def)
  show ?thesis unfolding buildTransitions_def All_iff [OF wf] look by blast
qed

lemma built_transition:
  assumes "plains cmds" "0 < now" "int (length cmds) < maxInt64"
    and i: "i < length cmds" "cmds ! i \<noteq> []" "st \<in> set (contexts cmds i)"
  shows "\<exists>t\<in>set (buildTransitions now cmds). t_State t = st \<and> t_Next t = cmds ! i"
proof -
  have "i \<in> places cmds (length cmds) (stateKey st) (cmds ! i)" using i by (simp add: places_def)
  then have "itemTransition (stateKey st, cmds ! i, histEntry now (card (places cmds (length cmds) (stateKey st) (cmds ! i))))
      \<in> set (buildTransitions now cmds)" unfolding mem_buildTransitions [OF assms(2,3)] by blast
  moreover have "Split (stateKey st) NUL = st"
    using contexts_plain [OF assms(1) i(1,3)] Split_stateKey by (simp add: plainState_def)
  moreover have "t_State (itemTransition (sk, nxt, e)) = Split sk NUL" "t_Next (itemTransition (sk, nxt, e)) = nxt" for sk nxt e
    by (simp_all add: itemTransition_def entryToTransition_def)
  ultimately show ?thesis by metis
qed

text \<open>C30: An imported transition counts exactly the places of the history where its command followed its
  context (the two commands before, or the one before), and every such place is counted: nothing of
  the history is lost or counted twice. Commands contain no NUL byte.\<close>

theorem import_counts:
  assumes "plains cmds" "0 < now" "int (length cmds) < maxInt64"
  shows "(\<forall>t\<in>set (buildTransitions now cmds). 0 < t_Count t \<and>
      t_Count t = int (card {i. i < length cmds \<and> cmds ! i = t_Next t \<and> t_State t \<in> set (contexts cmds i)}))
    \<and> (\<forall>i<length cmds. cmds ! i \<noteq> [] \<longrightarrow>
        (\<forall>st\<in>set (contexts cmds i). \<exists>t\<in>set (buildTransitions now cmds). t_State t = st \<and> t_Next t = cmds ! i))"
proof -
  let ?n = "length cmds"
  note mem = mem_buildTransitions [OF assms(2,3)]
  have key: "stateKey st \<in> stateKey ` set (contexts cmds i) \<longleftrightarrow> st \<in> set (contexts cmds i)"
    if "i < ?n" "plainState st" for i st
    using contexts_plain [OF assms(1) that(1)] that(2) state_key.enc_inj by (auto simp: image_iff)
  have exact: "places cmds ?n (stateKey st) nxt = {i. i < ?n \<and> cmds ! i = nxt \<and> st \<in> set (contexts cmds i)}"
    if "plainState st" "nxt \<noteq> []" for st nxt
    using that key by (auto simp: places_def)
  have split: "\<exists>st. plainState st \<and> sk = stateKey st" if "places cmds ?n sk nxt \<noteq> {}" for sk nxt
    using that contexts_plain [OF assms(1)] by (auto simp: places_def)
  have nonempty: "nxt \<noteq> []" if "places cmds ?n sk nxt \<noteq> {}" for sk nxt
    using that by (auto simp: places_def)
  have "0 < t_Count t \<and> t_Count t = int (card {i. i < ?n \<and> cmds ! i = t_Next t \<and> t_State t \<in> set (contexts cmds i)})"
    if t: "t \<in> set (buildTransitions now cmds)" for t
  proof -
    obtain sk nxt where pl: "places cmds ?n sk nxt \<noteq> {}"
      "t = itemTransition (sk, nxt, histEntry now (card (places cmds ?n sk nxt)))"
      using t mem by blast
    obtain st where st: "plainState st" "sk = stateKey st" using split [OF pl(1)] by blast
    have "t_State t = st" "t_Next t = nxt" "t_Count t = int (card (places cmds ?n sk nxt))"
      using st Split_stateKey [of st] by (simp_all add: pl(2) itemTransition_def entryToTransition_def histEntry_def plainState_def)
    then show ?thesis using exact [OF st(1) nonempty [OF pl(1)]] pl(1) st(2) by (simp add: card_gt_0_iff)
  qed
  then show ?thesis using built_transition [OF assms] by blast
qed

lemma demo_cmds: "plains [''ls'', ''make'', ''ls'', ''make'']"
  by (simp add: plain_def)

theorem import_counts_witness:
  "\<exists>t\<in>set (buildTransitions 5 [''ls'', ''make'', ''ls'', ''make'']).
     t_State t = [''ls''] \<and> t_Next t = ''make'' \<and> 0 < t_Count t"
proof -
  have m: "int (length [''ls'', ''make'', ''ls'', ''make'']) < maxInt64" by simp
  have c: "[''ls''] \<in> set (contexts [''ls'', ''make'', ''ls'', ''make''] 3)"
    by (simp add: contexts_def window_def BackoffStates_def appendIfInformative_def)
  have five: "(0 :: int) < 5" by simp
  note counts = import_counts [OF demo_cmds five m]
  have "\<exists>t\<in>set (buildTransitions 5 [''ls'', ''make'', ''ls'', ''make'']). t_State t = [''ls''] \<and> t_Next t = ''make''"
    using built_transition [OF demo_cmds _ m _ _ c, of 5] by simp
  then obtain t where t: "t \<in> set (buildTransitions 5 [''ls'', ''make'', ''ls'', ''make''])" "t_State t = [''ls'']" "t_Next t = ''make''"
    by blast
  have "0 < t_Count t" using counts t(1) by blast
  with t show ?thesis by blast
qed

subsection \<open>Raw commands\<close>

definition rawKey :: "string list \<Rightarrow> string" where
  "rawKey st = Join (nonEmptyStrs st) [NUL]"

lemma rawKey_inj:
  assumes "plainState a" "plainState b" "rawKey a = rawKey b"
  shows "nonEmptyStrs a = nonEmptyStrs b"
proof -
  have split: "splitOuterKey (rawOuterKey st t) = Some (nonEmptyStrs st, t)" if "plainState st" for st t
    using splitOuterKey_key [OF validState_nonEmpty] rawOuterKey_nonEmpty that by (metis plainState_def)
  have "rawOuterKey a [] = rawOuterKey b []"
    using assms(3) by (simp add: rawOuterKey_def rawKey_def keySeparator_def)
  then show ?thesis using split [OF assms(1), of "[]"] split [OF assms(2), of "[]"] by simp
qed

text \<open>What the maps hold after the observations \<open>R\<close>, each a context, a template and a raw command.\<close>

definition rawsHold :: "(string list \<times> string \<times> string) set \<Rightarrow> rawCounts \<Rightarrow> bool" where
  "rawsHold R acc \<longleftrightarrow> (\<forall>k. k \<in> fst ` set (fst acc) \<longleftrightarrow> (\<exists>(st, t, r)\<in>R. k = (rawKey st, t, r)))
     \<and> (\<forall>(st, t, r)\<in>R. map_of (snd acc) (rawKey st) = Some (nonEmptyStrs st))"

lemma rawsHold_countRaw:
  assumes "rawsHold R acc" "plainState st" "\<forall>(st, t, r)\<in>R. plainState st"
  shows "rawsHold (insert (st, t, r) R) (countRaw t r st acc)"
proof -
  obtain counts states where acc: "acc = (counts, states)" by (cases acc)
  have new: "countRaw t r st acc = (mapPut (rawKey st, t, r) (bump (mapGet 0 counts (rawKey st, t, r))) counts,
      mapPut (rawKey st) (nonEmptyStrs st) states)"
    by (simp add: acc countRaw_def rawKey_def Let_def)
  have keys: "fst ` set (mapPut k v m) = insert k (fst ` set m)" for k v and m :: "((string \<times> string \<times> string) \<times> int) list"
    using keys_mapPut [of k v m] by simp
  have "map_of (mapPut (rawKey st) (nonEmptyStrs st) states) (rawKey st') = Some (nonEmptyStrs st')"
    if "(st', t', r') \<in> insert (st, t, r) R" for st' t' r'
  proof (cases "rawKey st' = rawKey st")
    case True
    have "plainState st'" using that assms(2,3) by auto
    then have "nonEmptyStrs st' = nonEmptyStrs st" using rawKey_inj [OF _ assms(2) True] by blast
    then show ?thesis using True by (simp add: map_of_mapPut)
  next
    case False
    then show ?thesis using that assms(1) by (auto simp: map_of_mapPut rawsHold_def acc)
  qed
  then show ?thesis using assms(1) unfolding rawsHold_def new fst_conv snd_conv keys by (auto simp: acc)
qed

definition observedRaws :: "string list \<Rightarrow> string list \<Rightarrow> nat \<Rightarrow> (string list \<times> string \<times> string) set" where
  "observedRaws cmds raws k =
     {(st, cmds ! i, raws ! i) |st i. i < k \<and> cmds ! i \<noteq> [] \<and> raws ! i \<noteq> [] \<and> st \<in> set (contexts cmds i)}"

lemma rawsHold_fold:
  "rawsHold R acc \<Longrightarrow> \<forall>st\<in>set sts. plainState st \<Longrightarrow> \<forall>(st, t, r)\<in>R. plainState st \<Longrightarrow>
     rawsHold ((\<lambda>st. (st, t, r)) ` set sts \<union> R) (fold (countRaw t r) sts acc)"
proof (induction sts arbitrary: R acc)
  case (Cons st sts)
  have "rawsHold (insert (st, t, r) R) (countRaw t r st acc)"
    by (rule rawsHold_countRaw) (use Cons.prems in auto)
  then have "rawsHold ((\<lambda>st. (st, t, r)) ` set sts \<union> insert (st, t, r) R) (fold (countRaw t r) sts (countRaw t r st acc))"
    by (rule Cons.IH) (use Cons.prems in auto)
  then show ?case by simp
qed simp

lemma rawsHold_build:
  assumes "plains cmds" "length cmds = length raws"
  shows "rawsHold (observedRaws cmds raws (length cmds)) (rawsFrom [] [] (zip cmds raws) ([], []))"
proof -
  have "rawsHold (observedRaws cmds raws k) (fold (rawStepAt cmds raws) [0..<k] ([], []))" if "k \<le> length cmds" for k
    using that
  proof (induction k)
    case 0
    show ?case by (simp add: rawsHold_def observedRaws_def)
  next
    case (Suc k)
    let ?R = "observedRaws cmds raws k" and ?acc = "fold (rawStepAt cmds raws) [0..<k] ([], [])"
    have lt: "k < length cmds" using Suc.prems by simp
    have "plainState st" if mem: "(st, t, r) \<in> ?R" for st t r
    proof -
      obtain i where "i < k" "st \<in> set (contexts cmds i)" using mem by (auto simp: observedRaws_def)
      then show ?thesis using contexts_plain [OF assms(1), of i] lt by simp
    qed
    then have plain: "\<forall>(st, t, r)\<in>?R. plainState st" "\<forall>st\<in>set (contexts cmds k). plainState st"
      using contexts_plain [OF assms(1) lt] by auto
    have "observedRaws cmds raws (Suc k) = (if cmds ! k \<noteq> [] \<and> raws ! k \<noteq> []
        then (\<lambda>st. (st, cmds ! k, raws ! k)) ` set (contexts cmds k) \<union> ?R else ?R)"
      by (auto simp: observedRaws_def less_Suc_eq)
    then show ?case
      using rawsHold_fold [OF _ plain(2,1), of ?acc] Suc by (simp add: rawStepAt_def [of cmds raws k])
  qed
  then show ?thesis by (simp add: rawsFrom_fold [OF assms(2)])
qed

lemma mem_buildRawMappings:
  assumes "plains cmds" "length cmds = length raws"
  shows "(\<exists>ex\<in>set (buildRawMappings raws cmds). x_State ex = s \<and> x_Template ex = t \<and> x_Raw ex = r)
    \<longleftrightarrow> (\<exists>st. (st, t, r) \<in> observedRaws cmds raws (length cmds) \<and> nonEmptyStrs st = s)"
proof -
  obtain counts states where b: "rawsFrom [] [] (zip cmds raws) ([], []) = (counts, states)" by fastforce
  let ?R = "observedRaws cmds raws (length cmds)"
  have H: "rawsHold ?R (counts, states)" using rawsHold_build [OF assms] unfolding b .
  have hold: "k \<in> fst ` set counts \<longleftrightarrow> (\<exists>(st, t, r)\<in>?R. k = (rawKey st, t, r))" for k
    using H unfolding rawsHold_def fst_conv by blast
  have states: "(st, t, r) \<in> ?R \<Longrightarrow> map_of states (rawKey st) = Some (nonEmptyStrs st)" for st t r
    using H unfolding rawsHold_def snd_conv by blast
  have "(\<exists>ex\<in>set (buildRawMappings raws cmds). x_State ex = s \<and> x_Template ex = t \<and> x_Raw ex = r)
      \<longleftrightarrow> (\<exists>j. (j, t, r) \<in> fst ` set counts \<and> mapGet [] states j = s)"
    by (force simp: buildRawMappings_def b)
  also have "\<dots> \<longleftrightarrow> (\<exists>st. (st, t, r) \<in> ?R \<and> mapGet [] states (rawKey st) = s)"
    unfolding hold by auto
  also have "\<dots> \<longleftrightarrow> (\<exists>st. (st, t, r) \<in> ?R \<and> nonEmptyStrs st = s)"
    using states by (auto simp: mapGet_def)
  finally show ?thesis .
qed

text \<open>Graph and raw commands of an import fit together: the contexts and templates under which raw
  commands are sent are exactly those of the transitions (without the padding), so a suggestion that
  comes from the history always has a concrete command, and no raw command is stored out of reach.\<close>

theorem import_raws_match:
  assumes "plains cmds" "length cmds = length raws" "[] \<notin> set raws" "0 < now" "int (length cmds) < maxInt64"
  shows "{(x_State ex, x_Template ex) |ex. ex \<in> set (buildRawMappings raws cmds)}
    = {(nonEmptyStrs (t_State t), t_Next t) |t. t \<in> set (buildTransitions now cmds)}"
proof -
  have raw: "raws ! i \<noteq> []" if "i < length cmds" for i using assms(2,3) that by (metis nth_mem)
  have left: "(s, t) \<in> {(x_State ex, x_Template ex) |ex. ex \<in> set (buildRawMappings raws cmds)}
      \<longleftrightarrow> (\<exists>i st. i < length cmds \<and> cmds ! i \<noteq> [] \<and> t = cmds ! i \<and> st \<in> set (contexts cmds i) \<and> nonEmptyStrs st = s)" for s t
  proof -
    have "(s, t) \<in> {(x_State ex, x_Template ex) |ex. ex \<in> set (buildRawMappings raws cmds)}
        \<longleftrightarrow> (\<exists>r. \<exists>ex\<in>set (buildRawMappings raws cmds). x_State ex = s \<and> x_Template ex = t \<and> x_Raw ex = r)" by auto
    also have "\<dots> \<longleftrightarrow> (\<exists>i st. i < length cmds \<and> cmds ! i \<noteq> [] \<and> t = cmds ! i \<and> st \<in> set (contexts cmds i) \<and> nonEmptyStrs st = s)"
      unfolding mem_buildRawMappings [OF assms(1,2)] using raw by (auto simp: observedRaws_def)
    finally show ?thesis .
  qed
  have right: "(s, t) \<in> {(nonEmptyStrs (t_State t), t_Next t) |t. t \<in> set (buildTransitions now cmds)}
      \<longleftrightarrow> (\<exists>i st. i < length cmds \<and> cmds ! i \<noteq> [] \<and> t = cmds ! i \<and> st \<in> set (contexts cmds i) \<and> nonEmptyStrs st = s)" for s t
  proof
    assume "(s, t) \<in> {(nonEmptyStrs (t_State t), t_Next t) |t. t \<in> set (buildTransitions now cmds)}"
    then obtain tr where tr: "tr \<in> set (buildTransitions now cmds)" "s = nonEmptyStrs (t_State tr)" "t = t_Next tr" by blast
    obtain sk nxt where item: "places cmds (length cmds) sk nxt \<noteq> {}"
      "tr = itemTransition (sk, nxt, histEntry now (card (places cmds (length cmds) sk nxt)))"
      using mem_buildTransitions [OF assms(4,5)] tr(1) by blast
    then have pl: "places cmds (length cmds) sk nxt \<noteq> {}" "t_Next tr = nxt" "t_State tr = Split sk NUL"
      by (simp_all add: itemTransition_def entryToTransition_def)
    then obtain i st where i: "i < length cmds" "nxt \<noteq> []" "cmds ! i = nxt" "st \<in> set (contexts cmds i)" "sk = stateKey st"
      by (auto simp: places_def)
    have "t_State tr = st" using contexts_plain [OF assms(1) i(1,4)] Split_stateKey [of st] pl(3) i(5)
      by (simp add: plainState_def)
    then show "\<exists>i st. i < length cmds \<and> cmds ! i \<noteq> [] \<and> t = cmds ! i \<and> st \<in> set (contexts cmds i) \<and> nonEmptyStrs st = s"
      using i tr pl(2) by blast
  next
    assume "\<exists>i st. i < length cmds \<and> cmds ! i \<noteq> [] \<and> t = cmds ! i \<and> st \<in> set (contexts cmds i) \<and> nonEmptyStrs st = s"
    then obtain i st where i: "i < length cmds" "cmds ! i \<noteq> []" "t = cmds ! i" "st \<in> set (contexts cmds i)" "nonEmptyStrs st = s"
      by blast
    from built_transition [OF assms(1,4,5) i(1,2,4)] obtain tr where
      "tr \<in> set (buildTransitions now cmds)" "t_State tr = st" "t_Next tr = cmds ! i" by blast
    then show "(s, t) \<in> {(nonEmptyStrs (t_State t), t_Next t) |t. t \<in> set (buildTransitions now cmds)}"
      using i(3,5) by (intro CollectI exI [of _ tr]) simp
  qed
  show ?thesis
  proof (rule set_eqI)
    fix p :: "string list \<times> string"
    show "p \<in> {(x_State ex, x_Template ex) |ex. ex \<in> set (buildRawMappings raws cmds)}
        \<longleftrightarrow> p \<in> {(nonEmptyStrs (t_State t), t_Next t) |t. t \<in> set (buildTransitions now cmds)}"
      by (cases p) (simp only: left right)
  qed
qed

theorem import_raws_match_witness:
  "\<exists>ex\<in>set (buildRawMappings [''ls -l'', ''make''] [''ls FLAG'', ''make'']). x_State ex = [''ls FLAG''] \<and> x_Template ex = ''make''"
proof -
  let ?c = "[''ls FLAG'', ''make'']" and ?r = "[''ls -l'', ''make'']"
  have a: "plains ?c" "length ?c = length ?r" "[] \<notin> set ?r" "(0 :: int) < 5" "int (length ?c) < maxInt64"
    by (simp_all add: plain_def)
  have "[''ls FLAG''] \<in> set (contexts ?c 1)"
    by (simp add: contexts_def window_def BackoffStates_def appendIfInformative_def)
  from built_transition [OF a(1,4,5) _ _ this] obtain t where
    "t \<in> set (buildTransitions 5 ?c)" "t_State t = [''ls FLAG'']" "t_Next t = ''make''" by auto
  then have "([''ls FLAG''], ''make'') \<in> {(nonEmptyStrs (t_State t), t_Next t) |t. t \<in> set (buildTransitions 5 ?c)}"
    by (auto intro!: exI [of _ t] simp: nonEmptyStrs_def)
  then have "([''ls FLAG''], ''make'') \<in> {(x_State ex, x_Template ex) |ex. ex \<in> set (buildRawMappings ?r ?c)}"
    unfolding import_raws_match [OF a] .
  then obtain ex where "ex \<in> set (buildRawMappings ?r ?c)" "([''ls FLAG''], ''make'') = (x_State ex, x_Template ex)" by blast
  then show ?thesis by (intro bexI [of _ ex]) simp_all
qed

subsection \<open>The whole import\<close>

definition sendTo :: "world \<Rightarrow> string \<Rightarrow> request \<Rightarrow> daemon \<Rightarrow> string option \<times> daemon" where
  \<comment> \<open>\<open>sendRequest\<close> to a daemon that answers, of which the import only keeps the error\<close>
  "sendTo w socket req d =
     (let (r, d') = sendRequest w socket None req d in (case r of Inl e \<Rightarrow> Some e | Inr _ \<Rightarrow> None, d'))"

lemma lookup_mergeOne_kept: "lookupEntry g sk n \<noteq> None \<Longrightarrow> lookupEntry (mergeOne t g) sk n \<noteq> None"
  by (simp add: lookup_mergeOne)

lemma lookup_fold_merge:
  "lookupEntry g sk n \<noteq> None \<or> (\<exists>t\<in>set ts. transitionKey t = (sk, n)) \<Longrightarrow> lookupEntry (fold mergeOne ts g) sk n \<noteq> None"
proof (induction ts arbitrary: g)
  case (Cons t ts)
  have "lookupEntry (mergeOne t g) sk n \<noteq> None \<or> (\<exists>t\<in>set ts. transitionKey t = (sk, n))"
    using Cons.prems by (auto simp: lookup_mergeOne)
  from Cons.IH [OF this] show ?case by simp
qed simp

lemma lookup_mergeExamples_mem:
  assumes "ex \<in> set exs" "x_Template ex \<noteq> []" "x_Raw ex \<noteq> []"
  shows "tlLookup (rs_m (mergeExamples exs now s)) (rawOuterKey (x_State ex) (x_Template ex)) (x_Raw ex) \<noteq> None"
proof -
  obtain as bs where exs: "exs = as @ ex # bs" using assms(1) by (meson split_list)
  let ?s = "mergeExample now ex (mergeExamples as now s)"
  have "tlLookup (rs_m ?s) (rawOuterKey (x_State ex) (x_Template ex)) (x_Raw ex) \<noteq> None"
    using assms(2,3) by (simp add: mergeExample_def Let_def tlLookup_modify)
  moreover have "mergeExamples exs now s = mergeExamples bs now ?s" by (simp add: mergeExamples_def exs)
  ultimately show ?thesis using rawsLe_mergeExamples [of ?s bs now] by (simp add: rawsLe_def)
qed

lemma buildTransitions_valid:
  assumes "0 < now" "int (length cmds) < maxInt64" "t \<in> set (buildTransitions now cmds)"
  shows "validTransition t" "t_LastSeen t = now"
proof -
  obtain sk nxt where t: "places cmds (length cmds) sk nxt \<noteq> {}"
    "t = itemTransition (sk, nxt, histEntry now (card (places cmds (length cmds) sk nxt)))"
    using mem_buildTransitions [OF assms(1,2)] assms(3) by blast
  then have "0 < card (places cmds (length cmds) sk nxt)" "nxt \<noteq> []" by (auto simp: card_gt_0_iff places_def)
  then show "validTransition t" "t_LastSeen t = now"
    by (simp_all add: t(2) itemTransition_def entryToTransition_def validTransition_def histEntry_def)
qed

definition historySeed :: "gotime \<Rightarrow> string list \<Rightarrow> seed" where
  "historySeed now cmds = \<lparr>sd_Version = 1, sd_Source = ''hunch import-history'', sd_GeneratedAt = now,
     sd_Transitions = buildTransitions now cmds\<rparr>"

lemma historySeed_valid:
  assumes "plains cmds" "0 < now" "int (length cmds) < maxInt64" "i < length cmds" "cmds ! i \<noteq> []"
  shows "seedValidate (historySeed now cmds) = None"
    and "Merge (buildTransitions now cmds) g = Inr (fold mergeOne (buildTransitions now cmds) g)"
proof -
  have "hd (contexts cmds i) \<in> set (contexts cmds i)"
    by (rule hd_in_set) (simp add: contexts_def BackoffStates_hd)
  from built_transition [OF assms this] have "buildTransitions now cmds \<noteq> []" by auto
  moreover have "\<forall>t\<in>set ts. \<not> IsZero (t_LastSeen t) \<Longrightarrow> seedCheckFrom k ts = None" for k ts
    by (induction ts arbitrary: k) simp_all
  ultimately show "seedValidate (historySeed now cmds) = None"
    using buildTransitions_valid(2) [OF assms(2,3)] assms(2) by (simp add: seedValidate_def historySeed_def IsZero_def)
  show "Merge (buildTransitions now cmds) g = Inr (fold mergeOne (buildTransitions now cmds) g)"
    using buildTransitions_valid(1) [OF assms(2,3)] by (simp add: Merge_Inr)
qed

definition afterImport :: "world \<Rightarrow> gotime \<Rightarrow> string list \<Rightarrow> string list \<Rightarrow> daemon \<Rightarrow> daemon" where
  \<comment> \<open>what the two requests make of the daemon\<close>
  "afterImport w now raws cmds d =
     (let d1 = storePredictor (flush w (setGraph (fold mergeOne (buildTransitions now cmds) (graphOf d)) d))
      in d1\<lparr>dm_raws := mergeExamples (buildRawMappings raws cmds) (wo_now w) (dm_raws d1)\<rparr>)"

lemma afterImport_knows:
  assumes "plains cmds" "0 < now" "int (length cmds) < maxInt64" "length cmds = length raws"
    and i: "i < length cmds" "cmds ! i \<noteq> []" "raws ! i \<noteq> []" "st \<in> set (contexts cmds i)"
  shows "lookupEntry (graphOf (afterImport w now raws cmds d)) (stateKey st) (cmds ! i) \<noteq> None"
    and "tlLookup (rs_m (dm_raws (afterImport w now raws cmds d))) (rawOuterKey st (cmds ! i)) (raws ! i) \<noteq> None"
proof -
  obtain t where t: "t \<in> set (buildTransitions now cmds)" "t_State t = st" "t_Next t = cmds ! i"
    using built_transition [OF assms(1-3) i(1,2,4)] by blast
  have "graphOf (d1\<lparr>dm_raws := r\<rparr>) = graphOf d1" for d1 r by (simp add: graphOf_def)
  then have "graphOf (afterImport w now raws cmds d) = fold mergeOne (buildTransitions now cmds) (graphOf d)"
    by (simp add: afterImport_def Let_def)
  moreover have "transitionKey t = (stateKey st, cmds ! i)" using t by (simp add: transitionKey_def)
  ultimately show "lookupEntry (graphOf (afterImport w now raws cmds d)) (stateKey st) (cmds ! i) \<noteq> None"
    using lookup_fold_merge t(1) by metis
  have "(st, cmds ! i, raws ! i) \<in> observedRaws cmds raws (length cmds)"
    using i by (auto simp: observedRaws_def)
  then obtain ex where ex: "ex \<in> set (buildRawMappings raws cmds)" "x_State ex = nonEmptyStrs st"
    "x_Template ex = cmds ! i" "x_Raw ex = raws ! i"
    using mem_buildRawMappings [OF assms(1,4), of "nonEmptyStrs st" "cmds ! i" "raws ! i"] by blast
  then show "tlLookup (rs_m (dm_raws (afterImport w now raws cmds d))) (rawOuterKey st (cmds ! i)) (raws ! i) \<noteq> None"
    using lookup_mergeExamples_mem [OF ex(1), of "wo_now w" "dm_raws d"] i(2,3) rawOuterKey_nonEmpty [of st "cmds ! i"]
    by (simp add: afterImport_def Let_def)
qed

lemma runImport_daemon:
  assumes "parseZshHistory file = Inr raws" "raws \<noteq> []" "normalizeConcurrent schedule raws = cmds" "socket \<noteq> []"
    and "encode (historySeed now cmds) \<noteq> []" "wo_decodeSeed w (encode (historySeed now cmds)) = Inr (historySeed now cmds)"
    and "seedValidate (historySeed now cmds) = None"
      "Merge (buildTransitions now cmds) (graphOf d) = Inr (fold mergeOne (buildTransitions now cmds) (graphOf d))"
  shows "runImport encode (sendTo w socket) now schedule file d = (None, afterImport w now raws cmds d)"
proof -
  let ?d1 = "storePredictor (flush w (setGraph (fold mergeOne (buildTransitions now cmds) (graphOf d)) d))"
  have "sendTo w socket (sendSeed encode now (buildTransitions now cmds)) d = (None, ?d1)"
    using assms(4-8) by (simp add: sendTo_def sendRequest_def sendSeed_def handleConn_def dispatch_def
        handleImport_def importSeedFromBytes_def historySeed_def)
  moreover have "sendTo w socket (sendRawExamples (buildRawMappings raws cmds)) ?d1 = (None, afterImport w now raws cmds d)"
    using assms(4) by (simp add: sendTo_def sendRequest_def sendRawExamples_def handleConn_def dispatch_def
        handleRecordRaws_def afterImport_def)
  ultimately show ?thesis using assms(1-3) by (simp add: runImport_def)
qed

text \<open>C15: Importing a history end to end: from a history that parses and is not empty of commands, whatever
  the schedule of the threads, the import reports no error, and afterwards the daemon knows every
  command of the history under every context it occurred in, both as a transition of the graph and as
  a raw command that can be offered. Relied on: the JSON of the seed decodes to the seed.\<close>

theorem import_history:
  assumes "parseZshHistory file = Inr raws" "plains raws" "0 < now" "int (length raws) < maxInt64" "socket \<noteq> []"
    and sched: "set schedule = {..<length raws}"
    and cmds: "cmds = map (\<lambda>raw. Normalize raw (Some DefaultParents)) raws" "k < length cmds" "cmds ! k \<noteq> []"
    and json: "encode (historySeed now cmds) \<noteq> []"
      "wo_decodeSeed w (encode (historySeed now cmds)) = Inr (historySeed now cmds)"
  shows "\<exists>d'. runImport encode (sendTo w socket) now schedule file d = (None, d')
    \<and> (\<forall>i st. i < length raws \<longrightarrow> cmds ! i \<noteq> [] \<longrightarrow> raws ! i \<noteq> [] \<longrightarrow> st \<in> set (contexts cmds i) \<longrightarrow>
         lookupEntry (graphOf d') (stateKey st) (cmds ! i) \<noteq> None
       \<and> tlLookup (rs_m (dm_raws d')) (rawOuterKey st (cmds ! i)) (raws ! i) \<noteq> None)"
proof -
  have len: "length cmds = length raws" "int (length cmds) < maxInt64" using assms(4) by (simp_all add: cmds(1))
  have pl: "plains cmds" using assms(2) Normalize_plain by (auto simp: cmds(1) plains_def)
  have norms: "normalizeConcurrent schedule raws = cmds" unfolding cmds(1) by (rule normalizeConcurrent_map [OF sched])
  have "raws \<noteq> []" using cmds(2) len(1) by auto
  then have "runImport encode (sendTo w socket) now schedule file d = (None, afterImport w now raws cmds d)"
    by (intro runImport_daemon assms(1,5) norms json historySeed_valid [OF pl assms(3) len(2) cmds(2,3)])
  then show ?thesis using afterImport_knows [OF pl assms(3) len(2,1)] len(1) by auto
qed

definition demoHistory :: string where
  "demoHistory = concat (map historyLine [('' 17'', ''0'', ''ls''), ('' 18'', ''2'', ''make'')])"

theorem import_history_witness:
  "\<exists>d'. runImport (\<lambda>_. ''{}'') (sendTo (demoWorld\<lparr>wo_decodeSeed := (\<lambda>_. Inr (historySeed 5 [''ls'', ''make'']))\<rparr>) ''/run/hunch.sock'')
      5 [1, 0] (Inr demoHistory) demoDaemon = (None, d')
    \<and> lookupEntry (graphOf d') ''ls'' ''make'' \<noteq> None"
proof -
  have ls: "map (\<lambda>raw. Normalize raw (Some DefaultParents)) [''ls'', ''make''] = [''ls'', ''make'']" by code_simp
  have parsed: "parseZshHistory (Inr demoHistory) = Inr [''ls'', ''make'']"
    using parse_history_lines [of "[('' 17'', ''0'', ''ls''), ('' 18'', ''2'', ''make'')]"]
    by (simp add: demoHistory_def lineOk_def maxHistoryLine_def)
  have sched: "set [1, 0] = {..<length [''ls'', ''make'']}" by auto
  have p: "plains [''ls'', ''make'']" by (simp add: plain_def)
  have c: "[''ls''] \<in> set (contexts [''ls'', ''make''] 1)"
    by (simp add: contexts_def window_def BackoffStates_def appendIfInformative_def)
  let ?w = "demoWorld\<lparr>wo_decodeSeed := (\<lambda>_. Inr (historySeed 5 [''ls'', ''make'']))\<rparr>"
  have "\<exists>d'. runImport (\<lambda>_. ''{}'') (sendTo ?w ''/run/hunch.sock'') 5 [1, 0] (Inr demoHistory) demoDaemon = (None, d')
    \<and> (\<forall>i st. i < length [''ls'', ''make''] \<longrightarrow> [''ls'', ''make''] ! i \<noteq> [] \<longrightarrow> [''ls'', ''make''] ! i \<noteq> [] \<longrightarrow>
         st \<in> set (contexts [''ls'', ''make''] i) \<longrightarrow>
         lookupEntry (graphOf d') (stateKey st) ([''ls'', ''make''] ! i) \<noteq> None
       \<and> tlLookup (rs_m (dm_raws d')) (rawOuterKey st ([''ls'', ''make''] ! i)) ([''ls'', ''make''] ! i) \<noteq> None)"
    by (rule import_history [OF parsed p _ _ _ sched ls [symmetric], of _ _ 0]) simp_all
  then obtain d' where d': "runImport (\<lambda>_. ''{}'') (sendTo ?w ''/run/hunch.sock'') 5 [1, 0] (Inr demoHistory) demoDaemon = (None, d')"
    and all: "\<And>i st. i < length [''ls'', ''make''] \<Longrightarrow> [''ls'', ''make''] ! i \<noteq> [] \<Longrightarrow>
         st \<in> set (contexts [''ls'', ''make''] i) \<Longrightarrow>
         lookupEntry (graphOf d') (stateKey st) ([''ls'', ''make''] ! i) \<noteq> None" by blast
  have "lookupEntry (graphOf d') ''ls'' ''make'' \<noteq> None" using all [OF _ _ c] by (simp add: stateKey_def)
  with d' show ?thesis by blast
qed

end
