(* ===== verification/Rc_File.thy ===== *)
theory Rc_File
  imports Go_Text
begin

text \<open>
  The lines hunch keeps in the user's .zshrc: \<open>appendToRc\<close> of cli/init.go writes them,
  \<open>removeRcLine\<close> of cli/uninstall.go takes them out and \<open>hasHunchSourceLine\<close> of cli/doctor.go looks for
  them. A file is its text; what reading it gives is \<open>rcRead\<close>.
\<close>

datatype rcRead = RcMissing | RcError string | RcText string

definition QUOTE :: string where "QUOTE = [CHR 0x22]"

definition beginMark :: string where "beginMark = ''# BEGIN hunch config''"
definition endMark :: string where "endMark = ''# END hunch config''"

subsection \<open>Installing\<close>

definition rcBlock :: "string \<Rightarrow> string \<Rightarrow> string" where
  "rcBlock binDir sourceLine =
     beginMark @ [LF] @ ''export PATH='' @ QUOTE @ ''$PATH:'' @ binDir @ QUOTE @ [LF] @ ''source '' @ sourceLine
       @ [LF] @ endMark"

definition appendBlock :: "string \<Rightarrow> string \<Rightarrow> string \<Rightarrow> string option" where
  \<comment> \<open>the new content; \<open>None\<close>: the source line is there already\<close>
  "appendBlock binDir sourceLine content =
     (if Contains content sourceLine then None
      else let content' = (if content \<noteq> [] \<and> \<not> HasSuffix content [LF] then content @ [LF] else content)
           in Some (content' @ [LF] @ rcBlock binDir sourceLine @ [LF]))"

definition appendToRc ::
  "string + string \<Rightarrow> string option \<Rightarrow> rcRead \<Rightarrow> string option \<Rightarrow> string option \<Rightarrow> string \<Rightarrow> string option \<times> rcRead" where
  \<comment> \<open>the path of the executable and the errors of creating the directory, of writing the temporary
      file and of renaming it, as the system gives them; then the error returned and the file left\<close>
  "appendToRc exe mkdirErr rc writeErr renameErr sourceLine =
     (case exe of
        Inl e \<Rightarrow> (Some (''get executable path: '' @ e), rc)
      | Inr execPath \<Rightarrow>
          (case mkdirErr of
             Some e \<Rightarrow> (Some (''create parent directory: '' @ e), rc)
           | None \<Rightarrow>
               (case rc of
                  RcError e \<Rightarrow> (Some e, rc)
                | _ \<Rightarrow>
                    (case appendBlock (Dir execPath) sourceLine (case rc of RcText s \<Rightarrow> s | _ \<Rightarrow> []) of
                       None \<Rightarrow> (None, rc)
                     | Some content \<Rightarrow>
                         (case writeErr of
                            Some e \<Rightarrow> (Some e, rc)
                          | None \<Rightarrow>
                              (case renameErr of Some e \<Rightarrow> (Some e, rc) | None \<Rightarrow> (None, RcText content)))))))"

subsection \<open>Uninstalling\<close>

definition sourcesHunch :: "string \<Rightarrow> bool" where
  \<comment> \<open>of a trimmed line\<close>
  "sourcesHunch trimmed \<longleftrightarrow> Contains trimmed ''hunch'' \<and>
     (HasPrefix trimmed ''source '' \<or> HasPrefix trimmed ''. '' \<or> HasPrefix trimmed ''Import-Module '')"

fun rcLoop :: "bool \<Rightarrow> bool \<Rightarrow> string list \<Rightarrow> string list \<Rightarrow> string list \<times> bool" where
  \<comment> \<open>\<open>inHunchBlock\<close>, \<open>changed\<close> and \<open>lines\<close>\<close>
  "rcLoop inBlock changed kept [] = (kept, changed)"
| "rcLoop inBlock changed kept (line # rest) =
     (let trimmed = TrimSpace line in
      if Contains trimmed beginMark then rcLoop True True kept rest
      else if Contains trimmed endMark then rcLoop False changed kept rest
      else if inBlock then rcLoop inBlock changed kept rest
      else if sourcesHunch trimmed then rcLoop inBlock True kept rest
      else rcLoop inBlock changed (kept @ [line]) rest)"

definition removeRcLine :: "rcRead \<Rightarrow> string option \<Rightarrow> (string + bool) \<times> rcRead" where
  \<comment> \<open>the error or whether the file changed, and the file left\<close>
  "removeRcLine rc writeErr =
     (case rc of
        RcMissing \<Rightarrow> (Inr False, rc)
      | RcError e \<Rightarrow> (Inl e, rc)
      | RcText content \<Rightarrow>
          (let (kept, changed) = rcLoop False False [] (Split content LF)
           in if \<not> changed then (Inr False, rc)
              else case writeErr of Some e \<Rightarrow> (Inl e, rc) | None \<Rightarrow> (Inr True, RcText (Join kept [LF]))))"

subsection \<open>Checking\<close>

fun sourceLineIn :: "string list \<Rightarrow> bool" where
  "sourceLineIn [] = False"
| "sourceLineIn (line # rest) =
     (let trimmed = TrimSpace line in
      if HasPrefix trimmed ''#'' then sourceLineIn rest
      else if \<not> Contains trimmed ''hunch'' then sourceLineIn rest
      else if HasPrefix trimmed ''source '' \<or> HasPrefix trimmed ''. '' \<or> HasPrefix trimmed ''Import-Module '' then True
      else sourceLineIn rest)"

definition hasHunchSourceLine :: "string \<Rightarrow> bool" where
  "hasHunchSourceLine content = sourceLineIn (Split content LF)"

lemma rc_examples:
  "hasHunchSourceLine (''# source /x/hunch.zsh'' @ [LF] @ ''  source /x/hunch.zsh'')"
  "\<not> hasHunchSourceLine ''# source /x/hunch.zsh''"
  by code_simp+

subsection \<open>What the loop keeps\<close>

definition marked :: "string \<Rightarrow> bool" where
  \<comment> \<open>a line the loop treats specially outside a block\<close>
  "marked line \<longleftrightarrow> Contains (TrimSpace line) beginMark \<or> Contains (TrimSpace line) endMark \<or> sourcesHunch (TrimSpace line)"

text \<open>What the loop does from here on, apart from what it has kept and noted before.\<close>

lemma rcLoop_acc:
  "rcLoop b c kept ls = (kept @ fst (rcLoop b False [] ls), c \<or> snd (rcLoop b False [] ls))"
proof (induction ls arbitrary: b c kept)
  case (Cons x ls)
  define t where "t = TrimSpace x"
  consider "Contains t beginMark" | "\<not> Contains t beginMark" "Contains t endMark"
    | "\<not> Contains t beginMark" "\<not> Contains t endMark" "b"
    | "\<not> Contains t beginMark" "\<not> Contains t endMark" "\<not> b" "sourcesHunch t"
    | "\<not> Contains t beginMark" "\<not> Contains t endMark" "\<not> b" "\<not> sourcesHunch t" by blast
  then show ?case
  proof cases
    case 1
    then show ?thesis using Cons.IH [of True True kept] Cons.IH [of True True "[]"] by (simp add: t_def Let_def)
  next
    case 2
    then show ?thesis using Cons.IH [of False c kept] by (simp add: t_def Let_def)
  next
    case 3
    then show ?thesis using Cons.IH [of b c kept] by (simp add: t_def Let_def)
  next
    case 4
    then show ?thesis using Cons.IH [of False True kept] Cons.IH [of False True "[]"] by (simp add: t_def Let_def)
  next
    case 5
    then show ?thesis using Cons.IH [of False c "kept @ [x]"] Cons.IH [of False False "[x]"] by (simp add: t_def Let_def)
  qed
qed simp

abbreviation keptOf :: "bool \<Rightarrow> string list \<Rightarrow> string list" where "keptOf b ls \<equiv> fst (rcLoop b False [] ls)"
abbreviation changedOf :: "bool \<Rightarrow> string list \<Rightarrow> bool" where "changedOf b ls \<equiv> snd (rcLoop b False [] ls)"

lemma keptOf_Cons:
  "keptOf b (x # ls) =
     (if Contains (TrimSpace x) beginMark then keptOf True ls
      else if Contains (TrimSpace x) endMark then keptOf False ls
      else if b then keptOf True ls
      else if sourcesHunch (TrimSpace x) then keptOf False ls
      else x # keptOf False ls)"
  using rcLoop_acc [of True True "[]" ls] rcLoop_acc [of False True "[]" ls] rcLoop_acc [of False False "[x]" ls]
  by (simp add: Let_def)

lemma changedOf_Cons:
  "changedOf b (x # ls) =
     (if Contains (TrimSpace x) beginMark then True
      else if Contains (TrimSpace x) endMark then changedOf False ls
      else if b then changedOf True ls
      else if sourcesHunch (TrimSpace x) then True
      else changedOf False ls)"
  using rcLoop_acc [of True True "[]" ls] rcLoop_acc [of False True "[]" ls] rcLoop_acc [of False False "[x]" ls]
  by (simp add: Let_def)

lemma loop_Nil: "keptOf b [] = []" "changedOf b [] = False"
  by simp_all

declare rcLoop.simps [simp del]

lemma keptOf_same: "\<forall>l\<in>set ls. \<not> marked l \<Longrightarrow> keptOf False (ls @ rest) = ls @ keptOf False rest"
  by (induction ls) (auto simp: keptOf_Cons marked_def)

lemma keptOf_no_source: "l \<in> set (keptOf b ls) \<Longrightarrow> \<not> sourcesHunch (TrimSpace l) \<and> l \<in> set ls"
  by (induction ls arbitrary: b) (auto simp: keptOf_Cons loop_Nil split: if_splits)

lemma unchanged_no_source:
  "\<not> changedOf False ls \<Longrightarrow> l \<in> set ls \<Longrightarrow> \<not> sourcesHunch (TrimSpace l) \<or> Contains (TrimSpace l) endMark"
  by (induction ls) (auto simp: changedOf_Cons split: if_splits)

lemma sourceLineIn_none: "\<forall>l\<in>set ls. \<not> sourcesHunch (TrimSpace l) \<Longrightarrow> \<not> sourceLineIn ls"
  by (induction ls) (auto simp: Let_def sourcesHunch_def)

lemma sourceLineIn_mem:
  "l \<in> set ls \<Longrightarrow> sourcesHunch (TrimSpace l) \<Longrightarrow> \<not> HasPrefix (TrimSpace l) ''#'' \<Longrightarrow> sourceLineIn ls"
  by (induction ls) (auto simp: Let_def sourcesHunch_def)

text \<open>Which lines the loop keeps, by their place in the file: those that are no marker and source no hunch, and
  before which no block has been opened that is still open.\<close>

definition opensBlock :: "string \<Rightarrow> bool" where
  "opensBlock line \<longleftrightarrow> Contains (TrimSpace line) beginMark"

definition closesBlock :: "string \<Rightarrow> bool" where
  "closesBlock line \<longleftrightarrow> Contains (TrimSpace line) endMark \<and> \<not> opensBlock line"

definition insideBlock :: "string list \<Rightarrow> nat \<Rightarrow> bool" where
  "insideBlock ls i \<longleftrightarrow> (\<exists>j<i. opensBlock (ls ! j) \<and> (\<forall>k<i. j < k \<longrightarrow> \<not> closesBlock (ls ! k)))"

lemma insideBlock_0 [simp]: "\<not> insideBlock ls 0"
  by (simp add: insideBlock_def)

lemma insideBlock_Suc:
  "insideBlock (x # ls) (Suc i) \<longleftrightarrow> insideBlock ls i \<or> opensBlock x \<and> (\<forall>k<i. \<not> closesBlock (ls ! k))"
proof
  assume "insideBlock (x # ls) (Suc i)"
  then obtain j where j: "j < Suc i" "opensBlock ((x # ls) ! j)" "\<forall>k<Suc i. j < k \<longrightarrow> \<not> closesBlock ((x # ls) ! k)"
    unfolding insideBlock_def by blast
  have later: "\<not> closesBlock (ls ! k)" if "k < i" "j < Suc k" for k using j(3) [rule_format, of "Suc k"] that by simp
  show "insideBlock ls i \<or> opensBlock x \<and> (\<forall>k<i. \<not> closesBlock (ls ! k))"
    using j(1,2) later by (cases j) (auto simp: insideBlock_def)
next
  assume "insideBlock ls i \<or> opensBlock x \<and> (\<forall>k<i. \<not> closesBlock (ls ! k))"
  then show "insideBlock (x # ls) (Suc i)"
  proof
    assume "insideBlock ls i"
    then obtain j where j: "j < i" "opensBlock (ls ! j)" "\<forall>k<i. j < k \<longrightarrow> \<not> closesBlock (ls ! k)"
      unfolding insideBlock_def by blast
    have "\<not> closesBlock ((x # ls) ! k)" if "k < Suc i" "Suc j < k" for k using j(3) that by (cases k) auto
    then show ?thesis using j(1,2) unfolding insideBlock_def by (intro exI [of _ "Suc j"]) simp
  next
    assume a: "opensBlock x \<and> (\<forall>k<i. \<not> closesBlock (ls ! k))"
    have "\<not> closesBlock ((x # ls) ! k)" if "k < Suc i" "0 < k" for k using a that by (cases k) auto
    then show ?thesis using a unfolding insideBlock_def by (intro exI [of _ 0]) simp
  qed
qed

definition keepsLine :: "bool \<Rightarrow> string list \<Rightarrow> nat \<Rightarrow> bool" where
  \<comment> \<open>the flag: the first line is in a block already\<close>
  "keepsLine b ls i \<longleftrightarrow> \<not> insideBlock ls i \<and> (b \<longrightarrow> (\<exists>k<i. closesBlock (ls ! k))) \<and> \<not> marked (ls ! i)"

lemma keepsLine_Suc:
  "keepsLine b (x # ls) (Suc i) \<longleftrightarrow> keepsLine (opensBlock x \<or> b \<and> \<not> closesBlock x) ls i"
proof -
  have "(\<exists>k<Suc i. closesBlock ((x # ls) ! k)) \<longleftrightarrow> closesBlock x \<or> (\<exists>k<i. closesBlock (ls ! k))"
    by (auto simp: less_Suc_eq_0_disj)
  moreover have "closesBlock x \<Longrightarrow> \<not> opensBlock x" by (simp add: closesBlock_def)
  ultimately show ?thesis unfolding keepsLine_def insideBlock_Suc by auto
qed

lemma keptOf_lines: "keptOf b ls = nths ls {i. keepsLine b ls i}"
proof (induction ls arbitrary: b)
  case (Cons x ls)
  have zero: "keepsLine b (x # ls) 0 \<longleftrightarrow> \<not> b \<and> \<not> marked x" by (simp add: keepsLine_def)
  show ?case
    unfolding keptOf_Cons Cons.IH nths_Cons mem_Collect_eq zero keepsLine_Suc
    by (auto simp: opensBlock_def closesBlock_def marked_def)
qed (simp add: loop_Nil)

lemma changedOf_lines:
  "changedOf False ls \<longleftrightarrow> (\<exists>l\<in>set ls. opensBlock l \<or> sourcesHunch (TrimSpace l) \<and> \<not> Contains (TrimSpace l) endMark)"
  by (induction ls) (auto simp: changedOf_Cons loop_Nil opensBlock_def)

lemma removeRcLine_exact:
  "snd (removeRcLine rc writeErr) =
     (case rc of
        RcText content \<Rightarrow>
          if writeErr = None \<and> (\<exists>l\<in>set (Split content LF). opensBlock l \<or> sourcesHunch (TrimSpace l) \<and> \<not> Contains (TrimSpace l) endMark)
          then RcText (Join (nths (Split content LF) {i. \<not> insideBlock (Split content LF) i \<and> \<not> marked (Split content LF ! i)}) [LF])
          else rc
      | _ \<Rightarrow> rc)"
proof (cases rc)
  case (RcText content)
  obtain kept changed where loop: "rcLoop False False [] (Split content LF) = (kept, changed)" by fastforce
  then have "kept = nths (Split content LF) {i. \<not> insideBlock (Split content LF) i \<and> \<not> marked (Split content LF ! i)}"
    "changed \<longleftrightarrow> (\<exists>l\<in>set (Split content LF). opensBlock l \<or> sourcesHunch (TrimSpace l) \<and> \<not> Contains (TrimSpace l) endMark)"
    using keptOf_lines [of False "Split content LF"] changedOf_lines [of "Split content LF"] by (simp_all add: keepsLine_def)
  then show ?thesis using RcText loop by (auto simp: removeRcLine_def split: option.split)
qed (simp_all add: removeRcLine_def)

subsection \<open>Trimming the lines of the block\<close>

definition solid :: "char \<Rightarrow> bool" where
  \<comment> \<open>an ASCII character that is not white space\<close>
  "solid c \<longleftrightarrow> of_char c < (128 :: nat) \<and> c \<notin> {TAB, LF, VT, FF, CR, CHR '' ''}"

lemma spaceRunes_ends: "w \<in> set spaceRunes \<Longrightarrow> \<not> solid (hd w) \<and> \<not> solid (last w)"
  by (auto simp: spaceRunes_def solid_def)

lemma TrimSpace_solid:
  assumes "s \<noteq> []" "solid (hd s)" "solid (last s)"
  shows "TrimSpace s = s"
proof -
  have "find (\<lambda>w. prefix w s) spaceRunes = None"
    unfolding find_None_iff using spaceRunes_ends spaceRunes_nonempty assms(1,2) by (metis hd_append2 prefix_def)
  then have l: "TrimLeft s = s" by (simp add: TrimLeft.simps spaceAt_def)
  have "find (\<lambda>w. suffix w s) spaceRunes = None"
    unfolding find_None_iff using spaceRunes_ends spaceRunes_nonempty assms(1,3) by (metis last_appendR suffix_def)
  then have "TrimRight s = s" by (simp add: TrimRight.simps spaceAtEnd_def)
  with l show ?thesis by (simp add: TrimSpace_def)
qed

subsection \<open>Properties\<close>

definition quietPath :: "string \<Rightarrow> bool" where
  "quietPath p \<longleftrightarrow> CHR ''#'' \<notin> set p \<and> LF \<notin> set p"

lemma ended_lines:
  assumes "s = [] \<or> last s = LF"
  shows "\<exists>ls. (\<forall>l\<in>set ls. LF \<notin> set l) \<and> s = concat (map (\<lambda>l. l @ [LF]) ls) \<and> set ls \<subseteq> set (Split s LF)"
proof -
  obtain ls w where lw: "Split s LF = ls @ [w]" by (metis Split_nonempty rev_exhaust)
  have LF: "\<forall>l\<in>set (ls @ [w]). LF \<notin> set l" using Split_parts lw by metis
  have body: "s = concat (map (\<lambda>l. l @ [LF]) ls) @ w" using Join_Split [of s LF] Join_lines lw by metis
  have "w = []"
  proof (rule ccontr)
    assume w: "w \<noteq> []"
    then have "last s = last w" "s \<noteq> []" using body by simp_all
    with assms LF w show False by (metis in_set_conv_decomp last_in_set list.set_intros(1))
  qed
  then show ?thesis using body LF lw by auto
qed

definition endedText :: "string \<Rightarrow> string" where
  "endedText content = (if content \<noteq> [] \<and> \<not> HasSuffix content [LF] then content @ [LF] else content)"

lemma endedText_lines:
  "\<exists>ls. (\<forall>l\<in>set ls. LF \<notin> set l) \<and> endedText content = concat (map (\<lambda>l. l @ [LF]) ls)
     \<and> set ls \<subseteq> set (Split content LF)"
proof (cases "content \<noteq> [] \<and> \<not> HasSuffix content [LF]")
  case False
  then have "content = [] \<or> last content = LF" by (auto simp: suffix_def)
  with ended_lines [of content] show ?thesis using False by (auto simp: endedText_def)
next
  case True
  let ?ls = "Split content LF"
  obtain ls w where lw: "?ls = ls @ [w]" by (metis Split_nonempty rev_exhaust)
  have "content @ [LF] = concat (map (\<lambda>l. l @ [LF]) ?ls)"
    using Join_Split [of content LF] Join_lines [of ls w] lw by simp
  moreover have "\<forall>l\<in>set ?ls. LF \<notin> set l" using Split_parts by blast
  ultimately show ?thesis using True unfolding endedText_def by (intro exI [of _ ?ls]) simp
qed

lemma no_hash: "CHR ''#'' \<notin> set s \<Longrightarrow> \<not> Contains s beginMark \<and> \<not> Contains s endMark"
  by (auto simp: Contains_iff beginMark_def endMark_def)

lemma marks [simp]: "TrimSpace beginMark = beginMark" "TrimSpace endMark = endMark" "TrimSpace [] = []"
    "Contains beginMark beginMark" "\<not> Contains endMark beginMark" "Contains endMark endMark"
    "\<not> Contains [] beginMark" "\<not> Contains [] endMark" "\<not> sourcesHunch []" "beginMark \<noteq> []" "endMark \<noteq> []"
  by code_simp+

text \<open>The lines of the block, between the user's lines and what follows them.\<close>

lemma block_lines:
  assumes "quietPath binDir" "quietPath src"
  shows "Split ([LF] @ rcBlock binDir src @ [LF]) LF =
    [[], beginMark, ''export PATH='' @ QUOTE @ ''$PATH:'' @ binDir @ QUOTE, ''source '' @ src, endMark, []]"
proof -
  let ?ls = "[[], beginMark, ''export PATH='' @ QUOTE @ ''$PATH:'' @ binDir @ QUOTE, ''source '' @ src, endMark]"
  have "\<forall>l\<in>set ?ls. LF \<notin> set l"
    using assms by (simp add: quietPath_def beginMark_def endMark_def QUOTE_def)
  from Split_lines_append [OF this, of "[]"] show ?thesis by (simp add: rcBlock_def)
qed

lemma keptOf_block:
  assumes "quietPath binDir" "quietPath src" "src \<noteq> []" "solid (last src)"
  shows "keptOf False (Split ([LF] @ rcBlock binDir src @ [LF]) LF) = [[], []]"
    and "changedOf False (Split ([LF] @ rcBlock binDir src @ [LF]) LF)"
proof -
  define E S where "E = ''export PATH='' @ QUOTE @ ''$PATH:'' @ binDir @ QUOTE" and "S = ''source '' @ src"
  have lines: "Split ([LF] @ rcBlock binDir src @ [LF]) LF = [[], beginMark, E, S, endMark, []]"
    unfolding E_def S_def by (rule block_lines [OF assms(1,2)])
  have trim: "TrimSpace E = E" "TrimSpace S = S"
    unfolding E_def S_def by (rule TrimSpace_solid; use assms(3,4) in \<open>simp add: QUOTE_def solid_def\<close>)+
  have "CHR ''#'' \<notin> set E" "CHR ''#'' \<notin> set S"
    using assms(1,2) by (simp_all add: E_def S_def quietPath_def QUOTE_def)
  note marks_free = no_hash [OF this(1)] no_hash [OF this(2)]
  show "keptOf False (Split ([LF] @ rcBlock binDir src @ [LF]) LF) = [[], []]"
    "changedOf False (Split ([LF] @ rcBlock binDir src @ [LF]) LF)"
    unfolding lines using trim marks_free by (simp_all add: keptOf_Cons changedOf_Cons loop_Nil)
qed

lemma changedOf_append: "changedOf False rest \<Longrightarrow> \<forall>l\<in>set ls. \<not> marked l \<Longrightarrow> changedOf False (ls @ rest)"
  by (induction ls) (auto simp: changedOf_Cons marked_def)

lemma appendBlock_text: "appendBlock binDir src content = Some text \<Longrightarrow> text = endedText content @ [LF] @ rcBlock binDir src @ [LF]"
  by (auto simp: appendBlock_def endedText_def Let_def split: if_splits)

lemma installed_sourced:
  assumes "quietPath binDir" "quietPath src" "solid (last src)" "Contains src ''hunch''" "appendBlock binDir src content = Some text"
  shows "hasHunchSourceLine text"
  unfolding hasHunchSourceLine_def
proof (rule sourceLineIn_mem)
  obtain ls where ls: "\<forall>l\<in>set ls. LF \<notin> set l" "endedText content = concat (map (\<lambda>l. l @ [LF]) ls)"
    using endedText_lines by blast
  have "Split text LF = ls @ Split ([LF] @ rcBlock binDir src @ [LF]) LF"
    unfolding appendBlock_text [OF assms(5)] ls(2) using Split_lines_append [OF ls(1)] by simp
  then show "''source '' @ src \<in> set (Split text LF)" unfolding block_lines [OF assms(1,2)] by simp
  have src: "src \<noteq> []" using assms(4) by auto
  have trim: "TrimSpace (''source '' @ src) = ''source '' @ src"
    by (rule TrimSpace_solid) (use src assms(3) in \<open>simp_all add: solid_def\<close>)
  obtain a b where "src = a @ ''hunch'' @ b" using assms(4) by (auto simp: Contains_iff)
  then have "''source '' @ src = (''source '' @ a) @ ''hunch'' @ b" by simp
  then have "Contains (''source '' @ src) ''hunch''" unfolding Contains_iff by blast
  then show "sourcesHunch (TrimSpace (''source '' @ src))" unfolding trim sourcesHunch_def by simp
  show "\<not> HasPrefix (TrimSpace (''source '' @ src)) ''#''" unfolding trim by simp
qed

text \<open>C40: Installing and uninstalling are inverse: if no line of the user's file concerns hunch, then what
  \<open>hunch init --auto\<close> adds is recognised by \<open>hunch doctor\<close>, and \<open>hunch uninstall\<close> takes exactly that out
  again, leaving the user's text (closed by a newline) and one empty line. The two paths
  contain neither a newline nor a \<open>#\<close>.\<close>

theorem install_uninstall:
  assumes "\<forall>l\<in>set (Split content LF). \<not> marked l" "quietPath binDir" "quietPath src" "solid (last src)"
    and "Contains src ''hunch''" "appendBlock binDir src content = Some text"
  shows "hasHunchSourceLine text
    \<and> removeRcLine (RcText text) None = (Inr True, RcText (endedText content @ [LF]))"
proof -
  note body = appendBlock_text [OF assms(6)]
  obtain ls where ls: "\<forall>l\<in>set ls. LF \<notin> set l" "endedText content = concat (map (\<lambda>l. l @ [LF]) ls)"
    "set ls \<subseteq> set (Split content LF)" using endedText_lines by blast
  have split: "Split text LF = ls @ Split ([LF] @ rcBlock binDir src @ [LF]) LF"
    unfolding body ls(2) using Split_lines_append [OF ls(1)] by simp
  have src: "src \<noteq> []" using assms(5) by auto
  note block = keptOf_block [OF assms(2,3) src assms(4)]
  have unmarked: "\<forall>l\<in>set ls. \<not> marked l" using ls(3) assms(1) by blast
  have "keptOf False (Split text LF) = (ls @ [[]]) @ [[]]" "changedOf False (Split text LF)"
    unfolding split using keptOf_same [OF unmarked] changedOf_append [OF block(2) unmarked] block(1) by simp_all
  moreover have "Join ((ls @ [[]]) @ [[]]) [LF] = endedText content @ [LF]" by (simp only: Join_lines ls(2)) simp
  ultimately have "removeRcLine (RcText text) None = (Inr True, RcText (endedText content @ [LF]))"
    by (simp add: removeRcLine_def case_prod_beta)
  moreover have "hasHunchSourceLine text" by (rule installed_sourced [OF assms(2-6)])
  ultimately show ?thesis by blast
qed

theorem install_uninstall_witness:
  "\<exists>rc. appendBlock ''/usr/bin'' ''/u/hunch/hunch.zsh'' ''alias g=git'' = Some rc \<and> hasHunchSourceLine rc
     \<and> removeRcLine (RcText rc) None = (Inr True, RcText (''alias g=git'' @ [LF, LF]))"
proof -
  have a: "\<forall>l\<in>set (Split ''alias g=git'' LF). \<not> marked l" "quietPath ''/usr/bin''" "quietPath ''/u/hunch/hunch.zsh''"
    "solid (last ''/u/hunch/hunch.zsh'')" "Contains ''/u/hunch/hunch.zsh'' ''hunch''"
    "appendBlock ''/usr/bin'' ''/u/hunch/hunch.zsh'' ''alias g=git'' \<noteq> None"
    "endedText ''alias g=git'' @ [LF] = ''alias g=git'' @ [LF, LF]"
    by code_simp+
  then obtain rc where body: "appendBlock ''/usr/bin'' ''/u/hunch/hunch.zsh'' ''alias g=git'' = Some rc" by blast
  show ?thesis using install_uninstall [OF a(1-5) body] body unfolding a(7) by blast
qed

text \<open>After uninstalling, no line sources hunch any more: whatever the file held, if it could be written,
  \<open>hunch doctor\<close> finds no active source line, unless such a line also carries the end marker of the
  block (then it is dropped when something else changes the file, and kept when nothing does).\<close>

theorem uninstall_cleans:
  assumes "removeRcLine (RcText content) None = (r, RcText left)"
    and "\<forall>l\<in>set (Split content LF). \<not> (sourcesHunch (TrimSpace l) \<and> Contains (TrimSpace l) endMark)"
  shows "\<not> hasHunchSourceLine left"
proof (cases "changedOf False (Split content LF)")
  case False
  then have "left = content" using assms(1) by (simp add: removeRcLine_def case_prod_beta)
  then show ?thesis
    using unchanged_no_source [OF False] assms(2) unfolding hasHunchSourceLine_def by (intro sourceLineIn_none) blast
next
  case True
  let ?kept = "keptOf False (Split content LF)"
  have l: "left = Join ?kept [LF]" using assms(1) True by (simp add: removeRcLine_def case_prod_beta)
  have lines: "\<forall>l\<in>set (Split left LF). \<not> sourcesHunch (TrimSpace l)"
  proof (cases "?kept = []")
    case False
    have "\<forall>x\<in>set ?kept. LF \<notin> set x" using keptOf_no_source Split_parts by metis
    then have "Split left LF = ?kept" unfolding l using Split_Join False by blast
    then show ?thesis using keptOf_no_source by auto
  qed (simp add: l)
  then show ?thesis unfolding hasHunchSourceLine_def by (rule sourceLineIn_none)
qed

theorem uninstall_cleans_witness:
  "\<exists>r left. removeRcLine (RcText (''x'' @ [LF] @ '' . /u/hunch.zsh'')) None = (r, RcText left) \<and> \<not> hasHunchSourceLine left"
proof -
  have r: "removeRcLine (RcText (''x'' @ [LF] @ '' . /u/hunch.zsh'')) None = (Inr True, RcText ''x'')" by code_simp
  moreover have "\<forall>l\<in>set (Split (''x'' @ [LF] @ '' . /u/hunch.zsh'') LF). \<not> (sourcesHunch (TrimSpace l) \<and> Contains (TrimSpace l) endMark)"
    by code_simp
  ultimately show ?thesis using uninstall_cleans [OF r] by blast
qed

text \<open>If the end marker is missing, everything after the begin marker is dropped, the user's lines too.\<close>

lemma unclosed_block:
  assumes "\<forall>l\<in>set ls. \<not> Contains (TrimSpace l) endMark"
  shows "keptOf False (beginMark # ls) = []"
proof -
  have "keptOf True ls = []" using assms by (induction ls) (auto simp: keptOf_Cons loop_Nil)
  then show ?thesis by (simp add: keptOf_Cons)
qed

end
