(* ===== verification/Doctor.thy ===== *)
theory Doctor
  imports Rc_File Config Fallback
begin

text \<open>
  cli/doctor.go and cli/style.go: the health report, its layout and its colours, and with them
  \<open>findIntegration\<close> of cli/init.go. What the system says about files, paths and the daemon is the
  record \<open>site\<close>. Numbers of the statistics come formatted.
\<close>

subsection \<open>Colours\<close>

definition ESC :: string where "ESC = [CHR 0x1B]"

definition style :: "bool \<Rightarrow> string \<Rightarrow> string \<Rightarrow> string" where
  \<comment> \<open>the first argument is the variable \<open>colorize\<close>\<close>
  "style colorize code s = (if \<not> colorize then s else ESC @ ''['' @ code @ ''m'' @ s @ ESC @ ''[0m'')"

definition bold :: "bool \<Rightarrow> string \<Rightarrow> string" where "bold c s = style c ''1'' s"
definition red :: "bool \<Rightarrow> string \<Rightarrow> string" where "red c s = style c ''38;5;203'' s"
definition green :: "bool \<Rightarrow> string \<Rightarrow> string" where "green c s = style c ''38;5;150'' s"
definition yellow :: "bool \<Rightarrow> string \<Rightarrow> string" where "yellow c s = style c ''38;5;229'' s"
definition teal :: "bool \<Rightarrow> string \<Rightarrow> string" where "teal c s = style c ''38;5;122'' s"
definition purple :: "bool \<Rightarrow> string \<Rightarrow> string" where "purple c s = style c ''38;5;183'' s"

definition colorLine :: "bool \<Rightarrow> string \<Rightarrow> string" where
  \<comment> \<open>one line of \<open>colorJSON\<close>\<close>
  "colorLine colorize line =
     (case Cut line [CHR 0x22] of
        None \<Rightarrow> line
      | Some (before, rest) \<Rightarrow>
          (case Cut rest [CHR 0x22] of
             None \<Rightarrow> line
           | Some (word, after) \<Rightarrow>
               (let token = [CHR 0x22] @ word @ [CHR 0x22];
                    painted = (if HasPrefix (TrimSpace after) '':'' then purple colorize token else teal colorize token)
                in before @ painted @ after)))"

definition colorJSON :: "bool \<Rightarrow> string \<Rightarrow> string" where
  "colorJSON colorize b =
     (if \<not> colorize then b else Join (map (colorLine colorize) (Split b LF)) [LF])"

subsection \<open>Checks\<close>

datatype checkStatus = StatusOK | StatusInfo | StatusProblem

record check =
  ck_label :: string
  ck_status :: checkStatus
  ck_detail :: string
  ck_indent :: bool

definition padRight :: "int \<Rightarrow> string \<Rightarrow> string" where
  \<comment> \<open>the verb \<open>%-*s\<close>\<close>
  "padRight n s = s @ replicate (nat \<bar>n\<bar> - length s) CHR '' ''"

definition render :: "check \<Rightarrow> int \<Rightarrow> string" where
  "render c width =
     (let (prefix, w) = (if ck_indent c then (''  '', width - 2) else ([], width))
      in prefix @ padRight (w + 1) (ck_label c @ '':'') @ '' '' @ ck_detail c)"

definition colorizeCheck :: "bool \<Rightarrow> check \<Rightarrow> int \<Rightarrow> string" where
  "colorizeCheck colorize c width =
     (let line = render c width in
      if \<not> colorize then line
      else let detail = (case ck_status c of
                 StatusOK \<Rightarrow> green colorize (ck_detail c)
               | StatusProblem \<Rightarrow> red colorize (ck_detail c)
               | StatusInfo \<Rightarrow> yellow colorize (ck_detail c))
           in take (length line - length (ck_detail c)) line @ detail)"

subsection \<open>What is checked\<close>

datatype statResult = StatOK | StatMissing | StatFailed string

record site =
  si_executable :: "string + string"
  si_pathDirs :: "string list"  \<comment> \<open>the list in \<open>PATH\<close>\<close>
  si_evalSymlinks :: "string \<Rightarrow> string option"
  si_stat :: "string \<Rightarrow> statResult"
  si_stats :: "(nat \<times> string \<times> string) option"  \<comment> \<open>what the daemon answers to \<open>stats\<close>\<close>
  si_dataDir :: "string option"
  si_abs :: "string \<Rightarrow> string option"
  si_pwd :: "string option"
  si_rcPath :: string
  si_rc :: rcRead

definition exists :: "site \<Rightarrow> string \<Rightarrow> bool" where
  "exists s p \<longleftrightarrow> si_stat s p = StatOK"

definition relativeScript :: string where
  "relativeScript = joinPath [''integrations'', ''zsh'', ''hunch.zsh'']"

definition findIntegration :: "site \<Rightarrow> string + string" where
  "findIntegration s =
     (let installed = map_option (\<lambda>dir. joinPath [dir, ''hunch'', ''integrations'', ''zsh'', ''hunch.zsh'']) (si_dataDir s)
      in case (case installed of Some p \<Rightarrow> if exists s p then Some p else None | None \<Rightarrow> None) of
           Some p \<Rightarrow> Inr p
         | None \<Rightarrow>
             (let candidates = (case si_executable s of
                    Inl _ \<Rightarrow> []
                  | Inr execPath \<Rightarrow> [joinPath [Dir execPath, relativeScript], joinPath [Dir execPath, ''..'', relativeScript]])
              in case find (exists s) (List.map_filter (si_abs s) candidates) of
                   Some p \<Rightarrow> Inr p
                 | None \<Rightarrow>
                     (case (case si_pwd s of
                              Some pwd \<Rightarrow> (let p = joinPath [pwd, relativeScript] in if exists s p then Some p else None)
                            | None \<Rightarrow> None) of
                        Some p \<Rightarrow> Inr p
                      | None \<Rightarrow>
                          (case installed of
                             Some p \<Rightarrow> Inr p
                           | None \<Rightarrow> Inl ''cannot locate integration files; run hunch init first, then retry''))))"

definition checkBinary :: "site \<Rightarrow> check \<times> string" where
  "checkBinary s =
     (case si_executable s of
        Inl e \<Rightarrow> (\<lparr>ck_label = ''binary'', ck_status = StatusProblem, ck_detail = ''ERROR ('' @ e @ '')'', ck_indent = False\<rparr>, [])
      | Inr p \<Rightarrow> (\<lparr>ck_label = ''binary'', ck_status = StatusOK, ck_detail = ''OK ('' @ p @ '')'', ck_indent = False\<rparr>, p))"

definition resolveSymlinks :: "site \<Rightarrow> string \<Rightarrow> string" where
  "resolveSymlinks s path = (case si_evalSymlinks s path of Some r \<Rightarrow> r | None \<Rightarrow> path)"

definition checkOnPath :: "site \<Rightarrow> string \<Rightarrow> check" where
  "checkOnPath s execPath =
     (let execDir = resolveSymlinks s (Dir execPath)
      in if list_ex (\<lambda>dir. resolveSymlinks s dir = execDir) (si_pathDirs s)
         then \<lparr>ck_label = ''PATH'', ck_status = StatusOK, ck_detail = ''OK'', ck_indent = False\<rparr>
         else \<lparr>ck_label = ''PATH'', ck_status = StatusProblem,
                ck_detail = ''WARNING: binary directory not in PATH'', ck_indent = False\<rparr>)"

definition checkDaemon :: "site \<Rightarrow> options \<Rightarrow> check \<times> bool" where
  "checkDaemon s opt =
     (if op_Socket opt = [] then
        (\<lparr>ck_label = ''daemon'', ck_status = StatusInfo, ck_detail = ''UNKNOWN (no socket path)'', ck_indent = False\<rparr>, False)
      else if si_stat s (op_Socket opt) \<noteq> StatOK then
        (\<lparr>ck_label = ''daemon'', ck_status = StatusInfo, ck_detail = ''STOPPED'', ck_indent = False\<rparr>, False)
      else (\<lparr>ck_label = ''daemon'', ck_status = StatusOK, ck_detail = ''RUNNING'', ck_indent = False\<rparr>, True))"

definition checkDatabase :: "site \<Rightarrow> options \<Rightarrow> check" where
  "checkDatabase s opt =
     (if op_DBPath opt = [] then
        \<lparr>ck_label = ''database'', ck_status = StatusProblem, ck_detail = ''ERROR: no db path configured'', ck_indent = False\<rparr>
      else case si_stat s (op_DBPath opt) of
             StatMissing \<Rightarrow> \<lparr>ck_label = ''database'', ck_status = StatusInfo,
               ck_detail = ''not found (first run? run some commands to create it)'', ck_indent = False\<rparr>
           | StatFailed e \<Rightarrow> \<lparr>ck_label = ''database'', ck_status = StatusProblem, ck_detail = ''ERROR ('' @ e @ '')'', ck_indent = False\<rparr>
           | StatOK \<Rightarrow> \<lparr>ck_label = ''database'', ck_status = StatusOK, ck_detail = ''OK'', ck_indent = False\<rparr>)"

definition daemonStats :: "site \<Rightarrow> check list" where
  "daemonStats s =
     (case si_stats s of
        None \<Rightarrow> []
      | Some (size_, halfLife, alpha) \<Rightarrow>
          [\<lparr>ck_label = ''graph size'', ck_status = StatusInfo, ck_detail = Itoa size_ @ '' transitions'', ck_indent = False\<rparr>,
           \<lparr>ck_label = ''half-life'', ck_status = StatusInfo, ck_detail = halfLife, ck_indent = False\<rparr>,
           \<lparr>ck_label = ''alpha'', ck_status = StatusInfo, ck_detail = alpha, ck_indent = False\<rparr>])"

definition checkRcFile :: "site \<Rightarrow> check" where
  "checkRcFile s =
     (case si_rc s of
        RcText content \<Rightarrow>
          (if \<not> hasHunchSourceLine content then
             \<lparr>ck_label = ''rc file'', ck_status = StatusProblem,
              ck_detail = ''WARNING ('' @ si_rcPath s @ '' does not source hunch)'', ck_indent = True\<rparr>
           else \<lparr>ck_label = ''rc file'', ck_status = StatusOK, ck_detail = ''OK (source line found)'', ck_indent = True\<rparr>)
      | _ \<Rightarrow> \<lparr>ck_label = ''rc file'', ck_status = StatusProblem,
               ck_detail = ''WARNING ('' @ si_rcPath s @ '' not found)'', ck_indent = True\<rparr>)"

definition checkShellIntegration :: "site \<Rightarrow> check list" where
  "checkShellIntegration s =
     (case findIntegration s of
        Inl _ \<Rightarrow> [\<lparr>ck_label = ''shell integration'', ck_status = StatusProblem,
          ck_detail = ''not found (run: hunch init)'', ck_indent = False\<rparr>]
      | Inr p \<Rightarrow>
          if si_stat s p = StatMissing then [\<lparr>ck_label = ''shell integration'', ck_status = StatusProblem,
            ck_detail = ''file missing (run: hunch init)'', ck_indent = False\<rparr>]
          else [\<lparr>ck_label = ''shell integration'', ck_status = StatusOK, ck_detail = ''OK ('' @ p @ '')'', ck_indent = False\<rparr>,
                checkRcFile s])"

definition runDiagnostics :: "site \<Rightarrow> options \<Rightarrow> check list" where
  "runDiagnostics s opt =
     (let (binary, execPath) = checkBinary s;
          (daemonCheck, running) = checkDaemon s opt
      in [binary] @ (if execPath \<noteq> [] then [checkOnPath s execPath] else [])
         @ [\<lparr>ck_label = ''socket'', ck_status = StatusInfo, ck_detail = op_Socket opt, ck_indent = False\<rparr>,
            \<lparr>ck_label = ''db'', ck_status = StatusInfo, ck_detail = op_DBPath opt, ck_indent = False\<rparr>]
         @ [daemonCheck, checkDatabase s opt]
         @ (if running then daemonStats s else [])
         @ checkShellIntegration s)"

definition labelWidth :: "check list \<Rightarrow> nat" where
  "labelWidth checks = fold (\<lambda>c width. if width < length (ck_label c) then length (ck_label c) else width) checks 0"

definition cmdDoctor :: "bool \<Rightarrow> site \<Rightarrow> options \<Rightarrow> string list \<times> string option" where
  \<comment> \<open>the lines printed and the error\<close>
  "cmdDoctor colorize s opt =
     (let checks = runDiagnostics s opt;
          width = labelWidth checks;
          failed = list_ex (\<lambda>c. ck_status c = StatusProblem) checks
      in ([bold colorize ''hunch doctor'', []] @ map (\<lambda>c. colorizeCheck colorize c (int width)) checks
            @ [[], (if \<not> failed then green colorize ''All checks passed.''
                    else red colorize ''Some checks failed - see warnings above.'')],
          if \<not> failed then None else Some ''doctor: some checks failed''))"

subsection \<open>Layout\<close>

lemma labelWidth_fold:
  "w \<le> fold (\<lambda>c width. if width < length (ck_label c) then length (ck_label c) else width) checks w
   \<and> (\<forall>c\<in>set checks. length (ck_label c) \<le> fold (\<lambda>c width. if width < length (ck_label c) then length (ck_label c) else width) checks w)"
proof (induction checks arbitrary: w)
  case (Cons c checks)
  let ?w = "if w < length (ck_label c) then length (ck_label c) else w"
  have "w \<le> ?w" "length (ck_label c) \<le> ?w" by simp_all
  with Cons.IH [of ?w] show ?case by (auto intro: order_trans)
qed simp

lemma labelWidth_max: "c \<in> set checks \<Longrightarrow> length (ck_label c) \<le> labelWidth checks"
  using labelWidth_fold [of 0 checks] by (simp add: labelWidth_def)

lemma render_column:
  assumes "length (ck_label c) + (if ck_indent c then 2 else 0) \<le> w"
  shows "\<exists>pre. render c (int w) = pre @ ck_detail c \<and> length pre = w + 2"
proof (cases "ck_indent c")
  case True
  then show ?thesis using assms
    by (intro exI [of _ "''  '' @ padRight (int w - 1) (ck_label c @ '':'') @ '' ''"]) (auto simp: render_def padRight_def)
next
  case False
  then show ?thesis using assms
    by (intro exI [of _ "padRight (int w + 1) (ck_label c @ '':'') @ '' ''"]) (auto simp: render_def padRight_def)
qed

lemma flat_checks [simp]:
  "\<not> ck_indent (fst (checkBinary s))" "\<not> ck_indent (checkOnPath s p)" "\<not> ck_indent (fst (checkDaemon s opt))"
  "\<not> ck_indent (checkDatabase s opt)"
  by (simp_all add: checkBinary_def checkOnPath_def checkDaemon_def checkDatabase_def Let_def
      split: sum.split statResult.split)

lemma flat_stats: "c \<in> set (daemonStats s) \<Longrightarrow> \<not> ck_indent c"
  by (auto simp: daemonStats_def split: option.splits)

lemma shell_indent:
  assumes "c \<in> set (checkShellIntegration s)" "ck_indent c"
  shows "c = checkRcFile s \<and> (\<exists>b\<in>set (checkShellIntegration s). ck_label b = ''shell integration'')"
  using assms by (auto simp: checkShellIntegration_def split: sum.splits if_splits)

lemma diagnostics_set:
  "set (runDiagnostics s opt) = {fst (checkBinary s)} \<union> (if snd (checkBinary s) = [] then {} else {checkOnPath s (snd (checkBinary s))})
     \<union> {\<lparr>ck_label = ''socket'', ck_status = StatusInfo, ck_detail = op_Socket opt, ck_indent = False\<rparr>,
        \<lparr>ck_label = ''db'', ck_status = StatusInfo, ck_detail = op_DBPath opt, ck_indent = False\<rparr>,
        fst (checkDaemon s opt), checkDatabase s opt}
     \<union> (if snd (checkDaemon s opt) then set (daemonStats s) else {}) \<union> set (checkShellIntegration s)"
  by (simp add: runDiagnostics_def case_prod_beta Let_def insert_commute Un_assoc)

lemma diagnostics_indent:
  assumes "c \<in> set (runDiagnostics s opt)" "ck_indent c"
  shows "length (ck_label c) + 2 \<le> labelWidth (runDiagnostics s opt)"
proof -
  have "c \<in> set (checkShellIntegration s)"
    using assms flat_stats [of c s] unfolding diagnostics_set by (simp split: if_splits) auto
  from shell_indent [OF this assms(2)] obtain b
    where c: "c = checkRcFile s" and b: "b \<in> set (checkShellIntegration s)" "ck_label b = ''shell integration''" by blast
  have "b \<in> set (runDiagnostics s opt)" using b(1) by (simp add: diagnostics_set)
  moreover have "ck_label c = ''rc file''" by (simp add: c checkRcFile_def split: rcRead.split)
  ultimately show ?thesis using labelWidth_max [of b "runDiagnostics s opt"] b(2) by simp
qed

text \<open>The report lines up: in every line of the report, coloured or not, what is visible before the
  detail is equally wide, and the detail comes whole after it.\<close>

theorem report_aligned:
  assumes "c \<in> set (runDiagnostics s opt)"
  shows "\<exists>pre. length pre = labelWidth (runDiagnostics s opt) + 2
    \<and> colorizeCheck False c (int (labelWidth (runDiagnostics s opt))) = pre @ ck_detail c
    \<and> (\<exists>code. colorizeCheck True c (int (labelWidth (runDiagnostics s opt))) = pre @ style True code (ck_detail c))"
proof -
  let ?w = "labelWidth (runDiagnostics s opt)"
  have "length (ck_label c) + (if ck_indent c then 2 else 0) \<le> ?w"
    using labelWidth_max [OF assms] diagnostics_indent [OF assms] by simp
  from render_column [OF this] obtain pre where pre: "render c (int ?w) = pre @ ck_detail c" "length pre = ?w + 2" by blast
  have "\<exists>code. colorizeCheck True c (int ?w) = pre @ style True code (ck_detail c)"
    by (cases "ck_status c") (auto simp: colorizeCheck_def pre Let_def green_def red_def yellow_def)
  then show ?thesis using pre by (auto simp: colorizeCheck_def)
qed

definition bareSite :: site where
  \<comment> \<open>a system on which nothing can be found\<close>
  "bareSite = \<lparr>si_executable = Inl ''no such process'', si_pathDirs = [], si_evalSymlinks = (\<lambda>_. None),
     si_stat = (\<lambda>_. StatMissing), si_stats = None, si_dataDir = None, si_abs = (\<lambda>_. None), si_pwd = None,
     si_rcPath = ''/home/u/.zshrc'', si_rc = RcMissing\<rparr>"

theorem report_aligned_witness:
  "\<exists>pre. length pre = 19 \<and> colorizeCheck False (fst (checkBinary bareSite)) 17 = pre @ ''ERROR (no such process)''"
proof -
  have w: "labelWidth (runDiagnostics bareSite defaults) = 17" by code_simp
  have d: "ck_detail (fst (checkBinary bareSite)) = ''ERROR (no such process)''" by code_simp
  have "fst (checkBinary bareSite) \<in> set (runDiagnostics bareSite defaults)" by (simp add: diagnostics_set)
  from report_aligned [OF this] show ?thesis unfolding w d by auto
qed

text \<open>The verdict: \<open>hunch doctor\<close> fails exactly if the executable cannot be found or its directory is not
  on the PATH, no database path is configured or the database cannot be examined, the integration
  script is missing, or the rc file does not source it. A stopped daemon and a database that does not
  exist yet are not failures.\<close>

theorem doctor_verdict:
  "snd (cmdDoctor colorize s opt) = None \<longleftrightarrow>
     (\<exists>p. si_executable s = Inr p \<and> (p = [] \<or> (\<exists>dir\<in>set (si_pathDirs s). resolveSymlinks s dir = resolveSymlinks s (Dir p))))
   \<and> op_DBPath opt \<noteq> [] \<and> si_stat s (op_DBPath opt) \<in> {StatOK, StatMissing}
   \<and> (\<exists>p. findIntegration s = Inr p \<and> si_stat s p \<noteq> StatMissing)
   \<and> (\<exists>content. si_rc s = RcText content \<and> hasHunchSourceLine content)"
proof -
  have ok: "snd (cmdDoctor colorize s opt) = None \<longleftrightarrow> (\<forall>c\<in>set (runDiagnostics s opt). ck_status c \<noteq> StatusProblem)"
    by (auto simp: cmdDoctor_def Let_def list_ex_iff)
  have daemon: "ck_status (fst (checkDaemon s opt)) \<noteq> StatusProblem" "\<forall>c\<in>set (daemonStats s). ck_status c \<noteq> StatusProblem"
    by (auto simp: checkDaemon_def daemonStats_def split: option.splits)
  have binary: "ck_status (fst (checkBinary s)) \<noteq> StatusProblem \<longleftrightarrow> (\<exists>p. si_executable s = Inr p)"
    "snd (checkBinary s) = (case si_executable s of Inl _ \<Rightarrow> [] | Inr p \<Rightarrow> p)"
    by (auto simp: checkBinary_def split: sum.splits)
  have path: "ck_status (checkOnPath s p) \<noteq> StatusProblem
      \<longleftrightarrow> (\<exists>dir\<in>set (si_pathDirs s). resolveSymlinks s dir = resolveSymlinks s (Dir p))" for p
    by (auto simp: checkOnPath_def Let_def list_ex_iff)
  have db: "ck_status (checkDatabase s opt) \<noteq> StatusProblem
      \<longleftrightarrow> op_DBPath opt \<noteq> [] \<and> si_stat s (op_DBPath opt) \<in> {StatOK, StatMissing}"
    by (auto simp: checkDatabase_def split: statResult.splits)
  have rc: "ck_status (checkRcFile s) \<noteq> StatusProblem \<longleftrightarrow> (\<exists>content. si_rc s = RcText content \<and> hasHunchSourceLine content)"
    by (auto simp: checkRcFile_def split: rcRead.splits)
  have shell: "(\<forall>c\<in>set (checkShellIntegration s). ck_status c \<noteq> StatusProblem)
      \<longleftrightarrow> (\<exists>p. findIntegration s = Inr p \<and> si_stat s p \<noteq> StatMissing) \<and> ck_status (checkRcFile s) \<noteq> StatusProblem"
    by (auto simp: checkShellIntegration_def split: sum.splits)
  have "(\<forall>c\<in>set (runDiagnostics s opt). ck_status c \<noteq> StatusProblem) \<longleftrightarrow>
      ck_status (fst (checkBinary s)) \<noteq> StatusProblem
      \<and> (snd (checkBinary s) = [] \<or> ck_status (checkOnPath s (snd (checkBinary s))) \<noteq> StatusProblem)
      \<and> ck_status (checkDatabase s opt) \<noteq> StatusProblem
      \<and> (\<forall>c\<in>set (checkShellIntegration s). ck_status c \<noteq> StatusProblem)"
    using daemon unfolding diagnostics_set by (simp add: ball_Un) blast
  then show ?thesis unfolding ok binary path db shell rc by (cases "si_executable s") simp_all
qed

end
