(* ===== verification/Clean_Path.thy ===== *)
theory Clean_Path
  imports Go_Text
begin

text \<open>
  Laws of \<open>filepath.Clean\<close> and \<open>filepath.Join\<close>: cleaning a part of a path first changes nothing, and a
  plain name at the end stays there.
\<close>

lemma cleanElems_append: "cleanElems r stack (xs @ ys) = cleanElems r (rev (cleanElems r stack xs)) ys"
  by (induction r stack xs rule: cleanElems.induct) (auto split: list.split)

fun cleanStack :: "bool \<Rightarrow> string list \<Rightarrow> bool" where
  \<comment> \<open>a stack the loop can build: names and, at the bottom of a relative path, \<open>..\<close>\<close>
  "cleanStack r [] = True"
| "cleanStack r (x # stack) \<longleftrightarrow> x \<noteq> [] \<and> x \<noteq> ''.'' \<and> CHR ''/'' \<notin> set x
     \<and> (x = ''..'' \<longrightarrow> \<not> r \<and> (\<forall>y\<in>set stack. y = ''..'')) \<and> cleanStack r stack"

lemma cleanStack_loop:
  "cleanStack r stack \<Longrightarrow> \<forall>el\<in>set els. CHR ''/'' \<notin> set el \<Longrightarrow> cleanStack r (rev (cleanElems r stack els))"
  by (induction r stack els rule: cleanElems.induct) (auto split: list.split)

lemma cleanStack_suffix: "cleanStack r (xs @ ys) \<Longrightarrow> cleanStack r ys"
  by (induction xs) auto

lemma clean_again: "cleanStack r (rev els @ stack) \<Longrightarrow> cleanElems r stack els = rev stack @ els"
proof (induction els arbitrary: stack)
  case (Cons el els)
  then have "cleanStack r (el # stack)" using cleanStack_suffix [of r "rev els" "el # stack"] by simp
  then show ?case using Cons.IH [of "el # stack"] Cons.prems by (auto split: list.split)
qed simp

definition elemsOf :: "string \<Rightarrow> string list" where
  "elemsOf p = cleanElems (isRooted p) [] (Split p CHR ''/'')"

lemma elemsOf_clean: "cleanStack (isRooted p) (rev (elemsOf p))"
  unfolding elemsOf_def by (rule cleanStack_loop) (auto dest: Split_parts)

lemma cleanStack_slash: "cleanStack r stack \<Longrightarrow> x \<in> set stack \<Longrightarrow> CHR ''/'' \<notin> set x \<and> x \<noteq> []"
  by (induction r stack rule: cleanStack.induct) auto

lemma Clean_elems: "Clean p = (if isRooted p then CHR ''/'' # Join (elemsOf p) ''/''
    else if elemsOf p = [] then ''.'' else Join (elemsOf p) ''/'')"
proof -
  have "[] \<notin> set (elemsOf p)" using cleanStack_slash [OF elemsOf_clean] by auto
  then have j: "Join (elemsOf p) ''/'' = [] \<longleftrightarrow> elemsOf p = []" by (cases "elemsOf p") (auto simp: Join_eq_Nil)
  have "Clean p = (if isRooted p then CHR ''/'' # Join (elemsOf p) ''/''
    else if Join (elemsOf p) ''/'' = [] then ''.'' else Join (elemsOf p) ''/'')"
    by (simp add: Clean_def Let_def elemsOf_def)
  then show ?thesis unfolding j .
qed

lemma isRooted_append: "p \<noteq> [] \<Longrightarrow> isRooted (p @ s) = isRooted p"
  by (cases p) (auto simp: isRooted_def)

lemma isRooted_Clean: "isRooted (Clean p) = isRooted p"
proof (cases "isRooted p \<or> elemsOf p = []")
  case False
  then obtain e es where es: "elemsOf p = e # es" by (cases "elemsOf p") auto
  then have "e \<noteq> [] \<and> CHR ''/'' \<notin> set e" using cleanStack_slash [OF elemsOf_clean, of e p] by auto
  then have "\<not> isRooted (Join (e # es) ''/'')" by (cases es; cases e) (auto simp: isRooted_def)
  then show ?thesis using False es by (simp add: Clean_elems)
qed (auto simp: Clean_elems isRooted_def)

lemma elemsOf_append: "p \<noteq> [] \<Longrightarrow> elemsOf (p @ ''/'' @ s) = cleanElems (isRooted p) (rev (elemsOf p)) (Split s CHR ''/'')"
proof -
  assume p: "p \<noteq> []"
  have "Split (p @ CHR ''/'' # s) CHR ''/'' = Split p CHR ''/'' @ Split s CHR ''/''"
    by (induction p) (auto split: list.split)
  then show ?thesis using isRooted_append [OF p] by (simp add: elemsOf_def cleanElems_append)
qed

lemma elemsOf_Clean: "elemsOf (Clean p) = elemsOf p"
proof -
  let ?E = "elemsOf p"
  have again: "cleanElems (isRooted p) [] ?E = ?E"
    using clean_again [of "isRooted p" ?E "[]"] elemsOf_clean [of p] by simp
  have noslash: "\<forall>e\<in>set ?E. CHR ''/'' \<notin> set e" using cleanStack_slash [OF elemsOf_clean] by auto
  show ?thesis
  proof (cases "?E = []")
    case True
    then show ?thesis unfolding elemsOf_def [of "Clean p"] isRooted_Clean by (simp add: Clean_elems)
  next
    case False
    then have s: "Split (Join ?E ''/'') CHR ''/'' = ?E" by (rule Split_Join [OF _ noslash])
    then have "cleanElems (isRooted p) [] (Split (Clean p) CHR ''/'') = cleanElems (isRooted p) [] ?E"
      using False by (simp add: Clean_elems)
    then show ?thesis unfolding elemsOf_def [of "Clean p"] isRooted_Clean by (simp add: again)
  qed
qed

lemma Clean_Clean_append: "p \<noteq> [] \<Longrightarrow> Clean (Clean p @ ''/'' @ s) = Clean (p @ ''/'' @ s)"
proof -
  assume p: "p \<noteq> []"
  have c: "Clean p \<noteq> []" by (simp add: Clean_def Let_def)
  have "elemsOf (Clean p @ ''/'' @ s) = elemsOf (p @ ''/'' @ s)"
    unfolding elemsOf_append [OF p] elemsOf_append [OF c] isRooted_Clean elemsOf_Clean ..
  moreover have "isRooted (Clean p @ ''/'' @ s) = isRooted (p @ ''/'' @ s)"
    by (simp only: isRooted_append [OF p] isRooted_append [OF c] isRooted_Clean)
  ultimately show ?thesis
    unfolding Clean_elems [of "Clean p @ ''/'' @ s"] Clean_elems [of "p @ ''/'' @ s"] by (simp only:)
qed

lemma Clean_name:
  assumes "p \<noteq> []" "w \<noteq> []" "CHR ''/'' \<notin> set w" "w \<noteq> ''.''" "w \<noteq> ''..''"
  shows "suffix w (Clean (p @ ''/'' @ w))"
proof -
  have e: "elemsOf (p @ ''/'' @ w) = elemsOf p @ [w]"
    unfolding elemsOf_append [OF assms(1)] using assms(2-5) by (simp add: Split_word)
  have "suffix w (Join (es @ [w]) ''/'')" for es
    by (induction es) (auto simp: Join_Cons suffix_def)
  then show ?thesis unfolding Clean_elems e by (auto simp: suffix_ConsI)
qed

lemma joinPath_Cons: "x \<noteq> [] \<Longrightarrow> joinPath (x # xs) = Clean (Join (x # xs) ''/'')"
  by (simp add: joinPath_def)

text \<open>Joining twice is joining once.\<close>

lemma joinPath_joinPath:
  assumes "dir \<noteq> []" "xs \<noteq> []" "ys \<noteq> []"
  shows "joinPath [joinPath (dir # xs), Join ys ''/''] = joinPath (dir # xs @ ys)"
proof -
  have c: "Clean p \<noteq> []" for p by (simp add: Clean_def Let_def)
  have j: "Join (as @ bs) ''/'' = Join as ''/'' @ ''/'' @ Join bs ''/''" if as: "as \<noteq> []" "bs \<noteq> []" for as bs
    using as
  proof (induction as)
    case (Cons a as)
    then show ?case by (cases "as = []") (simp_all add: Join_Cons)
  qed simp
  have ne: "Join (dir # xs) ''/'' \<noteq> []" using assms(1,2) by (simp add: Join_Cons)
  have "joinPath [joinPath (dir # xs), Join ys ''/''] = Clean (Clean (Join (dir # xs) ''/'') @ ''/'' @ Join ys ''/'')"
    using assms(1) by (simp add: joinPath_Cons c)
  also have "\<dots> = Clean (Join (dir # xs) ''/'' @ ''/'' @ Join ys ''/'')" by (rule Clean_Clean_append [OF ne])
  also have "\<dots> = joinPath (dir # xs @ ys)"
    using j [of "dir # xs" ys] assms by (simp add: joinPath_Cons)
  finally show ?thesis .
qed

lemma joinPath_name:
  assumes "dir \<noteq> []" "w \<noteq> []" "CHR ''/'' \<notin> set w" "w \<noteq> ''.''" "w \<noteq> ''..''" "xs \<noteq> []"
  shows "suffix w (joinPath (dir # xs @ [w]))"
proof -
  have ne: "Join (dir # xs) ''/'' \<noteq> []" using assms(1,6) by (simp add: Join_Cons)
  have "Join ((dir # xs) @ [w]) ''/'' = Join (dir # xs) ''/'' @ ''/'' @ w"
    by (induction xs arbitrary: dir) (simp_all add: Join_Cons)
  then show ?thesis using Clean_name [OF ne assms(2-5)] assms(1) by (simp add: joinPath_Cons)
qed

end
