(* ===== verification/Disk.thy ===== *)
theory Disk
  imports Clean_Path Go_Filepath
begin

text \<open>
  The files the command line tool works on, and the script it keeps there (\<open>EnsureIntegrations\<close> of
  cli/init.go). The disk is a list of files with their contents and a list of directories; \<open>os.Remove\<close>
  removes a file, or a directory with nothing in it. What the system refuses is an argument of each
  operation.
\<close>

subsection \<open>The disk\<close>

record disk =
  dk_files :: "(string \<times> string) list"
  dk_dirs :: "string list"

definition readDisk :: "disk \<Rightarrow> string \<Rightarrow> string option" where
  "readDisk d p = map_of (dk_files d) p"

definition onDisk :: "disk \<Rightarrow> string \<Rightarrow> bool" where
  "onDisk d p \<longleftrightarrow> p \<in> set (map fst (dk_files d)) \<union> set (dk_dirs d)"

definition writeDisk :: "string \<Rightarrow> string \<Rightarrow> disk \<Rightarrow> disk" where
  "writeDisk p content d = d\<lparr>dk_files := mapPut p content (dk_files d)\<rparr>"

definition makeDirs :: "string \<Rightarrow> disk \<Rightarrow> disk" where
  \<comment> \<open>\<open>os.MkdirAll\<close>\<close>
  "makeDirs p d = d\<lparr>dk_dirs := dk_dirs d @ filter (\<lambda>q. q \<notin> set (dk_dirs d)) (p # ancestors p)\<rparr>"

definition emptyDir :: "disk \<Rightarrow> string \<Rightarrow> bool" where
  "emptyDir d p \<longleftrightarrow> \<not> list_ex (\<lambda>q. HasPrefix q (p @ ''/'')) (map fst (dk_files d) @ dk_dirs d)"

definition removePath :: "(string \<Rightarrow> bool) \<Rightarrow> string \<Rightarrow> disk \<Rightarrow> disk option" where
  "removePath ok p d =
     (if \<not> ok p then None
      else if p \<in> set (map fst (dk_files d)) then Some (d\<lparr>dk_files := filter (\<lambda>(q, _). q \<noteq> p) (dk_files d)\<rparr>)
      else if p \<in> set (dk_dirs d) \<and> emptyDir d p then Some (d\<lparr>dk_dirs := filter (\<lambda>q. q \<noteq> p) (dk_dirs d)\<rparr>)
      else None)"

definition renameDisk :: "string \<Rightarrow> string \<Rightarrow> disk \<Rightarrow> disk" where
  \<comment> \<open>of a file\<close>
  "renameDisk p q d = (case readDisk d p of
     None \<Rightarrow> d
   | Some content \<Rightarrow> writeDisk q content (d\<lparr>dk_files := filter (\<lambda>(x, _). x \<noteq> p) (dk_files d)\<rparr>))"

subsection \<open>The script\<close>

datatype embedded = NoFS | OpenFails string | ReadFails string | Embedded string

definition scriptPath :: string where "scriptPath = joinPath [''zsh'', ''hunch.zsh'']"

definition EnsureIntegrations ::
  "embedded \<Rightarrow> string + string \<Rightarrow> (string \<Rightarrow> bool) \<Rightarrow> string option \<Rightarrow> string option \<Rightarrow> disk \<Rightarrow> string option \<times> disk" where
  \<comment> \<open>the script built into the program, the data directory, which files can be read, and the errors
      of creating the directory and of writing\<close>
  "EnsureIntegrations fs dataDir readable mkdirErr writeErr d =
     (case fs of
        NoFS \<Rightarrow> (None, d)
      | _ \<Rightarrow>
          (case dataDir of
             Inl e \<Rightarrow> (Some (''locate data dir: '' @ e), d)
           | Inr dir \<Rightarrow>
               (let destPath = joinPath [joinPath [dir, ''hunch'', ''integrations''], scriptPath]
                in case fs of
                     NoFS \<Rightarrow> (None, d)
                   | OpenFails e \<Rightarrow> (Some (''open embedded '' @ scriptPath @ '': '' @ e), d)
                   | ReadFails e \<Rightarrow> (Some (''read embedded '' @ scriptPath @ '': '' @ e), d)
                   | Embedded content \<Rightarrow>
                       if readDisk d destPath = Some content \<and> readable destPath then (None, d)
                       else (case mkdirErr of
                               Some e \<Rightarrow> (Some (''create dir for '' @ destPath @ '': '' @ e), d)
                             | None \<Rightarrow>
                                 (case writeErr of
                                    Some e \<Rightarrow> (Some e, makeDirs (Dir destPath) d)
                                  | None \<Rightarrow> (None, writeDisk destPath content (makeDirs (Dir destPath) d)))))))"

subsection \<open>What they change\<close>

lemma readDisk_write [simp]: "readDisk (writeDisk p c d) q = (if q = p then Some c else readDisk d q)"
  by (simp add: readDisk_def writeDisk_def map_of_mapPut)

lemma readDisk_dirs [simp]: "readDisk (makeDirs p d) q = readDisk d q"
  by (simp add: readDisk_def makeDirs_def)

lemma onDisk_iff: "onDisk d p \<longleftrightarrow> readDisk d p \<noteq> None \<or> p \<in> set (dk_dirs d)"
  by (auto simp: onDisk_def readDisk_def map_of_eq_None_iff)

lemma dirs_write [simp]: "dk_dirs (writeDisk p c d) = dk_dirs d" "set (dk_dirs d) \<subseteq> set (dk_dirs (makeDirs p d))"
  by (auto simp: writeDisk_def makeDirs_def)

definition installedScript :: "string \<Rightarrow> string" where
  "installedScript dir = joinPath [dir, ''hunch'', ''integrations'', ''zsh'', ''hunch.zsh'']"

lemma destPath_eq:
  assumes "dir \<noteq> []"
  shows "joinPath [joinPath [dir, ''hunch'', ''integrations''], scriptPath] = installedScript dir"
proof -
  have "scriptPath = Join [''zsh'', ''hunch.zsh''] ''/''" by code_simp
  then show ?thesis
    using joinPath_joinPath [OF assms, of "[''hunch'', ''integrations'']" "[''zsh'', ''hunch.zsh'']"]
    by (simp add: installedScript_def)
qed

lemma installedScript_suffix: "dir \<noteq> [] \<Longrightarrow> suffix ''hunch.zsh'' (installedScript dir)"
  using joinPath_name [of dir "''hunch.zsh''" "[''hunch'', ''integrations'', ''zsh'']"] by (simp add: installedScript_def)

lemma EnsureIntegrations_any:
  assumes "EnsureIntegrations (Embedded content) (Inr dir) readable mkdirErr writeErr d = (e, d1)" "dir \<noteq> []"
  shows "readDisk d1 p = (if p = installedScript dir \<and> e = None then Some content else readDisk d p)"
    and "onDisk d p \<Longrightarrow> onDisk d1 p"
  using assms(1) subsetD [OF dirs_write(2)]
  unfolding EnsureIntegrations_def embedded.case sum.case Let_def destPath_eq [OF assms(2)]
  by (auto simp: onDisk_iff split: if_splits option.splits)

lemma readDisk_filter [simp]:
  "readDisk (d\<lparr>dk_files := filter (\<lambda>(x, _). x \<noteq> p) (dk_files d)\<rparr>) q = (if q = p then None else readDisk d q)"
proof -
  have "map_of (filter (\<lambda>(x, _). x \<noteq> p) fs) q = (if q = p then None else map_of fs q)" for fs :: "(string \<times> string) list"
    by (induction fs) auto
  then show ?thesis by (simp add: readDisk_def)
qed

lemma renameDisk_files:
  "readDisk d p = Some content \<Longrightarrow>
     readDisk (renameDisk p q d) x = (if x = q then Some content else if x = p then None else readDisk d x)"
  "dk_dirs (renameDisk p q d) = dk_dirs d"
  by (simp_all add: renameDisk_def split: option.split)

end
