(* ===== verification/Daemon_Control.thy ===== *)
theory Daemon_Control
  imports Lifecycle Doctor Disk
begin

text \<open>
  cli/daemon.go with the Unix parts of cli/daemon_unix.go and cli/daemon_stop_unix.go: running, starting,
  stopping and asking after the daemon from another process. What the system answers is the record
  \<open>control\<close>; a loop that polls takes the clock (since it began) and what it sees, turn by turn.
\<close>

subsection \<open>Waiting\<close>

fun waitUntil :: "duration \<Rightarrow> (duration \<times> bool) list \<Rightarrow> bool" where
  \<comment> \<open>the loop of \<open>waitForSocket\<close> and \<open>waitForSocketRemoval\<close>: whether it saw what it waits for in time\<close>
  "waitUntil timeout [] = False"
| "waitUntil timeout ((now, seen) # polls) =
     (if now < timeout then (if seen then True else waitUntil timeout polls) else False)"

definition secondsText :: "duration \<Rightarrow> string" where
  \<comment> \<open>the verb \<open>%v\<close> for whole seconds below a minute\<close>
  "secondsText d = ItoaInt (d div 1000000000) @ ''s''"

definition waitForSocket :: "string \<Rightarrow> duration \<Rightarrow> (duration \<times> bool) list \<Rightarrow> string option" where
  "waitForSocket path timeout polls =
     (if waitUntil timeout polls then None
      else Some (''socket '' @ path @ '' did not appear within '' @ secondsText timeout))"

definition waitForSocketRemoval :: "string \<Rightarrow> duration \<Rightarrow> (duration \<times> bool) list \<Rightarrow> string option" where
  "waitForSocketRemoval path timeout polls =
     (if waitUntil timeout polls then None
      else Some (''socket '' @ path @ '' was not removed within '' @ secondsText timeout))"

subsection \<open>Stopping and asking\<close>

datatype readResult = NoFile | ReadFailed string | Contents string
datatype killSignal = SIGTERM | SIGKILL

record control =
  ct_read :: "string \<Rightarrow> readResult"
  ct_stat :: "string \<Rightarrow> statResult"
  ct_atoiErr :: "string \<Rightarrow> string"
  ct_terminate :: "int \<Rightarrow> string option"  \<comment> \<open>the error of sending \<open>SIGTERM\<close>, if any\<close>
  ct_alive :: "int \<Rightarrow> killResult"
  ct_polls :: "(duration \<times> bool) list"  \<comment> \<open>whether the socket is gone, after \<open>SIGTERM\<close>\<close>
  ct_pollsKilled :: "(duration \<times> bool) list"  \<comment> \<open>and after \<open>SIGKILL\<close>\<close>

definition pidPath :: "options \<Rightarrow> string" where
  "pidPath opt = joinPath [Dir (op_DBPath opt), ''hunch.pid'']"

definition cmdDaemonStop :: "control \<Rightarrow> options \<Rightarrow> string option \<times> (killSignal \<times> int) list" where
  \<comment> \<open>the error, if any, and the signals sent\<close>
  "cmdDaemonStop c opt =
     (case ct_read c (pidPath opt) of
        NoFile \<Rightarrow> (Some ''hunch daemon is not running'', [])
      | ReadFailed e \<Rightarrow> (Some (''read pid file: '' @ e), [])
      | Contents pidData \<Rightarrow>
          (case Atoi (TrimSpace pidData) of
             None \<Rightarrow> (Some (''invalid pid: '' @ ct_atoiErr c (TrimSpace pidData)), [])
           | Some pid \<Rightarrow>
               (case ct_terminate c pid of
                  Some e \<Rightarrow> (Some (''signal daemon: '' @ e), [(SIGTERM, pid)])
                | None \<Rightarrow>
                    (case waitForSocketRemoval (op_Socket opt) 5000000000 (ct_polls c) of
                       None \<Rightarrow> (None, [(SIGTERM, pid)])
                     | Some e \<Rightarrow>
                         (case waitForSocketRemoval (op_Socket opt) 2000000000 (ct_pollsKilled c) of
                            None \<Rightarrow> (None, [(SIGTERM, pid), (SIGKILL, pid)])
                          | Some _ \<Rightarrow> (Some (''daemon did not stop: '' @ e), [(SIGTERM, pid), (SIGKILL, pid)]))))))"

datatype statusError = ErrDaemonNotRunning | CheckProcess string

definition cmdDaemonStatus :: "control \<Rightarrow> options \<Rightarrow> string option \<times> statusError option" where
  \<comment> \<open>the line printed, if any, and the error\<close>
  "cmdDaemonStatus c opt =
     (if ct_stat c (op_Socket opt) = StatMissing then (Some ''hunch daemon is stopped'', Some ErrDaemonNotRunning)
      else case ct_read c (pidPath opt) of
        Contents pidData \<Rightarrow>
          (case Atoi (TrimSpace pidData) of
             None \<Rightarrow> (Some ''hunch daemon is stopped (invalid pid)'', Some ErrDaemonNotRunning)
           | Some pid \<Rightarrow>
               (case processExists (ct_alive c pid) of
                  Inl e \<Rightarrow> (None, Some (CheckProcess (''check process: '' @ e)))
                | Inr False \<Rightarrow> (Some ''hunch daemon is stopped (stale lock)'', Some ErrDaemonNotRunning)
                | Inr True \<Rightarrow> (Some (''hunch daemon is running (pid: '' @ ItoaInt pid @ '', socket: '' @ op_Socket opt @ '')''), None)))
      | _ \<Rightarrow> (Some ''hunch daemon is stopped (no pid file)'', Some ErrDaemonNotRunning))"

subsection \<open>Running and starting\<close>

definition cmdDaemonRun ::
  "(string \<Rightarrow> regex option) \<Rightarrow> boot \<Rightarrow> world \<Rightarrow> options \<Rightarrow> string \<Rightarrow> host \<Rightarrow> string option \<times> daemon option \<times> host" where
  \<comment> \<open>up to the point where the daemon serves, or the error\<close>
  "cmdDaemonRun compile b w opt0 seedPath h =
     (let opt = opt0\<lparr>op_SeedPath := seedPath\<rparr> in
      if op_Socket opt = [] then (Some ''could not determine socket path; set HUNCH_SOCKET'', None, h)
      else if op_DBPath opt = [] then (Some ''could not determine database path; set HUNCH_DB_PATH'', None, h)
      else case start b w (newDaemon compile opt) h of
             (Some e, _, h') \<Rightarrow> (Some (''daemon: '' @ e), None, h')
           | (None, d, h') \<Rightarrow> (None, Some d, h'))"

definition maxDaemonLogSize :: int where "maxDaemonLogSize = 10 * 1024 * 1024"

definition openDaemonLogFile :: "bool \<Rightarrow> string option \<Rightarrow> string \<Rightarrow> disk \<Rightarrow> string option \<times> disk" where
  \<comment> \<open>whether the log can be renamed, and the error of opening it\<close>
  "openDaemonLogFile renameOk openErr logPath d =
     (let d1 = (case readDisk d logPath of
            Some content \<Rightarrow>
              if int (length content) > maxDaemonLogSize \<and> renameOk then renameDisk logPath (logPath @ ''.old'') d else d
          | None \<Rightarrow> d)
      in case openErr of
           Some e \<Rightarrow> (Some e, d1)
         | None \<Rightarrow> (None, if readDisk d1 logPath = None then writeDisk logPath [] d1 else d1))"

record startCalls =
  sc_fs :: embedded
  sc_dataDir :: "string + string"
  sc_readable :: "string \<Rightarrow> bool"
  sc_mkdirErr :: "string option"
  sc_writeErr :: "string option"
  sc_self :: "string + string"  \<comment> \<open>the path of the running program\<close>
  sc_renameLogOk :: bool
  sc_openLogErr :: "string option"
  sc_execErr :: "string \<Rightarrow> string option"
  sc_polls :: "(duration \<times> bool) list"  \<comment> \<open>whether the socket answers\<close>

definition cmdDaemonStart :: "startCalls \<Rightarrow> options \<Rightarrow> disk \<Rightarrow> string option \<times> string list \<times> disk" where
  \<comment> \<open>the error, the programs started (each with the arguments \<open>daemon run\<close>), and the disk; a script
      or a log that cannot be written is only warned about\<close>
  "cmdDaemonStart k opt d =
     (if op_Socket opt = [] then (Some ''could not determine socket path; set HUNCH_SOCKET'', [], d)
      else
        (let (_, d1) = EnsureIntegrations (sc_fs k) (sc_dataDir k) (sc_readable k) (sc_mkdirErr k) (sc_writeErr k) d in
         case (if op_DaemonBin opt = [] then sc_self k else Inr (op_DaemonBin opt)) of
             Inl e \<Rightarrow> (Some (''resolve binary path: '' @ e), [], d1)
           | Inr selfPath \<Rightarrow>
               (let (_, d2) = openDaemonLogFile (sc_renameLogOk k) (sc_openLogErr k) (joinPath [Dir (op_DBPath opt), ''hunch.log'']) d1 in
                case sc_execErr k selfPath of
                  Some e \<Rightarrow> (Some (''start daemon: '' @ e), [], d2)
                | None \<Rightarrow>
                    (case waitForSocket (op_Socket opt) 2000000000 (sc_polls k) of
                       Some e \<Rightarrow> (Some (''daemon did not start: '' @ e), [selfPath], d2)
                     | None \<Rightarrow> (None, [selfPath], d2)))))"

definition ensureDaemonRunning :: "bool \<Rightarrow> startCalls \<Rightarrow> options \<Rightarrow> disk \<Rightarrow> string option \<times> string list \<times> disk" where
  \<comment> \<open>of cli/import_history.go; the flag: the socket answers\<close>
  "ensureDaemonRunning answers k opt d =
     (if op_Socket opt = [] then (Some ''could not determine socket path'', [], d)
      else if answers then (None, [], d)
      else cmdDaemonStart k opt d)"

definition restartDaemon ::
  "control \<Rightarrow> startCalls \<Rightarrow> options \<Rightarrow> disk \<Rightarrow> string option \<times> (killSignal \<times> int) list \<times> string list \<times> disk" where
  \<comment> \<open>of cli/update.go\<close>
  "restartDaemon c k opt d =
     (case cmdDaemonStop c opt of
        (Some e, signals) \<Rightarrow> (Some (''stop: '' @ e), signals, [], d)
      | (None, signals) \<Rightarrow>
          (case cmdDaemonStart k opt d of
             (Some e, started, d') \<Rightarrow> (Some (''start: '' @ e), signals, started, d')
           | (None, started, d') \<Rightarrow> (None, signals, started, d')))"

subsection \<open>Reading back a PID\<close>

lemma digitsFrom_append:
  "digitsFrom acc (xs @ ys) = (case digitsFrom acc xs of None \<Rightarrow> None | Some v \<Rightarrow> digitsFrom v ys)"
  by (induction xs arbitrary: acc) (auto split: option.split)

lemma digit_char:
  assumes "n < 10"
  shows "digitVal (char_of (48 + n)) = Some (int n)" "solid (char_of (48 + n))" "char_of (48 + n) \<notin> {CHR ''-'', CHR ''+''}"
proof -
  have "n \<in> set [0..<10]" using assms by simp
  then show "digitVal (char_of (48 + n)) = Some (int n)" "solid (char_of (48 + n))"
    "char_of (48 + n) \<notin> {CHR ''-'', CHR ''+''}"
    by (auto simp: upt_rec numeral_eq_Suc) (code_simp+)
qed

lemma Itoa_digits:
  "Itoa n \<noteq> [] \<and> digitsFrom 0 (Itoa n) = Some (int n) \<and> (\<forall>c\<in>set (Itoa n). solid c \<and> c \<notin> {CHR ''-'', CHR ''+''})"
proof (induction n rule: Itoa.induct)
  case (1 n)
  show ?case
  proof (cases "n < 10")
    case True
    then show ?thesis using digit_char [OF True] by (simp add: Itoa.simps [of n])
  next
    case False
    have d: "n mod 10 < 10" by simp
    have "n div 10 * 10 + n mod 10 = n" by simp
    then have "int n = int (n div 10) * 10 + int (n mod 10)" by linarith
    then show ?thesis using 1 [OF False] digit_char [OF d] False
      by (simp add: Itoa.simps [of n] digitsFrom_append)
  qed
qed

lemma Atoi_ItoaInt:
  assumes "0 \<le> pid" "pid \<le> maxInt64"
  shows "Atoi (TrimSpace (ItoaInt pid)) = Some pid"
proof -
  obtain n where n: "pid = int n" using assms(1) by (metis nonneg_int_cases)
  note d = Itoa_digits [of n]
  have "TrimSpace (Itoa n) = Itoa n"
    by (intro TrimSpace_solid) (use d in \<open>simp_all add: list.set_sel(1)\<close>)
  moreover have "\<not> prefix ''-'' (Itoa n) \<and> \<not> prefix ''+'' (Itoa n)"
    using d by (cases "Itoa n") auto
  ultimately show ?thesis using d assms by (simp add: ItoaInt_def n Atoi_def)
qed

subsection \<open>What another process sees\<close>

definition seesHost :: "control \<Rightarrow> options \<Rightarrow> host \<Rightarrow> bool" where
  \<comment> \<open>under the paths a daemon with these options uses, another process finds what the daemon has left\<close>
  "seesHost c opt h \<longleftrightarrow>
     ct_read c (dp_pidPath (runPaths opt)) = (case ho_pidFile h of None \<Rightarrow> NoFile | Some s \<Rightarrow> Contents s)
   \<and> ct_stat c (dp_sockPath (runPaths opt)) = (if ho_socket h then StatOK else StatMissing)"

lemma same_paths: "dp_pidPath (runPaths opt) = pidPath opt" "dp_sockPath (runPaths opt) = op_Socket opt"
  by (simp_all add: runPaths_def pidPath_def Let_def)

lemma seesHost_cli:
  "seesHost c opt h \<longleftrightarrow>
     ct_read c (pidPath opt) = (case ho_pidFile h of None \<Rightarrow> NoFile | Some s \<Rightarrow> Contents s)
   \<and> ct_stat c (op_Socket opt) = (if ho_socket h then StatOK else StatMissing)"
  by (simp only: seesHost_def same_paths)

definition seenWithin :: "duration \<Rightarrow> (duration \<times> bool) list \<Rightarrow> bool" where
  \<comment> \<open>a look saw it, before the time was up at that look and at all before it\<close>
  "seenWithin timeout polls \<longleftrightarrow> (\<exists>i<length polls. snd (polls ! i) \<and> (\<forall>j\<le>i. fst (polls ! j) < timeout))"

lemma seenWithin_Cons:
  "seenWithin timeout ((now, seen) # polls) \<longleftrightarrow> now < timeout \<and> (seen \<or> seenWithin timeout polls)"
proof
  assume "seenWithin timeout ((now, seen) # polls)"
  then obtain i where i: "i < length ((now, seen) # polls)" "snd (((now, seen) # polls) ! i)"
    "\<forall>j\<le>i. fst (((now, seen) # polls) ! j) < timeout" unfolding seenWithin_def by blast
  have now: "now < timeout" using i(3) [rule_format, of 0] by simp
  show "now < timeout \<and> (seen \<or> seenWithin timeout polls)"
  proof (cases i)
    case (Suc k)
    have "\<forall>j\<le>k. fst (polls ! j) < timeout"
    proof (intro allI impI)
      fix j assume "j \<le> k"
      then show "fst (polls ! j) < timeout" using i(3) [rule_format, of "Suc j"] Suc by simp
    qed
    then have "seenWithin timeout polls" using i(1,2) Suc by (auto simp: seenWithin_def)
    then show ?thesis using now by simp
  qed (use i(2) now in simp)
next
  assume a: "now < timeout \<and> (seen \<or> seenWithin timeout polls)"
  show "seenWithin timeout ((now, seen) # polls)"
  proof (cases seen)
    case True
    then show ?thesis using a by (auto simp: seenWithin_def intro!: exI [of _ 0])
  next
    case False
    then obtain k where k: "k < length polls" "snd (polls ! k)" "\<forall>j\<le>k. fst (polls ! j) < timeout"
      using a by (auto simp: seenWithin_def)
    have "fst (((now, seen) # polls) ! j) < timeout" if "j \<le> Suc k" for j
      using that a k(3) by (cases j) simp_all
    then show ?thesis using k unfolding seenWithin_def by (intro exI [of _ "Suc k"]) simp
  qed
qed

lemma waitUntil_seen: "waitUntil timeout polls = seenWithin timeout polls"
  by (induction timeout polls rule: waitUntil.induct) (simp_all add: seenWithin_Cons, simp add: seenWithin_def)

lemma start_files:
  assumes "start b w d h = (None, d1, h1)"
  shows "ho_socket h1 \<and> ho_pidFile h1 = Some (ItoaInt (bo_pid b))"
proof -
  have "startListener b h = (None, h') \<Longrightarrow> ho_socket h' \<and> ho_pidFile h' = ho_pidFile h" for h h'
    by (auto simp: startListener_def split: option.splits)
  then show ?thesis using assms
    by (auto simp: start_def Let_def split: option.splits prod.splits sum.splits)
qed

lemma stop_files:
  assumes "stop w removePidOk d h = (d2, h2)"
  shows "\<not> ho_socket h2 \<and> (removePidOk \<longrightarrow> ho_pidFile h2 = None)"
  using assms by (auto simp: stop_def Let_def)

lemma stop_reports:
  assumes "ct_read c (pidPath opt) = Contents txt" "Atoi (TrimSpace txt) = Some pid"
  shows "ct_terminate c pid = Some e \<Longrightarrow> cmdDaemonStop c opt = (Some (''signal daemon: '' @ e), [(SIGTERM, pid)])"
    and "ct_terminate c pid = None \<Longrightarrow>
      snd (cmdDaemonStop c opt) = (SIGTERM, pid) # (if seenWithin 5000000000 (ct_polls c) then [] else [(SIGKILL, pid)])"
    and "fst (cmdDaemonStop c opt) = None \<longleftrightarrow> ct_terminate c pid = None
      \<and> (seenWithin 5000000000 (ct_polls c) \<or> seenWithin 2000000000 (ct_pollsKilled c))"
  using assms by (auto simp: cmdDaemonStop_def waitForSocketRemoval_def waitUntil_seen split: option.split)

lemma stop_signalled:
  "(sig, pid) \<in> set (snd (cmdDaemonStop c opt)) \<Longrightarrow>
     \<exists>s. ct_read c (pidPath opt) = Contents s \<and> Atoi (TrimSpace s) = Some pid"
  by (auto simp: cmdDaemonStop_def split: readResult.splits option.splits)

text \<open>C35: The control commands tell the truth about the daemon, which they find where it puts its files. After
  any start that succeeds, \<open>status\<close> reports it running under its PID as long as that process lives, and
  not running once it is gone without having cleaned up. \<open>stop\<close> signals that process and no other, \<open>SIGTERM\<close>
  first and \<open>SIGKILL\<close> exactly if the socket was not seen to go within five seconds, and it reports success
  exactly if the signal could be sent and the socket was seen gone within the five seconds or the two
  after \<open>SIGKILL\<close>. After the daemon has stopped, whatever it did in between, \<open>status\<close> reports it
  stopped, and another \<open>stop\<close> sends no signal.\<close>

theorem control_follows:
  assumes "start b w d h = (None, d1, h1)" "0 \<le> bo_pid b" "bo_pid b \<le> maxInt64" "seesHost c opt h1"
    and "stop w' True d' h1 = (d2, h2)" "seesHost c2 opt h2"
  shows "(ct_alive c (bo_pid b) = KillOK \<longrightarrow> cmdDaemonStatus c opt =
        (Some (''hunch daemon is running (pid: '' @ ItoaInt (bo_pid b) @ '', socket: '' @ op_Socket opt @ '')''), None))
    \<and> (ct_alive c (bo_pid b) = NoProcess \<longrightarrow> snd (cmdDaemonStatus c opt) = Some ErrDaemonNotRunning)
    \<and> (fst (cmdDaemonStop c opt) = None \<longleftrightarrow> ct_terminate c (bo_pid b) = None
         \<and> (seenWithin 5000000000 (ct_polls c) \<or> seenWithin 2000000000 (ct_pollsKilled c)))
    \<and> snd (cmdDaemonStop c opt) = (SIGTERM, bo_pid b) #
         (if ct_terminate c (bo_pid b) = None \<and> \<not> seenWithin 5000000000 (ct_polls c) then [(SIGKILL, bo_pid b)] else [])
    \<and> cmdDaemonStatus c2 opt = (Some ''hunch daemon is stopped'', Some ErrDaemonNotRunning)
    \<and> cmdDaemonStop c2 opt = (Some ''hunch daemon is not running'', [])"
proof -
  note s = start_files [OF assms(1)] and pid = Atoi_ItoaInt [OF assms(2,3)]
  have r: "ct_read c (pidPath opt) = Contents (ItoaInt (bo_pid b))" and st: "ct_stat c (op_Socket opt) = StatOK"
    using assms(4) s by (simp_all add: seesHost_cli)
  have gone: "ct_read c2 (pidPath opt) = NoFile \<and> ct_stat c2 (op_Socket opt) = StatMissing"
    using assms(6) stop_files [OF assms(5)] by (simp add: seesHost_cli)
  note stop = stop_reports [OF r pid]
  have "snd (cmdDaemonStop c opt) = (SIGTERM, bo_pid b) #
      (if ct_terminate c (bo_pid b) = None \<and> \<not> seenWithin 5000000000 (ct_polls c) then [(SIGKILL, bo_pid b)] else [])"
    using stop(1,2) by (cases "ct_terminate c (bo_pid b)") simp_all
  moreover have "cmdDaemonStatus c2 opt = (Some ''hunch daemon is stopped'', Some ErrDaemonNotRunning)"
    "cmdDaemonStop c2 opt = (Some ''hunch daemon is not running'', [])"
    using gone by (simp_all add: cmdDaemonStatus_def cmdDaemonStop_def)
  ultimately show ?thesis using stop(3)
    by (simp add: cmdDaemonStatus_def r st pid processExists_def)
qed

text \<open>A process killed with \<open>SIGKILL\<close> removes nothing, so the socket stays where it is. \<open>stop\<close> waits for it to go
  and reports that the daemon did not stop, although it is dead; \<open>status\<close> then sees a stale lock.\<close>

lemma waitUntil_never: "\<forall>(t, seen)\<in>set polls. \<not> seen \<Longrightarrow> \<not> waitUntil timeout polls"
  by (induction polls) (auto split: if_splits)

lemma kill_not_confirmed:
  assumes "seesHost c opt h" "ho_socket h" "ho_pidFile h = Some (ItoaInt pid)" "0 \<le> pid" "pid \<le> maxInt64"
    and "ct_terminate c pid = None"
    and "\<forall>(t, gone)\<in>set (ct_polls c @ ct_pollsKilled c). gone = (\<not> ho_socket h)"
    and "seesHost c2 opt h" "ct_alive c2 pid = NoProcess"
  shows "\<exists>e. cmdDaemonStop c opt = (Some (''daemon did not stop: '' @ e), [(SIGTERM, pid), (SIGKILL, pid)])"
    and "cmdDaemonStatus c2 opt = (Some ''hunch daemon is stopped (stale lock)'', Some ErrDaemonNotRunning)"
proof -
  have "\<not> waitUntil t (ct_polls c)" "\<not> waitUntil t (ct_pollsKilled c)" for t
    using assms(2,7) by (auto intro!: waitUntil_never)
  then show "\<exists>e. cmdDaemonStop c opt = (Some (''daemon did not stop: '' @ e), [(SIGTERM, pid), (SIGKILL, pid)])"
    using assms(1,3,6) Atoi_ItoaInt [OF assms(4,5)]
    by (simp add: cmdDaemonStop_def seesHost_cli waitForSocketRemoval_def)
  show "cmdDaemonStatus c2 opt = (Some ''hunch daemon is stopped (stale lock)'', Some ErrDaemonNotRunning)"
    using assms(2,3,8,9) Atoi_ItoaInt [OF assms(4,5)]
    by (simp add: cmdDaemonStatus_def seesHost_cli processExists_def)
qed

definition controlOf :: "options \<Rightarrow> host \<Rightarrow> control" where
  \<comment> \<open>for the witness: the files of \<open>h\<close> and no others, every process alive, and a socket that goes after 6 seconds\<close>
  "controlOf opt h = \<lparr>ct_read = (\<lambda>p. case ho_pidFile h of
         Some s \<Rightarrow> if p = dp_pidPath (runPaths opt) then Contents s else NoFile | None \<Rightarrow> NoFile),
     ct_stat = (\<lambda>p. if ho_socket h \<and> p = dp_sockPath (runPaths opt) then StatOK else StatMissing), ct_atoiErr = id,
     ct_terminate = (\<lambda>_. None), ct_alive = (\<lambda>_. KillOK), ct_polls = [(0, False), (6000000000, True)],
     ct_pollsKilled = [(0, False), (1000000000, True)]\<rparr>"

definition demoStart :: startCalls where
  \<comment> \<open>nothing fails, and the daemon answers at once\<close>
  "demoStart = \<lparr>sc_fs = Embedded ''script'', sc_dataDir = Inr ''/d'', sc_readable = (\<lambda>_. True), sc_mkdirErr = None,
     sc_writeErr = None, sc_self = Inr ''/bin/hunch'', sc_renameLogOk = True, sc_openLogErr = None,
     sc_execErr = (\<lambda>_. None), sc_polls = [(0, True)]\<rparr>"

theorem control_follows_witness:
  "\<exists>d1 h1. start (okBoot 7) demoWorld (newDaemon (\<lambda>_. None) defaults) (newHost\<lparr>ho_db := fileOf emptyDB\<rparr>) = (None, d1, h1)
     \<and> snd (cmdDaemonStatus (controlOf defaults h1) defaults) = None
     \<and> cmdDaemonStop (controlOf defaults h1) defaults = (None, [(SIGTERM, 7), (SIGKILL, 7)])
     \<and> cmdDaemonStatus (controlOf defaults (snd (stop demoWorld True d1 h1))) defaults
         = (Some ''hunch daemon is stopped'', Some ErrDaemonNotRunning)"
proof -
  have "load emptyDB = []" by (simp add: load_def emptyDB_def)
  then obtain d2 where d2: "bootState (newDaemon (\<lambda>_. None) defaults) emptyDB = Inr d2"
    by (auto simp: bootState_def Merge_def validateTransitions_def)
  have seed: "op_SeedPath (dm_opts d2) = []" using opts_bootState [OF d2] by (simp add: newDaemon_def defaults_def)
  have good: "goodBoot (okBoot 7)" by (simp add: goodBoot_def okBoot_def)
  define h0 where "h0 = newHost\<lparr>ho_db := fileOf emptyDB\<rparr>"
  have lock: "acquireLock (okBoot 7) h0 = (None, h0\<lparr>ho_lockFile := True\<rparr>)"
    by (rule acquireLock_free) (simp_all add: okBoot_def)
  have "ho_db (h0\<lparr>ho_lockFile := True\<rparr>) = fileOf emptyDB" by (simp add: h0_def)
  from start_good [OF good lock this d2 seed] obtain d1 h1
    where up: "start (okBoot 7) demoWorld (newDaemon (\<lambda>_. None) defaults) h0 = (None, d1, h1)" by blast
  have sees: "seesHost (controlOf defaults h) defaults h" for h by (simp add: seesHost_def controlOf_def split: option.split)
  have pid: "bo_pid (okBoot 7) = 7" by (simp add: okBoot_def)
  have answers: "ct_alive (controlOf defaults h1) 7 = KillOK" "ct_terminate (controlOf defaults h1) 7 = None"
    by (simp_all add: controlOf_def)
  have polls: "\<not> seenWithin 5000000000 (ct_polls (controlOf defaults h1))" "seenWithin 2000000000 (ct_pollsKilled (controlOf defaults h1))"
    by (simp_all flip: waitUntil_seen add: controlOf_def)
  note f = control_follows [OF up _ _ sees prod.collapse [symmetric] sees, of demoWorld d1, unfolded pid]
  then have "cmdDaemonStop (controlOf defaults h1) defaults = (None, [(SIGTERM, 7), (SIGKILL, 7)])"
    using answers polls by (simp add: prod_eq_iff)
  then show ?thesis using f up answers unfolding h0_def by simp
qed

subsection \<open>The log\<close>

text \<open>The log is kept below its limit when the daemon starts, and what it held is kept as the old log.\<close>

lemma openDaemonLogFile_cases:
  assumes "openDaemonLogFile renameOk openErr logPath d = (e, d')"
  shows "p \<noteq> logPath \<Longrightarrow> p \<noteq> logPath @ ''.old'' \<Longrightarrow> readDisk d' p = readDisk d p \<and> (onDisk d p \<longrightarrow> onDisk d' p)"
  using assms
  by (auto simp: openDaemonLogFile_def Let_def onDisk_iff renameDisk_files split: option.splits if_splits)

lemma log_rotated:
  assumes "openDaemonLogFile True None logPath d = (None, d')"
  shows "(\<exists>content. readDisk d' logPath = Some content \<and> int (length content) \<le> maxDaemonLogSize)
    \<and> (readDisk d logPath = Some s \<longrightarrow> readDisk d' logPath = Some s \<or> readDisk d' (logPath @ ''.old'') = Some s)"
  using assms
  by (auto simp: openDaemonLogFile_def Let_def maxDaemonLogSize_def renameDisk_files split: option.splits if_splits)

text \<open>Starting the daemon touches no file but the script and the log.\<close>

definition logFiles :: "options \<Rightarrow> string list" where
  "logFiles opt = (let logPath = joinPath [Dir (op_DBPath opt), ''hunch.log''] in [logPath, logPath @ ''.old''])"

lemma logFiles_script:
  assumes "dir \<noteq> []"
  shows "installedScript dir \<notin> set (logFiles opt)"
proof -
  have "Clean p \<noteq> []" for p by (simp add: Clean_def Let_def)
  then have d: "Dir q \<noteq> []" for q by (simp add: Dir_def)
  have "suffix ''hunch.log'' (joinPath [Dir (op_DBPath opt), ''hunch.log''])"
    using Clean_name [OF d, of "''hunch.log''"] d by (simp add: joinPath_Cons)
  then have "last (joinPath [Dir (op_DBPath opt), ''hunch.log'']) = CHR ''g''" by (auto simp: suffix_def)
  moreover have "last (installedScript dir) = CHR ''h''" using installedScript_suffix [OF assms] by (auto simp: suffix_def)
  ultimately show ?thesis by (auto simp: logFiles_def Let_def)
qed

lemma cmdDaemonStart_files:
  assumes "cmdDaemonStart k opt d = (e, started, d')" "sc_fs k = Embedded content" "sc_dataDir k = Inr dir" "dir \<noteq> []"
    and "p \<notin> set (logFiles opt)"
  shows "readDisk d' p \<in> {readDisk d p} \<union> (if p = installedScript dir then {Some content} else {})"
    and "onDisk d p \<Longrightarrow> onDisk d' p"
proof -
  obtain e1 d1 where d1: "EnsureIntegrations (Embedded content) (Inr dir) (sc_readable k) (sc_mkdirErr k) (sc_writeErr k) d = (e1, d1)"
    by (metis prod.exhaust)
  obtain e2 d2 where d2: "openDaemonLogFile (sc_renameLogOk k) (sc_openLogErr k) (joinPath [Dir (op_DBPath opt), ''hunch.log'']) d1 = (e2, d2)"
    by (metis prod.exhaust)
  note a = EnsureIntegrations_any [OF d1 assms(4), of p] and b = openDaemonLogFile_cases [OF d2, of p]
  have "p \<noteq> joinPath [Dir (op_DBPath opt), ''hunch.log'']" "p \<noteq> joinPath [Dir (op_DBPath opt), ''hunch.log''] @ ''.old''"
    using assms(5) by (auto simp: logFiles_def Let_def)
  note b = b [OF this]
  have "d' \<in> {d, d1, d2}"
    using assms(1) d2 by (auto simp: cmdDaemonStart_def Let_def assms(2,3) d1 split: if_splits sum.splits option.splits)
  then show "readDisk d' p \<in> {readDisk d p} \<union> (if p = installedScript dir then {Some content} else {})"
    "onDisk d p \<Longrightarrow> onDisk d' p"
    using a b by auto
qed

lemma ensureDaemonRunning_files:
  assumes "ensureDaemonRunning answers k opt d = (e, started, d')" "sc_fs k = Embedded content" "sc_dataDir k = Inr dir" "dir \<noteq> []"
    and "p \<notin> set (logFiles opt)"
  shows "readDisk d' p \<in> {readDisk d p} \<union> (if p = installedScript dir then {Some content} else {})"
    and "onDisk d p \<Longrightarrow> onDisk d' p"
proof -
  have "d' = d \<or> cmdDaemonStart k opt d = (e, started, d')"
    using assms(1) by (auto simp: ensureDaemonRunning_def split: if_splits)
  then show "readDisk d' p \<in> {readDisk d p} \<union> (if p = installedScript dir then {Some content} else {})"
    "onDisk d p \<Longrightarrow> onDisk d' p"
    using cmdDaemonStart_files [OF _ assms(2-5), of d e started d'] by auto
qed

text \<open>Waiting ends: the loop looks at most once per 50 ms of its timeout, and once more.\<close>

fun pollsSpaced :: "duration \<Rightarrow> (duration \<times> bool) list \<Rightarrow> bool" where
  "pollsSpaced earliest [] = True"
| "pollsSpaced earliest ((now, seen) # polls) = (earliest \<le> now \<and> pollsSpaced (now + 50000000) polls)"

fun turns :: "duration \<Rightarrow> (duration \<times> bool) list \<Rightarrow> nat" where
  \<comment> \<open>how often the loop looks\<close>
  "turns timeout [] = 0"
| "turns timeout ((now, seen) # polls) = (if now < timeout then (if seen then 1 else Suc (turns timeout polls)) else 0)"

lemma turns_bounded:
  "pollsSpaced earliest polls \<Longrightarrow> earliest \<le> timeout \<Longrightarrow>
     int (turns timeout polls) * 50000000 \<le> timeout - earliest + 50000000"
proof (induction timeout polls arbitrary: earliest rule: turns.induct)
  case (2 timeout now seen polls)
  show ?case
  proof (cases "now + 50000000 \<le> timeout")
    case True
    then show ?thesis using 2(1) [of "now + 50000000"] 2(2,3) by (auto simp: algebra_simps)
  next
    case False
    have "turns timeout polls = 0" using False 2(2) by (cases polls) auto
    then show ?thesis using 2(2,3) by auto
  qed
qed auto

end
