(* ===== verification/Setup.thy ===== *)
theory Setup
  imports Daemon_Control
begin

text \<open>
  cli/init.go and cli/uninstall.go: putting hunch in place and taking it away.
\<close>

subsection \<open>Installing\<close>

definition defaultConfig :: string where
  "defaultConfig = concat (map (\<lambda>line. line @ [LF])
    [''# Hunch configuration (TOML)'',
     ''# See https://github.com/DerekCorniello/hunch for docs.'',
     [],
     ''# Override IPC socket path (default: <CacheDir>/hunch.sock)'',
     ''# socket = '' @ QUOTE @ ''/run/user/1000/hunch.sock'' @ QUOTE,
     [],
     ''# Override SQLite database path (default: <DataDir>/hunch.db)'',
     ''# db_path = '' @ QUOTE @ ''/var/lib/hunch/hunch.db'' @ QUOTE,
     [],
     ''# Keys that accept the current ghost-text suggestion'',
     ''# accept_keys = ['' @ QUOTE @ ''right'' @ QUOTE @ '', '' @ QUOTE @ ''end'' @ QUOTE @ '']'',
     ''# Alt-n / Alt-p cycle through ranked suggestions (not configurable here; see'',
     ''# the zsh integration for keybinding overrides).'',
     [],
     ''# Path to the daemon binary'',
     ''# daemon_bin = '' @ QUOTE @ ''/usr/local/bin/hunch'' @ QUOTE,
     [],
     ''# Decay half-life in hours (default 720 = 30 days)'',
     ''# half_life_hours = 720'',
     [],
     ''# Additive smoothing constant (default 0.5)'',
     ''# alpha = 0.5'',
     [],
     ''# Extra parent commands whose subcommand is preserved during normalization'',
     ''# extra_parents = ['' @ QUOTE @ ''mycli'' @ QUOTE @ '', '' @ QUOTE @ ''teamtool'' @ QUOTE @ '']'',
     [],
     ''# Log level: debug, info, warn, error (default info)'',
     ''# log_level = '' @ QUOTE @ ''info'' @ QUOTE])"

definition configPath :: "string \<Rightarrow> string" where
  "configPath cfgDir = joinPath [cfgDir, ''hunch'', ''config.toml'']"







definition zshrcPath :: "string option \<Rightarrow> string" where
  \<comment> \<open>the home directory, if it is known\<close>
  "zshrcPath home = (case home of None \<Rightarrow> ''.zshrc'' | Some h \<Rightarrow> joinPath [h, ''.zshrc''])"

definition warnPath :: "string + string \<Rightarrow> (string \<Rightarrow> string + string) \<Rightarrow> string list \<Rightarrow> string list" where
  \<comment> \<open>the lines of the warning; \<open>absOf\<close> is \<open>filepath.Abs\<close>, the list the directories of the PATH\<close>
  "warnPath executable absOf pathDirs =
     (case executable of
        Inl _ \<Rightarrow> []
      | Inr execPath \<Rightarrow>
          (case absOf (Dir execPath) of
             Inl _ \<Rightarrow> []
           | Inr absDir \<Rightarrow>
               if list_ex (\<lambda>dir. case absOf dir of Inl _ \<Rightarrow> False | Inr absPathDir \<Rightarrow> absDir = absPathDir) pathDirs then []
               else [[], ''Warning: '' @ execPath @ '' is not in your $PATH.'',
                     ''You won'' @ [CHR 0x27] @ ''t be able to run hunch directly in a new shell.'', [],
                     ''To fix, install it globally with:'', [],
                     ''    go install github.com/DerekCorniello/hunch@latest'', [],
                     ''Or add this directory to your $PATH:'', [],
                     ''    export PATH='' @ [CHR 0x22] @ ''$PATH:'' @ absDir @ [CHR 0x22], []]))"

text \<open>The warning compares names, the check of \<open>doctor\<close> what they resolve to: where the PATH names the directory
  of the program by a symbolic link, \<open>init\<close> warns and \<open>doctor\<close> finds nothing wrong.\<close>

lemma warned_but_fine:
  assumes "absOf (Dir p) = Inr (Dir p)" "\<And>dir. dir \<in> set (si_pathDirs s) \<Longrightarrow> absOf dir = Inr dir \<and> dir \<noteq> Dir p"
    and "link \<in> set (si_pathDirs s)" "resolveSymlinks s link = resolveSymlinks s (Dir p)"
  shows "warnPath (Inr p) absOf (si_pathDirs s) \<noteq> []" "ck_status (checkOnPath s p) = StatusOK"
proof -
  have "\<not> list_ex (\<lambda>dir. case absOf dir of Inl _ \<Rightarrow> False | Inr absPathDir \<Rightarrow> Dir p = absPathDir) (si_pathDirs s)"
    using assms(2) by (auto simp: list_ex_iff split: sum.splits)
  then show "warnPath (Inr p) absOf (si_pathDirs s) \<noteq> []" using assms(1) by (simp add: warnPath_def)
  show "ck_status (checkOnPath s p) = StatusOK" using assms(3,4) by (auto simp: checkOnPath_def Let_def list_ex_iff)
qed

subsection \<open>Uninstalling\<close>

definition tryRemove :: "(string \<Rightarrow> bool) \<Rightarrow> string \<Rightarrow> nat \<times> disk \<Rightarrow> nat \<times> disk" where
  "tryRemove ok p = (\<lambda>(removed, d). case removePath ok p d of Some d' \<Rightarrow> (removed + 1, d') | None \<Rightarrow> (removed, d))"

definition dropDir :: "(string \<Rightarrow> bool) \<Rightarrow> string \<Rightarrow> nat \<times> disk \<Rightarrow> nat \<times> disk" where
  \<comment> \<open>a removal that is not counted\<close>
  "dropDir ok p = (\<lambda>(removed, d). case removePath ok p d of Some d' \<Rightarrow> (removed, d') | None \<Rightarrow> (removed, d))"

definition removeData :: "(string \<Rightarrow> bool) \<Rightarrow> string \<Rightarrow> nat \<times> disk \<Rightarrow> nat \<times> disk" where
  "removeData ok dataDir st =
     (if dataDir = [] then st
      else let hunchData = joinPath [dataDir, ''hunch''];
               st1 = fold (\<lambda>name. tryRemove ok (joinPath [hunchData, name])) [''hunch.pid'', ''hunch.lock'', ''hunch.log''] st;
               st2 = tryRemove ok (joinPath [hunchData, ''integrations'', ''zsh'', ''hunch.zsh'']) st1
           in dropDir ok hunchData (dropDir ok (joinPath [hunchData, ''integrations'']) st2))"

definition removeConfig :: "(string \<Rightarrow> bool) \<Rightarrow> string \<Rightarrow> nat \<times> disk \<Rightarrow> nat \<times> disk" where
  "removeConfig ok cfgDir st =
     (if cfgDir = [] then st
      else dropDir ok (joinPath [cfgDir, ''hunch'']) (tryRemove ok (configPath cfgDir) st))"

definition confirmed :: "bool \<Rightarrow> string \<Rightarrow> bool" where
  "confirmed skipConfirm answer \<longleftrightarrow>
     skipConfirm \<or> (let a = TrimSpace (ToLower answer) in a = ''y'' \<or> a = ''yes'')"

definition cmdUninstall ::
  "bool \<Rightarrow> string \<Rightarrow> control \<Rightarrow> (string \<Rightarrow> bool) \<Rightarrow> options \<Rightarrow> string \<Rightarrow> string \<Rightarrow> string option \<Rightarrow> disk \<Rightarrow> rcRead \<Rightarrow>
   nat option \<times> (killSignal \<times> int) list \<times> disk \<times> rcRead" where
  \<comment> \<open>the directories are empty where they cannot be determined; the disk is the one the stopped
      daemon leaves. \<open>None\<close>: cancelled; otherwise how many things were removed. Failing to stop the
      daemon is only warned about\<close>
  "cmdUninstall skipConfirm answer c ok opt dataDir cfgDir rcErr d rc =
     (if \<not> confirmed skipConfirm answer then (None, [], d, rc)
      else
        (let (_, signals) = cmdDaemonStop c opt;
             st1 = (if op_Socket opt \<noteq> [] then tryRemove ok (op_Socket opt) (0, d) else (0, d));
             st2 = (if op_DBPath opt \<noteq> []
                    then fold (\<lambda>suffix. tryRemove ok (op_DBPath opt @ suffix)) [[], ''-wal'', ''-shm''] st1 else st1);
             (removed, d') = removeConfig ok cfgDir (removeData ok dataDir st2);
             (r, rc') = removeRcLine rc rcErr
         in (Some (case r of Inr True \<Rightarrow> removed + 1 | _ \<Rightarrow> removed), signals, d', rc')))"

subsection \<open>After installing\<close>

lemma default_config_comments: "list_all (\<lambda>line. line = [] \<or> HasPrefix line ''#'') (Split defaultConfig LF)"
  by code_simp














subsection \<open>After uninstalling\<close>

definition uninstallTargets :: "options \<Rightarrow> string \<Rightarrow> string \<Rightarrow> string list" where
  \<comment> \<open>the files the command names\<close>
  "uninstallTargets opt dataDir cfgDir =
     (if op_Socket opt \<noteq> [] then [op_Socket opt] else [])
   @ (if op_DBPath opt \<noteq> [] then [op_DBPath opt, op_DBPath opt @ ''-wal'', op_DBPath opt @ ''-shm''] else [])
   @ (if dataDir \<noteq> [] then map (\<lambda>name. joinPath [joinPath [dataDir, ''hunch''], name]) [''hunch.pid'', ''hunch.lock'', ''hunch.log'']
        @ [joinPath [joinPath [dataDir, ''hunch''], ''integrations'', ''zsh'', ''hunch.zsh'']] else [])
   @ (if cfgDir \<noteq> [] then [configPath cfgDir] else [])"

definition uninstallDirs :: "string \<Rightarrow> string \<Rightarrow> string list" where
  \<comment> \<open>the directories it removes where they are empty\<close>
  "uninstallDirs dataDir cfgDir =
     (if dataDir \<noteq> [] then [joinPath [joinPath [dataDir, ''hunch''], ''integrations''], joinPath [dataDir, ''hunch'']] else [])
   @ (if cfgDir \<noteq> [] then [joinPath [cfgDir, ''hunch'']] else [])"

definition removeEach :: "(string \<Rightarrow> bool) \<Rightarrow> string list \<Rightarrow> disk \<Rightarrow> disk" where
  "removeEach ok ps d = fold (\<lambda>p d. case removePath ok p d of Some d' \<Rightarrow> d' | None \<Rightarrow> d) ps d"

lemma snd_tryRemove: "snd (tryRemove ok p st) = removeEach ok [p] (snd st)"
  by (cases st) (simp add: tryRemove_def removeEach_def split: option.split)

lemma snd_dropDir: "snd (dropDir ok p st) = removeEach ok [p] (snd st)"
  by (cases st) (simp add: dropDir_def removeEach_def split: option.split)

lemma removeEach_append: "removeEach ok (ps @ qs) d = removeEach ok qs (removeEach ok ps d)"
  by (simp add: removeEach_def)

lemma removeEach_one:
  "readDisk (removeEach ok [p] d) q = (if q = p \<and> ok p then None else readDisk d q)"
  "set (dk_dirs (removeEach ok [p] d)) \<subseteq> set (dk_dirs d)" "q \<noteq> p \<Longrightarrow> q \<in> set (dk_dirs d) \<Longrightarrow> q \<in> set (dk_dirs (removeEach ok [p] d))"
proof -
  have n: "p \<notin> fst ` set (dk_files d) \<Longrightarrow> readDisk d p = None" by (simp add: readDisk_def map_of_eq_None_iff)
  have dirs: "readDisk (d\<lparr>dk_dirs := ds\<rparr>) x = readDisk d x" for ds x by (simp add: readDisk_def)
  show "readDisk (removeEach ok [p] d) q = (if q = p \<and> ok p then None else readDisk d q)"
    using n by (auto simp: removeEach_def removePath_def dirs)
  show "set (dk_dirs (removeEach ok [p] d)) \<subseteq> set (dk_dirs d)"
    "q \<noteq> p \<Longrightarrow> q \<in> set (dk_dirs d) \<Longrightarrow> q \<in> set (dk_dirs (removeEach ok [p] d))"
    by (auto simp: removeEach_def removePath_def)
qed

lemma removeEach_files:
  "readDisk (removeEach ok ps d) q = (if q \<in> set ps \<and> ok q then None else readDisk d q)"
proof (induction ps arbitrary: d)
  case (Cons p ps)
  have "removeEach ok (p # ps) d = removeEach ok ps (removeEach ok [p] d)" by (simp add: removeEach_def)
  then show ?case using Cons by (auto simp: removeEach_one(1))
qed (simp add: removeEach_def)

lemma removeEach_dirs:
  "q \<in> set (dk_dirs d) \<Longrightarrow> q \<notin> set ps \<Longrightarrow> q \<in> set (dk_dirs (removeEach ok ps d))"
proof (induction ps arbitrary: d)
  case (Cons p ps)
  have "removeEach ok (p # ps) d = removeEach ok ps (removeEach ok [p] d)" by (simp add: removeEach_def)
  then show ?case using Cons.IH [OF removeEach_one(3)] Cons.prems by auto
qed (simp add: removeEach_def)

lemma fold_tryRemove: "snd (fold (\<lambda>x. tryRemove ok (h x)) xs st) = removeEach ok (map h xs) (snd st)"
proof (induction xs arbitrary: st)
  case (Cons x xs)
  have "removeEach ok (map h (x # xs)) (snd st) = removeEach ok (map h xs) (removeEach ok [h x] (snd st))"
    by (simp add: removeEach_def)
  then show ?case using Cons.IH [of "tryRemove ok (h x) st"] by (simp add: snd_tryRemove)
qed (simp add: removeEach_def)

lemma snd_removeData: "snd (removeData ok dataDir st) =
   removeEach ok (if dataDir \<noteq> [] then map (\<lambda>name. joinPath [joinPath [dataDir, ''hunch''], name]) [''hunch.pid'', ''hunch.lock'', ''hunch.log'']
        @ [joinPath [joinPath [dataDir, ''hunch''], ''integrations'', ''zsh'', ''hunch.zsh'']]
        @ [joinPath [joinPath [dataDir, ''hunch''], ''integrations''], joinPath [dataDir, ''hunch'']] else []) (snd st)"
  using fold_tryRemove [of ok "\<lambda>name. joinPath [joinPath [dataDir, ''hunch''], name]" "[''hunch.pid'', ''hunch.lock'', ''hunch.log'']" st]
  unfolding removeData_def Let_def
  by (simp add: snd_dropDir snd_tryRemove removeEach_append [symmetric])
     (simp add: removeEach_def)

lemma snd_removeConfig: "snd (removeConfig ok cfgDir st) =
   removeEach ok (if cfgDir \<noteq> [] then [configPath cfgDir, joinPath [cfgDir, ''hunch'']] else []) (snd st)"
  unfolding removeConfig_def by (simp add: snd_dropDir snd_tryRemove removeEach_append [symmetric])
     (simp add: removeEach_def)

lemma uninstall_disk:
  assumes "cmdUninstall skip answer c ok opt dataDir cfgDir rcErr d rc = (Some n, signals, d', rc')"
  shows "\<exists>ps. d' = removeEach ok ps d \<and> set ps = set (uninstallTargets opt dataDir cfgDir) \<union> set (uninstallDirs dataDir cfgDir)
    \<and> rc' = snd (removeRcLine rc rcErr)"
proof -
  define st1 where "st1 = (if op_Socket opt \<noteq> [] then tryRemove ok (op_Socket opt) (0, d) else (0, d))"
  define st2 where "st2 = (if op_DBPath opt \<noteq> []
      then fold (\<lambda>suffix. tryRemove ok (op_DBPath opt @ suffix)) [[], ''-wal'', ''-shm''] st1 else st1)"
  let ?p1 = "if op_Socket opt \<noteq> [] then [op_Socket opt] else []"
  let ?p2 = "if op_DBPath opt \<noteq> [] then map (\<lambda>suffix. op_DBPath opt @ suffix) [[], ''-wal'', ''-shm''] else []"
  have 1: "snd st1 = removeEach ok ?p1 d" by (simp add: st1_def snd_tryRemove) (simp add: removeEach_def)
  have 2: "snd st2 = removeEach ok ?p2 (snd st1)"
    using fold_tryRemove [of ok "\<lambda>suffix. op_DBPath opt @ suffix" "[[], ''-wal'', ''-shm'']" st1]
    unfolding st2_def by (cases "op_DBPath opt = []") (simp_all add: removeEach_def)
  have d': "d' = snd (removeConfig ok cfgDir (removeData ok dataDir st2))" "rc' = snd (removeRcLine rc rcErr)"
    using assms unfolding cmdUninstall_def Let_def st1_def [symmetric] st2_def [symmetric]
    by (auto split: if_splits prod.splits)
  let ?p3 = "if dataDir \<noteq> [] then map (\<lambda>name. joinPath [joinPath [dataDir, ''hunch''], name]) [''hunch.pid'', ''hunch.lock'', ''hunch.log'']
        @ [joinPath [joinPath [dataDir, ''hunch''], ''integrations'', ''zsh'', ''hunch.zsh'']]
        @ [joinPath [joinPath [dataDir, ''hunch''], ''integrations''], joinPath [dataDir, ''hunch'']] else []"
  let ?p4 = "if cfgDir \<noteq> [] then [configPath cfgDir, joinPath [cfgDir, ''hunch'']] else []"
  have "d' = removeEach ok (?p1 @ ?p2 @ ?p3 @ ?p4) d"
    unfolding d' snd_removeConfig snd_removeData 1 2 removeEach_append ..
  moreover have "set (?p1 @ ?p2 @ ?p3 @ ?p4) = set (uninstallTargets opt dataDir cfgDir) \<union> set (uninstallDirs dataDir cfgDir)"
    unfolding uninstallTargets_def uninstallDirs_def by (simp only: set_append set_map if_distrib [of set]) auto
  ultimately show ?thesis using d'(2) by blast
qed

text \<open>C37: Uninstalling removes what it says and nothing else: without consent nothing changes and no process
  is signalled. With it every file it names is gone unless the system refuses, and every other file and
  directory is as before, apart from the three directories of hunch (which go only if they are empty)
  and the rc file. Of that file it takes out the markers of hunch's block, the lines inside it and the
  lines that source hunch, and keeps every other line; it leaves the file alone if no block begins in it
  and no line sources hunch, or if it cannot be read or written. (Where the end marker is missing
  the block reaches to the end of the file.) It signals only the process whose number is in the PID file
  beside the database; \<open>failed_start_leaves_pid\<close> shows that this can be another one than the daemon.\<close>

theorem uninstall_exact:
  assumes "cmdUninstall skip answer c ok opt dataDir cfgDir rcErr d rc = (r, signals, d', rc')"
  shows "(r = None \<longleftrightarrow> \<not> confirmed skip answer)
    \<and> (r = None \<longrightarrow> signals = [] \<and> d' = d \<and> rc' = rc)
    \<and> (\<forall>(sig, pid)\<in>set signals. \<exists>s. ct_read c (pidPath opt) = Contents s \<and> Atoi (TrimSpace s) = Some pid)
    \<and> (\<forall>p. p \<notin> set (uninstallTargets opt dataDir cfgDir) \<union> set (uninstallDirs dataDir cfgDir) \<longrightarrow>
         readDisk d' p = readDisk d p \<and> (p \<in> set (dk_dirs d) \<longrightarrow> p \<in> set (dk_dirs d')))
    \<and> (\<forall>p n. r = Some n \<longrightarrow> p \<in> set (uninstallTargets opt dataDir cfgDir) \<longrightarrow> ok p \<longrightarrow> readDisk d' p = None)
    \<and> (r \<noteq> None \<longrightarrow> rc' =
         (case rc of
            RcText content \<Rightarrow>
              if rcErr = None \<and> (\<exists>l\<in>set (Split content LF). opensBlock l \<or> sourcesHunch (TrimSpace l) \<and> \<not> Contains (TrimSpace l) endMark)
              then RcText (Join (nths (Split content LF) {i. \<not> insideBlock (Split content LF) i \<and> \<not> marked (Split content LF ! i)}) [LF])
              else rc
          | _ \<Rightarrow> rc))"
proof (cases r)
  case None
  then have "\<not> confirmed skip answer" "d' = d" "rc' = rc" "signals = []"
    using assms by (auto simp: cmdUninstall_def Let_def split: if_splits prod.splits)
  then show ?thesis using None by simp
next
  case (Some n)
  then have c: "confirmed skip answer" using assms by (auto simp: cmdUninstall_def split: if_splits)
  have sig: "signals = snd (cmdDaemonStop c opt)"
    using assms c by (auto simp: cmdUninstall_def Let_def split: prod.splits)
  obtain ps where ps: "d' = removeEach ok ps d"
    "set ps = set (uninstallTargets opt dataDir cfgDir) \<union> set (uninstallDirs dataDir cfgDir)"
    and rc': "rc' = snd (removeRcLine rc rcErr)"
    using uninstall_disk [OF assms [unfolded Some]] by blast
  show ?thesis unfolding ps(2) [symmetric] sig removeRcLine_exact [symmetric] rc' using Some c ps(2) stop_signalled [where c = c and opt = opt]
    by (auto simp: ps(1) removeEach_files intro: removeEach_dirs)
qed

definition demoRc :: string where
  "demoRc = Join [''alias a=b'', beginMark, ''export X=1'', endMark, ''source /d/hunch.zsh'', ''export Y=2''] [LF]"

theorem uninstall_exact_witness:
  "\<exists>n signals d'. cmdUninstall True [] (controlOf defaults newHost) (\<lambda>_. True) (defaults\<lparr>op_DBPath := ''/d/hunch.db''\<rparr>) ''/d'' ''/c'' None
       \<lparr>dk_files = [(''/d/hunch.db'', ''x''), (''/d/notes'', ''y'')], dk_dirs = []\<rparr> (RcText demoRc)
       = (Some n, signals, d', RcText (''alias a=b'' @ [LF] @ ''export Y=2''))
     \<and> readDisk d' ''/d/hunch.db'' = None \<and> readDisk d' ''/d/notes'' = Some ''y''"
proof -
  define d :: disk where "d = \<lparr>dk_files = [(''/d/hunch.db'', ''x''), (''/d/notes'', ''y'')], dk_dirs = []\<rparr>"
  let ?o = "defaults\<lparr>op_DBPath := ''/d/hunch.db''\<rparr>"
  have t: "''/d/hunch.db'' \<in> set (uninstallTargets ?o ''/d'' ''/c'')"
    "''/d/notes'' \<notin> set (uninstallTargets ?o ''/d'' ''/c'') \<union> set (uninstallDirs ''/d'' ''/c'')" by code_simp+
  obtain r signals d' rc' where u: "cmdUninstall True [] (controlOf defaults newHost) (\<lambda>_. True) ?o ''/d'' ''/c'' None d (RcText demoRc) = (r, signals, d', rc')"
    by (metis prod_cases4)
  note facts = uninstall_exact [OF u]
  have "r \<noteq> None" using facts by (simp add: confirmed_def)
  then obtain n where n: "r = Some n" by blast
  have change: "\<exists>l\<in>set (Split demoRc LF). opensBlock l \<or> sourcesHunch (TrimSpace l) \<and> \<not> Contains (TrimSpace l) endMark"
    by code_simp
  have kept: "Join (nths (Split demoRc LF) {i. \<not> insideBlock (Split demoRc LF) i \<and> \<not> marked (Split demoRc LF ! i)}) [LF]
      = ''alias a=b'' @ [LF] @ ''export Y=2''"
    unfolding nths_def mem_Collect_eq by code_simp
  have rc: "rc' = RcText (''alias a=b'' @ [LF] @ ''export Y=2'')"
    using facts n change by (simp only: kept option.distinct simp_thms rcRead.case if_True)
  have "readDisk d' ''/d/hunch.db'' = None" by (rule facts [THEN conjunct2, THEN conjunct2, THEN conjunct2, THEN conjunct2, THEN conjunct1, rule_format, OF n t(1) TrueI])
  moreover have "readDisk d' ''/d/notes'' = readDisk d ''/d/notes''" using facts [THEN conjunct2, THEN conjunct2, THEN conjunct2, THEN conjunct1, rule_format, OF t(2)] by blast
  ultimately show ?thesis using u n unfolding rc d_def [symmetric] by (auto simp: d_def readDisk_def)
qed

text \<open>Some of the daemon's own files stay behind: it keeps its lock, PID and log beside the database,
  which by default is in the data directory itself and not in its subdirectory \<open>hunch\<close>; and the
  directory of the integrations is not empty when it is removed.\<close>

lemma uninstall_leftovers:
  "readDisk (fst (snd (snd (cmdUninstall True [] (controlOf defaults newHost) (\<lambda>_. True) (resolvePaths None (Some ''/d'') defaults) ''/d'' ''/c'' None
     \<lparr>dk_files = [(''/d/hunch.lock'', []), (''/d/hunch/integrations/zsh/hunch.zsh'', [])],
      dk_dirs = [''/d'', ''/d/hunch'', ''/d/hunch/integrations'', ''/d/hunch/integrations/zsh'']\<rparr> RcMissing)))) ''/d/hunch.lock'' = Some []"
  "dk_dirs (fst (snd (snd (cmdUninstall True [] (controlOf defaults newHost) (\<lambda>_. True) (resolvePaths None (Some ''/d'') defaults) ''/d'' ''/c'' None
     \<lparr>dk_files = [(''/d/hunch.lock'', []), (''/d/hunch/integrations/zsh/hunch.zsh'', [])],
      dk_dirs = [''/d'', ''/d/hunch'', ''/d/hunch/integrations'', ''/d/hunch/integrations/zsh'']\<rparr> RcMissing))))
     = [''/d'', ''/d/hunch'', ''/d/hunch/integrations'', ''/d/hunch/integrations/zsh'']"
  by code_simp+

end
