(* ===== verification/Update.thy ===== *)
theory Update
  imports History Daemon_Control
begin

text \<open>
  cli/update.go: replacing the running executable by the latest release. The record \<open>release\<close> holds
  what the network and the system answer; the files are a map from paths to contents, and every step
  returns the map it leaves, on its error paths too. An error carries whether it is a permission
  error. SHA-256, printed in hexadecimal, is a parameter, and so is decoding the JSON of the release.
\<close>

datatype sysError = SysError (er_permission: bool) (er_text: string)

definition plainErr :: "string \<Rightarrow> sysError" where "plainErr s = SysError False s"

definition wrapErr :: "string \<Rightarrow> sysError \<Rightarrow> sysError" where
  \<comment> \<open>the verb \<open>%w\<close> after a prefix\<close>
  "wrapErr pre e = SysError (er_permission e) (pre @ er_text e)"

datatype reply = NoReply sysError | Reply int string "sysError option"
  \<comment> \<open>status, the bytes of the body, and the error that cuts the body short, if any\<close>

type_synonym files = "string \<Rightarrow> string option"

record release =
  up_get :: "string \<Rightarrow> reply"
  up_decodeTag :: "string \<Rightarrow> sysError option \<Rightarrow> sysError + string"
    \<comment> \<open>\<open>json.Decoder.Decode\<close> reads up to the end of the first value: the tag of the release, or the error,
      which is that of the body where it is cut short before\<close>
  up_goos :: string
  up_goarch :: string
  up_executable :: "sysError + string"
  up_evalSymlinks :: "string \<Rightarrow> sysError + string"
  up_createTemp :: "string \<Rightarrow> sysError + string"
  up_writeErr :: "(nat \<times> sysError) option"  \<comment> \<open>writing fails after so many bytes\<close>
  up_chmodErr :: "sysError option"
  up_openErr :: "sysError option"
  up_sha256 :: "string \<Rightarrow> string"
  up_renameErr :: "string \<Rightarrow> string \<Rightarrow> sysError option"
  up_removeOk :: "string \<Rightarrow> bool"

definition latestReleaseAPI :: string where
  "latestReleaseAPI = ''https://api.github.com/repos/DerekCorniello/hunch/releases/latest''"

definition latestAssetURL :: string where
  "latestAssetURL = ''https://github.com/DerekCorniello/hunch/releases/latest/download/''"

definition checksumFile :: string where "checksumFile = ''SHA256SUMS''"
definition sha256HexLen :: nat where "sha256HexLen = 64"
definition releasesPage :: string where
  "releasesPage = ''https://github.com/DerekCorniello/hunch/releases/latest''"

subsection \<open>What is published\<close>

definition releasePlatforms :: "string list" where
  "releasePlatforms = [''linux/amd64'', ''linux/arm64'', ''darwin/amd64'', ''darwin/arm64'', ''windows/amd64'', ''windows/arm64'']"

definition assetNameFor :: "string \<Rightarrow> string \<Rightarrow> sysError + string" where
  "assetNameFor goos goarch =
     (if goos @ ''/'' @ goarch \<notin> set releasePlatforms
      then Inl (plainErr (''no release binary is published for '' @ goos @ ''/'' @ goarch
             @ ''; reinstall from source with: go install github.com/DerekCorniello/hunch@latest''))
      else Inr (let name = ''hunch-'' @ goos @ ''-'' @ goarch
                in if goos = ''windows'' then name @ ''.exe'' else name))"

definition assetName :: "release \<Rightarrow> sysError + string" where
  "assetName u = assetNameFor (up_goos u) (up_goarch u)"

definition fetchLatestVersion :: "release \<Rightarrow> sysError + string" where
  "fetchLatestVersion u =
     (case up_get u latestReleaseAPI of
        NoReply e \<Rightarrow> Inl e
      | Reply status body broken \<Rightarrow>
          if status \<noteq> 200 then Inl (plainErr (''GitHub API returned '' @ ItoaInt status))
          else case up_decodeTag u body broken of
                 Inl e \<Rightarrow> Inl e
               | Inr tag \<Rightarrow> if tag = [] then Inl (plainErr ''release has no tag name'') else Inr tag)"

fun findDigest :: "string \<Rightarrow> string list \<Rightarrow> (sysError + string) option" where
  \<comment> \<open>the loop of \<open>fetchChecksum\<close>; \<open>None\<close>: no line names the asset\<close>
  "findDigest asset [] = None"
| "findDigest asset (line # rest) =
     (case Cut (TrimSpace line) ''  '' of
        None \<Rightarrow> findDigest asset rest
      | Some (digest, name) \<Rightarrow>
          if name = asset then
            Some (if length digest \<noteq> sha256HexLen
                  then Inl (plainErr (''malformed digest for '' @ asset @ '' in '' @ checksumFile))
                  else Inr digest)
          else findDigest asset rest)"

definition fetchChecksum :: "release \<Rightarrow> string \<Rightarrow> sysError + string" where
  \<comment> \<open>64 KiB is the limit a \<open>bufio.Scanner\<close> has by default\<close>
  "fetchChecksum u asset =
     (case up_get u (latestAssetURL @ checksumFile) of
        NoReply e \<Rightarrow> Inl e
      | Reply status body broken \<Rightarrow>
          if status \<noteq> 200
          then Inl (plainErr (checksumFile @ '' is not published for this release (GitHub returned '' @ ItoaInt status
                 @ ''); download the binary manually from '' @ releasesPage))
          else
            (let (lines, tooLong) = scanLines 65536 body in
             case findDigest asset lines of
               Some r \<Rightarrow> r
             | None \<Rightarrow>
                 if tooLong then Inl (plainErr ''bufio.Scanner: token too long'')
                 else case broken of
                        Some e \<Rightarrow> Inl e
                      | None \<Rightarrow> Inl (plainErr (checksumFile @ '' has no entry for '' @ asset))))"

definition currentExecutable :: "release \<Rightarrow> sysError + string" where
  "currentExecutable u =
     (case up_executable u of
        Inl e \<Rightarrow> Inl (wrapErr ''locate current executable: '' e)
      | Inr exe \<Rightarrow>
          (case up_evalSymlinks u exe of
             Inl e \<Rightarrow> Inl (wrapErr (''resolve '' @ exe @ '': '') e)
           | Inr resolved \<Rightarrow> Inr resolved))"

subsection \<open>Files\<close>

definition osRemove :: "release \<Rightarrow> string \<Rightarrow> files \<Rightarrow> files" where
  "osRemove u p fs = (if up_removeOk u p then fs(p := None) else fs)"

definition osRename :: "release \<Rightarrow> string \<Rightarrow> string \<Rightarrow> files \<Rightarrow> sysError option \<times> files" where
  "osRename u a b fs =
     (case fs a of
        None \<Rightarrow> (Some (plainErr (''rename '' @ a @ '' '' @ b @ '': no such file or directory'')), fs)
      | Some content \<Rightarrow>
          (case up_renameErr u a b of
             Some e \<Rightarrow> (Some e, fs)
           | None \<Rightarrow> (None, (fs(a := None))(b := Some content))))"

definition downloadAsset :: "release \<Rightarrow> string \<Rightarrow> string \<Rightarrow> files \<Rightarrow> (sysError + string) \<times> files" where
  "downloadAsset u url dir fs =
     (case up_get u url of
        NoReply e \<Rightarrow> (Inl e, fs)
      | Reply status body broken \<Rightarrow>
          if status \<noteq> 200 then (Inl (plainErr (''GitHub returned '' @ ItoaInt status)), fs)
          else (case up_createTemp u dir of
                  Inl e \<Rightarrow> (Inl (wrapErr (''create temp file in '' @ dir @ '': '') e), fs)
                | Inr tmp \<Rightarrow>
                    (let (written, err) = (case up_writeErr u of
                            Some (k, e) \<Rightarrow> (take k body, Some e)
                          | None \<Rightarrow> (body, broken));
                         fs1 = fs(tmp := Some written)
                     in case err of
                          Some e \<Rightarrow> (Inl e, osRemove u tmp fs1)
                        | None \<Rightarrow>
                            if length written = 0 then (Inl (plainErr ''downloaded an empty file''), osRemove u tmp fs1)
                            else (case up_chmodErr u of
                                    Some e \<Rightarrow> (Inl e, osRemove u tmp fs1)
                                  | None \<Rightarrow> (Inr tmp, fs1)))))"

definition EqualFold :: "string \<Rightarrow> string \<Rightarrow> bool" where
  \<comment> \<open>\<open>strings.EqualFold\<close> where one side is hexadecimal: no letter of it folds to a character
      outside ASCII\<close>
  "EqualFold a b \<longleftrightarrow> ToLower a = ToLower b"

definition verifyChecksum :: "release \<Rightarrow> string \<Rightarrow> string \<Rightarrow> files \<Rightarrow> sysError option" where
  "verifyChecksum u path want fs =
     (case (case up_openErr u of Some e \<Rightarrow> Inl e | None \<Rightarrow>
              (case fs path of None \<Rightarrow> Inl (plainErr (''open '' @ path @ '': no such file or directory'')) | Some data \<Rightarrow> Inr data)) of
        Inl e \<Rightarrow> Some e
      | Inr data \<Rightarrow>
          (let got = up_sha256 u data in
           if \<not> EqualFold got want
           then Some (plainErr (''checksum mismatch: expected '' @ want @ '', got '' @ got
                  @ ''. The download may be corrupt or tampered with; it has not been installed''))
           else None))"

definition replaceExecutable :: "release \<Rightarrow> string \<Rightarrow> string \<Rightarrow> files \<Rightarrow> sysError option \<times> files" where
  "replaceExecutable u tmp exe fs =
     (if up_goos u \<noteq> ''windows'' then osRename u tmp exe fs
      else
        (let old = exe @ ''.old'' in
         case osRename u exe old (osRemove u old fs) of
           (Some e, fs1) \<Rightarrow> (Some e, fs1)
         | (None, fs1) \<Rightarrow>
             (case osRename u tmp exe fs1 of
                (None, fs2) \<Rightarrow> (None, fs2)
              | (Some e, fs2) \<Rightarrow>
                  (case osRename u old exe fs2 of
                     (Some restoreErr, fs3) \<Rightarrow>
                       (Some (SysError (er_permission e) (er_text e @ '' (and restoring '' @ exe @ '' failed: '' @ er_text restoreErr @ '')'')), fs3)
                   | (None, fs3) \<Rightarrow> (Some e, fs3)))))"

definition withPermissionHint :: "sysError \<Rightarrow> string \<Rightarrow> sysError" where
  "withPermissionHint e exe =
     (if \<not> er_permission e then e
      else SysError True (er_text e @ [LF, LF] @ Dir exe @ '' is not writable by the current user. Re-run with elevated privileges, or download the new binary manually from ''
             @ releasesPage))"

subsection \<open>The command\<close>

datatype updateResult = UpToDate | Updated string string  \<comment> \<open>path and version\<close>

definition installRelease :: "release \<Rightarrow> string \<Rightarrow> files \<Rightarrow> (sysError + updateResult) \<times> files" where
  \<comment> \<open>\<open>cmdUpdate\<close> up to the restart; \<open>version\<close>: that of the running program\<close>
  "installRelease u version fs =
     (case fetchLatestVersion u of
        Inl e \<Rightarrow> (Inl (wrapErr ''check latest version: '' e), fs)
      | Inr latest \<Rightarrow>
          if version \<noteq> ''dev'' \<and> version = latest then (Inr UpToDate, fs)
          else (case assetName u of Inl e \<Rightarrow> (Inl e, fs) | Inr asset \<Rightarrow>
               (case currentExecutable u of Inl e \<Rightarrow> (Inl e, fs) | Inr exe \<Rightarrow>
               (case fetchChecksum u asset of Inl e \<Rightarrow> (Inl (wrapErr (''verify '' @ asset @ '': '') e), fs) | Inr wantSum \<Rightarrow>
               (case downloadAsset u (latestAssetURL @ asset) (Dir exe) fs of
                  (Inl e, fs1) \<Rightarrow> (Inl (withPermissionHint (wrapErr (''download '' @ asset @ '': '') e) exe), fs1)
                | (Inr tmp, fs1) \<Rightarrow>
                    (case verifyChecksum u tmp wantSum fs1 of
                       Some e \<Rightarrow> (Inl (wrapErr (''verify '' @ asset @ '': '') e), osRemove u tmp fs1)
                     | None \<Rightarrow>
                         (case replaceExecutable u tmp exe fs1 of
                            (Some e, fs2) \<Rightarrow> (Inl (withPermissionHint (wrapErr (''replace '' @ exe @ '': '') e) exe), osRemove u tmp fs2)
                          | (None, fs2) \<Rightarrow> (Inr (Updated exe latest), osRemove u tmp fs2))))))))"

definition cmdUpdate ::
  "release \<Rightarrow> control \<Rightarrow> startCalls \<Rightarrow> options \<Rightarrow> string \<Rightarrow> files \<Rightarrow> disk \<Rightarrow>
   (sysError + updateResult) \<times> files \<times> (string option \<times> (killSignal \<times> int) list \<times> string list) option \<times> disk" where
  \<comment> \<open>the files beside the program, and the disk with the data of the user; what the restart did, if it
      was tried: its error (which is only printed), the signals sent and the programs started. \<open>SIGTERM\<close> and
      \<open>SIGKILL\<close> stand for \<open>stopProcess\<close> and \<open>forceStopProcess\<close>, which theory Windows_Host has for Windows\<close>
  "cmdUpdate u c k opt version fs d =
     (case installRelease u version fs of
        (Inr (Updated exe latest), fs') \<Rightarrow>
          (case restartDaemon c k opt d of
             (warning, signals, started, d') \<Rightarrow> (Inr (Updated exe latest), fs', Some (warning, signals, started), d'))
      | (r, fs') \<Rightarrow> (r, fs', None, d))"

subsection \<open>Fail closed\<close>

definition tempOf :: "release \<Rightarrow> string \<Rightarrow> bool" where
  "tempOf u p \<longleftrightarrow> (\<exists>dir. up_createTemp u dir = Inr p)"

lemma osRemove_other: "p \<noteq> q \<Longrightarrow> osRemove u q fs p = fs p"
  by (simp add: osRemove_def)

lemma osRemove_cases: "osRemove u q fs p = fs p \<or> osRemove u q fs p = None"
  by (simp add: osRemove_def)

lemma downloadAsset_facts:
  assumes "downloadAsset u url dir fs = (r, fs1)"
  shows "\<not> tempOf u p \<Longrightarrow> fs1 p = fs p"
    and "r = Inr tmp \<Longrightarrow> tempOf u tmp \<and> fs1 tmp \<noteq> None"
proof -
  have "(\<forall>p. \<not> tempOf u p \<longrightarrow> fs1 p = fs p) \<and> (\<forall>tmp. r = Inr tmp \<longrightarrow> tempOf u tmp \<and> fs1 tmp \<noteq> None)"
  proof (cases "up_createTemp u dir")
    case (Inl e)
    then show ?thesis using assms by (auto simp: downloadAsset_def split: reply.splits if_splits)
  next
    case (Inr t)
    then have t: "tempOf u t" by (auto simp: tempOf_def)
    then have "\<not> tempOf u p \<Longrightarrow> p \<noteq> t" for p by blast
    then show ?thesis using assms t
      by (auto simp: downloadAsset_def Let_def Inr osRemove_def split: reply.splits if_splits option.splits prod.splits)
  qed
  then show "\<not> tempOf u p \<Longrightarrow> fs1 p = fs p" "r = Inr tmp \<Longrightarrow> tempOf u tmp \<and> fs1 tmp \<noteq> None" by blast+
qed

lemma verifyChecksum_None:
  "verifyChecksum u path want fs = None \<Longrightarrow> \<exists>content. fs path = Some content \<and> EqualFold (up_sha256 u content) want"
  by (auto simp: verifyChecksum_def Let_def split: option.splits sum.splits if_splits)

lemma osRename_facts:
  assumes "osRename u a b fs = (err, fs')" "a \<noteq> b"
  shows "(\<exists>content. err = None \<and> fs a = Some content \<and> fs' = (fs(a := None))(b := Some content)) \<or> (err \<noteq> None \<and> fs' = fs)"
  using assms by (auto simp: osRename_def split: option.splits)

lemma replaceExecutable_unix:
  assumes "replaceExecutable u tmp exe fs = (err, fs')" "up_goos u \<noteq> ''windows''" "tmp \<noteq> exe" "fs tmp = Some content"
  shows "(err = None \<and> fs' = (fs(tmp := None))(exe := Some content)) \<or> (err \<noteq> None \<and> fs' = fs)"
  using osRename_facts [of u tmp exe fs err fs'] assms by (auto simp: replaceExecutable_def)

lemma replaceExecutable_windows:
  assumes "replaceExecutable u tmp exe fs = (err, fs')" "up_goos u = ''windows''"
    and "tmp \<noteq> exe" "tmp \<noteq> exe @ ''.old''" "fs tmp = Some content" "fs exe = Some old"
  shows "(err = None \<and> fs' exe = Some content) \<or> (err \<noteq> None \<and> fs' exe = Some old)
    \<or> (err \<noteq> None \<and> fs' exe = None \<and> fs' (exe @ ''.old'') = Some old)"
    and "p \<noteq> exe \<Longrightarrow> p \<noteq> exe @ ''.old'' \<Longrightarrow> p \<noteq> tmp \<Longrightarrow> fs' p = fs p"
  using assms
  by (auto simp: replaceExecutable_def Let_def osRename_def osRemove_def split: option.splits if_splits)

lemma replaceExecutable_facts:
  assumes "replaceExecutable u tmp exe fs = (err, fs')" "tmp \<noteq> exe" "tmp \<noteq> exe @ ''.old''"
    and "fs tmp = Some content" "fs exe = Some old"
  shows "(err = None \<and> fs' exe = Some content) \<or> (err \<noteq> None \<and> fs' exe = Some old)
    \<or> (up_goos u = ''windows'' \<and> err \<noteq> None \<and> fs' exe = None \<and> fs' (exe @ ''.old'') = Some old)"
    and "p \<noteq> exe \<Longrightarrow> p \<noteq> exe @ ''.old'' \<Longrightarrow> p \<noteq> tmp \<Longrightarrow> fs' p = fs p"
  using replaceExecutable_unix [OF assms(1) _ assms(2,4)] replaceExecutable_windows [OF assms(1) _ assms(2-5)] assms(5)
  by (cases "up_goos u = ''windows''"; auto)+

text \<open>A content is published for an asset if the manifest of the release lists its digest.\<close>

definition published :: "release \<Rightarrow> string \<Rightarrow> string \<Rightarrow> bool" where
  "published u asset content \<longleftrightarrow>
     (\<exists>body broken line digest. up_get u (latestAssetURL @ checksumFile) = Reply 200 body broken
        \<and> line \<in> set (fst (scanLines 65536 body)) \<and> TrimSpace line = digest @ ''  '' @ asset
        \<and> length digest = sha256HexLen \<and> EqualFold (up_sha256 u content) digest)"

lemma findDigest_line:
  "findDigest asset lines = Some (Inr d) \<Longrightarrow>
     length d = sha256HexLen \<and> (\<exists>line\<in>set lines. TrimSpace line = d @ ''  '' @ asset)"
  by (induction lines) (auto split: option.splits if_splits dest: Cut_Some)

lemma fetchChecksum_published:
  assumes "fetchChecksum u asset = Inr d" "EqualFold (up_sha256 u content) d"
  shows "published u asset content"
proof -
  obtain body broken where get: "up_get u (latestAssetURL @ checksumFile) = Reply 200 body broken"
    and d: "findDigest asset (fst (scanLines 65536 body)) = Some (Inr d)"
    using assms(1) by (auto simp: fetchChecksum_def Let_def split: reply.splits if_splits prod.splits option.splits)
  show ?thesis unfolding published_def using get findDigest_line [OF d] assms(2) by blast
qed

lemma installRelease_early:
  assumes "installRelease u version fs = (r, fs')" "currentExecutable u = Inr exe"
  shows "(fs' = fs \<and> (r = Inr UpToDate \<or> (\<exists>e. r = Inl e)))
    \<or> (\<exists>latest asset d q fs1. fetchLatestVersion u = Inr latest \<and> assetName u = Inr asset \<and> fetchChecksum u asset = Inr d
       \<and> downloadAsset u (latestAssetURL @ asset) (Dir exe) fs = (q, fs1)
       \<and> (case q of
            Inl e \<Rightarrow> fs' = fs1 \<and> r = Inl (withPermissionHint (wrapErr (''download '' @ asset @ '': '') e) exe)
          | Inr tmp \<Rightarrow>
              (case verifyChecksum u tmp d fs1 of
                 Some e \<Rightarrow> fs' = osRemove u tmp fs1 \<and> r = Inl (wrapErr (''verify '' @ asset @ '': '') e)
               | None \<Rightarrow> (\<exists>err fs2. replaceExecutable u tmp exe fs1 = (err, fs2) \<and> fs' = osRemove u tmp fs2
                   \<and> r = (case err of Some e \<Rightarrow> Inl (withPermissionHint (wrapErr (''replace '' @ exe @ '': '') e) exe)
                          | None \<Rightarrow> Inr (Updated exe latest))))))"
  using assms unfolding installRelease_def
  by (cases "fetchLatestVersion u"; cases "assetName u"; cases "fetchChecksum u (projr (assetName u))";
      cases "downloadAsset u (latestAssetURL @ projr (assetName u)) (Dir exe) fs")
    (auto split: if_splits sum.splits option.splits prod.splits)

lemma install_files:
  assumes rep: "replaceExecutable u tmp exe fs = (err, fs2)" "tmp \<noteq> exe" "tmp \<noteq> exe @ ''.old''"
    and sum: "verifyChecksum u tmp d fs = None" "fetchChecksum u asset = Inr d" and exe: "fs exe = Some old"
  shows "(err = None \<and> (\<exists>content. osRemove u tmp fs2 exe = Some content \<and> published u asset content))
    \<or> (err \<noteq> None \<and> osRemove u tmp fs2 exe = Some old)
    \<or> (up_goos u = ''windows'' \<and> err \<noteq> None \<and> osRemove u tmp fs2 exe = None \<and> osRemove u tmp fs2 (exe @ ''.old'') = Some old)"
    and "p \<noteq> exe \<Longrightarrow> p \<noteq> exe @ ''.old'' \<Longrightarrow> p \<noteq> tmp \<Longrightarrow> osRemove u tmp fs2 p = fs p"
proof -
  obtain content where c: "fs tmp = Some content" "EqualFold (up_sha256 u content) d"
    using verifyChecksum_None [OF sum(1)] by blast
  note facts = replaceExecutable_facts [OF rep c(1) exe]
  show "(err = None \<and> (\<exists>content. osRemove u tmp fs2 exe = Some content \<and> published u asset content))
    \<or> (err \<noteq> None \<and> osRemove u tmp fs2 exe = Some old)
    \<or> (up_goos u = ''windows'' \<and> err \<noteq> None \<and> osRemove u tmp fs2 exe = None \<and> osRemove u tmp fs2 (exe @ ''.old'') = Some old)"
    using facts(1) fetchChecksum_published [OF sum(2) c(2)] rep(2,3) osRemove_other [of exe tmp u fs2]
      osRemove_other [of "exe @ ''.old''" tmp u fs2] by auto
  show "p \<noteq> exe \<Longrightarrow> p \<noteq> exe @ ''.old'' \<Longrightarrow> p \<noteq> tmp \<Longrightarrow> osRemove u tmp fs2 p = fs p"
    using facts(2) [of p] osRemove_other [of p tmp u fs2] by simp
qed

definition exeSafe :: "release \<Rightarrow> string \<Rightarrow> string \<Rightarrow> sysError + updateResult \<Rightarrow> files \<Rightarrow> bool" where
  \<comment> \<open>the outcomes that leave the user a program: the old one, a verified new one, or, on Windows,
      the old one under the name it was moved to\<close>
  "exeSafe u exe old r fs \<longleftrightarrow>
     (fs exe = Some old \<and> (\<forall>p v. r \<noteq> Inr (Updated p v)))
   \<or> (\<exists>asset content v. r = Inr (Updated exe v) \<and> assetName u = Inr asset \<and> fs exe = Some content \<and> published u asset content)
   \<or> (up_goos u = ''windows'' \<and> (\<exists>e. r = Inl e) \<and> fs exe = None \<and> fs (exe @ ''.old'') = Some old)"

lemma installRelease_files:
  assumes upd: "installRelease u version fs = (r, fs')" and exe: "currentExecutable u = Inr exe" "fs exe = Some old"
    and temp: "\<And>p. tempOf u p \<Longrightarrow> fs p = None \<and> p \<noteq> exe @ ''.old''"
  shows "exeSafe u exe old r fs' \<and> (\<forall>p. p \<noteq> exe \<longrightarrow> p \<noteq> exe @ ''.old'' \<longrightarrow> \<not> tempOf u p \<longrightarrow> fs' p = fs p)"
  using installRelease_early [OF upd exe(1)]
proof (elim disjE exE conjE)
  fix latest asset d q fs1
  assume a: "assetName u = Inr asset" "fetchChecksum u asset = Inr d"
    and dl: "downloadAsset u (latestAssetURL @ asset) (Dir exe) fs = (q, fs1)"
    and q: "case q of
          Inl e \<Rightarrow> fs' = fs1 \<and> r = Inl (withPermissionHint (wrapErr (''download '' @ asset @ '': '') e) exe)
        | Inr tmp \<Rightarrow>
            (case verifyChecksum u tmp d fs1 of
               Some e \<Rightarrow> fs' = osRemove u tmp fs1 \<and> r = Inl (wrapErr (''verify '' @ asset @ '': '') e)
             | None \<Rightarrow> (\<exists>err fs2. replaceExecutable u tmp exe fs1 = (err, fs2) \<and> fs' = osRemove u tmp fs2
                 \<and> r = (case err of Some e \<Rightarrow> Inl (withPermissionHint (wrapErr (''replace '' @ exe @ '': '') e) exe)
                        | None \<Rightarrow> Inr (Updated exe latest))))"
  have ne: "tempOf u q \<Longrightarrow> q \<noteq> exe" for q using temp exe(2) by force
  have same: "\<not> tempOf u p \<Longrightarrow> fs1 p = fs p" for p by (rule downloadAsset_facts(1) [OF dl])
  have exe1: "fs1 exe = Some old" using same ne exe(2) by metis
  show ?thesis
  proof (cases q)
    case (Inl e)
    then show ?thesis using q exe1 same by (auto simp: exeSafe_def)
  next
    case (Inr tmp)
    have tmp: "tempOf u tmp" "tmp \<noteq> exe" "tmp \<noteq> exe @ ''.old''"
      using downloadAsset_facts(2) [OF dl Inr] ne temp by blast+
    show ?thesis
    proof (cases "verifyChecksum u tmp d fs1")
      case (Some e)
      then have f: "fs' = osRemove u tmp fs1" "\<exists>e. r = Inl e" using q Inr by auto
      have "\<not> tempOf u p \<Longrightarrow> fs' p = fs p" for p using f(1) osRemove_other same tmp(1) by metis
      moreover have "fs' exe = Some old" using f(1) osRemove_other exe1 tmp(2) by metis
      ultimately show ?thesis using f(2) by (auto simp: exeSafe_def)
    next
      case None
      then obtain err fs2 where rep: "replaceExecutable u tmp exe fs1 = (err, fs2)" and f: "fs' = osRemove u tmp fs2"
        "r = (case err of Some e \<Rightarrow> Inl (withPermissionHint (wrapErr (''replace '' @ exe @ '': '') e) exe)
                        | None \<Rightarrow> Inr (Updated exe latest))" using q Inr by auto
      note facts = install_files [OF rep tmp(2,3) None a(2) exe1, folded f(1)]
      have "exeSafe u exe old r fs'" using facts(1) f(2) a(1) unfolding exeSafe_def by (cases err) auto
      moreover have "\<not> tempOf u p \<Longrightarrow> p \<noteq> exe \<Longrightarrow> p \<noteq> exe @ ''.old'' \<Longrightarrow> fs' p = fs p" for p
        using facts(2) same tmp(1) by metis
      ultimately show ?thesis by blast
    qed
  qed
qed (use exe(2) in \<open>auto simp: exeSafe_def\<close>)

subsection \<open>No unverified program\<close>

lemma cmdUpdate_install:
  assumes "cmdUpdate u c k opt version fs d = (r, fs', restart, d')"
  shows "installRelease u version fs = (r, fs')" "restart \<noteq> None \<longleftrightarrow> (\<exists>p v. r = Inr (Updated p v))" "restart = None \<longrightarrow> d' = d"
  using assms by (auto simp: cmdUpdate_def split: prod.splits sum.splits updateResult.splits)

text \<open>C6: An update never leaves an unverified program: whatever fails, and whatever the network delivers,
  afterwards the path of the executable holds the old program, or, if and only if the update reports
  success, content whose digest the manifest of the release lists for this platform. Only on Windows,
  if putting the new file in place and putting the old one back both fail, is it missing, and then the
  old one is still there under its other name. Without a digest nothing at all is written, no other
  file than the temporary one is touched, and the daemon is restarted only after a success. Relied on:
  a new temporary file has a name no file had.\<close>

theorem update_safe:
  assumes "cmdUpdate u c k opt version fs d = (r, fs', restart, d')" "currentExecutable u = Inr exe" "fs exe = Some old"
    and "\<And>p. tempOf u p \<Longrightarrow> fs p = None \<and> p \<noteq> exe @ ''.old''"
  shows "((fs' exe = Some old \<and> (\<forall>p v. r \<noteq> Inr (Updated p v)))
     \<or> (\<exists>asset content v. r = Inr (Updated exe v) \<and> assetName u = Inr asset \<and> fs' exe = Some content \<and> published u asset content)
     \<or> (up_goos u = ''windows'' \<and> (\<exists>e. r = Inl e) \<and> fs' exe = None \<and> fs' (exe @ ''.old'') = Some old))
   \<and> (\<forall>p. p \<noteq> exe \<longrightarrow> p \<noteq> exe @ ''.old'' \<longrightarrow> \<not> tempOf u p \<longrightarrow> fs' p = fs p)
   \<and> (assetName u = Inr asset \<and> fetchChecksum u asset = Inl e \<longrightarrow> fs' = fs)
   \<and> (restart \<noteq> None \<longleftrightarrow> (\<exists>p v. r = Inr (Updated p v))) \<and> (restart = None \<longrightarrow> d' = d)"
proof -
  note step = cmdUpdate_install [OF assms(1)]
  have "fs' = fs" if a: "assetName u = Inr asset" "fetchChecksum u asset = Inl e"
    using step(1) assms(2) by (auto simp: installRelease_def a split: sum.splits if_splits)
  moreover have "exeSafe u exe old r fs' \<and> (\<forall>p. p \<noteq> exe \<longrightarrow> p \<noteq> exe @ ''.old'' \<longrightarrow> \<not> tempOf u p \<longrightarrow> fs' p = fs p)"
    by (rule installRelease_files [OF step(1) assms(2,3)]) (rule assms(4))
  ultimately show ?thesis using step(2,3) unfolding exeSafe_def
    by (intro conjI impI) (erule conjunct1, erule conjunct2, blast+)
qed

definition demoRelease :: release where
  "demoRelease = \<lparr>up_get = (\<lambda>url. if url = latestReleaseAPI then Reply 200 ''{}'' None
        else if url = latestAssetURL @ checksumFile
        then Reply 200 (replicate 64 CHR ''A'' @ ''  hunch-linux-amd64'' @ [LF]) None
        else Reply 200 ''program'' None),
     up_decodeTag = (\<lambda>_ _. Inr ''v2''), up_goos = ''linux'', up_goarch = ''amd64'',
     up_executable = Inr ''/bin/hunch'', up_evalSymlinks = Inr, up_createTemp = (\<lambda>dir. Inr (dir @ ''/.hunch-update-1'')),
     up_writeErr = None, up_chmodErr = None, up_openErr = None, up_sha256 = (\<lambda>_. replicate 64 CHR ''a''),
     up_renameErr = (\<lambda>_ _. None), up_removeOk = (\<lambda>_. True)\<rparr>"

definition demoFiles :: files where
  "demoFiles = (\<lambda>p. if p = ''/bin/hunch'' then Some ''old program'' else None)"

lemma demo_checksum: "fetchChecksum demoRelease ''hunch-linux-amd64'' = Inr (replicate 64 CHR ''A'')"
proof -
  define line where "line = replicate 64 CHR ''A'' @ ''  hunch-linux-amd64''"
  have "findDigest ''hunch-linux-amd64'' [line] = Some (Inr (replicate 64 CHR ''A''))"
    unfolding line_def by code_simp
  moreover have "scanLines 65536 (line @ [LF]) = ([line], False)"
    using Split_lines [of "[line]"] by (simp add: scanLines_def scanPieces_def Let_def dropCR_def line_def)
  moreover have "up_get demoRelease (latestAssetURL @ checksumFile) = Reply 200 (line @ [LF]) None"
    by (simp add: demoRelease_def line_def latestReleaseAPI_def latestAssetURL_def)
  ultimately show ?thesis by (simp add: fetchChecksum_def)
qed

lemma demo_update: "fst (installRelease demoRelease ''v1'' demoFiles) = Inr (Updated ''/bin/hunch'' ''v2'')"
proof -
  have "fetchLatestVersion demoRelease = Inr ''v2''"
    "assetName demoRelease = Inr ''hunch-linux-amd64''" "currentExecutable demoRelease = Inr ''/bin/hunch''"
    "Dir ''/bin/hunch'' = ''/bin''" "up_get demoRelease (latestAssetURL @ ''hunch-linux-amd64'') = Reply 200 ''program'' None"
    "EqualFold (replicate 64 CHR ''a'') (replicate 64 CHR ''A'')"
    by code_simp+
  moreover have "up_createTemp demoRelease dir = Inr (dir @ ''/.hunch-update-1'')" "up_writeErr demoRelease = None"
    "up_chmodErr demoRelease = None" "up_openErr demoRelease = None" "up_goos demoRelease = ''linux''"
    "up_sha256 demoRelease s = replicate 64 CHR ''a''" "up_renameErr demoRelease p q = None" for dir s p q
    by (simp_all add: demoRelease_def)
  ultimately show ?thesis
    by (simp add: installRelease_def demo_checksum downloadAsset_def verifyChecksum_def replaceExecutable_def osRename_def Let_def)
qed

theorem update_safe_witness:
  "\<exists>fs' restart d' content. cmdUpdate demoRelease (controlOf defaults newHost) demoStart defaults ''v1'' demoFiles
        \<lparr>dk_files = [], dk_dirs = []\<rparr> = (Inr (Updated ''/bin/hunch'' ''v2''), fs', restart, d')
     \<and> restart \<noteq> None \<and> fs' ''/bin/hunch'' = Some content \<and> published demoRelease ''hunch-linux-amd64'' content"
proof -
  have exe: "currentExecutable demoRelease = Inr ''/bin/hunch''" "assetName demoRelease = Inr ''hunch-linux-amd64''"
    by code_simp+
  have temp: "\<And>p. tempOf demoRelease p \<Longrightarrow> demoFiles p = None \<and> p \<noteq> ''/bin/hunch'' @ ''.old''"
  proof -
    fix p assume "tempOf demoRelease p"
    then have "suffix ''/.hunch-update-1'' p" by (auto simp: tempOf_def demoRelease_def suffix_def)
    then have "last p = CHR ''1''" by (auto simp: suffix_def)
    then show "demoFiles p = None \<and> p \<noteq> ''/bin/hunch'' @ ''.old''" by (auto simp: demoFiles_def)
  qed
  have old: "demoFiles ''/bin/hunch'' = Some ''old program''" by (simp add: demoFiles_def)
  obtain r fs' restart d' where upd: "cmdUpdate demoRelease (controlOf defaults newHost) demoStart defaults ''v1'' demoFiles
      \<lparr>dk_files = [], dk_dirs = []\<rparr> = (r, fs', restart, d')" by (metis prod_cases4)
  have r: "r = Inr (Updated ''/bin/hunch'' ''v2'')" using cmdUpdate_install(1) [OF upd] demo_update by simp
  show ?thesis using update_safe [OF upd exe(1) old temp] upd r exe(2) by fastforce
qed

end
