(* ===== verification/Entry.thy ===== *)
theory Entry
  imports Daemon_Control History
begin

text \<open>
  main.go and cli/root.go, with the dispatch of cli/daemon.go and cli/client.go: from the arguments of the
  process to a command of the other theories, and from its error to the exit code. \<open>cmdImportHistory\<close> of
  cli/import_history.go puts the start of the daemon and the import together. \<open>quote\<close> is the verb \<open>%q\<close>;
  the flags of a command are taken apart by the library.
\<close>

datatype action =
    PrintVersion | PrintUsage
  | CmdInit "string list"
  | CmdDaemonRun "string list" | CmdDaemonStart | CmdDaemonStop | CmdDaemonStatus
  | CmdClientRecord "string list" | CmdClientPredict "string list" | CmdClientExplain "string list" | CmdClientReset
  | CmdClientExport | CmdClientNormalize "string list" | CmdClientStats | CmdClientConfig
  | CmdClientImport "string list" | CmdClientServe "string list"
  | CmdImportHistory "string list" | CmdEval "string list" | CmdWhy "string list"
  | CmdUninstall bool | CmdDoctor | CmdUpdate

definition usageText :: string where
  "usageText = concat (map (\<lambda>line. line @ [LF])
    [''Usage: hunch <command> [options]'',
     [],
     ''hunch learns your command history and suggests your next command as you type.'',
     ''Set it up once with 'hunch init'; after that it runs in the background on its'',
     ''own and you never need to touch it.'',
     [],
     ''hunch currently supports zsh only; see README for why.'',
     [],
     ''Commands:'',
     ''  init                  Install the zsh integration'',
     ''    --auto              Append the source line to .zshrc for you'',
     ''  doctor                Check installation and daemon health'',
     ''  update                Update to the latest release'',
     ''  uninstall [--yes]     Remove hunch and all its data'',
     ''  import-history        Seed predictions from your existing zsh history'',
     ''  stats                 Show what hunch has learned so far'',
     ''  eval                  Measure prediction accuracy against your own history'',
     ''  why                   Explain the scoring behind the current suggestion'',
     ''  reset                 Forget everything and start over'',
     ''  daemon <action>       Manage the background daemon (run|start|stop|status)'',
     ''  version               Print the version'',
     [],
     ''Flags:'',
     ''  --version, -v        Print version'',
     ''  --help, -h           Print this help''])"

definition cmdDaemon :: "(string \<Rightarrow> string) \<Rightarrow> string list \<Rightarrow> string + action" where
  "cmdDaemon quote args =
     (case args of
        [] \<Rightarrow> Inl (''usage: hunch daemon <action>'' @ [LF, LF] @ ''actions: run, start, stop, status'')
      | a # rest \<Rightarrow>
          if a = ''run'' then Inr (CmdDaemonRun rest)
          else if a = ''start'' then Inr CmdDaemonStart
          else if a = ''stop'' then Inr CmdDaemonStop
          else if a = ''status'' then Inr CmdDaemonStatus
          else Inl (''unknown daemon action: '' @ quote a @ [LF, LF] @ ''actions: run, start, stop, status''))"

definition clientOps :: string where
  "clientOps = ''ops: record, predict, explain, reset, export, normalize, stats, config, import, serve''"

definition cmdClient :: "(string \<Rightarrow> string) \<Rightarrow> string list \<Rightarrow> string + action" where
  "cmdClient quote args =
     (case args of
        [] \<Rightarrow> Inl (''usage: hunch client <op>'' @ [LF, LF] @ clientOps)
      | a # rest \<Rightarrow>
          if a = ''record'' then Inr (CmdClientRecord rest)
          else if a = ''predict'' then Inr (CmdClientPredict rest)
          else if a = ''explain'' then Inr (CmdClientExplain rest)
          else if a = ''reset'' then Inr CmdClientReset
          else if a = ''export'' then Inr CmdClientExport
          else if a = ''normalize'' then Inr (CmdClientNormalize rest)
          else if a = ''stats'' then Inr CmdClientStats
          else if a = ''config'' then Inr CmdClientConfig
          else if a = ''import'' then Inr (CmdClientImport rest)
          else if a = ''serve'' then Inr (CmdClientServe rest)
          else Inl (''unknown client op: '' @ quote a @ [LF, LF] @ clientOps))"

definition RunCLI :: "(string \<Rightarrow> string) \<Rightarrow> string list \<Rightarrow> string + action" where
  \<comment> \<open>\<open>Run\<close> of cli/root.go\<close>
  "RunCLI quote args =
     (case args of
        [] \<Rightarrow> Inr PrintUsage
      | a # rest \<Rightarrow>
          if a \<in> {''version'', ''--version'', ''-v''} then Inr PrintVersion
          else if a \<in> {''--help'', ''-h''} then Inr PrintUsage
          else if a = ''init'' then Inr (CmdInit rest)
          else if a = ''daemon'' then cmdDaemon quote rest
          else if a = ''client'' then cmdClient quote rest
          else if a = ''import-history'' then Inr (CmdImportHistory rest)
          else if a = ''eval'' then Inr (CmdEval rest)
          else if a = ''why'' then Inr (CmdWhy rest)
          else if a = ''uninstall'' then Inr (CmdUninstall (list_ex (\<lambda>arg. arg = ''--yes'' \<or> arg = ''-y'') rest))
          else if a = ''doctor'' then Inr CmdDoctor
          else if a = ''update'' then Inr CmdUpdate
          else if a = ''stats'' then Inr CmdClientStats
          else if a = ''predict'' then Inr (CmdClientPredict rest)
          else if a = ''reset'' then Inr CmdClientReset
          else Inl (''unknown command: '' @ a @ [LF, LF] @ usageText))"

datatype cliError = DaemonNotRunning | CliError string

definition main :: "string option \<Rightarrow> cliError option \<Rightarrow> int \<times> string option" where
  \<comment> \<open>the error of the embedded files and that of \<open>Run\<close>; then the exit code and the line on stderr\<close>
  "main subErr runErr =
     (case subErr of
        Some e \<Rightarrow> (1, Some (''embedded integrations: '' @ e))
      | None \<Rightarrow>
          (case runErr of
             None \<Rightarrow> (0, None)
           | Some DaemonNotRunning \<Rightarrow> (1, None)
           | Some (CliError e) \<Rightarrow> (1, Some e)))"

definition cmdImportHistory ::
  "(string \<Rightarrow> string + string) \<Rightarrow> string option \<Rightarrow> bool \<Rightarrow> startCalls \<Rightarrow> options \<Rightarrow> string \<Rightarrow>
   (seed \<Rightarrow> string) \<Rightarrow> (request \<Rightarrow> 'd \<Rightarrow> string option \<times> 'd) \<Rightarrow> gotime \<Rightarrow> nat list \<Rightarrow> disk \<Rightarrow> 'd \<Rightarrow>
   string option \<times> string list \<times> disk \<times> 'd" where
  "cmdImportHistory files home answers k opt path encode send now schedule disk d =
     (case resolveHistoryPath files home path of
        Inl e \<Rightarrow> (Some e, [], disk, d)
      | Inr (historyPath, _) \<Rightarrow>
          (case ensureDaemonRunning answers k opt disk of
             (Some e, started, disk') \<Rightarrow> (Some (''daemon must be running to import history: '' @ e), started, disk', d)
           | (None, started, disk') \<Rightarrow>
               (let (e, d') = runImport encode send now schedule (files historyPath) d in (e, started, disk', d'))))"

subsection \<open>The usage text and the dispatch agree\<close>

definition usageCommands :: "string list" where
  \<comment> \<open>the first words of the lines between \<open>Commands:\<close> and the next empty line, options left out\<close>
  "usageCommands =
     (let ls = takeWhile (\<lambda>line. line \<noteq> []) (tl (dropWhile (\<lambda>line. line \<noteq> ''Commands:'') (Split usageText LF)))
      in map (\<lambda>line. takeWhile (\<lambda>c. c \<noteq> CHR '' '') (drop 2 line)) (filter (\<lambda>line. \<not> prefix ''    '' line) ls))"

lemma usage_commands: "usageCommands = [''init'', ''doctor'', ''update'', ''uninstall'', ''import-history'', ''stats'', ''eval'',
    ''why'', ''reset'', ''daemon'', ''version'']"
  by code_simp

lemma usage_known:
  "\<forall>c\<in>set usageCommands. \<forall>rest e. RunCLI quote (c # rest) = Inl e \<longrightarrow> c = ''daemon''"
  unfolding usage_commands by (auto simp: RunCLI_def)

text \<open>The confirmation of \<open>uninstall\<close> is skipped only where it is asked for.\<close>

lemma uninstall_asks: "RunCLI quote args = Inr (CmdUninstall True) \<Longrightarrow> ''--yes'' \<in> set args \<or> ''-y'' \<in> set args"
  by (auto simp: RunCLI_def cmdDaemon_def cmdClient_def list_ex_iff split: list.splits if_splits)

text \<open>The process exits with 0 exactly when its command has no error, and says why unless \<open>status\<close> has
  already.\<close>

lemma main_exit: "fst (main subErr runErr) = 0 \<longleftrightarrow> subErr = None \<and> runErr = None"
  "snd (main None (Some e)) = None \<longleftrightarrow> e = DaemonNotRunning"
  by (auto simp: main_def split: option.split cliError.split)

end
