(* ===== verification/Windows_Host.thy ===== *)
theory Windows_Host
  imports Daemon_Control
begin

text \<open>
  The Windows platform: the lock, the processes and the directories of daemon/osutil_windows.go, in the place
  of the Unix ones of Config and Lifecycle, and starting and stopping the daemon of cli/daemon_windows.go and
  cli/daemon_stop_windows.go, in the place of those of Daemon_Control.
\<close>

datatype lockFileExResult = Locked | LockViolation | LockInvalidParameter | LockFileExError string
datatype openProcessError = InvalidParameter | AccessDenied | OpenProcessError string
datatype processResult = OpenProcessFails openProcessError | ExitCodeFails string | ExitCode int

definition LockWindows :: "lockFileExResult \<Rightarrow> lockError option" where
  "LockWindows r =
     (case r of
        Locked \<Rightarrow> None
      | LockViolation \<Rightarrow> Some ErrLocked
      | LockInvalidParameter \<Rightarrow> Some ErrLocked
      | LockFileExError e \<Rightarrow> Some (LockFailed (''LockFileEx: '' @ e)))"

text \<open>The lock is one byte of the lock file; \<open>Unlock\<close> and \<open>Close\<close> name the byte that \<open>Lock\<close> took.\<close>

definition lockfileExclusiveLock :: nat where "lockfileExclusiveLock = 2"
definition lockfileFailImmediately :: nat where "lockfileFailImmediately = 1"

datatype lockCall = OpenFile string | LockFileEx nat nat nat | UnlockFileEx nat nat | CloseFile

definition OpenLockWindows :: "(string \<Rightarrow> string option) \<Rightarrow> string \<Rightarrow> string option \<times> lockCall list" where
  "OpenLockWindows openErr path = (map_option (\<lambda>e. ''open lock file: '' @ e) (openErr path), [OpenFile path])"

definition LockCalls :: "lockCall list" where
  \<comment> \<open>the call whose answer \<open>LockWindows\<close> reads\<close>
  "LockCalls = [LockFileEx (or lockfileExclusiveLock lockfileFailImmediately) 1 0]"

definition UnlockWindows :: "string option \<Rightarrow> string option \<times> lockCall list" where
  "UnlockWindows unlockErr = (map_option (\<lambda>e. ''UnlockFileEx: '' @ e) unlockErr, [UnlockFileEx 1 0])"

definition CloseWindows :: "string option \<Rightarrow> string option \<Rightarrow> string option \<times> lockCall list" where
  "CloseWindows unlockErr closeErr = (closeErr, snd (UnlockWindows unlockErr) @ [CloseFile])"

fun heldBytes :: "lockCall list \<Rightarrow> (nat \<times> nat) list \<Rightarrow> (nat \<times> nat) list" where
  \<comment> \<open>what the file has locked after calls that succeed\<close>
  "heldBytes [] held = held"
| "heldBytes (LockFileEx f lo hi # cs) held = heldBytes cs ((lo, hi) # held)"
| "heldBytes (UnlockFileEx lo hi # cs) held = heldBytes cs (remove1 (lo, hi) held)"
| "heldBytes (OpenFile p # cs) held = heldBytes cs held"
| "heldBytes (CloseFile # cs) held = heldBytes cs []"

lemma unlock_releases:
  "heldBytes LockCalls [] = [(1, 0)]"
  "heldBytes (LockCalls @ snd (UnlockWindows None)) [] = []"
  "fst (CloseWindows (Some e) None) = None"
  by (simp_all add: LockCalls_def UnlockWindows_def CloseWindows_def)

definition STILL_ACTIVE :: int where "STILL_ACTIVE = 259"

definition processExistsWindows :: "processResult \<Rightarrow> string + bool" where
  "processExistsWindows r =
     (case r of
        OpenProcessFails InvalidParameter \<Rightarrow> Inr False
      | OpenProcessFails AccessDenied \<Rightarrow> Inr False
      | OpenProcessFails (OpenProcessError e) \<Rightarrow> Inl e
      | ExitCodeFails e \<Rightarrow> Inl e
      | ExitCode code \<Rightarrow> Inr (code = STILL_ACTIVE))"

definition localAppData :: "getenv \<Rightarrow> string + string" where
  \<comment> \<open>the body that \<open>CacheDir\<close> and \<open>DataDir\<close> share\<close>
  "localAppData env =
     (let d = env ''LocalAppData'' in
      if d = []
      then (let d = env ''TEMP'' in if d = [] then Inl ''neither LocalAppData nor TEMP is set'' else Inr d)
      else Inr d)"

definition CacheDirWindows :: "getenv \<Rightarrow> string + string" where "CacheDirWindows = localAppData"
definition DataDirWindows :: "getenv \<Rightarrow> string + string" where "DataDirWindows = localAppData"

definition ConfigDirWindows :: "getenv \<Rightarrow> string + string" where
  "ConfigDirWindows env = (let d = env ''AppData'' in if d = [] then Inl ''AppData is not set'' else Inr d)"

definition windowsPlatform :: "getenv \<Rightarrow> platform" where
  "windowsPlatform env =
     (let found = (\<lambda>r. case r of Inl _ \<Rightarrow> None | Inr d \<Rightarrow> Some d)
      in \<lparr>pl_configDir = found (ConfigDirWindows env), pl_cacheDir = found (CacheDirWindows env),
          pl_dataDir = found (DataDirWindows env)\<rparr>)"

subsection \<open>Starting and stopping\<close>

datatype creationFlag = CREATE_NEW_PROCESS_GROUP

record child =
  ch_path :: string
  ch_args :: "string list"
  ch_flag :: creationFlag
  ch_log :: bool  \<comment> \<open>its output goes to the log\<close>

definition cmdDaemonStartWindows :: "startCalls \<Rightarrow> options \<Rightarrow> disk \<Rightarrow> string option \<times> child list \<times> disk" where
  \<comment> \<open>the error, the processes started, and the disk\<close>
  "cmdDaemonStartWindows k opt d =
     (if op_Socket opt = [] then (Some ''could not determine socket path; set HUNCH_SOCKET'', [], d)
      else
        (let (_, d1) = EnsureIntegrations (sc_fs k) (sc_dataDir k) (sc_readable k) (sc_mkdirErr k) (sc_writeErr k) d in
         case (if op_DaemonBin opt = [] then sc_self k else Inr (op_DaemonBin opt)) of
             Inl e \<Rightarrow> (Some (''resolve binary path: '' @ e), [], d1)
           | Inr selfPath \<Rightarrow>
               (let logPath = joinPath [Dir (op_DBPath opt), ''hunch.log''];
                    (logErr, d2) = openDaemonLogFile (sc_renameLogOk k) (sc_openLogErr k) logPath d1;
                    cmd = \<lparr>ch_path = selfPath, ch_args = [''daemon'', ''run''], ch_flag = CREATE_NEW_PROCESS_GROUP,
                           ch_log = (logErr = None)\<rparr>
                in case sc_execErr k selfPath of
                     Some e \<Rightarrow> (Some (''start daemon: '' @ e), [], d2)
                   | None \<Rightarrow>
                       (case waitForSocket (op_Socket opt) 2000000000 (sc_polls k) of
                          Some e \<Rightarrow> (Some (''daemon did not start: '' @ e), [cmd], d2)
                        | None \<Rightarrow> (None, [cmd], d2)))))"

text \<open>The calls the two functions make, in their order, with what the system answers to each.\<close>

datatype winCall = GenerateConsoleCtrlEvent int | OpenProcess int | TerminateProcess int | CloseHandle

record winCalls =
  wc_ctrlEvent :: "int \<Rightarrow> string option"
  wc_open :: "int \<Rightarrow> string option"
  wc_terminate :: "int \<Rightarrow> string option"

definition stopProcess :: "winCalls \<Rightarrow> int \<Rightarrow> string option \<times> winCall list" where
  \<comment> \<open>the event \<open>CTRL_C_EVENT\<close>\<close>
  "stopProcess k pid = (wc_ctrlEvent k pid, [GenerateConsoleCtrlEvent pid])"

definition forceStopProcess :: "winCalls \<Rightarrow> int \<Rightarrow> string option \<times> winCall list" where
  "forceStopProcess k pid =
     (case wc_open k pid of
        Some e \<Rightarrow> (Some e, [OpenProcess pid])
      | None \<Rightarrow> (wc_terminate k pid, [OpenProcess pid, TerminateProcess pid, CloseHandle]))"

definition cmdDaemonStopWindows :: "winCalls \<Rightarrow> control \<Rightarrow> options \<Rightarrow> string option \<times> winCall list" where
  \<comment> \<open>\<open>cmdDaemonStop\<close> of cli/daemon.go with these two functions\<close>
  "cmdDaemonStopWindows k c opt =
     (case cmdDaemonStop (c\<lparr>ct_terminate := \<lambda>pid. fst (stopProcess k pid)\<rparr>) opt of
        (err, signals) \<Rightarrow>
          (err, concat (map (\<lambda>(sig, pid). case sig of SIGTERM \<Rightarrow> snd (stopProcess k pid)
                              | SIGKILL \<Rightarrow> snd (forceStopProcess k pid)) signals)))"

text \<open>Starting does what it does on Unix, but for the kind of process.\<close>

lemma start_as_unix:
  "fst (cmdDaemonStartWindows k opt d) = fst (cmdDaemonStart k opt d)"
  "map ch_path (fst (snd (cmdDaemonStartWindows k opt d))) = fst (snd (cmdDaemonStart k opt d))"
  "snd (snd (cmdDaemonStartWindows k opt d)) = snd (snd (cmdDaemonStart k opt d))"
  by (simp_all add: cmdDaemonStartWindows_def cmdDaemonStart_def Let_def case_prod_beta split: sum.split option.split)

text \<open>Windows does not deliver \<open>CTRL_C_EVENT\<close> to a process that was started with
  \<open>CREATE_NEW_PROCESS_GROUP\<close>, though the call succeeds. As every daemon is started that way, one that is
  asked to stop sees nothing, its socket stays, and \<open>stop\<close> goes on to terminate it: without the last flush,
  and reporting that it did not stop, as the socket it leaves is still there.\<close>

lemma ctrl_c_not_delivered:
  assumes "(err, started, d') = cmdDaemonStartWindows k opt d" "p \<in> set started"
    and "seesHost c opt h" "ho_pidFile h = Some (ItoaInt pid)" "0 \<le> pid" "pid \<le> maxInt64" "wc_ctrlEvent wk pid = None"
    and deaf: "ch_flag p = CREATE_NEW_PROCESS_GROUP \<Longrightarrow> \<forall>(t, gone)\<in>set (ct_polls c @ ct_pollsKilled c). \<not> gone"
    and "wc_open wk pid = None"
  shows "ch_flag p = CREATE_NEW_PROCESS_GROUP
    \<and> (\<exists>e. cmdDaemonStopWindows wk c opt = (Some (''daemon did not stop: '' @ e),
         [GenerateConsoleCtrlEvent pid, OpenProcess pid, TerminateProcess pid, CloseHandle]))"
proof -
  have flag: "ch_flag p = CREATE_NEW_PROCESS_GROUP" by (cases "ch_flag p")
  have "\<not> waitUntil t (ct_polls c)" "\<not> waitUntil t (ct_pollsKilled c)" for t
    using deaf [OF flag] by (auto intro!: waitUntil_never)
  then show ?thesis
    using flag assms(3,4,7,9) Atoi_ItoaInt [OF assms(5,6)]
    by (simp add: cmdDaemonStopWindows_def cmdDaemonStop_def seesHost_cli waitForSocketRemoval_def stopProcess_def
        forceStopProcess_def)
qed

subsection \<open>Against the Unix platform\<close>

text \<open>What the daemon learns of the lock and of the process in it is what one of the Unix answers would
  tell, so the results of Lifecycle hold here as well.\<close>

definition flockOf :: "lockFileExResult \<Rightarrow> flockResult" where
  "flockOf r = (case r of Locked \<Rightarrow> FlockOK | LockFileExError e \<Rightarrow> FlockError (''LockFileEx: '' @ e) | _ \<Rightarrow> WouldBlock)"

definition killOf :: "processResult \<Rightarrow> killResult" where
  "killOf r = (case processExistsWindows r of Inl e \<Rightarrow> KillError e | Inr True \<Rightarrow> KillOK | Inr False \<Rightarrow> NoProcess)"

lemma windows_as_unix: "Lock (flockOf l) = LockWindows l" "processExists (killOf r) = processExistsWindows r"
  by (auto simp: Lock_def flockOf_def LockWindows_def processExists_def killOf_def
      split: lockFileExResult.splits sum.splits bool.splits)

text \<open>Where the platforms differ: a process that exists but cannot be asked stops a second daemon on Unix
  (\<open>kill\<close> fails) and counts as gone on Windows, so that its lock file is removed.\<close>

lemma denied_counts_as_gone:
  assumes "ho_pidFile h = Some (ItoaInt 7)" "bo_kill b 7 = killOf (OpenProcessFails AccessDenied)" "bo_removeLockOk b"
  shows "fst (recoverStaleLock b h) = None \<and> \<not> ho_lockFile (snd (recoverStaleLock b h))"
proof -
  have "Atoi (TrimSpace (ItoaInt 7)) = Some 7" by code_simp
  then show ?thesis
    using assms by (simp add: recoverStaleLock_def killOf_def processExistsWindows_def processExists_def)
qed

lemma denied_on_unix:
  assumes "ho_pidFile h = Some (ItoaInt 7)" "bo_kill b 7 = KillError e"
  shows "fst (recoverStaleLock b h) \<noteq> None \<and> snd (recoverStaleLock b h) = h"
proof -
  have "Atoi (TrimSpace (ItoaInt 7)) = Some 7" by code_simp
  then show ?thesis using assms by (simp add: recoverStaleLock_def processExists_def)
qed

end
