(* ===== verification/Eval.thy ===== *)
theory Eval
  imports Fallback Backoff
begin

text \<open>
  core/eval/eval.go: replaying a history. \<open>evalState\<close> holds the local variables of \<open>Run\<close>; the
  predictor always reads the graph as it is at that moment. Its query caps the ranking at
  \<open>maxRank\<close> and leaves the prior outcome out, otherwise its ladder is that of the daemon.
\<close>

record evalOptions =
  eo_HalfLife :: duration
  eo_Alpha :: real
  eo_Beta :: real
  eo_Gamma :: real
  eo_Delta :: real
  eo_Epsilon :: real
  eo_MinConfidence :: real
  eo_MinCount :: int
  eo_Warmup :: int
  eo_Interval :: duration

record evalCommand =
  ec_Template :: string
  ec_CWD :: string
  ec_PriorOutcome :: string

definition DefaultOptions :: evalOptions where
  "DefaultOptions =
     \<lparr>eo_HalfLife = 720 * time_Hour, eo_Alpha = 1 / 2, eo_Beta = 3 / 4, eo_Gamma = 1 / 2,
      eo_Delta = 1 / 2, eo_Epsilon = 1 / 2, eo_MinConfidence = 1 / 10, eo_MinCount = 2,
      eo_Warmup = 50, eo_Interval = time_Minute\<rparr>"

record evalResult =
  er_Scored :: nat
  er_Offered :: nat
  er_Top1 :: nat
  er_Top3 :: nat
  er_Top5 :: nat
  er_BaselineTop1 :: nat

definition result0 :: evalResult where
  "result0 = \<lparr>er_Scored = 0, er_Offered = 0, er_Top1 = 0, er_Top3 = 0, er_Top5 = 0,
     er_BaselineTop1 = 0\<rparr>"

definition Rate :: "evalResult \<Rightarrow> nat \<Rightarrow> real" where
  "Rate r n = (if er_Scored r = 0 then 0 else real n / real (er_Scored r))"

definition maxRank :: nat where "maxRank = 5"

subsection \<open>Scoring one prediction\<close>

fun scoreFrom :: "nat \<Rightarrow> evalResult \<Rightarrow> suggestion list \<Rightarrow> string \<Rightarrow> evalResult" where
  "scoreFrom i r [] actual = r"
| "scoreFrom i r (s # ss) actual =
     (if g_Template s \<noteq> actual then scoreFrom (Suc i) r ss actual
      else if i < 1 then
        r\<lparr>er_Top1 := er_Top1 r + 1, er_Top3 := er_Top3 r + 1, er_Top5 := er_Top5 r + 1\<rparr>
      else if i < 3 then r\<lparr>er_Top3 := er_Top3 r + 1, er_Top5 := er_Top5 r + 1\<rparr>
      else if i < maxRank then r\<lparr>er_Top5 := er_Top5 r + 1\<rparr>
      else r)"

definition scoreResult :: "evalResult \<Rightarrow> suggestion list \<Rightarrow> string \<Rightarrow> evalResult" where
  "scoreResult r suggestions actual =
     (if length suggestions = 0 then r
      else scoreFrom 0 (r\<lparr>er_Offered := er_Offered r + 1\<rparr>) suggestions actual)"

subsection \<open>The replay\<close>

definition evalQuery :: "predictor \<Rightarrow> evalOptions \<Rightarrow> gotime \<Rightarrow> query" where
  "evalQuery p opts tm previous dir =
     withMinCount
       (PredictOn p \<lparr>s_Previous = previous, s_CWD = dir, s_PriorOutcome = OutcomeUnknown\<rparr> tm
          (int maxRank))
       (eo_MinCount opts)"

definition evalPredict ::
  "predictor \<Rightarrow> string \<Rightarrow> string \<Rightarrow> string \<Rightarrow> gotime \<Rightarrow> evalOptions \<Rightarrow> suggestion list" where
  \<comment> \<open>\<open>predictWithFallback\<close> of core/eval\<close>
  "evalPredict p prev1 prev2 cwd tm opts =
     fr_suggestions
       (ladder (evalQuery p opts tm) (eo_MinConfidence opts) [commandOf prev1, commandOf prev2] cwd)"

record evalState =
  ev_g :: graph
  ev_freq :: "string \<Rightarrow> nat"
  ev_mostFrequent :: string
  ev_result :: evalResult
  ev_prev1 :: string
  ev_prev2 :: string

definition evalInit :: evalState where
  "evalInit = \<lparr>ev_g = New 2, ev_freq = (\<lambda>t. 0), ev_mostFrequent = [], ev_result = result0,
     ev_prev1 = [], ev_prev2 = []\<rparr>"

definition evalAt :: "evalOptions \<Rightarrow> nat \<Rightarrow> gotime" where
  "evalAt opts i = time_Unix 0 + wrap64 (int i * eo_Interval opts)"

definition evalPredictor :: "evalOptions \<Rightarrow> graph \<Rightarrow> predictor" where
  "evalPredictor opts g = NewPredictor g (eo_HalfLife opts) (eo_Alpha opts) (eo_Beta opts)
     (eo_Gamma opts) (eo_Delta opts) (eo_Epsilon opts)"

definition evalObs :: "string \<Rightarrow> gotime \<Rightarrow> string list \<Rightarrow> observation" where
  "evalObs actual tm st = \<lparr>o_State = st, o_Next = actual, o_At = tm, o_CWD = [],
     o_NextOutcome = OutcomeUnknown, o_PriorOutcome = OutcomeUnknown, o_Accepted = False\<rparr>"

definition evalScoreStep :: "evalOptions \<Rightarrow> nat \<Rightarrow> evalCommand \<Rightarrow> evalState \<Rightarrow> evalState" where
  "evalScoreStep opts i cmd st =
     (if eo_Warmup opts \<le> int i \<and> ec_Template cmd \<noteq> [] then
        let r = ev_result st;
            r = r\<lparr>er_Scored := er_Scored r + 1\<rparr>;
            r = (if ev_mostFrequent st = ec_Template cmd
                 then r\<lparr>er_BaselineTop1 := er_BaselineTop1 r + 1\<rparr> else r);
            suggestions = evalPredict (evalPredictor opts (ev_g st)) (ev_prev1 st) (ev_prev2 st)
              (ec_CWD cmd) (evalAt opts i) opts
        in st\<lparr>ev_result := scoreResult r suggestions (ec_Template cmd)\<rparr>
      else st)"

definition evalLearn :: "evalOptions \<Rightarrow> nat \<Rightarrow> evalCommand \<Rightarrow> evalState \<Rightarrow> evalState" where
  "evalLearn opts i cmd st =
     (let actual = ec_Template cmd; tm = evalAt opts i in
      if actual \<noteq> [] then
        let state = [ev_prev1 st, ev_prev2 st];
            state = (if ec_CWD cmd \<noteq> [] then ec_CWD cmd # state else state);
            g = recordAll (BackoffStates state (ec_CWD cmd \<noteq> [])) (evalObs actual tm) (ev_g st);
            g = (if ev_prev2 st \<noteq> [] then Record [ev_prev2 st] actual tm g else g);
            freq = (ev_freq st)(actual := ev_freq st actual + 1);
            mf = (if freq (ev_mostFrequent st) < freq actual then actual else ev_mostFrequent st)
        in st\<lparr>ev_g := g, ev_freq := freq, ev_mostFrequent := mf\<rparr>
      else st)"

definition evalStep :: "evalOptions \<Rightarrow> nat \<times> evalCommand \<Rightarrow> evalState \<Rightarrow> evalState" where
  "evalStep opts ic st =
     (let (i, cmd) = ic;
          st = evalLearn opts i cmd (evalScoreStep opts i cmd st)
      in st\<lparr>ev_prev1 := ev_prev2 st, ev_prev2 := ec_Template cmd\<rparr>)"

definition evalRun :: "evalOptions \<Rightarrow> evalCommand list \<Rightarrow> evalState" where
  "evalRun opts commands = fold (evalStep opts) (enumerate 0 commands) evalInit"

definition Run :: "evalCommand list \<Rightarrow> evalOptions \<Rightarrow> evalResult" where
  "Run commands opts = ev_result (evalRun opts commands)"

interpretation eq: ranked_query "evalQuery p opts tm" "eo_MinCount opts" for p opts tm
  by unfold_locales (auto simp: evalQuery_def intro: withMinCount_laws PredictOn_ranked
      dest: withMinCount_laws(2))

subsection \<open>Top-N counts\<close>

definition inTop :: "nat \<Rightarrow> string \<Rightarrow> suggestion list \<Rightarrow> nat" where
  "inTop n actual ss = (if actual \<in> set (map g_Template (take n ss)) then 1 else 0)"

lemma inTop_Cons:
  "inTop n actual (s # ss) =
     (if n = 0 then 0 else if g_Template s = actual then 1 else inTop (n - 1) actual ss)"
  by (auto simp: inTop_def take_Cons')

lemma inTop_0 [simp]: "inTop 0 actual ss = 0" "inTop n actual [] = 0"
  by (simp_all add: inTop_def)

lemma scoreFrom_counts:
  "er_Top1 (scoreFrom i r ss actual) = er_Top1 r + inTop (1 - i) actual ss"
  "er_Top3 (scoreFrom i r ss actual) = er_Top3 r + inTop (3 - i) actual ss"
  "er_Top5 (scoreFrom i r ss actual) = er_Top5 r + inTop (maxRank - i) actual ss"
  "er_Offered (scoreFrom i r ss actual) = er_Offered r"
  "er_Scored (scoreFrom i r ss actual) = er_Scored r"
  "er_BaselineTop1 (scoreFrom i r ss actual) = er_BaselineTop1 r"
  by (induction i r ss actual rule: scoreFrom.induct) (auto simp: inTop_Cons maxRank_def)

lemma scoreResult_counts [simp]:
  "er_Top1 (scoreResult r ss actual) = er_Top1 r + inTop 1 actual ss"
  "er_Top3 (scoreResult r ss actual) = er_Top3 r + inTop 3 actual ss"
  "er_Top5 (scoreResult r ss actual) = er_Top5 r + inTop maxRank actual ss"
  "er_Offered (scoreResult r ss actual) = er_Offered r + (if ss = [] then 0 else 1)"
  "er_Scored (scoreResult r ss actual) = er_Scored r"
  "er_BaselineTop1 (scoreResult r ss actual) = er_BaselineTop1 r"
  by (simp_all add: scoreResult_def scoreFrom_counts)

lemma inTop_mono: "m \<le> n \<Longrightarrow> inTop m actual ss \<le> inTop n actual ss"
  using set_take_subset_set_take [of m n "map g_Template ss"]
  by (auto simp: inTop_def take_map [symmetric])

lemma inTop_le: "inTop n actual ss \<le> (if ss = [] then 0 else 1)"
  by (auto simp: inTop_def)

subsection \<open>Fields a step leaves alone\<close>

lemma evalScoreStep_fields [simp]:
  "ev_g (evalScoreStep opts i cmd st) = ev_g st" "ev_freq (evalScoreStep opts i cmd st) = ev_freq st"
  "ev_mostFrequent (evalScoreStep opts i cmd st) = ev_mostFrequent st"
  "ev_prev1 (evalScoreStep opts i cmd st) = ev_prev1 st"
  "ev_prev2 (evalScoreStep opts i cmd st) = ev_prev2 st"
  by (simp_all add: evalScoreStep_def Let_def)

lemma evalLearn_fields [simp]:
  "ev_result (evalLearn opts i cmd st) = ev_result st"
  "ev_freq (evalLearn opts i cmd st)
     = (if ec_Template cmd = [] then ev_freq st
        else (ev_freq st)(ec_Template cmd := ev_freq st (ec_Template cmd) + 1))"
  "ev_mostFrequent (evalLearn opts i cmd st)
     = (if ec_Template cmd \<noteq> []
          \<and> (if ev_mostFrequent st = ec_Template cmd then ev_freq st (ec_Template cmd) + 1
             else ev_freq st (ev_mostFrequent st)) < ev_freq st (ec_Template cmd) + 1
        then ec_Template cmd else ev_mostFrequent st)"
  by (simp_all add: evalLearn_def Let_def)

lemma evalStep_fields [simp]:
  "ev_result (evalStep opts (i, cmd) st) = ev_result (evalScoreStep opts i cmd st)"
  "ev_freq (evalStep opts (i, cmd) st) = ev_freq (evalLearn opts i cmd st)"
  "ev_mostFrequent (evalStep opts (i, cmd) st) = ev_mostFrequent (evalLearn opts i cmd st)"
  by (simp_all add: evalStep_def Let_def)

lemma evalRun_snoc:
  "evalRun opts (cmds @ [cmd]) = evalStep opts (length cmds, cmd) (evalRun opts cmds)"
  by (simp add: evalRun_def enumerate_append_eq)

subsection \<open>The result of a replay\<close>

definition chain :: "evalResult \<Rightarrow> bool" where
  "chain r \<longleftrightarrow> er_Top1 r \<le> er_Top3 r \<and> er_Top3 r \<le> er_Top5 r \<and> er_Top5 r \<le> er_Offered r
     \<and> er_Offered r \<le> er_Scored r \<and> er_BaselineTop1 r \<le> er_Scored r"

lemma chain_scoreResult:
  assumes "chain r" "er_Offered r < er_Scored r"
  shows "chain (scoreResult r ss actual)"
  using assms inTop_mono [of 1 3 actual ss] inTop_mono [of 3 maxRank actual ss]
    inTop_le [of maxRank actual ss]
  by (cases "ss = []") (simp_all add: chain_def maxRank_def)

lemma chain_scored:
  "chain r \<Longrightarrow> chain (r\<lparr>er_Scored := er_Scored r + 1\<rparr>)"
  "chain r \<Longrightarrow> chain (r\<lparr>er_Scored := er_Scored r + 1, er_BaselineTop1 := er_BaselineTop1 r + 1\<rparr>)"
  by (simp_all add: chain_def)

lemma chain_scoreStep: "chain (ev_result st) \<Longrightarrow> chain (ev_result (evalScoreStep opts i cmd st))"
  using chain_scored [of "ev_result st"]
  by (auto simp: evalScoreStep_def Let_def chain_def [of "ev_result st"] intro!: chain_scoreResult)

text \<open>The counts of a replay nest: what is in the top 1 is in the top 3, that in the top 5, that
  was offered, and that was scored; the baseline is counted over the same commands. What is
  scored are the commands with a template from the warmup on.\<close>

theorem Run_counts:
  "chain (Run cmds opts)
   \<and> er_Scored (Run cmds opts)
       = length (filter (\<lambda>(i, cmd). eo_Warmup opts \<le> int i \<and> ec_Template cmd \<noteq> []) (enumerate 0 cmds))"
  unfolding Run_def
proof (induction cmds rule: rev_induct)
  case Nil
  show ?case by (simp add: evalRun_def evalInit_def result0_def chain_def)
next
  case (snoc cmd cmds)
  have "er_Scored (ev_result (evalScoreStep opts i cmd st)) = er_Scored (ev_result st)
      + (if eo_Warmup opts \<le> int i \<and> ec_Template cmd \<noteq> [] then 1 else 0)" for i st
    by (simp add: evalScoreStep_def Let_def)
  with snoc show ?case
    by (simp add: evalRun_snoc chain_scoreStep enumerate_append_eq)
qed

lemma Rate_fraction: "n \<le> er_Scored r \<Longrightarrow> fraction (Rate r n)"
  by (simp add: Rate_def fraction_def)

subsection \<open>The baseline\<close>

definition occurrences :: "string \<Rightarrow> evalCommand list \<Rightarrow> nat" where
  "occurrences t cmds = length (filter (\<lambda>cmd. ec_Template cmd = t) cmds)"

lemma evalRun_freq:
  "ev_freq (evalRun opts cmds) t = (if t = [] then 0 else occurrences t cmds)
   \<and> ev_freq (evalRun opts cmds) t \<le> ev_freq (evalRun opts cmds) (ev_mostFrequent (evalRun opts cmds))"
proof (induction cmds arbitrary: t rule: rev_induct)
  case Nil
  show ?case by (simp add: evalRun_def evalInit_def occurrences_def)
next
  case (snoc cmd cmds)
  let ?s = "evalRun opts cmds" and ?a = "ec_Template cmd"
  have "ev_freq ?s t \<le> ev_freq ?s (ev_mostFrequent ?s)" "ev_freq ?s ?a \<le> ev_freq ?s (ev_mostFrequent ?s)"
    "ev_freq ?s t = (if t = [] then 0 else occurrences t cmds)"
    using snoc.IH by blast+
  then show ?case
    by (cases "?a = []") (auto simp: evalRun_snoc occurrences_def)
qed

text \<open>The baseline is what it claims to be: at every point of a replay, \<open>mostFrequent\<close> is a template
  that occurred at least as often so far as any other (the empty string before the first).\<close>

theorem baseline_most_frequent:
  assumes "t \<noteq> []"
  shows "occurrences t cmds \<le>
    (let m = ev_mostFrequent (evalRun opts cmds) in if m = [] then 0 else occurrences m cmds)"
  using evalRun_freq [of opts cmds t] evalRun_freq [of opts cmds "ev_mostFrequent (evalRun opts cmds)"]
    assms by (simp add: Let_def)

definition demoHistory :: "evalCommand list" where
  "demoHistory = map (\<lambda>t. \<lparr>ec_Template = t, ec_CWD = [], ec_PriorOutcome = []\<rparr>)
     [''ls'', ''make'', ''make'']"

theorem baseline_most_frequent_witness:
  "ev_mostFrequent (evalRun DefaultOptions demoHistory) = ''make''
     \<and> occurrences ''ls'' demoHistory \<le> occurrences ''make'' demoHistory"
proof -
  have m: "ev_mostFrequent (evalRun DefaultOptions demoHistory) = ''make''"
    by (simp add: evalRun_def demoHistory_def evalInit_def)
  then show ?thesis
    using baseline_most_frequent [of "''ls''" demoHistory DefaultOptions] by simp
qed

subsection \<open>A difference to the daemon\<close>

text \<open>\<open>BackoffStates\<close> already lists the history shortened to the last command, so the extra
  \<open>Record\<close> counts it a second time: after one command in context its count is 2, where the
  daemon's is 1, and it passes the default MinCount of 2 on one observation.\<close>

lemma evalLearn_counts_twice:
  assumes "ev_g st = New 2" "ev_prev1 st = ''ls''" "ev_prev2 st = ''cd PATH''"
    and "cmd = \<lparr>ec_Template = ''make'', ec_CWD = [], ec_PriorOutcome = []\<rparr>"
  shows "map_option e_count (lookupEntry (ev_g (evalLearn opts i cmd st)) ''cd PATH'' ''make'') = Some 2"
proof -
  have b: "BackoffStates [''ls'', ''cd PATH''] False = [[''ls'', ''cd PATH''], [''cd PATH'']]"
    by (simp add: BackoffStates_def appendIfInformative_def)
  have k: "stateKey [''ls'', ''cd PATH''] \<noteq> ''cd PATH''" by (simp add: stateKey_def)
  show ?thesis
    using k assms
    by (simp add: evalLearn_def b recordAll_def Record_def evalObs_def lookup_RecordObs stateKey_single
        New_def recordEntry_def entry0_def bump_def Let_def)
qed

end
