(* ===== verification/Report.thy ===== *)
theory Report
  imports Client Doctor Eval
begin

text \<open>
  cli/eval.go, cli/why.go and the self-test of cli/init.go: what the tool computes from the history and
  from an explanation, and the lines it prints. The history file and the home directory are those of
  theory History; \<open>c\<close> is the variable \<open>colorize\<close>.
\<close>

subsection \<open>Numbers\<close>

definition roundEven :: "real \<Rightarrow> int" where
  "roundEven x = (let f = \<lfloor>x\<rfloor>; d = x - of_int f
     in if d < 1 / 2 then f else if 1 / 2 < d then f + 1 else if even f then f else f + 1)"

definition fixedText :: "nat \<Rightarrow> real \<Rightarrow> string" where
  \<comment> \<open>the verb \<open>%.<n>f\<close>\<close>
  "fixedText n x =
     (let k = nat (roundEven (\<bar>x\<bar> * 10 ^ n)); frac = Itoa (k mod 10 ^ n)
      in (if x < 0 then ''-'' else []) @ Itoa (k div 10 ^ n)
       @ (if n = 0 then [] else ''.'' @ replicate (n - length frac) CHR ''0'' @ frac))"

definition signedText :: "nat \<Rightarrow> real \<Rightarrow> string" where
  \<comment> \<open>the verb \<open>%+.<n>f\<close>\<close>
  "signedText n x = (if x < 0 then [] else ''+'') @ fixedText n x"

definition percent :: "nat \<Rightarrow> real \<Rightarrow> string" where
  "percent n x = fixedText n (100 * x) @ ''%''"

definition pct :: "real \<Rightarrow> string" where
  "pct f = (if f = 0 then ''-'' else percent 0 f)"

definition displayOrNone :: "string \<Rightarrow> string" where
  "displayOrNone s = (if s = [] then ''(none)'' else s)"

subsection \<open>Evaluating\<close>

definition evalCommands :: "string list \<Rightarrow> evalCommand list" where
  "evalCommands = map (\<lambda>tmpl. \<lparr>ec_Template = tmpl, ec_CWD = [], ec_PriorOutcome = []\<rparr>)"

definition cmdEval ::
  "(string \<Rightarrow> string + string) \<Rightarrow> string option \<Rightarrow> nat list \<Rightarrow> string \<Rightarrow> int \<Rightarrow> string + (evalResult \<times> nat)" where
  \<comment> \<open>what is handed to \<open>printEvalResult\<close>\<close>
  "cmdEval files home schedule path warmup =
     (case resolveHistoryPath files home path of
        Inl e \<Rightarrow> Inl e
      | Inr (historyPath, _) \<Rightarrow>
          (case parseZshHistory (files historyPath) of
             Inl e \<Rightarrow> Inl (''parse history: '' @ e)
           | Inr rawCmds \<Rightarrow>
               if length rawCmds = 0 then Inl (''no commands found in '' @ historyPath)
               else (let templates = normalizeConcurrent schedule rawCmds;
                         opts = DefaultOptions\<lparr>eo_Warmup := warmup\<rparr>
                     in if int (length templates) \<le> eo_Warmup opts
                        then Inl (''history has '' @ Itoa (length templates) @ '' commands, need more than the warmup of ''
                               @ ItoaInt (eo_Warmup opts))
                        else Inr (Run (evalCommands templates) opts, length rawCmds))))"

definition printEvalResult :: "bool \<Rightarrow> evalResult \<Rightarrow> nat \<Rightarrow> string list" where
  "printEvalResult c r historySize =
     (let lift = Rate r (er_Top1 r) - Rate r (er_BaselineTop1 r);
          paint = (if lift < 0 then red c else green c)
      in [[], bold c ''hunch eval'', [],
          ''history:   '' @ Itoa historySize @ '' commands'',
          ''scored:    '' @ Itoa (er_Scored r) @ '' (after warmup)'',
          ''offered:   '' @ Itoa (er_Offered r) @ '' ('' @ percent 1 (Rate r (er_Offered r)) @ '' of scored had any suggestion)'',
          [],
          bold c ''top-1:'' @ '' '' @ percent 1 (Rate r (er_Top1 r)),
          bold c ''top-3:'' @ '' '' @ percent 1 (Rate r (er_Top3 r)),
          bold c ''top-5:'' @ '' '' @ percent 1 (Rate r (er_Top5 r)),
          [],
          ''baseline:  '' @ percent 1 (Rate r (er_BaselineTop1 r)) @ '' (always guess your single most frequent command)'',
          bold c ''lift:'' @ '' '' @ paint (signedText 1 (100 * lift)) @ '' points over baseline'',
          [],
          ''Each command is predicted using only the commands before it,'',
          ''which is how the daemon sees your history as you work.''])"

definition printImportEvalSummary :: "nat list \<Rightarrow> string + string \<Rightarrow> string list" where
  \<comment> \<open>of cli/init.go, after an import; no lines where there is nothing to tell\<close>
  "printImportEvalSummary schedule file =
     (case parseZshHistory file of
        Inl _ \<Rightarrow> []
      | Inr rawCmds \<Rightarrow>
          if length rawCmds = 0 \<or> int (length rawCmds) \<le> eo_Warmup DefaultOptions then []
          else (let r = Run (evalCommands (normalizeConcurrent schedule rawCmds)) DefaultOptions
                in if er_Scored r = 0 then []
                   else [[], ''Self-test on your history: top-1 '' @ percent 0 (Rate r (er_Top1 r)) @ '', top-3 '' @ percent 0 (Rate r (er_Top3 r))
                             @ '' (vs. '' @ percent 0 (Rate r (er_BaselineTop1 r)) @ '' always guessing your most frequent command).'',
                         ''Run 'hunch eval' any time to recheck this against your live history.'']))"

subsection \<open>Explaining\<close>

definition whyRequest ::
  "(string \<Rightarrow> string + string) \<Rightarrow> string option \<Rightarrow> string option \<Rightarrow> string \<Rightarrow> string \<Rightarrow> string \<Rightarrow> int \<Rightarrow> request" where
  \<comment> \<open>\<open>wd\<close>: the working directory, if it can be determined\<close>
  "whyRequest files home wd stateStr cwd priorOutcome limit =
     explainRequest
       (if stateStr = [] then Join (recentZshCommands files home 2) '','' else stateStr)
       (if cwd = [] then (case wd of Some d \<Rightarrow> d | None \<Rightarrow> cwd) else cwd)
       priorOutcome [] limit"

definition hydrationLines :: "scoreBreakdownJSON \<Rightarrow> string list" where
  \<comment> \<open>the body of the loop of \<open>printHydrationCandidates\<close>; the column is filled up as for ASCII text\<close>
  "hydrationLines b =
     (let best = hc_Score (hd (bj_HydrationCandidates b))
      in [[], ''  '' @ bj_Next b @ '':'']
       @ map (\<lambda>(i, c). ''    '' @ Itoa (i + 1) @ ''. '' @ padRight 40 (hc_Raw c) @ '' ''
                @ (if best > 0 then fixedText 0 (100 * hc_Score c / best) @ ''%'' else ''-''))
             (enumerate 0 (bj_HydrationCandidates b)))"

definition printHydrationCandidates :: "scoreBreakdownJSON list \<Rightarrow> string list" where
  "printHydrationCandidates breakdown =
     (let shown = filter (\<lambda>b. \<not> length (bj_HydrationCandidates b) < 2) breakdown
      in (if shown = [] then []
          else [[], ''Some candidates had more than one plausible literal command - shown here'',
                ''because none clearly won; live cycling (Alt-n/Alt-p) pages through these too.''])
       @ concat (map hydrationLines shown))"

datatype outputLine = Printed string | Row "string list"  \<comment> \<open>a line, or the cells of a line of a table\<close>

definition whyRow :: "nat \<times> scoreBreakdownJSON \<Rightarrow> outputLine" where
  "whyRow = (\<lambda>(i, b). Row [Itoa (i + 1), fixedText 3 (bj_Score b), ItoaInt (bj_Count b), fixedText 2 (bj_DecayWeight b),
     pct (bj_CWDAffinity b), pct (bj_PriorAffinity b), pct (bj_AcceptRate b), pct (bj_FailureRate b), bj_Next b])"

definition printExplainResult :: "bool \<Rightarrow> explainResponse \<Rightarrow> outputLine list" where
  "printExplainResult c resp =
     map Printed
       [bold c ''hunch why'', [],
        bold c ''context matched:'' @ '' '' @ teal c (ex_Level resp),
        ''  cwd:   '' @ displayOrNone (ex_CWD resp),
        ''  state: '' @ (if length (ex_State resp) > 0 then Join (ex_State resp) '' -> '' else ''(none)''), [],
        ''gates: a suggestion needs count >= '' @ ItoaInt (ex_MinCount resp) @ '' always; a fallback context also needs score >= ''
          @ fixedText 2 (ex_MinConfidence resp), []]
     @ (if length (ex_Breakdown resp) = 0
        then [Printed (yellow c ''No candidates at this context - nothing has been observed here yet, or every candidate was gated out.'')]
        else Row [''#'', ''SCORE'', ''COUNT'', ''DECAY'', ''CWD'', ''PRIOR'', ''ACCEPT'', ''FAIL'', ''NEXT'']
           # map whyRow (enumerate 0 (ex_Breakdown resp))
           @ map Printed
               ([[], ''DECAY is the time-recency weight (1.0 = just observed). CWD/PRIOR/ACCEPT/FAIL are'',
                 ''the fraction of this candidate's observations that had that signal; '-' means the'',
                 ''boost is off or no data exists, so it left the score unchanged.'']
              @ printHydrationCandidates (ex_Breakdown resp)))"

subsection \<open>What the evaluation reports\<close>

lemma cmdEval_Inr:
  "cmdEval files home schedule path warmup = Inr (r, n) \<longleftrightarrow>
     (\<exists>p k raws. resolveHistoryPath files home path = Inr (p, k) \<and> parseZshHistory (files p) = Inr raws \<and> raws \<noteq> []
        \<and> n = length raws \<and> warmup < int (length (normalizeConcurrent schedule raws))
        \<and> r = Run (evalCommands (normalizeConcurrent schedule raws)) (DefaultOptions\<lparr>eo_Warmup := warmup\<rparr>))"
  by (auto simp: cmdEval_def Let_def split: sum.splits)

lemma filter_from:
  assumes "\<And>i x. P (i, x) \<Longrightarrow> w \<le> int i"
  shows "int (length (filter P (enumerate k xs))) \<le> max 0 (int (k + length xs) - max (int k) w)"
proof (induction xs arbitrary: k)
  case (Cons x xs)
  show ?case using Cons.IH [of "Suc k"] assms [of k x] by (cases "P (k, x)") auto
qed simp

lemma chain_rates:
  assumes "chain r"
  shows "0 \<le> Rate r (er_Top1 r)" "Rate r (er_Top1 r) \<le> Rate r (er_Top3 r)" "Rate r (er_Top3 r) \<le> Rate r (er_Top5 r)"
    "Rate r (er_Top5 r) \<le> Rate r (er_Offered r)" "Rate r (er_Offered r) \<le> 1" "Rate r (er_BaselineTop1 r) \<le> 1"
  using assms by (auto simp: Rate_def chain_def intro!: divide_right_mono)

lemma scored_commands:
  "er_Scored (Run (evalCommands ts) opts)
     = length (filter (\<lambda>(i, t). eo_Warmup opts \<le> int i \<and> t \<noteq> []) (enumerate 0 ts))"
proof -
  have "enumerate k (evalCommands ts) = map (\<lambda>(i, t). (i, hd (evalCommands [t]))) (enumerate k ts)" for k
    unfolding evalCommands_def by (induction ts arbitrary: k) auto
  then show ?thesis unfolding conjunct2 [OF Run_counts] by (simp add: filter_map comp_def case_prod_unfold evalCommands_def)
qed

text \<open>C38: \<open>hunch eval\<close> reports fractions that make sense and that nothing but the history decides: the commands
  scored are the lines of the history from the warm-up on that have a template; the rates of the top 1,
  3 and 5 and of any offer are in order between 0 and 1, and so is that of the baseline; the threads
  that normalize cannot change the outcome, whatever order they finish in.\<close>

theorem eval_report:
  assumes "cmdEval files home schedule path warmup = Inr (r, n)" "set schedule = {..<n}"
  shows "0 \<le> Rate r (er_Top1 r) \<and> Rate r (er_Top1 r) \<le> Rate r (er_Top3 r) \<and> Rate r (er_Top3 r) \<le> Rate r (er_Top5 r)
    \<and> Rate r (er_Top5 r) \<le> Rate r (er_Offered r) \<and> Rate r (er_Offered r) \<le> 1 \<and> Rate r (er_BaselineTop1 r) \<le> 1
    \<and> warmup < int n \<and> int (er_Scored r) \<le> int n - max 0 warmup
    \<and> (\<exists>p k raws. resolveHistoryPath files home path = Inr (p, k) \<and> parseZshHistory (files p) = Inr raws \<and> n = length raws
         \<and> er_Scored r = length (filter (\<lambda>(i, raw). warmup \<le> int i \<and> Normalize raw (Some DefaultParents) \<noteq> []) (enumerate 0 raws)))
    \<and> (\<forall>schedule'. set schedule' = {..<n} \<longrightarrow> cmdEval files home schedule' path warmup = Inr (r, n))"
proof -
  obtain p k raws where p: "resolveHistoryPath files home path = Inr (p, k)" "parseZshHistory (files p) = Inr raws" "raws \<noteq> []"
    and n: "n = length raws" and w: "warmup < int (length (normalizeConcurrent schedule raws))"
    and r: "r = Run (evalCommands (normalizeConcurrent schedule raws)) (DefaultOptions\<lparr>eo_Warmup := warmup\<rparr>)"
    using assms(1) unfolding cmdEval_Inr by blast
  let ?ts = "map (\<lambda>raw. Normalize raw (Some DefaultParents)) raws"
  have ts: "normalizeConcurrent s raws = ?ts" if "set s = {..<n}" for s
    using normalizeConcurrent_map that unfolding n .
  have scored: "er_Scored r = length (filter (\<lambda>(i, t). warmup \<le> int i \<and> t \<noteq> []) (enumerate 0 ?ts))"
    unfolding r ts [OF assms(2)] scored_commands by simp
  have "enumerate 0 ?ts = map (\<lambda>(i, raw). (i, Normalize raw (Some DefaultParents))) (enumerate 0 raws)"
    by (simp add: enumerate_eq_zip zip_map2)
  then have raws: "er_Scored r = length (filter (\<lambda>(i, raw). warmup \<le> int i \<and> Normalize raw (Some DefaultParents) \<noteq> []) (enumerate 0 raws))"
    unfolding scored by (simp add: filter_map comp_def case_prod_unfold)
  have long: "warmup < int n" using w unfolding ts [OF assms(2)] n by simp
  then have "int (er_Scored r) \<le> int n - max 0 warmup"
    using filter_from [of "\<lambda>(i, t). warmup \<le> int i \<and> t \<noteq> []" warmup 0 ?ts] unfolding scored n by auto
  moreover have "cmdEval files home s path warmup = Inr (r, n)" if "set s = {..<n}" for s
    using p n w r by (auto simp: cmdEval_Inr ts [OF that] ts [OF assms(2)])
  moreover have "chain r" unfolding r by (rule conjunct1 [OF Run_counts])
  ultimately show ?thesis using chain_rates long raws p n by blast
qed

definition demoFile :: "string \<Rightarrow> string + string" where
  "demoFile = (\<lambda>_. Inr (concat (map historyLine [('' 17'', ''0'', ''ls''), ('' 18'', ''2'', ''make''), ('' 19'', ''0'', ''ls'')])))"

theorem eval_report_witness:
  "\<exists>r. cmdEval demoFile None [2, 0, 1] ''/h'' 1 = Inr (r, 3) \<and> er_Scored r = 2
     \<and> cmdEval demoFile None [0, 1, 2] ''/h'' 1 = Inr (r, 3)"
proof -
  have parsed: "parseZshHistory (demoFile ''/h'') = Inr [''ls'', ''make'', ''ls'']"
    using parse_history_lines [of "[('' 17'', ''0'', ''ls''), ('' 18'', ''2'', ''make''), ('' 19'', ''0'', ''ls'')]"]
    by (simp add: demoFile_def lineOk_def maxHistoryLine_def)
  have path: "\<exists>k. resolveHistoryPath demoFile None ''/h'' = Inr (''/h'', k)"
    by (simp add: resolveHistoryPath_def demoFile_def)
  have sched: "set [2, 0, 1] = {..<3::nat}" "set [0, 1, 2] = {..<3::nat}" by auto
  have "length (normalizeConcurrent [2, 0, 1] [''ls'', ''make'', ''ls'']) = 3" by (simp add: normalizeConcurrent_def)
  then obtain r where r: "cmdEval demoFile None [2, 0, 1] ''/h'' 1 = Inr (r, 3)"
    using path parsed by (auto simp: cmdEval_Inr)
  have "length (filter (\<lambda>(i, raw). 1 \<le> int i \<and> Normalize raw (Some DefaultParents) \<noteq> []) (enumerate 0 [''ls'', ''make'', ''ls''])) = 2"
    by code_simp
  then show ?thesis using eval_report [OF r sched(1)] r sched(2) path parsed by auto
qed

subsection \<open>What is explained\<close>

text \<open>Without \<open>--state\<close> the context explained is that of the last two commands of the history, unless one of
  them contains a comma: then it is cut in two, as \<open>splitState\<close> cannot tell.\<close>

lemma why_state:
  assumes "\<forall>cmd\<in>set (recentZshCommands files home 2). CHR '','' \<notin> set cmd \<and> cmd \<noteq> []"
  shows "q_State (whyRequest files home wd [] cwd priorOutcome limit) = recentZshCommands files home 2"
proof (cases "recentZshCommands files home 2")
  case (Cons cmd cmds)
  then have "Join (cmd # cmds) '','' \<noteq> []" using assms by (cases cmds) auto
  then show ?thesis using Split_Join [of "cmd # cmds" "CHR '',''"] assms Cons
    by (auto simp: whyRequest_def explainRequest_def splitState_def)
qed (simp add: whyRequest_def explainRequest_def splitState_def request0_def)

lemma why_comma:
  assumes "recentZshCommands files home 2 = [''echo a,b'', ''ls'']"
  shows "q_State (whyRequest files home wd [] cwd priorOutcome limit) = [''echo a'', ''b'', ''ls'']"
  using assms by (simp add: whyRequest_def explainRequest_def splitState_def)

end
