(* ===== verification/Flags.thy ===== *)
theory Flags
  imports Go_Text
begin

text \<open>
  Go's package flag, as far as the commands of cli use it: string, integer and boolean flags of a
  \<open>FlagSet\<close> that hands errors back. \<open>parseInt\<close> is \<open>strconv.ParseInt\<close> in base 0 with the error text the
  package gives, \<open>quote\<close> the verb \<open>%q\<close>. The usage text written to stderr on an error is not kept.
\<close>

datatype flagValue = StringFlag string | IntFlag int | BoolFlag bool

type_synonym flagSet = "(string \<times> flagValue) list"

definition ParseBool :: "string \<Rightarrow> string + bool" where
  "ParseBool s =
     (if s \<in> {''1'', ''t'', ''T'', ''TRUE'', ''true'', ''True''} then Inr True
      else if s \<in> {''0'', ''f'', ''F'', ''FALSE'', ''false'', ''False''} then Inr False
      else Inl ''parse error'')"

definition setFlag :: "(string \<Rightarrow> string + int) \<Rightarrow> flagValue \<Rightarrow> string \<Rightarrow> string + flagValue" where
  "setFlag parseInt old v =
     (case old of
        StringFlag _ \<Rightarrow> Inr (StringFlag v)
      | IntFlag _ \<Rightarrow> (case parseInt v of Inl e \<Rightarrow> Inl e | Inr n \<Rightarrow> Inr (IntFlag n))
      | BoolFlag _ \<Rightarrow> (case ParseBool v of Inl e \<Rightarrow> Inl e | Inr b \<Rightarrow> Inr (BoolFlag b)))"

datatype flagWord = NoFlag | EndOfFlags | BadFlag | FlagWord string "string option"
  \<comment> \<open>the name, and what follows a \<open>=\<close>\<close>

definition flagWord :: "string \<Rightarrow> flagWord" where
  \<comment> \<open>the part of \<open>parseOne\<close> that looks at one argument\<close>
  "flagWord s =
     (if length s < 2 \<or> hd s \<noteq> CHR ''-'' then NoFlag
      else if s = ''--'' then EndOfFlags
      else (let name = (if s ! 1 = CHR ''-'' then drop 2 s else drop 1 s)
            in if name = [] \<or> hd name = CHR ''-'' \<or> hd name = CHR ''='' then BadFlag
               else (case Cut name ''='' of None \<Rightarrow> FlagWord name None | Some (n, v) \<Rightarrow> FlagWord n (Some v))))"

fun parseFlags :: "(string \<Rightarrow> string + int) \<Rightarrow> (string \<Rightarrow> string) \<Rightarrow> flagSet \<Rightarrow> string list \<Rightarrow> string + flagSet \<times> string list" where
  \<comment> \<open>\<open>FlagSet.Parse\<close>: the flags set, and the arguments left\<close>
  "parseFlags parseInt quote fs [] = Inr (fs, [])"
| "parseFlags parseInt quote fs (s # args) =
     (case flagWord s of
        NoFlag \<Rightarrow> Inr (fs, s # args)
      | EndOfFlags \<Rightarrow> Inr (fs, args)
      | BadFlag \<Rightarrow> Inl (''bad flag syntax: '' @ s)
      | FlagWord name given \<Rightarrow>
          (case map_of fs name of
             None \<Rightarrow> Inl (if name = ''help'' \<or> name = ''h'' then ''flag: help requested'' else ''flag provided but not defined: -'' @ name)
           | Some (BoolFlag old) \<Rightarrow>
               (case given of
                  None \<Rightarrow> parseFlags parseInt quote (mapPut name (BoolFlag True) fs) args
                | Some v \<Rightarrow>
                    (case setFlag parseInt (BoolFlag old) v of
                       Inl e \<Rightarrow> Inl (''invalid boolean value '' @ quote v @ '' for -'' @ name @ '': '' @ e)
                     | Inr new \<Rightarrow> parseFlags parseInt quote (mapPut name new fs) args))
           | Some old \<Rightarrow>
               (case given of
                  Some v \<Rightarrow>
                    (case setFlag parseInt old v of
                       Inl e \<Rightarrow> Inl (''invalid value '' @ quote v @ '' for flag -'' @ name @ '': '' @ e)
                     | Inr new \<Rightarrow> parseFlags parseInt quote (mapPut name new fs) args)
                | None \<Rightarrow>
                    (case args of
                       [] \<Rightarrow> Inl (''flag needs an argument: -'' @ name)
                     | v # rest \<Rightarrow>
                         (case setFlag parseInt old v of
                            Inl e \<Rightarrow> Inl (''invalid value '' @ quote v @ '' for flag -'' @ name @ '': '' @ e)
                          | Inr new \<Rightarrow> parseFlags parseInt quote (mapPut name new fs) rest)))))"

definition stringFlag :: "flagSet \<Rightarrow> string \<Rightarrow> string" where
  "stringFlag fs name = (case map_of fs name of Some (StringFlag v) \<Rightarrow> v | _ \<Rightarrow> [])"

definition intFlag :: "flagSet \<Rightarrow> string \<Rightarrow> int" where
  "intFlag fs name = (case map_of fs name of Some (IntFlag v) \<Rightarrow> v | _ \<Rightarrow> 0)"

definition boolFlag :: "flagSet \<Rightarrow> string \<Rightarrow> bool" where
  "boolFlag fs name = (case map_of fs name of Some (BoolFlag v) \<Rightarrow> v | _ \<Rightarrow> False)"

subsection \<open>A value arrives as it was given\<close>

definition flagArgs :: "(string \<times> string) list \<Rightarrow> string list" where
  \<comment> \<open>\<open>--name value\<close> for each, as the shell integration calls the program\<close>
  "flagArgs kvs = concat (map (\<lambda>(k, v). [''--'' @ k, v]) kvs)"

definition plainName :: "string \<Rightarrow> bool" where
  "plainName k \<longleftrightarrow> k \<noteq> [] \<and> hd k \<noteq> CHR ''-'' \<and> CHR ''='' \<notin> set k"

lemma Cut_None: "c \<notin> set s \<Longrightarrow> Cut s [c] = None"
  by (induction s) (auto simp: prefix_def)

lemma flagWord_name: "plainName k \<Longrightarrow> flagWord (CHR ''-'' # CHR ''-'' # k) = FlagWord k None"
  by (cases k) (auto simp: flagWord_def plainName_def Let_def Cut_None)

definition isString :: "flagSet \<Rightarrow> string \<Rightarrow> bool" where
  "isString fs k \<longleftrightarrow> (\<exists>v. map_of fs k = Some (StringFlag v))"

lemma isString_put: "isString fs k \<Longrightarrow> isString (mapPut k' (StringFlag v) fs) k"
  by (auto simp: isString_def map_of_mapPut)

text \<open>Whatever a value looks like, dashes, equal signs and empty strings included, it is taken as the
  value of the string flag before it.\<close>

lemma parseFlags_args:
  assumes "\<forall>(k, v)\<in>set kvs. plainName k \<and> isString fs k"
  shows "parseFlags parseInt quote fs (flagArgs kvs) = Inr (fold (\<lambda>(k, v). mapPut k (StringFlag v)) kvs fs, [])"
  using assms
proof (induction kvs arbitrary: fs)
  case (Cons kv kvs)
  obtain k v where kv: "kv = (k, v)" by fastforce
  obtain old where "map_of fs k = Some (StringFlag old)" using Cons.prems kv by (auto simp: isString_def)
  moreover have "\<forall>(k', v')\<in>set kvs. plainName k' \<and> isString (mapPut k (StringFlag v) fs) k'"
    using Cons.prems isString_put by fastforce
  ultimately show ?case using Cons.IH Cons.prems
    by (simp add: kv flagArgs_def flagWord_name setFlag_def)
qed (simp add: flagArgs_def)

lemma stringFlag_last:
  assumes "k \<notin> fst ` set post"
  shows "stringFlag (fold (\<lambda>(k, v). mapPut k (StringFlag v)) (pre @ (k, v) # post) fs) k = v"
  using assms
proof (induction post rule: rev_induct)
  case Nil
  then show ?case by (simp add: stringFlag_def map_of_mapPut)
next
  case (snoc kv post)
  then show ?case by (cases kv) (auto simp: stringFlag_def map_of_mapPut)
qed

end
