(* ===== verification/Commands.thy ===== *)
theory Commands
  imports Report Flags
begin

text \<open>
  cli/client.go once more, and cli/eval.go and cli/why.go, from the arguments on: each command with its
  flags, its request and what it makes of the response. The record \<open>cliEnv\<close> is what a command finds
  outside. A response that is decoded as another one than it is has the zero value.
\<close>

record cliEnv =
  ce_world :: world
  ce_parseInt :: "string \<Rightarrow> string + int"
  ce_socket :: string
  ce_dialErr :: "string option"

definition flagsOf :: "cliEnv \<Rightarrow> flagSet \<Rightarrow> string list \<Rightarrow> string + flagSet" where
  \<comment> \<open>no command looks at the arguments left over\<close>
  "flagsOf e spec args =
     (case parseFlags (ce_parseInt e) (wo_quote (ce_world e)) spec args of Inl err \<Rightarrow> Inl err | Inr (fs, _) \<Rightarrow> Inr fs)"

definition ask :: "cliEnv \<Rightarrow> request \<Rightarrow> daemon \<Rightarrow> (string + response) \<times> daemon" where
  "ask e req d = sendRequest (ce_world e) (ce_socket e) (ce_dialErr e) req d"

subsection \<open>Recording\<close>

definition recordFlags :: flagSet where
  "recordFlags = map (\<lambda>k. (k, StringFlag []))
     [''state'', ''next'', ''at'', ''cwd'', ''outcome'', ''prior-outcome'', ''suggested'']"

definition cmdClientRecord :: "cliEnv \<Rightarrow> string list \<Rightarrow> daemon \<Rightarrow> string option \<times> daemon" where
  "cmdClientRecord e args d =
     (case flagsOf e recordFlags args of
        Inl err \<Rightarrow> (Some err, d)
      | Inr fs \<Rightarrow>
          (case recordRequest (stringFlag fs ''state'') (stringFlag fs ''next'') (stringFlag fs ''at'') (stringFlag fs ''cwd'')
                  (stringFlag fs ''outcome'') (stringFlag fs ''prior-outcome'') (stringFlag fs ''suggested'') of
             Inl err \<Rightarrow> (Some err, d)
           | Inr req \<Rightarrow> (let (r, d') = ask e req d in (expectOK r, d'))))"

subsection \<open>Asking\<close>

definition predictFlags :: flagSet where
  "predictFlags = [(''state'', StringFlag []), (''prefix'', StringFlag []), (''limit'', IntFlag 3), (''at'', StringFlag []),
     (''cwd'', StringFlag []), (''prior-outcome'', StringFlag []), (''template'', BoolFlag False), (''raw'', BoolFlag False)]"

definition cmdClientPredict :: "cliEnv \<Rightarrow> string list \<Rightarrow> daemon \<Rightarrow> (string + printed) \<times> daemon" where
  "cmdClientPredict e args d =
     (case flagsOf e predictFlags args of
        Inl err \<Rightarrow> (Inl err, d)
      | Inr fs \<Rightarrow>
          (case ask e (predictRequest (stringFlag fs ''state'') (stringFlag fs ''prefix'') (intFlag fs ''limit'')
                  (stringFlag fs ''at'') (stringFlag fs ''cwd'') (stringFlag fs ''prior-outcome'')) d of
             (Inl err, d') \<Rightarrow> (Inl err, d')
           | (Inr r, d') \<Rightarrow> (Inr (printPredict (boolFlag fs ''template'') (boolFlag fs ''raw'')
                (case r of SuggestionsResponse ss \<Rightarrow> ss | _ \<Rightarrow> [])), d')))"

definition explainFlags :: flagSet where
  "explainFlags = [(''state'', StringFlag []), (''limit'', IntFlag 5), (''at'', StringFlag []), (''cwd'', StringFlag []),
     (''prior-outcome'', StringFlag [])]"

definition explain :: "cliEnv \<Rightarrow> request \<Rightarrow> daemon \<Rightarrow> (string + explainResponse) \<times> daemon" where
  "explain e req d =
     (case ask e req d of
        (Inl err, d') \<Rightarrow> (Inl err, d')
      | (Inr r, d') \<Rightarrow> (Inr (case r of ExplainResponse x \<Rightarrow> x
           | _ \<Rightarrow> \<lparr>ex_Level = [], ex_State = [], ex_CWD = [], ex_MinConfidence = 0, ex_MinCount = 0, ex_Breakdown = []\<rparr>), d'))"

definition cmdClientExplain :: "cliEnv \<Rightarrow> string list \<Rightarrow> daemon \<Rightarrow> (string + explainResponse) \<times> daemon" where
  \<comment> \<open>what is printed as JSON\<close>
  "cmdClientExplain e args d =
     (case flagsOf e explainFlags args of
        Inl err \<Rightarrow> (Inl err, d)
      | Inr fs \<Rightarrow> explain e (explainRequest (stringFlag fs ''state'') (stringFlag fs ''cwd'') (stringFlag fs ''prior-outcome'')
                   (stringFlag fs ''at'') (intFlag fs ''limit'')) d)"

definition whyFlags :: flagSet where
  "whyFlags = [(''state'', StringFlag []), (''cwd'', StringFlag []), (''prior-outcome'', StringFlag []), (''limit'', IntFlag 5)]"

definition cmdWhy ::
  "cliEnv \<Rightarrow> bool \<Rightarrow> (string \<Rightarrow> string + string) \<Rightarrow> string option \<Rightarrow> string option \<Rightarrow> string list \<Rightarrow> daemon \<Rightarrow>
   (string + outputLine list) \<times> daemon" where
  "cmdWhy e colorize files home wd args d =
     (case flagsOf e whyFlags args of
        Inl err \<Rightarrow> (Inl err, d)
      | Inr fs \<Rightarrow>
          (case explain e (whyRequest files home wd (stringFlag fs ''state'') (stringFlag fs ''cwd'')
                  (stringFlag fs ''prior-outcome'') (intFlag fs ''limit'')) d of
             (Inl err, d') \<Rightarrow> (Inl err, d')
           | (Inr resp, d') \<Rightarrow> (Inr (printExplainResult colorize resp), d')))"

definition cmdClientNormalize :: "cliEnv \<Rightarrow> string list \<Rightarrow> daemon \<Rightarrow> (string + string) \<times> daemon" where
  "cmdClientNormalize e args d =
     (case flagsOf e [(''cmd'', StringFlag [])] args of
        Inl err \<Rightarrow> (Inl err, d)
      | Inr fs \<Rightarrow>
          (case normalizeRequest (stringFlag fs ''cmd'') of
             Inl err \<Rightarrow> (Inl err, d)
           | Inr req \<Rightarrow>
               (case ask e req d of
                  (Inl err, d') \<Rightarrow> (Inl err, d')
                | (Inr r, d') \<Rightarrow> (Inr (case r of NormalizeResponse x \<Rightarrow> nr_Template x | _ \<Rightarrow> []), d'))))"

definition cmdClientStats :: "cliEnv \<Rightarrow> daemon \<Rightarrow> (string + statsResponse) \<times> daemon" where
  "cmdClientStats e d =
     (case ask e (request0\<lparr>q_Op := ''stats''\<rparr>) d of
        (Inl err, d') \<Rightarrow> (Inl err, d')
      | (Inr r, d') \<Rightarrow> (Inr (case r of StatsResponse x \<Rightarrow> x
           | _ \<Rightarrow> \<lparr>sr_Size = 0, sr_HalfLife = 0, sr_Alpha = 0, sr_DBPath = []\<rparr>), d'))"

definition cmdClientConfig :: "cliEnv \<Rightarrow> daemon \<Rightarrow> (string + configResponse) \<times> daemon" where
  "cmdClientConfig e d =
     (case ask e (request0\<lparr>q_Op := ''config''\<rparr>) d of
        (Inl err, d') \<Rightarrow> (Inl err, d')
      | (Inr r, d') \<Rightarrow> (Inr (case r of ConfigResponse x \<Rightarrow> x
           | _ \<Rightarrow> \<lparr>cr_AcceptKeys = [], cr_ExtraParents = [], cr_HalfLife = 0, cr_Alpha = 0\<rparr>), d'))"

subsection \<open>The others\<close>

definition cmdClientImport :: "cliEnv \<Rightarrow> string list \<Rightarrow> daemon \<Rightarrow> string option \<times> daemon" where
  "cmdClientImport e args d =
     (case flagsOf e [(''path'', StringFlag [])] args of
        Inl err \<Rightarrow> (Some err, d)
      | Inr fs \<Rightarrow>
          (case importRequest (stringFlag fs ''path'') of
             Inl err \<Rightarrow> (Some err, d)
           | Inr req \<Rightarrow> (case ask e req d of (Inl err, d') \<Rightarrow> (Some err, d') | (Inr _, d') \<Rightarrow> (None, d'))))"

definition cmdClientServe ::
  "cliEnv \<Rightarrow> (string \<Rightarrow> serveRequest option) \<Rightarrow> (nat \<Rightarrow> world \<times> daemon option) \<Rightarrow> string list \<Rightarrow> string \<Rightarrow>
   string + (serveResponse list \<times> bool)" where
  "cmdClientServe e decode env args input =
     (case flagsOf e [] args of
        Inl err \<Rightarrow> Inl err
      | Inr fs \<Rightarrow>
          if ce_socket e = [] then Inl ''could not determine socket path; set HUNCH_SOCKET''
          else Inr (runServe decode env input))"

definition evalFlags :: flagSet where
  "evalFlags = [(''path'', StringFlag []), (''warmup'', IntFlag (eo_Warmup DefaultOptions))]"

definition cmdEvalArgs ::
  "cliEnv \<Rightarrow> (string \<Rightarrow> string + string) \<Rightarrow> string option \<Rightarrow> nat list \<Rightarrow> bool \<Rightarrow> string list \<Rightarrow> string + string list" where
  \<comment> \<open>\<open>cmdEval\<close> with its flags and its report\<close>
  "cmdEvalArgs e files home schedule colorize args =
     (case flagsOf e evalFlags args of
        Inl err \<Rightarrow> Inl err
      | Inr fs \<Rightarrow>
          (case cmdEval files home schedule (stringFlag fs ''path'') (intFlag fs ''warmup'') of
             Inl err \<Rightarrow> Inl err
           | Inr (r, n) \<Rightarrow> Inr (printEvalResult colorize r n)))"

end
