(* ===== verification/Hook.thy ===== *)
theory Hook
  imports Commands
begin

text \<open>
  From the prompt to the suggestion: what the zsh hook records (\<open>_hunch_record\<close> calls \<open>hunch client
  record\<close>) and what it asks for later meet in the graph of the daemon.
\<close>

definition hookArgs ::
  "string list \<Rightarrow> string \<Rightarrow> string \<Rightarrow> string \<Rightarrow> string \<Rightarrow> string \<Rightarrow> string \<Rightarrow> string list" where
  \<comment> \<open>the arguments of the call in hunch.zsh\<close>
  "hookArgs prev cmd cwd outcome prior shown tm =
     flagArgs [(''state'', Join prev '',''), (''next'', cmd), (''cwd'', cwd), (''outcome'', outcome),
       (''prior-outcome'', prior), (''suggested'', shown), (''at'', tm)]"

subsection \<open>The arguments arrive\<close>

lemma hook_flags:
  "\<exists>fs. flagsOf e recordFlags (hookArgs prev cmd cwd outcome prior shown tm) = Inr fs
     \<and> stringFlag fs ''state'' = Join prev '','' \<and> stringFlag fs ''next'' = cmd \<and> stringFlag fs ''at'' = tm
     \<and> stringFlag fs ''cwd'' = cwd \<and> stringFlag fs ''outcome'' = outcome \<and> stringFlag fs ''prior-outcome'' = prior
     \<and> stringFlag fs ''suggested'' = shown"
proof -
  let ?kvs = "[(''state'', Join prev '',''), (''next'', cmd), (''cwd'', cwd), (''outcome'', outcome),
       (''prior-outcome'', prior), (''suggested'', shown), (''at'', tm)]"
  have "\<forall>(k, v)\<in>set ?kvs. plainName k \<and> isString recordFlags k"
    by (simp add: plainName_def isString_def recordFlags_def)
  then have "flagsOf e recordFlags (hookArgs prev cmd cwd outcome prior shown tm)
      = Inr (fold (\<lambda>(k, v). mapPut k (StringFlag v)) ?kvs recordFlags)"
    unfolding flagsOf_def hookArgs_def by (simp only: parseFlags_args sum.case prod.case)
  then show ?thesis by (simp add: stringFlag_def recordFlags_def)
qed

definition hookRequest ::
  "string list \<Rightarrow> string \<Rightarrow> string \<Rightarrow> string \<Rightarrow> string \<Rightarrow> string \<Rightarrow> string \<Rightarrow> request" where
  "hookRequest state cmd cwd outcome prior shown tm =
     request0\<lparr>q_Op := ''record'', q_State := state, q_Next := cmd, q_CWD := cwd, q_Outcome := outcome,
       q_PriorOutcome := prior, q_Suggested := shown, q_At := tm\<rparr>"

lemma hookRequest_simps [simp]:
  "q_Op (hookRequest state cmd cwd outcome prior shown tm) = ''record''"
  "q_State (hookRequest state cmd cwd outcome prior shown tm) = state"
  "q_Next (hookRequest state cmd cwd outcome prior shown tm) = cmd"
  "q_CWD (hookRequest state cmd cwd outcome prior shown tm) = cwd"
  "q_At (hookRequest state cmd cwd outcome prior shown tm) = tm"
  by (simp_all add: hookRequest_def)

lemma hook_record:
  assumes "cmd \<noteq> []" "ce_socket e \<noteq> []" "ce_dialErr e = None"
    and "handleRecord (ce_world e) (hookRequest (splitState (Join prev '','')) cmd cwd outcome prior shown tm) d = (OKResponse, d')"
  shows "cmdClientRecord e (hookArgs prev cmd cwd outcome prior shown tm) d = (None, d')"
proof -
  obtain fs where fs: "flagsOf e recordFlags (hookArgs prev cmd cwd outcome prior shown tm) = Inr fs"
    "stringFlag fs ''state'' = Join prev '',''" "stringFlag fs ''next'' = cmd" "stringFlag fs ''at'' = tm"
    "stringFlag fs ''cwd'' = cwd" "stringFlag fs ''outcome'' = outcome" "stringFlag fs ''prior-outcome'' = prior"
    "stringFlag fs ''suggested'' = shown" using hook_flags by blast
  have "recordRequest (Join prev '','') cmd tm cwd outcome prior shown
      = Inr (hookRequest (splitState (Join prev '','')) cmd cwd outcome prior shown tm)"
    using assms(1) by (simp add: recordRequest_def hookRequest_def)
  moreover have "handleConn (ce_world e) (Some (hookRequest (splitState (Join prev '','')) cmd cwd outcome prior shown tm)) d
      = (OKResponse, d')"
    using assms(4) by (simp add: handleConn_def dispatch_def)
  ultimately show ?thesis
    using assms(2,3) by (simp add: cmdClientRecord_def fs ask_def sendRequest_def expectOK_def)
qed

lemma splitState_Join:
  assumes "\<forall>c\<in>set prev. CHR '','' \<notin> set c" "2 \<le> length prev"
  shows "splitState (Join prev '','') = prev"
proof -
  obtain a b rest where prev: "prev = a # b # rest" using assms(2) by (cases prev; cases "tl prev") auto
  then have "Join prev '','' \<noteq> []" by (simp add: Join_Cons)
  moreover have "Split (Join prev '','') CHR '','' = prev" by (rule Split_Join) (use prev assms(1) in auto)
  ultimately show ?thesis by (simp add: splitState_def)
qed

subsection \<open>No counter overflows\<close>

definition spareEntry :: "entry \<Rightarrow> bool" where
  "spareEntry e \<longleftrightarrow> roomyEntry e \<and> e_nextSuccess e + e_nextFailure e < maxInt64 \<and> sum_list (map snd (e_cwds e)) < maxInt64"

definition spare :: "graph \<Rightarrow> bool" where
  \<comment> \<open>one more observation overflows no counter and no sum of counters\<close>
  "spare g \<longleftrightarrow> (\<forall>sk nxt e. lookupEntry g sk nxt = Some e \<longrightarrow> spareEntry e)"

lemma spare_roomy: "spare g \<Longrightarrow> roomy g"
  by (simp add: spare_def roomy_def spareEntry_def)

lemma sum_mapPut: "sum_list (map snd (mapPut k v m)) = sum_list (map snd m) - mapGet 0 m k + (v :: int)"
  by (induction m) (auto simp: mapGet_def)

lemma spare_recordEntry:
  assumes "entryPre e" "spareEntry e"
  shows "e_nextSuccess (recordEntry obs e) + e_nextFailure (recordEntry obs e) \<le> maxInt64
    \<and> sum_list (map snd (e_cwds (recordEntry obs e))) \<le> maxInt64"
proof -
  have room: "roomyEntry e" and s: "e_nextSuccess e + e_nextFailure e < maxInt64" "sum_list (map snd (e_cwds e)) < maxInt64"
    using assms(2) by (simp_all add: spareEntry_def)
  note inv = entryPreD [OF assms(1)] and r = roomyEntryD [OF room]
  have b: "bump (e_nextSuccess e) = e_nextSuccess e + 1" "bump (e_nextFailure e) = e_nextFailure e + 1"
    "bump (mapGet 0 (e_cwds e) (o_CWD obs)) = mapGet 0 (e_cwds e) (o_CWD obs) + 1"
    using inv r room by (simp_all add: bump_id roomyEntry_def)
  then show ?thesis using s inv
    by (simp add: recordEntry_def sum_mapPut OutcomeSuccess_def OutcomeFailure_def)
qed

lemma scorable_recordAll:
  assumes inv: "graphInv g" "spare g"
    and obs: "\<forall>st. o_State (obs st) = st \<and> o_Next (obs st) = nxt" "nxt \<noteq> []"
  shows "scorableGraph (recordAll (BackoffStates state c) obs g)"
proof -
  let ?g = "recordAll (BackoffStates state c) obs g"
  have "e_nextSuccess e + e_nextFailure e \<le> maxInt64 \<and> sum_list (map snd (e_cwds e)) \<le> maxInt64"
    if e: "lookupEntry ?g sk n = Some e" for sk n e
  proof (cases "sk \<in> stateKey ` set (BackoffStates state c) \<and> n = nxt")
    case True
    then obtain st where st: "st \<in> set (BackoffStates state c)" "sk = stateKey st" by blast
    let ?old = "case lookupEntry g (stateKey st) nxt of None \<Rightarrow> entry0 | Some e \<Rightarrow> e"
    have "lookupEntry ?g (stateKey st) (o_Next (obs st)) = Some (recordEntry (obs st)
        (case lookupEntry g (stateKey st) (o_Next (obs st)) of None \<Rightarrow> entry0 | Some e \<Rightarrow> e))"
      by (rule lookup_recordAll [OF distinct_stateKeys st(1)]) (use obs in simp_all)
    then have "e = recordEntry (obs st) ?old" using e True st(2) obs(1) by simp
    moreover have "entryPre ?old" using graphInvD(3) [OF inv(1)] by (auto simp: entryPre_def split: option.splits)
    moreover have "spareEntry entry0" by (simp add: spareEntry_def roomyEntry_def entry0_def)
    then have "spareEntry ?old" using inv(2) by (auto simp: spare_def split: option.splits)
    ultimately show ?thesis using spare_recordEntry by blast
  next
    case False
    then have "(\<forall>st. o_Next (obs st) \<noteq> n) \<or> (\<forall>st\<in>set (BackoffStates state c). stateKey (o_State (obs st)) \<noteq> sk)"
      using obs(1) by auto
    then have "lookupEntry g sk n = Some e" using e lookup_recordAll_next lookup_recordAll_other by metis
    then show ?thesis using inv(2) by (force simp: spare_def spareEntry_def)
  qed
  moreover have "graphInv ?g" using recordAll_counts [OF inv(1) spare_roomy [OF inv(2)] obs] by blast
  ultimately show ?thesis by (simp add: scorableGraph_def)
qed

subsection \<open>What is in the graph is a candidate\<close>

lemma PredictOn_entries:
  assumes "scorableGraph (pr_g pr)" "predictorOk pr" "lookupEntry (pr_g pr) (stateKey (stateTemplates s)) nxt = Some e"
  shows "\<exists>x\<in>set (PredictOn pr s tm 0). g_Template x = nxt \<and> g_Count x = e_count e"
proof -
  let ?ts = "Transitions (pr_g pr) (stateTemplates s)" and ?p = "paramsFor pr s tm"
  have "tlWf (g_m (pr_g pr))" using assms(1) by (simp add: scorableGraph_def graphInv_def)
  then have t: "entryToTransition (stateTemplates s) nxt e \<in> set ?ts"
    using assms(3) by (simp add: Transitions_iff entryToTransition_def)
  then have ne: "?ts \<noteq> []" by auto
  have "paramsOk ?p" using assms(2) by (simp add: paramsOk_def predictorOk_def paramsFor_def)
  then have "0 < denomOf ?ts ?p" using denomOf_pos ne Transitions_scorable [OF assms(1)] by blast
  then have "mset (map (\<lambda>x. (g_Template x, g_Count x)) (PredictOn pr s tm 0)) = mset (map (\<lambda>t. (t_Next t, t_Count t)) ?ts)"
    using ne by (simp add: PredictOn_def capTo_def scoreTransitions_def Let_def scoreTransitionsDetailed_eq multiset.map_comp comp_def)
  then have "set (map (\<lambda>x. (g_Template x, g_Count x)) (PredictOn pr s tm 0)) = set (map (\<lambda>t. (t_Next t, t_Count t)) ?ts)"
    by (rule mset_eq_setD)
  moreover have "(nxt, e_count e) \<in> set (map (\<lambda>t. (t_Next t, t_Count t)) ?ts)"
    using imageI [OF t, of "\<lambda>t. (t_Next t, t_Count t)"] by (simp add: entryToTransition_def)
  ultimately have "(nxt, e_count e) \<in> set (map (\<lambda>x. (g_Template x, g_Count x)) (PredictOn pr s tm 0))" by blast
  then show ?thesis by auto
qed

subsection \<open>Recorded where it is asked for\<close>

definition askedState :: "daemon \<Rightarrow> request \<Rightarrow> state" where
  \<comment> \<open>the state of the first rung of the ladder\<close>
  "askedState d q = \<lparr>s_Previous = previousOf (dm_parents d) q, s_CWD = cleanCWD q, s_PriorOutcome = q_PriorOutcome q\<rparr>"

lemma asked_recorded:
  assumes "q_State q = q_State req" "q_CWD q = q_CWD req"
  shows "stateTemplates (askedState d q) \<in> set (recordStates (dm_parents d) req)"
proof -
  let ?full = "(if q_CWD req \<noteq> [] then [Clean (q_CWD req)] else []) @ map (\<lambda>raw. Normalize raw (dm_parents d)) (q_State req)"
  have c: "Clean p \<noteq> []" for p by (simp add: Clean_def Let_def)
  have "stateTemplates (askedState d q) = ?full"
    using assms c by (simp add: stateTemplates_def askedState_def previousOf_def cleanCWD_def commandOf_def comp_def)
  moreover have "?full \<in> set (BackoffStates ?full (q_CWD req \<noteq> []))"
    using BackoffStates_hd [of ?full "q_CWD req \<noteq> []"] by (metis list.set_sel(1))
  ultimately show ?thesis by (simp only: recordStates_def)
qed

lemma exact_answer:
  assumes "scorableGraph (graphOf d)" "predictorOk (dm_pred d)" "dm_predG d = dm_g d"
    and "lookupEntry (graphOf d) (stateKey (stateTemplates (askedState d q))) nxt = Some e"
    and "op_MinCount (dm_opts d) \<le> e_count e"
  shows "fr_level (fallbackOf d q tm) = ''exact directory''
    \<and> (\<exists>s\<in>set (fr_suggestions (fallbackOf d q tm)). g_Template s = nxt \<and> g_Count s = e_count e)"
proof -
  have live: "pr_g (livePredictor d) = graphOf d" "predictorOk (livePredictor d)"
    using assms(2,3) by (simp_all add: livePredictor_def graphOf_def predictorOk_def)
  have "\<exists>x\<in>set (PredictOn (livePredictor d) (askedState d q) tm 0). g_Template x = nxt \<and> g_Count x = e_count e"
    by (rule PredictOn_entries) (simp_all add: live assms(1,4))
  then obtain x where x: "x \<in> set (PredictOn (livePredictor d) (askedState d q) tm 0)" "g_Template x = nxt" "g_Count x = e_count e"
    by blast
  let ?exact = "daemonQuery (livePredictor d) (op_MinCount (dm_opts d)) (q_PriorOutcome q) tm (previousOf (dm_parents d) q) (cleanCWD q)"
  have "x \<in> set ?exact"
    using x assms(5) by (simp add: daemonQuery_def withMinCount_def askedState_def)
  moreover from this have "fr_suggestions (fallbackOf d q tm) = ?exact \<and> fr_level (fallbackOf d q tm) = ''exact directory''"
    by (cases ?exact) (auto simp: fallbackOf_def predictFallback_def ladder_def Let_def)
  ultimately show ?thesis using x(2,3) by auto
qed

lemma recorded_answers:
  assumes rec: "handleRecord w req d = (ok, d')" "requestTime w (q_At req) = Inr t0" "\<not> IsSensitive (dm_redactor d) (q_Next req)"
    and nxt: "nxt = Normalize (q_Next req) (dm_parents d)" "nxt \<noteq> []"
    and d: "graphInv (graphOf d)" "spare (graphOf d)" "predictorOk (dm_pred d)" "dm_predG d = dm_g d"
    and q: "q_State q = q_State req" "q_CWD q = q_CWD req"
    and count: "n = 1 + (case lookupEntry (graphOf d) (stateKey (stateTemplates (askedState d q))) nxt of None \<Rightarrow> 0 | Some e0 \<Rightarrow> e_count e0)"
  shows "ok = OKResponse"
    and "tlLookup (rs_m (dm_raws d')) (rawOuterKey (stateTemplates (askedState d q)) nxt) (q_Next req) \<noteq> None"
    and "op_MinCount (dm_opts d) \<le> n \<Longrightarrow> fr_level (fallbackOf d' q now) = ''exact directory''
         \<and> (\<exists>s\<in>set (fr_suggestions (fallbackOf d' q now)). g_Template s = nxt \<and> g_Count s = n)"
proof -
  note counts = record_counts [OF rec(2,3) nxt d(1) spare_roomy [OF d(2)] rec(1)]
  note keeps = record_keeps [OF rec(1)]
  have st: "stateTemplates (askedState d q) \<in> set (recordStates (dm_parents d) req)"
    by (rule asked_recorded) (simp_all add: q)
  obtain e1 where e1: "lookupEntry (graphOf d') (stateKey (stateTemplates (askedState d q))) nxt = Some e1" "e_count e1 = n"
    using counts(5) [OF st] count by blast
  have "scorableGraph (graphOf d')"
    unfolding counts(4) recordStates_def
    by (rule scorable_recordAll [OF d(1,2) _ nxt(2)]) (simp add: recordObsOf_def nxt(1))
  moreover have "askedState d' q = askedState d q" using keeps by (simp add: askedState_def)
  ultimately show "op_MinCount (dm_opts d) \<le> n \<Longrightarrow> fr_level (fallbackOf d' q now) = ''exact directory''
         \<and> (\<exists>s\<in>set (fr_suggestions (fallbackOf d' q now)). g_Template s = nxt \<and> g_Count s = n)"
    using exact_answer [of d' q nxt e1 now] e1 keeps d(3,4) by simp
  show "ok = OKResponse" "tlLookup (rs_m (dm_raws d')) (rawOuterKey (stateTemplates (askedState d q)) nxt) (q_Next req) \<noteq> None"
    using counts(1) counts(5) [OF st] by simp_all
qed

text \<open>C5: What the user does is learned where it is asked for: when the zsh hook has recorded a command after
  two others, its raw text is on file, and a later query after the same two commands in the same
  directory finds it counted once more; from the configured minimum count on the first rung of the ladder
  answers and the command is among its candidates, with that count. (The two commands contain no comma;
  see below.)\<close>

theorem hook_then_predict:
  assumes hook: "cmdClientRecord e (hookArgs prev cmd cwd outcome prior shown tm) d = (r, d')"
    and cmds: "\<forall>c\<in>set prev. CHR '','' \<notin> set c" "length prev = 2" "cmd \<noteq> []" "nxt = Normalize cmd (dm_parents d)" "nxt \<noteq> []"
    and env: "requestTime (ce_world e) tm = Inr t0" "\<not> IsSensitive (dm_redactor d) cmd" "ce_socket e \<noteq> []" "ce_dialErr e = None"
    and d: "graphInv (graphOf d)" "spare (graphOf d)" "predictorOk (dm_pred d)" "dm_predG d = dm_g d"
    and q: "q_State q = prev" "q_CWD q = cwd"
    and count: "n = 1 + (case lookupEntry (graphOf d) (stateKey (stateTemplates (askedState d q))) nxt of None \<Rightarrow> 0 | Some e0 \<Rightarrow> e_count e0)"
  shows "r = None
    \<and> tlLookup (rs_m (dm_raws d')) (rawOuterKey (stateTemplates (askedState d q)) nxt) cmd \<noteq> None
    \<and> (op_MinCount (dm_opts d) \<le> n \<longrightarrow> fr_level (fallbackOf d' q now) = ''exact directory''
         \<and> (\<exists>s\<in>set (fr_suggestions (fallbackOf d' q now)). g_Template s = nxt \<and> g_Count s = n))"
proof -
  let ?req = "hookRequest prev cmd cwd outcome prior shown tm"
  have split: "splitState (Join prev '','') = prev" by (rule splitState_Join) (use cmds in simp_all)
  obtain ok d1 where rec: "handleRecord (ce_world e) ?req d = (ok, d1)" by fastforce
  have pre: "requestTime (ce_world e) (q_At ?req) = Inr t0" "\<not> IsSensitive (dm_redactor d) (q_Next ?req)"
    "nxt = Normalize (q_Next ?req) (dm_parents d)" "q_State q = q_State ?req" "q_CWD q = q_CWD ?req" using env cmds q by simp_all
  note answers = recorded_answers [OF rec pre(1-3) cmds(5) d pre(4,5) count]
  have "cmdClientRecord e (hookArgs prev cmd cwd outcome prior shown tm) d = (None, d1)"
    using hook_record [OF cmds(3) env(3,4)] rec split answers(1) by simp
  then have d1: "r = None" "d' = d1" using hook by simp_all
  show ?thesis using answers(2,3) by (simp add: d1)
qed

definition demoEnv :: cliEnv where
  "demoEnv = \<lparr>ce_world = demoWorld, ce_parseInt = (\<lambda>_. Inl ''parse error''), ce_socket = ''/run/hunch.sock'', ce_dialErr = None\<rparr>"

lemma demoEnv_simps [simp]: "ce_world demoEnv = demoWorld" "ce_socket demoEnv \<noteq> []" "ce_dialErr demoEnv = None"
  by (simp_all add: demoEnv_def)

definition eagerDaemon :: daemon where
  \<comment> \<open>suggests what it has seen once\<close>
  "eagerDaemon = demoDaemon\<lparr>dm_opts := defaults\<lparr>op_MinCount := 1\<rparr>\<rparr>"

lemma eagerDaemon_simps [simp]:
  "graphOf eagerDaemon = New 2" "dm_redactor eagerDaemon = NewMatcher (\<lambda>_. None) []" "dm_parents eagerDaemon = dm_parents demoDaemon"
  "dm_predG eagerDaemon = dm_g eagerDaemon" "op_MinCount (dm_opts eagerDaemon) = 1" "predictorOk (dm_pred eagerDaemon)"
proof -
  show "graphOf eagerDaemon = New 2" using demoDaemon_simps(1) by (simp add: eagerDaemon_def graphOf_def)
  have "HalfLife defaults = 2592000000000000" by code_simp
  then show "predictorOk (dm_pred eagerDaemon)"
    by (simp add: eagerDaemon_def demoDaemon_def newDaemon_def newPredictor_def NewPredictor_def predictorOk_def defaults_def)
qed (simp_all add: eagerDaemon_def)

lemma New_lookup: "lookupEntry (New 2) sk n = None" "spare (New 2)"
  by (simp_all add: New_def spare_def)

theorem hook_then_predict_witness:
  "\<exists>d'. cmdClientRecord demoEnv (hookArgs [''make'', ''git add x''] ''ls'' ''/p'' ''success'' [] [] []) eagerDaemon = (None, d')
     \<and> (\<exists>s\<in>set (fr_suggestions (fallbackOf d' (request0\<lparr>q_State := [''make'', ''git add x''], q_CWD := ''/p''\<rparr>) 200)).
          g_Template s = Normalize ''ls'' (dm_parents demoDaemon) \<and> g_Count s = 1)"
proof -
  let ?q = "request0\<lparr>q_State := [''make'', ''git add x''], q_CWD := ''/p''\<rparr>"
  obtain r d' where res: "cmdClientRecord demoEnv (hookArgs [''make'', ''git add x''] ''ls'' ''/p'' ''success'' [] [] []) eagerDaemon = (r, d')"
    by fastforce
  have cmds: "\<forall>c\<in>set [''make'', ''git add x'']. CHR '','' \<notin> set c" "length [''make'', ''git add x''] = 2" "''ls'' \<noteq> []"
    "Normalize ''ls'' (dm_parents demoDaemon) = Normalize ''ls'' (dm_parents eagerDaemon)" "Normalize ''ls'' (dm_parents demoDaemon) \<noteq> []"
    by (simp_all add: ls_template)
  have env: "requestTime (ce_world demoEnv) [] = Inr 100" "\<not> IsSensitive (dm_redactor eagerDaemon) ''ls''"
    "ce_socket demoEnv \<noteq> []" "ce_dialErr demoEnv = None" by (simp_all add: ls_not_sensitive)
  have d: "graphInv (graphOf eagerDaemon)" "spare (graphOf eagerDaemon)" "predictorOk (dm_pred eagerDaemon)"
    "dm_predG eagerDaemon = dm_g eagerDaemon" by (simp_all add: New_lookup)
  have q: "q_State ?q = [''make'', ''git add x'']" "q_CWD ?q = ''/p''" by simp_all
  have n: "1 = 1 + (case lookupEntry (graphOf eagerDaemon) (stateKey (stateTemplates (askedState eagerDaemon ?q)))
      (Normalize ''ls'' (dm_parents demoDaemon)) of None \<Rightarrow> 0 | Some e0 \<Rightarrow> e_count e0)" by (simp add: New_lookup)
  show ?thesis using hook_then_predict [OF res cmds env d q n] res by auto
qed

text \<open>A comma in one of the two commands breaks the agreement: the hook joins them with commas and
  \<open>splitState\<close> cuts them there, while the query sends them as they are. The command is recorded in a
  context of three, and in the one that is asked for there is nothing.\<close>

lemma comma_recorded_elsewhere:
  assumes "cmdClientRecord demoEnv (hookArgs [''ls'', ''echo a,b''] ''ls'' [] [] [] [] []) demoDaemon = (r, d')"
    and "q_State q = [''ls'', ''echo a,b'']" "q_CWD q = []"
  shows "r = None \<and> lookupEntry (graphOf d') (stateKey (stateTemplates (askedState demoDaemon q))) n = None"
proof -
  let ?req = "hookRequest [''ls'', ''echo a'', ''b''] ''ls'' [] [] [] [] []"
  have split: "splitState (Join [''ls'', ''echo a,b''] '','') = [''ls'', ''echo a'', ''b'']" by (simp add: splitState_def)
  obtain ok d1 where rec: "handleRecord demoWorld ?req demoDaemon = (ok, d1)" by fastforce
  have pre: "requestTime demoWorld (q_At ?req) = Inr 100" "\<not> IsSensitive (dm_redactor demoDaemon) (q_Next ?req)"
    by (simp_all add: ls_not_sensitive)
  have g: "graphInv (graphOf demoDaemon)" "roomy (graphOf demoDaemon)" using spare_roomy New_lookup(2) by simp_all
  have ne: "Normalize (q_Next ?req) (dm_parents demoDaemon) \<noteq> []" by (simp add: ls_template)
  note counts = record_counts [OF pre refl ne g rec]
  have "cmdClientRecord demoEnv (hookArgs [''ls'', ''echo a,b''] ''ls'' [] [] [] [] []) demoDaemon = (None, d1)"
    by (rule hook_record) (use rec counts(1) split in simp_all)
  then have d1: "r = None" "d' = d1" using assms(1) by simp_all
  have norm: "map (\<lambda>raw. Normalize raw (dm_parents demoDaemon)) [''ls'', ''echo a'', ''b''] = [''ls'', ''echo STR'', ''b'']"
    "map (\<lambda>raw. Normalize raw (dm_parents demoDaemon)) [''ls'', ''echo a,b''] = [''ls'', ''echo STR'']"
    by code_simp+
  have asked: "stateTemplates (askedState demoDaemon q) = [''ls'', ''echo STR'']"
    using norm(2) assms(2,3) by (simp add: stateTemplates_def askedState_def previousOf_def cleanCWD_def commandOf_def)
  have "recordStates (dm_parents demoDaemon) ?req = [[''ls'', ''echo STR'', ''b''], [''echo STR'', ''b'']]"
    using norm(1) by (simp add: recordStates_def BackoffStates_def appendIfInformative_def)
  then have "lookupEntry (graphOf d1) (stateKey [''ls'', ''echo STR'']) n = lookupEntry (New 2) (stateKey [''ls'', ''echo STR'']) n"
    unfolding counts(4) demoDaemon_simps
    by (simp only:) (rule lookup_recordAll_other, simp add: recordObsOf_def stateKey_def)
  then show ?thesis by (simp add: d1 asked New_lookup)
qed

subsection \<open>A prediction in full\<close>

text \<open>C9: What a prediction shows. Its suggestions are the answer of the ladder less what does not continue
  the typed prefix, cut to the limit, in the same order with the same templates, counts and scores; only
  the first may be listed up to three times, once per concrete command. Each is a candidate the graph
  holds for the context the ladder answered from and has been observed at least MinCount times. Where
  a command has been recorded for its template in the current context or a more general one, it comes
  with one: a command of the longest such context, and one that continues what has been typed if that
  context has any; where none has been recorded it comes with none.\<close>

theorem predict_answer:
  assumes "requestTime w (q_At req) = Inr tm"
    and "answer = fr_suggestions (fallbackOf d req tm)"
    and "typed = (if q_Prefix req = [] then answer
           else filter (\<lambda>s. HasPrefix (g_Template s) (Normalize (q_Prefix req) (dm_parents d))) answer)"
    and "shown = (if 0 < q_Limit req then take (nat (q_Limit req)) typed else typed)"
    and "known = (\<lambda>s. answering (dm_raws d) (windowsOf (templatesOf (previousOf (dm_parents d) req))) (g_Template s))"
  shows "\<exists>ss. handlePredict w req d = (SuggestionsResponse ss, d)
    \<and> (0 < q_Limit req \<longrightarrow> int (length ss) \<le> q_Limit req)
    \<and> (case shown of [] \<Rightarrow> ss = []
       | best # others \<Rightarrow> \<exists>k. 1 \<le> k \<and> k \<le> 3 \<and> map (g_Raw_update (\<lambda>_. [])) ss = replicate k best @ others)
    \<and> (\<forall>s\<in>set ss.
         (\<exists>s0\<in>set (PredictOn (livePredictor d) (rungState d req tm) tm 0).
            g_Template s = g_Template s0 \<and> g_Score s = g_Score s0 \<and> g_Count s = g_Count s0)
       \<and> (op_MinCount (dm_opts d) \<le> 1 \<or> op_MinCount (dm_opts d) \<le> g_Count s)
       \<and> (if known s = [] then g_Raw s = []
          else g_Raw s \<in> fst ` set (known s)
            \<and> ((\<exists>(raw, e)\<in>set (known s). HasPrefix raw (q_Prefix req)) \<longrightarrow> HasPrefix (g_Raw s) (q_Prefix req))))"
proof -
  have shown: "shownBefore d req tm = shown"
    using assms(3,4) by (auto simp: shownBefore_typed typedOf_def assms(2) filter_True)
  obtain ss where ss: "handlePredict w req d = (SuggestionsResponse ss, d)"
    "0 < q_Limit req \<Longrightarrow> int (length ss) \<le> q_Limit req" "shown = [] \<Longrightarrow> ss = []"
    "\<And>best others. shown = best # others \<Longrightarrow> \<exists>k. 1 \<le> k \<and> k \<le> 3 \<and> map unhydrated ss = replicate k best @ others"
    and from_shown: "\<And>s. s \<in> set ss \<Longrightarrow> \<exists>s0\<in>set shown. unhydrated s = s0"
    and fit: "\<And>s. s \<in> set ss \<Longrightarrow> fits (dm_raws d) (templatesOf (previousOf (dm_parents d) req)) (q_Prefix req) s"
    by (rule handlePredict_hydrates [OF assms(1) shown [symmetric]]) blast
  have cand: "(\<exists>s0\<in>set (PredictOn (livePredictor d) (rungState d req tm) tm 0).
        g_Template s = g_Template s0 \<and> g_Score s = g_Score s0 \<and> g_Count s = g_Count s0)
      \<and> (op_MinCount (dm_opts d) \<le> 1 \<or> op_MinCount (dm_opts d) \<le> g_Count s)" if s: "s \<in> set ss" for s
  proof -
    obtain s0 where s0: "s0 \<in> set (shownBefore d req tm)" "unhydrated s = s0" using from_shown [OF s] shown by blast
    then have same: "g_Template s = g_Template s0" "g_Score s = g_Score s0" "g_Count s = g_Count s0" by (auto simp: unhydrated_def)
    show ?thesis using fallbackOf_answer [OF shownBefore_fallback(1) [OF s0(1)]] unfolding same by blast
  qed
  have raw: "if known s = [] then g_Raw s = []
      else g_Raw s \<in> fst ` set (known s)
        \<and> ((\<exists>(raw, e)\<in>set (known s). HasPrefix raw (q_Prefix req)) \<longrightarrow> HasPrefix (g_Raw s) (q_Prefix req))"
    if "s \<in> set ss" for s
    using fit [OF that] by (fastforce simp: fits_def assms(5) eligible_def Let_def filter_empty_conv split: if_splits)
  have un: "unhydrated = g_Raw_update (\<lambda>_. [])" by (rule ext) (simp add: unhydrated_def)
  show ?thesis using ss cand raw unfolding un by (cases shown) (intro exI [of _ ss]; simp)+
qed

lemma afterRecord_known:
  assumes "handleRecord demoWorld (request0\<lparr>q_State := [''make'', ''git add x''], q_CWD := ''/p'', q_Next := ''ls''\<rparr>) eagerDaemon = (ok, d)"
    and "q_State q = [''make'', ''git add x'']"
  shows "answering (dm_raws d) (windowsOf (templatesOf (previousOf (dm_parents d) q))) ''ls'' = [(''ls'', \<lparr>re_count = 1, re_lastSeen = 100\<rparr>)]"
proof -
  let ?r = "request0\<lparr>q_State := [''make'', ''git add x''], q_CWD := ''/p'', q_Next := ''ls''\<rparr>"
  have pre: "requestTime demoWorld (q_At ?r) = Inr 100" "\<not> IsSensitive (dm_redactor eagerDaemon) (q_Next ?r)"
    by (simp_all add: ls_not_sensitive request0_def)
  have norm: "Normalize ''make'' (dm_parents demoDaemon) = ''make''" "Normalize ''git add x'' (dm_parents demoDaemon) = ''git add STR''"
    "Normalize ''ls'' (dm_parents demoDaemon) = ''ls''" "Clean ''/p'' = ''/p''" by code_simp+
  have states: "recordStates (dm_parents eagerDaemon) ?r
      = [[''/p'', ''make'', ''git add STR''], [''make'', ''git add STR''], [''git add STR'']]"
    by (simp add: recordStates_def norm BackoffStates_def appendIfInformative_def)
  have parents: "dm_parents d = dm_parents demoDaemon" using record_keeps [OF assms(1)] by simp
  have prev: "templatesOf (previousOf (dm_parents d) q) = [''make'', ''git add STR'']"
    by (simp add: assms(2) parents templatesOf_def previousOf_def commandOf_def norm)
  have "dm_raws d = fold (\<lambda>st. recordRaw st ''ls'' ''ls'' 100)
      [[''/p'', ''make'', ''git add STR''], [''make'', ''git add STR''], [''git add STR'']] (dm_raws eagerDaemon)"
    using assms(1) unfolding handleRecord_eq [OF pre] states [symmetric] by (auto simp: norm)
  then show ?thesis
    unfolding prev
    by (simp add: eagerDaemon_def answering_def windowsOf_def recordRaw_def newRawStore_def tlModify_def tlInner_def
        mapGet_def rawEntry0_def rawOuterKey_def nonEmptyStrs_def keyDelimiter_def wrap64_def)
qed

theorem predict_answer_witness:
  "\<exists>d ss. handleRecord demoWorld (request0\<lparr>q_State := [''make'', ''git add x''], q_CWD := ''/p'', q_Next := ''ls''\<rparr>) eagerDaemon = (OKResponse, d)
     \<and> handlePredict demoWorld (request0\<lparr>q_State := [''make'', ''git add x''], q_CWD := ''/p''\<rparr>) d = (SuggestionsResponse ss, d)
     \<and> (\<exists>s\<in>set ss. g_Template s = ''ls'' \<and> g_Raw s = ''ls'' \<and> g_Count s = 1)"
proof -
  let ?q = "request0\<lparr>q_State := [''make'', ''git add x''], q_CWD := ''/p''\<rparr>"
  let ?r = "request0\<lparr>q_State := [''make'', ''git add x''], q_CWD := ''/p'', q_Next := ''ls''\<rparr>"
  obtain ok d where rec: "handleRecord demoWorld ?r eagerDaemon = (ok, d)" by fastforce
  have q: "q_State ?q = q_State ?r" "q_CWD ?q = q_CWD ?r" "q_Prefix ?q = []" "q_Limit ?q = 0" by (simp_all add: request0_def)
  have tm: "requestTime demoWorld (q_At ?r) = Inr 100" "requestTime demoWorld (q_At ?q) = Inr 100" by (simp_all add: request0_def)
  have ls: "''ls'' = Normalize (q_Next ?r) (dm_parents eagerDaemon)" by code_simp
  have sens: "\<not> IsSensitive (dm_redactor eagerDaemon) (q_Next ?r)" by (simp add: ls_not_sensitive)
  have n: "1 = 1 + (case lookupEntry (graphOf eagerDaemon) (stateKey (stateTemplates (askedState eagerDaemon ?q))) ''ls'' of None \<Rightarrow> 0 | Some e0 \<Rightarrow> e_count e0)"
    by (simp add: New_lookup)
  have d: "graphInv (graphOf eagerDaemon)" "spare (graphOf eagerDaemon)" "predictorOk (dm_pred eagerDaemon)"
    "dm_predG eagerDaemon = dm_g eagerDaemon" by (simp_all add: New_lookup)
  have ne: "''ls'' \<noteq> []" by simp
  note recorded = recorded_answers [OF rec tm(1) sens ls ne d q(1,2) n]
  then obtain x where x: "x \<in> set (fr_suggestions (fallbackOf d ?q 100))" "g_Template x = ''ls''" "g_Count x = 1"
    using recorded(3) [of 100] by auto
  note known = afterRecord_known [OF rec, of ?q]
  let ?known = "\<lambda>s. answering (dm_raws d) (windowsOf (templatesOf (previousOf (dm_parents d) ?q))) (g_Template s)"
  let ?answer = "fr_suggestions (fallbackOf d ?q 100)"
  have typed: "?answer = (if q_Prefix ?q = [] then ?answer
      else filter (\<lambda>s. HasPrefix (g_Template s) (Normalize (q_Prefix ?q) (dm_parents d))) ?answer)" using q by simp
  have shown: "?answer = (if 0 < q_Limit ?q then take (nat (q_Limit ?q)) ?answer else ?answer)" using q by simp
  from predict_answer [OF tm(2) refl typed shown refl]
obtain ss where ss: "handlePredict demoWorld ?q d = (SuggestionsResponse ss, d)"
    "case fr_suggestions (fallbackOf d ?q 100) of [] \<Rightarrow> ss = []
       | best # others \<Rightarrow> \<exists>k. 1 \<le> k \<and> k \<le> 3 \<and> map (g_Raw_update (\<lambda>_. [])) ss = replicate k best @ others"
    and raw: "\<forall>s\<in>set ss. ?known s \<noteq> [] \<longrightarrow> g_Raw s \<in> fst ` set (?known s)"
    by (metis (no_types, lifting))
  have ls_raw: "\<forall>s\<in>set ss. g_Template s = ''ls'' \<longrightarrow> g_Raw s = ''ls''" using raw known q(1) by auto
  obtain best others where a: "?answer = best # others" using x(1) by (cases ?answer) auto
  then obtain k where "1 \<le> k" "map (g_Raw_update (\<lambda>_. [])) ss = replicate k best @ others" using ss(2) by auto
  moreover have "x \<in> set (replicate k best @ others)" using x(1) a \<open>1 \<le> k\<close> by auto
  ultimately have "x \<in> set (map (g_Raw_update (\<lambda>_. [])) ss)" by metis
  then obtain s where s: "s \<in> set ss" "x = g_Raw_update (\<lambda>_. []) s" by auto
  then have "g_Template s = ''ls''" "g_Count s = 1" using x(2,3) by simp_all
  then show ?thesis using s(1) ss(1) ls_raw rec recorded(1) by auto
qed

end
