(* ===== verification/Spec2Isabelle.thy ===== *)
theory Spec2Isabelle
  imports Flush Durability Wire Export History_Import Setup Update Entry Windows_Host Hook
begin

text \<open>
  A model of hunch, a daemon that learns which shell commands follow each other and suggests the next
  one, and of the command line tool around it. The theories follow the packages of the repository; a
  definition has the name of the Go function or type it translates, and the comment of its theory
  names the file.

  \<^bold>\<open>The program.\<close> The shell sends every command that ran to the daemon (\<open>record\<close>) and asks for
  suggestions while the user types (\<open>predict\<close>, through \<open>client serve\<close>). The daemon normalizes commands
  to templates (core/normalize), drops those that look like secrets (core/redact), counts transitions
  from contexts to templates in a graph (core/graph), keeps the concrete commands behind the templates
  (daemon/rawstore.go), ranks candidates (core/predict), and writes everything to SQLite
  (daemon/store.go) when it has changed, once a day dropping what has decayed. The command line tool
  (cli) starts and stops it, imports a zsh history, exports, explains, installs and uninstalls.

  \<^bold>\<open>The library\<close> (what the components share):
    Go_Prelude: lists as insertion-ordered maps, \<open>Split\<close>, \<open>Join\<close>, \<open>Cut\<close>, times, durations and the
      64-bit wrap-around of Go's integers;
    Go_Regexp: the fragment of regular expressions the source uses, with a matcher;
    Go_Text, Go_Filepath, Clean_Path: white space, number parsing, \<open>Contains\<close>; \<open>Clean\<close>, \<open>Dir\<close>, \<open>Join\<close> of
      paths and their laws;
    Flags: package flag; Disk: files and directories, with the script the tool keeps there;
    Two_Level: maps of maps, for the graph and the raw store;
    Keyed_Action: the locale \<open>keyed_commuting\<close> of a fold that updates one key at a time, where the order
      does not matter, interpreted on recording into the graph and into the raw store, and its extension
      \<open>keyed_action\<close>, where repeating does not matter either, interpreted on the merge of the graph;
    Plain_Text: strings without NUL bytes, which the keys built with NUL separators rely on.
    Two more locales stand where their interface is first used: \<open>key_codec\<close> (an encoding that can be
    taken apart again, in Go_Prelude, interpreted on \<open>stateKey\<close> and on \<open>rawOuterKey\<close>) and \<open>ranked_query\<close>
    (what the fallback ladder needs of a query, in Fallback, interpreted on the queries of the daemon and
    of the evaluation).

  \<^bold>\<open>The core\<close> (src/core):
    Types (types/types.go); Graph, Graph_Decay and Graph_Merge (graph/graph.go, graph/seed.go); Backoff
    (graph/backoff.go); Tokenize, Unwrap, Classify and Normalize (the files of normalize/); Redact
    (redact/redact.go); Predict (predict/predict.go, predict/score.go); Eval (eval/eval.go).

  \<^bold>\<open>The daemon\<close> (src/daemon, src/ipc):
    Ipc and Runnable (ipc/ipc.go, ipc/runnable.go); Config (config.go, the directories of
    osutil_unix.go); Raw_Store (rawstore.go); Store and Schema (store.go: the operations, and the
    schema with its migrations); Fallback (the ladder of handlers.go); Daemon (the state of daemon.go,
    flush, decay, seed import); Handlers (handlers.go, ipc.go: one definition per request, and the
    dispatch); Daemon_Run (the states any sequence of requests, flushes and sweeps can reach); Flush
    (the same flush, cut into the steps between which a record can run); Interleaving (the handlers as
    programs of atomic actions that run interleaved); Lifecycle (start, stop, a whole run, the lock, the accept loop);
    Concurrency (all goroutines with the lock \<open>flushMu\<close>), Lock_Safety (what holds in all their
    interleavings) and Durability (what a flush guarantees in them); Wire (the connection around the
    handlers); Windows_Host (osutil_windows.go, and daemon_windows.go and daemon_stop_windows.go of cli).

  \<^bold>\<open>The command line tool\<close> (src/cli):
    History and History_Import (import_history.go, the reading part of why.go); Client (client.go);
    Export (from one daemon to another); Rc_File (the lines kept in .zshrc, of init.go, uninstall.go
    and doctor.go); Doctor (doctor.go, style.go, \<open>findIntegration\<close> of init.go); Daemon_Control (daemon.go and
    its Unix files: run, start, stop, status, from another process); Setup (init.go, uninstall.go);
    Update (update.go); Report (eval.go, why.go, the self-test of init.go); Entry (main.go, root.go and the
    dispatch of the subcommands); Commands (the client commands from their arguments on); Hook (from a
    command the zsh hook records to the suggestion).

  \<^bold>\<open>State and steps.\<close> The daemon is the record \<open>daemon\<close>: options, a heap of graph objects with the
  pointers of the recorder and of the predictor, the raw store, the database tables, the dirty counter
  and the one-place channel of the flush loop. An operation takes it and returns it; what it takes from
  outside (clock, parsers of the standard library, file system, whether a transaction commits) is the
  record \<open>world\<close>, for starting the record \<open>boot\<close>. Errors are values: the sum \<open>string + 'a\<close>, an option, or a
  datatype of the error. A handler is one step, as the source takes the locks of the graph and of the
  store for each operation; theory Flush takes the record and the flush apart and shows that the
  coarse steps are sequences of the fine ones. Theory Interleaving does so for records among themselves
  and for a record or an import that overlaps a reset: a thread is a list of actions with two registers, the
  graph pointer it has loaded and whether the deletes of a reset have succeeded so far (\<open>store.clear\<close> is three
  statements outside a transaction, each an action of its own); a run interleaves threads in any way. Theory Concurrency puts all of it together:
  requests, flushes and sweeps are programs of operations that hold one lock each, tasks of a system with
  the daemon and the lock \<open>flushMu\<close>, and the step relation \<open>crun\<close> starts tasks and lets any of them do its next
  operation. Its parameters bound what it quantifies over: the environment of a step (\<open>worldOk\<close>, where deletes
  succeed, or \<open>seedsAreMaps\<close>, where they may fail and only the JSON decoder is relied on; saves may fail in both),
  the requests, and the daemons a step is taken in (\<open>calmHeap\<close>, where no counter is about to overflow). Run alone, a program is the coarse step (\<open>programs_sequential\<close>), and every state of the
  coarse model is one of the interleaved model (\<open>coarse_refined\<close>). Where a task stands in its critical
  section (\<open>stage\<close>) follows from what it has still to do, and says what it owes before it may give the
  lock back (\<open>stageOk\<close>).

  \<^bold>\<open>What is shown.\<close> For each function of the core its meaning against an independent specification (the
  grammar of tokens, the template of a command, the pointwise maximum of a merge, the survivors of a
  sweep, the distribution and the order of the scores, the rung of the ladder an answer comes from).
  For the daemon an invariant over all reachable states, that no sensitive command is kept, that a
  restart loses nothing but fractions of seconds and what has decayed, that flushing terminates with
  everything saved, that errors change nothing, that concurrent records count as if handled one after
  another, and what a prediction shows, from the rung of the ladder to the concrete commands. For the daemon with all its goroutines, in every interleaving: memory and tables
  stay well formed and the database never holds more than memory while the lock is free, nobody waits
  for the lock forever, a process that is killed at any moment (between the deletes of a reset too, and
  whatever saves and deletes have failed) leaves a database the next one loads, what a
  flush has found in the graph is in the database when it is done, and no sensitive command is kept. For the
  tool that an import makes every command of the history known under its contexts, that an export can be imported, that installing and uninstalling
  are inverse on the user's lines, that after \<open>init --auto\<close> the checks \<open>doctor\<close> makes of the shell integration
  pass, that \<open>uninstall\<close> removes what it names and nothing else, that an update never leaves an unverified program,
  that \<open>status\<close> and \<open>stop\<close> are right about the daemon, that the figures of \<open>eval\<close> make sense; and for the
  whole chain that what the shell records is what it is later offered. Where the code falls short of such
  a statement a lemma shows how (\<open>comma_recorded_elsewhere\<close>, \<open>uninstall_leftovers\<close>, \<open>lost_retry\<close>, \<open>import_undoes_reset\<close>,
  \<open>sweep_drops_new_raw\<close>, \<open>killed_reset_leaves_directories\<close>, \<open>last_record_wins\<close>, \<open>failed_start_leaves_pid\<close>,
  \<open>ctrl_c_not_delivered\<close> and others).

  \<^bold>\<open>Idealisations.\<close> Strings are lists of bytes. Go's \<open>int\<close> and \<open>time.Duration\<close> are integers with the
  wrap-around of 64 bits written out where a sum or product can leave the range (\<open>bump\<close>, \<open>HalfLife\<close>,
  \<open>MaxIdle\<close>); \<open>atomic.Int32\<close> wraps at 32 bits. \<open>float64\<close> is \<open>real\<close>: scores are exact, NaN and infinities
  do not occur. A time is the number of nanoseconds since year 1; the database and RFC 3339 keep whole
  seconds. A Go map is a list of its entries; where the source visits a map in random order the
  properties hold for every order of the list, and where \<open>sort.Slice\<close> leaves ties open they keep the
  order of the list. Encoding a value as JSON and decoding it gives back the value.

  \<^bold>\<open>Recursion.\<close> Loops are structural recursions over the tokens, entries or lines they visit, or folds.
  The others have a measure: the text left (\<open>TrimLeft\<close>, \<open>TrimRight\<close>, \<open>fieldsFrom\<close>, \<open>ancestorsFrom\<close>), the
  tokens left (\<open>findFrom\<close>, \<open>flockFrom\<close>, \<open>stripWrappers\<close>), the candidates or migrations left (\<open>extraFrom\<close>,
  \<open>migrateFrom\<close>), the number printed (\<open>Itoa\<close>). No definition uses fuel. Loops that run until the process ends
  (accepting, flushing, serving) are functions of the finite sequence of events they have seen, or step
  relations.

  \<^bold>\<open>Not modelled.\<close> The library code the source calls (SQLite, JSON, TOML, HTTP, SHA-256, sockets, os): its
  results are arguments; the Windows API is there as the list of the calls that are made, with their
  answers. The zsh script is not Go; only the arguments its hook passes appear. Log and progress messages,
  the deadlines of connections and the widths of the columns \<open>why\<close> prints have no effect on state. The interleaved
  model has the operations that change state; the reads of \<open>predict\<close>, \<open>explain\<close> and the other queries are
  single steps in Handlers.
\<close>

end
